(* ===== verification/Prelude.thy ===== *)
theory Prelude
  imports Main "HOL-Library.Word"
begin

text \<open>
  Shared vocabulary of the development: the types that stand for Python's \<open>bytes\<close> and
  \<open>str\<close>, decimal and hexadecimal formatting, the generic list lemmas the components use, and
  the two codec contracts (\<open>codec\<close>, \<open>canonical_codec\<close>) that every encoder/decoder pair of
  the program is an interpretation of: struct fields, UTF-8, JSON, the entry list and the
  vault container.
\<close>

section \<open>Bytes and strings\<close>

text \<open>A Python \<open>bytes\<close> object is a list of octets; a \<open>str\<close> is a list of code points.\<close>

type_synonym byte = "8 word"
type_synonym bytes = "8 word list"
type_synonym pystr = "nat list"

text \<open>A literal of the source, as code points (all literals of the source are ASCII).\<close>

definition lit :: "string \<Rightarrow> pystr" where
  "lit s = map of_char s"

text \<open>A bytes literal \<open>b"..."\<close> of the source.\<close>

definition blit :: "string \<Rightarrow> bytes" where
  "blit s = map (\<lambda>c. of_nat (of_char c)) s"

lemma length_lit [simp]: "length (lit s) = length s"
  by (simp add: lit_def)

lemma length_blit [simp]: "length (blit s) = length s"
  by (simp add: blit_def)

named_theorems result_simps \<open>unfolding of the result and program combinators\<close>
named_theorems layout \<open>lengths and slices of fixed-layout byte strings\<close>

section \<open>Lists\<close>

lemma take_append_exact [layout]: "length xs = n \<Longrightarrow> take n (xs @ ys) = xs"
  by simp

lemma drop_append_exact [layout]: "length xs = n \<Longrightarrow> drop n (xs @ ys) = ys"
  by simp

lemma list_eq_take_drop: "n \<le> length xs \<Longrightarrow> take n xs = ys \<Longrightarrow> drop n xs = zs \<Longrightarrow> xs = ys @ zs"
  by (metis append_take_drop_id)

text \<open>Python's slice \<open>data[i:j]\<close> for \<open>0 \<le> i \<le> j\<close>.\<close>

definition pyslice :: "nat \<Rightarrow> nat \<Rightarrow> 'a list \<Rightarrow> 'a list" where
  "pyslice i j xs = take (j - i) (drop i xs)"

lemma length_slice [simp]: "i \<le> j \<Longrightarrow> j \<le> length xs \<Longrightarrow> length (pyslice i j xs) = j - i"
  by (simp add: pyslice_def)

lemma slice_append: "i \<le> j \<Longrightarrow> j \<le> k \<Longrightarrow> pyslice i j xs @ pyslice j k xs = pyslice i k xs"
proof -
  assume ij: "i \<le> j" and jk: "j \<le> k"
  then have k: "k - i = (j - i) + (k - j)" by simp
  from ij have "drop (j - i) (drop i xs) = drop j xs" by simp
  then show ?thesis
    unfolding pyslice_def k take_add by simp
qed

lemma slice_zero: "pyslice 0 j xs = take j xs"
  by (simp add: pyslice_def)

lemma take_slice_drop: "i \<le> j \<Longrightarrow> take i xs @ pyslice i j xs = take j xs"
  using slice_append [of 0 i j xs] by (simp add: slice_zero)

section \<open>Decimal and hexadecimal formatting\<close>

text \<open>\<open>str(n)\<close> of a natural number and of an integer.\<close>

fun show_nat :: "nat \<Rightarrow> pystr" where
  "show_nat n = (if n < 10 then [48 + n] else show_nat (n div 10) @ [48 + n mod 10])"

declare show_nat.simps [simp del]

definition show_int :: "int \<Rightarrow> pystr" where
  "show_int i = (if i < 0 then 45 # show_nat (nat (- i)) else show_nat (nat i))"

text \<open>One lower-case hexadecimal digit, and \<open>format(n, '0kx')\<close> for a number that fits.\<close>

definition hex_digit :: "nat \<Rightarrow> nat" where
  "hex_digit d = (if d < 10 then 48 + d else 87 + d)"

fun hex_fixed :: "nat \<Rightarrow> nat \<Rightarrow> pystr" where
  "hex_fixed 0 n = []"
| "hex_fixed (Suc k) n = hex_fixed k (n div 16) @ [hex_digit (n mod 16)]"

lemma length_hex_fixed [simp]: "length (hex_fixed k n) = k"
  by (induction k arbitrary: n) auto

section \<open>Codec contracts\<close>

text \<open>
  \<open>codec\<close>: decoding an encoded valid value gives it back. \<open>canonical_codec\<close>: moreover the
  decoder accepts nothing but encodings, so every accepted input is \<^emph>\<open>the\<close> encoding of the
  value read from it.
\<close>

locale codec =
  fixes enc :: "'a \<Rightarrow> 'b"
    and dec :: "'b \<Rightarrow> 'a option"
    and valid :: "'a \<Rightarrow> bool"
  assumes dec_enc: "valid x \<Longrightarrow> dec (enc x) = Some x"
begin

lemma enc_inj: "valid x \<Longrightarrow> valid y \<Longrightarrow> enc x = enc y \<Longrightarrow> x = y"
  by (metis dec_enc option.inject)

lemma enc_inj_on: "inj_on enc {x. valid x}"
  by (auto intro: inj_onI enc_inj)

end

locale canonical_codec = codec +
  assumes dec_sound: "dec b = Some x \<Longrightarrow> valid x \<and> enc x = b"
begin

lemma dec_Some_iff: "dec b = Some x \<longleftrightarrow> valid x \<and> b = enc x"
  using dec_enc dec_sound by blast

lemma dec_inj: "dec b = Some x \<Longrightarrow> dec b' = Some x \<Longrightarrow> b = b'"
  by (simp add: dec_Some_iff)

end

text \<open>Two codecs in sequence: what the first one writes, the second one can encode.\<close>

locale codec_chain = inner: codec enc1 dec1 valid1 + outer: codec enc2 dec2 valid2
  for enc1 :: "'a \<Rightarrow> 'b" and dec1 valid1 and enc2 :: "'b \<Rightarrow> 'c" and dec2 valid2 +
  assumes enc1_valid2: "valid1 x \<Longrightarrow> valid2 (enc1 x)"
begin

lemma chain: "valid1 x \<Longrightarrow> Option.bind (dec2 (enc2 (enc1 x))) dec1 = Some x"
  by (simp add: inner.dec_enc outer.dec_enc enc1_valid2)

end

sublocale codec_chain \<subseteq> chained: codec "enc2 \<circ> enc1" "\<lambda>b. Option.bind (dec2 b) dec1" valid1
  by unfold_locales (simp add: chain)

end
