(* ===== verification/Errors.thy ===== *)
theory Errors
  imports Prelude
begin

text \<open>
  \<open>src/securevault/errors.py\<close> and the effects of Python: the exceptions the program raises or
  handles as one datatype (the class hierarchy as predicates), results \<open>exn + 'a\<close>, and
  programs: functions from a state to an outcome and a new state. \<open>None\<close> is a program that
  does not return (a loop that never ends).
\<close>

section \<open>Exceptions\<close>

datatype exn =
    VaultFormatError pystr
  | VaultAuthenticationError pystr
  | VaultLockedError pystr
  | EntryNotFoundError pystr
  | ClipboardUnavailableError pystr
  | PyperclipException pystr
  | ValueError pystr
  | UnicodeEncodeError
  | UnicodeDecodeError
  | JSONDecodeError
  | StructError
  | OverflowError
  | InvalidTag
  | HashingError
  | TypeError
  | KeyError pystr
  | IndexError
  | EOFError
  | ClickAbort
  | FileExistsError pystr
  | FileNotFoundError pystr
  | OSError nat
  | KeyboardInterrupt
  | SystemExit nat

text \<open>\<open>VaultAuthenticationError()\<close>: no message given, so the class message is used.\<close>

definition auth_message :: pystr where
  "auth_message =
     lit ''vault authentication failed: wrong password, or the vault is corrupt or tampered''"

definition auth_error :: "pystr option \<Rightarrow> exn" where
  "auth_error message =
     VaultAuthenticationError
       (case message of None \<Rightarrow> auth_message
        | Some m \<Rightarrow> if m = [] then auth_message else m)"

text \<open>\<open>isinstance(e, VaultError)\<close>, \<open>isinstance(e, OSError)\<close>, \<open>isinstance(e, ValueError)\<close>.\<close>

fun is_vault_error :: "exn \<Rightarrow> bool" where
  "is_vault_error (VaultFormatError m) = True"
| "is_vault_error (VaultAuthenticationError m) = True"
| "is_vault_error (VaultLockedError m) = True"
| "is_vault_error (EntryNotFoundError i) = True"
| "is_vault_error (ClipboardUnavailableError m) = True"
| "is_vault_error e = False"

fun is_os_error :: "exn \<Rightarrow> bool" where
  "is_os_error (FileExistsError m) = True"
| "is_os_error (FileNotFoundError m) = True"
| "is_os_error (OSError n) = True"
| "is_os_error e = False"

fun is_value_error :: "exn \<Rightarrow> bool" where
  "is_value_error (ValueError m) = True"
| "is_value_error UnicodeEncodeError = True"
| "is_value_error UnicodeDecodeError = True"
| "is_value_error JSONDecodeError = True"
| "is_value_error e = False"

section \<open>Results\<close>

type_synonym 'a result = "exn + 'a"

definition rbind :: "'a result \<Rightarrow> ('a \<Rightarrow> 'b result) \<Rightarrow> 'b result" where
  "rbind r f = (case r of Inl e \<Rightarrow> Inl e | Inr x \<Rightarrow> f x)"

definition guard :: "bool \<Rightarrow> exn \<Rightarrow> unit result" where
  "guard b e = (if b then Inr () else Inl e)"

definition ok_of :: "'a result \<Rightarrow> 'a option" where
  "ok_of r = (case r of Inl e \<Rightarrow> None | Inr x \<Rightarrow> Some x)"

lemma rbind_simps [simp]:
  "rbind (Inl e) f = Inl e" "rbind (Inr x) f = f x"
  by (simp_all add: rbind_def)

lemma guard_simps [simp]:
  "guard True e = Inr ()" "guard False e = Inl e"
  by (simp_all add: guard_def)

lemma rbind_Inr_iff [result_simps]:
  "rbind r f = Inr y \<longleftrightarrow> (\<exists>x. r = Inr x \<and> f x = Inr y)"
  by (cases r) simp_all

lemma rbind_Inl_iff [result_simps]:
  "rbind r f = Inl e \<longleftrightarrow> r = Inl e \<or> (\<exists>x. r = Inr x \<and> f x = Inl e)"
  by (cases r) simp_all

lemma guard_Inr_iff [result_simps]: "guard b e = Inr u \<longleftrightarrow> b"
  by (simp add: guard_def)

lemma guard_Inl_iff [result_simps]: "guard b e = Inl e' \<longleftrightarrow> \<not> b \<and> e' = e"
  by (auto simp: guard_def)

lemma ok_of_simps [simp]: "ok_of (Inl e) = None" "ok_of (Inr x) = Some x"
  by (simp_all add: ok_of_def)

lemma ok_of_Some_iff [simp]: "ok_of r = Some x \<longleftrightarrow> r = Inr x"
  by (cases r) simp_all

section \<open>Programs\<close>

type_synonym ('w, 'a) prog = "'w \<Rightarrow> ('a result \<times> 'w) option"

definition ret :: "'a \<Rightarrow> ('w, 'a) prog" where
  "ret x w = Some (Inr x, w)"

definition throw :: "exn \<Rightarrow> ('w, 'a) prog" where
  "throw e w = Some (Inl e, w)"

definition lift :: "'a result \<Rightarrow> ('w, 'a) prog" where
  "lift r w = Some (r, w)"

definition pbind :: "('w, 'a) prog \<Rightarrow> ('a \<Rightarrow> ('w, 'b) prog) \<Rightarrow> ('w, 'b) prog" where
  "pbind m f w =
     (case m w of
        None \<Rightarrow> None
      | Some (Inl e, w') \<Rightarrow> Some (Inl e, w')
      | Some (Inr x, w') \<Rightarrow> f x w')"

text \<open>
  \<open>try: m except e: h e\<close>, where the handler re-raises what it does not catch, and
  \<open>try: m finally: f\<close>, where an exception of \<open>f\<close> replaces the outcome of \<open>m\<close>.
\<close>

definition handle :: "('w, 'a) prog \<Rightarrow> (exn \<Rightarrow> ('w, 'a) prog) \<Rightarrow> ('w, 'a) prog" where
  "handle m h w =
     (case m w of
        None \<Rightarrow> None
      | Some (Inl e, w') \<Rightarrow> h e w'
      | Some (Inr x, w') \<Rightarrow> Some (Inr x, w'))"

definition with_finally :: "('w, 'a) prog \<Rightarrow> ('w, unit) prog \<Rightarrow> ('w, 'a) prog" where
  "with_finally m f w =
     (case m w of
        None \<Rightarrow> None
      | Some (r, w') \<Rightarrow>
          (case f w' of
             None \<Rightarrow> None
           | Some (Inl e, w'') \<Rightarrow> Some (Inl e, w'')
           | Some (Inr u, w'') \<Rightarrow> Some (r, w'')))"

lemma prog_simps [simp]:
  "ret x w = Some (Inr x, w)" "throw e w = Some (Inl e, w)" "lift r w = Some (r, w)"
  by (simp_all add: ret_def throw_def lift_def)

lemma pbind_None: "m w = None \<Longrightarrow> pbind m f w = None"
  by (simp add: pbind_def)

lemma pbind_Inl: "m w = Some (Inl e, w') \<Longrightarrow> pbind m f w = Some (Inl e, w')"
  by (simp add: pbind_def)

lemma pbind_Inr: "m w = Some (Inr x, w') \<Longrightarrow> pbind m f w = f x w'"
  by (simp add: pbind_def)

lemma pbind_simps [simp]:
  "pbind (ret x) f w = f x w"
  "pbind (throw e) f w = Some (Inl e, w)"
  "pbind (lift (Inr x)) f w = f x w"
  "pbind (lift (Inl e)) f w = Some (Inl e, w)"
  by (simp_all add: pbind_def)

lemma pbind_assoc: "pbind (pbind m f) g w = pbind m (\<lambda>x. pbind (f x) g) w"
  by (auto simp: pbind_def split: option.splits sum.splits)

lemma pbind_Inr_iff [result_simps]:
  "pbind m f w = Some (Inr y, w') \<longleftrightarrow>
     (\<exists>x w1. m w = Some (Inr x, w1) \<and> f x w1 = Some (Inr y, w'))"
  by (auto simp: pbind_def split: option.splits sum.splits)

lemma pbind_Inl_iff [result_simps]:
  "pbind m f w = Some (Inl e, w') \<longleftrightarrow>
     m w = Some (Inl e, w') \<or>
     (\<exists>x w1. m w = Some (Inr x, w1) \<and> f x w1 = Some (Inl e, w'))"
  by (auto simp: pbind_def split: option.splits sum.splits)

lemma handle_simps:
  "m w = Some (Inr x, w') \<Longrightarrow> handle m h w = Some (Inr x, w')"
  "m w = Some (Inl e, w') \<Longrightarrow> handle m h w = h e w'"
  by (simp_all add: handle_def)

end
