(* ===== verification/ByteStruct.thy ===== *)
theory ByteStruct
  imports Errors
begin

text \<open>
  What the program uses of the standard \<open>struct\<close> module: little-endian unsigned integer
  fields (\<open>H\<close>, \<open>B\<close>, \<open>I\<close>, \<open>Q\<close> in a \<open><\<close> format) and fixed-size byte fields (\<open>4s\<close>,
  \<open>16s\<close>). Packing a value outside the field's range is \<open>struct.error\<close>.
\<close>

section \<open>Little-endian integers\<close>

fun le_bytes :: "nat \<Rightarrow> nat \<Rightarrow> bytes" where
  "le_bytes 0 n = []"
| "le_bytes (Suc k) n = of_nat (n mod 256) # le_bytes k (n div 256)"

fun le_val :: "bytes \<Rightarrow> nat" where
  "le_val [] = 0"
| "le_val (b # bs) = unat b + 256 * le_val bs"

lemma length_le_bytes [simp, layout]: "length (le_bytes k n) = k"
  by (induction k arbitrary: n) auto

lemma unat_byte_lt [simp]: "unat (b :: byte) < 256"
  by (rule order_less_le_trans [OF unsigned_less]) simp

lemma unat_of_nat_byte: "unat (of_nat n :: byte) = n mod 256"
  by (simp add: unat_of_nat)

lemma le_val_le_bytes: "le_val (le_bytes k n) = n mod 256 ^ k"
proof (induction k arbitrary: n)
  case 0
  then show ?case by simp
next
  case (Suc k)
  have "n mod 256 ^ Suc k = n mod 256 + 256 * (n div 256 mod 256 ^ k)"
    using mod_mult2_eq [of n 256 "256 ^ k"] by simp
  then show ?case
    by (simp add: Suc.IH unat_of_nat_byte)
qed

lemma le_val_bound: "le_val bs < 256 ^ length bs"
proof (induction bs)
  case Nil
  then show ?case by simp
next
  case (Cons b bs)
  have "unat b < 256" by simp
  moreover from Cons.IH have "Suc (le_val bs) \<le> 256 ^ length bs" by simp
  then have "256 * Suc (le_val bs) \<le> 256 * 256 ^ length bs" by (rule mult_le_mono2)
  then have "256 + 256 * le_val bs \<le> 256 * 256 ^ length bs" by simp
  ultimately have "unat b + 256 * le_val bs < 256 * 256 ^ length bs" by linarith
  then show ?case by simp
qed

lemma le_bytes_le_val: "le_bytes (length bs) (le_val bs) = bs"
proof (induction bs)
  case Nil
  then show ?case by simp
next
  case (Cons b bs)
  have "(unat b + 256 * le_val bs) div 256 = le_val bs" by simp
  moreover have "(unat b + 256 * le_val bs) mod 256 = unat b" by simp
  ultimately show ?case by (simp add: Cons.IH)
qed

section \<open>Packing and unpacking\<close>

definition pack_uint :: "nat \<Rightarrow> int \<Rightarrow> bytes result" where
  "pack_uint k n =
     (if 0 \<le> n \<and> n < 256 ^ k then Inr (le_bytes k (nat n)) else Inl StructError)"

definition unpack_uint :: "bytes \<Rightarrow> int" where
  "unpack_uint bs = int (le_val bs)"

text \<open>A \<open><k>s\<close> field: cut or zero-padded to \<open>k\<close> bytes.\<close>

definition pack_str :: "nat \<Rightarrow> bytes \<Rightarrow> bytes" where
  "pack_str k b = take k b @ replicate (k - length b) 0"

lemma length_pack_str [simp, layout]: "length (pack_str k b) = k"
  by (simp add: pack_str_def)

lemma pack_str_exact [simp]: "length b = k \<Longrightarrow> pack_str k b = b"
  by (simp add: pack_str_def)

lemma pack_uint_Inr_iff:
  "pack_uint k n = Inr b \<longleftrightarrow> 0 \<le> n \<and> n < 256 ^ k \<and> b = le_bytes k (nat n)"
  by (auto simp: pack_uint_def)

lemma pack_uint_ok: "0 \<le> n \<Longrightarrow> n < 256 ^ k \<Longrightarrow> pack_uint k n = Inr (le_bytes k (nat n))"
  by (simp add: pack_uint_def)

lemma pack_uint_Inl_iff: "pack_uint k n = Inl e \<longleftrightarrow> \<not> (0 \<le> n \<and> n < 256 ^ k) \<and> e = StructError"
  by (auto simp: pack_uint_def)

lemma unpack_le_bytes:
  assumes "0 \<le> n" and "n < 256 ^ k"
  shows "unpack_uint (le_bytes k (nat n)) = n"
proof -
  from assms have "nat n < 256 ^ k" by (simp add: nat_less_iff)
  with assms(1) show ?thesis by (simp add: unpack_uint_def le_val_le_bytes)
qed

lemma unpack_uint_bounds: "0 \<le> unpack_uint bs \<and> unpack_uint bs < 256 ^ length bs"
proof -
  have "int (le_val bs) < int (256 ^ length bs)"
    using le_val_bound by (simp only: of_nat_less_iff)
  then show ?thesis by (simp add: unpack_uint_def)
qed

lemma le_bytes_unpack: "length bs = k \<Longrightarrow> le_bytes k (nat (unpack_uint bs)) = bs"
  using le_bytes_le_val [of bs] by (simp add: unpack_uint_def)

text \<open>The integer fields of a vault file, as one codec for every width.\<close>

definition uint_field_enc :: "nat \<times> int \<Rightarrow> nat \<times> bytes" where
  "uint_field_enc = (\<lambda>(k, n). (k, le_bytes k (nat n)))"

definition uint_field_dec :: "nat \<times> bytes \<Rightarrow> (nat \<times> int) option" where
  "uint_field_dec = (\<lambda>(k, bs). if length bs = k then Some (k, unpack_uint bs) else None)"

interpretation uint_field: canonical_codec uint_field_enc uint_field_dec
  "\<lambda>(k, n). 0 \<le> n \<and> n < 256 ^ k"
proof
  fix x :: "nat \<times> int"
  assume "case x of (k, n) \<Rightarrow> 0 \<le> n \<and> n < 256 ^ k"
  then show "uint_field_dec (uint_field_enc x) = Some x"
    by (cases x) (simp add: uint_field_enc_def uint_field_dec_def unpack_le_bytes)
next
  fix b :: "nat \<times> bytes" and x :: "nat \<times> int"
  assume "uint_field_dec b = Some x"
  then show "(case x of (k, n) \<Rightarrow> 0 \<le> n \<and> n < 256 ^ k) \<and> uint_field_enc x = b"
    using unpack_uint_bounds [of "snd b"]
    by (cases b) (auto simp: uint_field_enc_def uint_field_dec_def le_bytes_unpack split: if_splits)
qed

end
