(* ===== verification/Kdf.thy ===== *)
theory Kdf
  imports ByteStruct
begin

text \<open>
  \<open>src/securevault/kdf.py\<close>: the Argon2id cost parameters, their range check and
  \<open>derive_key\<close>. Argon2id itself (\<open>argon2.low_level.hash_secret_raw\<close>) is a parameter: a
  function of the password, the salt, the three costs and the output length that either
  returns bytes or raises. What the program relies on is \<open>kdf_ok\<close>: within the range the
  code enforces, it returns a key of the length asked for.
\<close>

definition KEY_LENGTH :: nat where "KEY_LENGTH = 32"
definition SALT_LENGTH :: nat where "SALT_LENGTH = 16"
definition MIN_MEMORY_KIB :: int where "MIN_MEMORY_KIB = 19456"
definition MAX_MEMORY_KIB :: int where "MAX_MEMORY_KIB = 1048576"
definition MIN_TIME_COST :: int where "MIN_TIME_COST = 1"
definition MAX_TIME_COST :: int where "MAX_TIME_COST = 16"
definition MIN_PARALLELISM :: int where "MIN_PARALLELISM = 1"
definition MAX_PARALLELISM :: int where "MAX_PARALLELISM = 8"

lemmas kdf_bounds =
  MIN_MEMORY_KIB_def MAX_MEMORY_KIB_def MIN_TIME_COST_def MAX_TIME_COST_def
  MIN_PARALLELISM_def MAX_PARALLELISM_def

record argon2_parameters =
  memory_kib :: int
  time_cost :: int
  parallelism :: int

definition default_parameters :: argon2_parameters where
  "default_parameters = \<lparr>memory_kib = 65536, time_cost = 3, parallelism = 4\<rparr>"

definition range_message :: "string \<Rightarrow> int \<Rightarrow> int \<Rightarrow> int \<Rightarrow> pystr" where
  "range_message name v lo hi =
     lit ''argon2 '' @ lit name @ lit '' '' @ show_int v @ lit '' outside ['' @ show_int lo
     @ lit '', '' @ show_int hi @ lit '']''"

definition validate_params :: "argon2_parameters \<Rightarrow> unit result" where
  "validate_params p =
     (if \<not> (MIN_MEMORY_KIB \<le> memory_kib p \<and> memory_kib p \<le> MAX_MEMORY_KIB)
      then Inl (VaultFormatError
             (range_message ''memory_kib'' (memory_kib p) MIN_MEMORY_KIB MAX_MEMORY_KIB))
      else if \<not> (MIN_TIME_COST \<le> time_cost p \<and> time_cost p \<le> MAX_TIME_COST)
      then Inl (VaultFormatError
             (range_message ''time_cost'' (time_cost p) MIN_TIME_COST MAX_TIME_COST))
      else if \<not> (MIN_PARALLELISM \<le> parallelism p \<and> parallelism p \<le> MAX_PARALLELISM)
      then Inl (VaultFormatError
             (range_message ''parallelism'' (parallelism p) MIN_PARALLELISM MAX_PARALLELISM))
      else Inr ())"

definition params_ok :: "argon2_parameters \<Rightarrow> bool" where
  "params_ok p \<longleftrightarrow>
     19456 \<le> memory_kib p \<and> memory_kib p \<le> 1048576 \<and>
     1 \<le> time_cost p \<and> time_cost p \<le> 16 \<and> 1 \<le> parallelism p \<and> parallelism p \<le> 8"

lemma validate_params_Inr_iff [result_simps]: "validate_params p = Inr u \<longleftrightarrow> params_ok p"
  by (auto simp: validate_params_def params_ok_def kdf_bounds)

lemma validate_params_ok [simp]: "params_ok p \<Longrightarrow> validate_params p = Inr ()"
  by (simp add: validate_params_Inr_iff)

lemma validate_params_Inl:
  "validate_params p = Inl e \<Longrightarrow> \<not> params_ok p \<and> (\<exists>m. e = VaultFormatError m)"
  by (auto simp: validate_params_def params_ok_def kdf_bounds split: if_splits)

lemma default_parameters_ok [simp]: "params_ok default_parameters"
  by (simp add: params_ok_def default_parameters_def)

section \<open>Argon2id as a parameter\<close>

text \<open>\<open>hash_secret_raw secret salt time_cost memory_cost parallelism hash_len\<close>, type Argon2id.\<close>

type_synonym argon2_fun = "bytes \<Rightarrow> bytes \<Rightarrow> int \<Rightarrow> int \<Rightarrow> int \<Rightarrow> nat \<Rightarrow> bytes result"

definition derive_key ::
  "argon2_fun \<Rightarrow> bytes \<Rightarrow> bytes \<Rightarrow> argon2_parameters \<Rightarrow> nat \<Rightarrow> bytes result" where
  "derive_key hash_secret_raw password salt params len =
     rbind (validate_params params) (\<lambda>_.
     if length salt \<noteq> SALT_LENGTH
     then Inl (VaultFormatError
            (lit ''salt must be '' @ show_nat SALT_LENGTH @ lit '' bytes, got ''
             @ show_nat (length salt)))
     else hash_secret_raw password salt (time_cost params) (memory_kib params)
            (parallelism params) len)"

text \<open>
  The documented behaviour of Argon2id for costs in the range and a key of 32 octets (it takes passwords
  below 4 GiB, far more than a terminal line).
\<close>

definition kdf_ok :: "argon2_fun \<Rightarrow> bool" where
  "kdf_ok h \<longleftrightarrow>
     (\<forall>pw salt p. params_ok p \<and> length salt = 16 \<longrightarrow>
        (\<exists>k. h pw salt (time_cost p) (memory_kib p) (parallelism p) KEY_LENGTH = Inr k \<and> length k = KEY_LENGTH))"

lemma kdf_okD:
  "kdf_ok h \<Longrightarrow> params_ok p \<Longrightarrow> length salt = 16 \<Longrightarrow>
     \<exists>k. h pw salt (time_cost p) (memory_kib p) (parallelism p) KEY_LENGTH = Inr k \<and> length k = KEY_LENGTH"
  by (simp add: kdf_ok_def)

lemma derive_key_ok:
  assumes "kdf_ok h" and "params_ok p" and "length salt = 16"
  obtains k where "derive_key h pw salt p KEY_LENGTH = Inr k" and "length k = KEY_LENGTH"
  using kdf_okD [OF assms, of pw] assms by (auto simp: derive_key_def SALT_LENGTH_def)

lemma derive_key_Inr:
  assumes "derive_key h pw salt p n = Inr k"
  shows "params_ok p \<and> length salt = 16
    \<and> h pw salt (time_cost p) (memory_kib p) (parallelism p) n = Inr k"
  using assms by (auto simp: derive_key_def result_simps SALT_LENGTH_def split: if_splits)

lemma derive_key_length:
  "kdf_ok h \<Longrightarrow> derive_key h pw salt p KEY_LENGTH = Inr k \<Longrightarrow> length k = KEY_LENGTH"
  using derive_key_Inr [of h pw salt p KEY_LENGTH k] kdf_okD [of h p salt pw] by auto

text \<open>A hostile cost never reaches Argon2: the range error is raised for every Argon2.\<close>

lemma derive_key_rejects:
  "\<not> params_ok p \<Longrightarrow> derive_key h pw salt p n = derive_key h' pw' salt' p n'"
  by (cases "validate_params p") (auto simp: derive_key_def result_simps)

end
