(* ===== verification/Runtime.thy ===== *)
theory Runtime
  imports Errors
begin

text \<open>
  The part of the Python runtime the cryptographic core touches, and
  \<open>src/securevault/memory.py\<close>. The operating system's random source is a tape of octets read
  once from left to right (\<open>os.urandom\<close>); mutable \<open>bytearray\<close> objects live in a store from
  addresses to contents, because the program overwrites them in place and the point of doing
  so is what remains in the store. The record is extensible: later components add the file
  system, the terminal and the clipboard as further fields, and a program of this layer
  leaves them alone (\<open>machine.more\<close>).
\<close>

record machine =
  tape :: "nat \<Rightarrow> byte"
  tpos :: nat
  heap :: "nat \<Rightarrow> bytes"
  hnext :: nat

section \<open>Random octets\<close>

definition tape_read :: "(nat \<Rightarrow> byte) \<Rightarrow> nat \<Rightarrow> nat \<Rightarrow> bytes" where
  "tape_read t i n = map t [i..<i + n]"

definition urandom :: "nat \<Rightarrow> ('z machine_scheme, bytes) prog" where
  "urandom n w = Some (Inr (tape_read (tape w) (tpos w) n), w\<lparr>tpos := tpos w + n\<rparr>)"

lemma length_tape_read [simp]: "length (tape_read t i n) = n"
  by (simp add: tape_read_def)

lemma pbind_urandom [simp]:
  "pbind (urandom n) f w = f (tape_read (tape w) (tpos w) n) (w\<lparr>tpos := tpos w + n\<rparr>)"
  by (simp add: pbind_def urandom_def)

section \<open>Mutable buffers\<close>

definition new_bytearray :: "bytes \<Rightarrow> ('z machine_scheme, nat) prog" where
  "new_bytearray b w =
     Some (Inr (hnext w), w\<lparr>heap := (heap w)(hnext w := b), hnext := Suc (hnext w)\<rparr>)"

definition read_buffer :: "nat \<Rightarrow> ('z machine_scheme, bytes) prog" where
  "read_buffer a w = Some (Inr (heap w a), w)"

text \<open>
  \<open>wipe\<close> takes \<open>None\<close>, an immutable \<open>bytes\<close>/\<open>str\<close> object (ignored) or a \<open>bytearray\<close>,
  which \<open>ctypes.memset\<close> fills with zeros.
\<close>

datatype buffer = NoBuffer | Immutable bytes | ByteArray nat

definition memset_zero :: "nat \<Rightarrow> ('z machine_scheme) \<Rightarrow> ('z machine_scheme)" where
  "memset_zero a w = w\<lparr>heap := (heap w)(a := replicate (length (heap w a)) 0)\<rparr>"

fun wipe :: "buffer \<Rightarrow> ('z machine_scheme, unit) prog" where
  "wipe NoBuffer w = Some (Inr (), w)"
| "wipe (Immutable b) w = Some (Inr (), w)"
| "wipe (ByteArray a) w =
     (if length (heap w a) = 0 then Some (Inr (), w) else Some (Inr (), memset_zero a w))"

lemma memset_zero_empty: "heap w a = [] \<Longrightarrow> memset_zero a w = w"
  by (simp add: memset_zero_def fun_upd_idem)

lemma wipe_ByteArray: "wipe (ByteArray a) w = Some (Inr (), memset_zero a w)"
  by (simp add: memset_zero_empty)

declare wipe.simps(3) [simp del]

lemma pbind_new_bytearray [simp]:
  "pbind (new_bytearray b) f w =
     f (hnext w) (w\<lparr>heap := (heap w)(hnext w := b), hnext := Suc (hnext w)\<rparr>)"
  by (simp add: pbind_def new_bytearray_def)

lemma pbind_read_buffer [simp]: "pbind (read_buffer a) f w = f (heap w a) w"
  by (simp add: pbind_def read_buffer_def)

lemma pbind_wipe [simp]: "pbind (wipe (ByteArray a)) f w = f () (memset_zero a w)"
  by (simp add: pbind_def wipe_ByteArray)

lemma memset_zero_simps [simp]:
  "tape (memset_zero a w) = tape w" "tpos (memset_zero a w) = tpos w"
  "hnext (memset_zero a w) = hnext w" "machine.more (memset_zero a w) = machine.more w"
  "heap (memset_zero a w) = (heap w)(a := replicate (length (heap w a)) 0)"
  by (simp_all add: memset_zero_def)

definition zeroed :: "bytes \<Rightarrow> bool" where
  "zeroed b \<longleftrightarrow> (\<forall>x \<in> set b. x = 0)"

lemma zeroed_replicate [simp]: "zeroed (replicate n 0)"
  by (simp add: zeroed_def)

text \<open>
  What every program of this layer keeps: the tape itself, the fields of later layers, and a
  read position and an allocation frontier that only move forward.
\<close>

definition extends :: "'z machine_scheme \<Rightarrow> 'z machine_scheme \<Rightarrow> bool" where
  "extends w w' \<longleftrightarrow>
     tape w' = tape w \<and> machine.more w' = machine.more w \<and> tpos w \<le> tpos w' \<and> hnext w \<le> hnext w'"

lemma extends_refl [simp, intro]: "extends w w"
  by (simp add: extends_def)

lemma extends_trans [trans]: "extends w w' \<Longrightarrow> extends w' w'' \<Longrightarrow> extends w w''"
  by (auto simp: extends_def)

end
