(* ===== verification/Aead.thy ===== *)
theory Aead
  imports Runtime
begin

text \<open>
  \<open>src/securevault/aead.py\<close>: the wrapper around AES-256-GCM. The cipher itself
  (\<open>cryptography\<close>'s \<open>AESGCM\<close>) is a parameter \<open>cipher\<close>, a pair of functions; what the
  program relies on is \<open>aead_ok\<close>. The wrapper draws every nonce itself.
\<close>

definition AEAD_KEY_LENGTH :: nat where "AEAD_KEY_LENGTH = 32"
definition NONCE_LENGTH :: nat where "NONCE_LENGTH = 12"
definition TAG_LENGTH :: nat where "TAG_LENGTH = 16"

lemmas aead_lengths = AEAD_KEY_LENGTH_def NONCE_LENGTH_def TAG_LENGTH_def

text \<open>\<open>AESGCM(key).encrypt(nonce, data, aad)\<close> and \<open>AESGCM(key).decrypt(nonce, data, aad)\<close>.\<close>

record cipher =
  gcm_encrypt :: "bytes \<Rightarrow> bytes \<Rightarrow> bytes \<Rightarrow> bytes \<Rightarrow> bytes result"
  gcm_decrypt :: "bytes \<Rightarrow> bytes \<Rightarrow> bytes \<Rightarrow> bytes \<Rightarrow> bytes result"

record aead_ciphertext =
  nonce :: bytes
  blob :: bytes

definition key_message :: "nat \<Rightarrow> pystr" where
  "key_message n =
     lit ''key must be '' @ show_nat AEAD_KEY_LENGTH @ lit '' bytes, got '' @ show_nat n"

definition aead_encrypt ::
  "cipher \<Rightarrow> bytes \<Rightarrow> bytes \<Rightarrow> bytes \<Rightarrow> ('z machine_scheme, aead_ciphertext) prog" where
  "aead_encrypt c key plaintext associated_data =
     (if length key \<noteq> AEAD_KEY_LENGTH then throw (ValueError (key_message (length key)))
      else pbind (urandom NONCE_LENGTH) (\<lambda>n.
           pbind (lift (gcm_encrypt c key n plaintext associated_data)) (\<lambda>b.
           ret \<lparr>nonce = n, blob = b\<rparr>)))"

definition aead_decrypt ::
  "cipher \<Rightarrow> bytes \<Rightarrow> bytes \<Rightarrow> bytes \<Rightarrow> bytes \<Rightarrow> bytes result" where
  "aead_decrypt c key n b associated_data =
     (if length key \<noteq> AEAD_KEY_LENGTH then Inl (ValueError (key_message (length key)))
      else if length n \<noteq> NONCE_LENGTH \<or> length b < TAG_LENGTH then Inl (auth_error None)
      else (case gcm_decrypt c key n b associated_data of
              Inl InvalidTag \<Rightarrow> Inl (auth_error None)
            | r \<Rightarrow> r))"

section \<open>What the program relies on\<close>

text \<open>
  The documented behaviour of AES-256-GCM in \<open>cryptography\<close>, for a 32-byte key, a 12-byte
  nonce and inputs below \<open>2^31\<close> bytes (tag included): encryption returns the ciphertext and a 16-byte tag;
  decryption undoes encryption under the same key, nonce and associated data; and it accepts
  a blob only if it is the encryption of the plaintext it returns (the tag is a function of
  key, nonce, associated data and ciphertext, so there is one valid blob per plaintext),
  raising \<open>InvalidTag\<close> otherwise.
\<close>

definition MAX_GCM :: nat where "MAX_GCM = 2147483647"
definition MAX_PLAINTEXT :: nat where "MAX_PLAINTEXT = 2147483631"

definition gcm_domain :: "bytes \<Rightarrow> bytes \<Rightarrow> bytes \<Rightarrow> bytes \<Rightarrow> bool" where
  "gcm_domain k n x a \<longleftrightarrow>
     length k = 32 \<and> length n = 12 \<and> length x \<le> MAX_GCM \<and> length a \<le> MAX_GCM"

definition aead_ok :: "cipher \<Rightarrow> bool" where
  "aead_ok c \<longleftrightarrow>
     (\<forall>k n p a. gcm_domain k n p a \<and> length p \<le> MAX_PLAINTEXT \<longrightarrow>
        (\<exists>b. gcm_encrypt c k n p a = Inr b \<and> length b = length p + 16
           \<and> gcm_decrypt c k n b a = Inr p)) \<and>
     (\<forall>k n b a. gcm_domain k n b a \<longrightarrow>
        gcm_decrypt c k n b a = Inl InvalidTag \<or>
        (\<exists>p. gcm_decrypt c k n b a = Inr p \<and> gcm_encrypt c k n p a = Inr b
           \<and> length b = length p + 16))"

lemma aead_ok_encrypt:
  assumes "aead_ok c" and "gcm_domain k n p a" and "length p \<le> MAX_PLAINTEXT"
  obtains b where "gcm_encrypt c k n p a = Inr b" and "length b = length p + 16"
    and "gcm_decrypt c k n b a = Inr p"
proof -
  from assms(1) have "\<forall>k n p a. gcm_domain k n p a \<and> length p \<le> MAX_PLAINTEXT \<longrightarrow>
        (\<exists>b. gcm_encrypt c k n p a = Inr b \<and> length b = length p + 16
           \<and> gcm_decrypt c k n b a = Inr p)"
    unfolding aead_ok_def by (rule conjunct1)
  with assms(2,3) that show ?thesis by blast
qed

lemma aead_ok_decrypt:
  assumes "aead_ok c" and "gcm_domain k n b a"
  shows "gcm_decrypt c k n b a = Inl InvalidTag \<or>
    (\<exists>p. gcm_decrypt c k n b a = Inr p \<and> gcm_encrypt c k n p a = Inr b
       \<and> length b = length p + 16)"
  using assms by (simp add: aead_ok_def)

section \<open>The wrapper\<close>

text \<open>
  The blob a successful encryption returns, and encryption of a valid input as one rewrite rule:
  the blob, and the tape advanced by one nonce.
\<close>

definition seal :: "cipher \<Rightarrow> bytes \<Rightarrow> bytes \<Rightarrow> bytes \<Rightarrow> bytes \<Rightarrow> bytes" where
  "seal c key n p a = (case gcm_encrypt c key n p a of Inl e \<Rightarrow> [] | Inr b \<Rightarrow> b)"

definition sealable :: "cipher \<Rightarrow> bytes \<Rightarrow> bytes \<Rightarrow> bytes \<Rightarrow> bool" where
  "sealable c key p a \<longleftrightarrow>
     aead_ok c \<and> length key = 32 \<and> length p \<le> MAX_PLAINTEXT \<and> length a \<le> MAX_GCM"

lemma seal_ok:
  assumes "sealable c key p a" and "length n = 12"
  shows "gcm_encrypt c key n p a = Inr (seal c key n p a)"
    and "length (seal c key n p a) = length p + 16"
    and "gcm_decrypt c key n (seal c key n p a) a = Inr p"
proof -
  from assms have "gcm_domain key n p a"
    by (simp add: sealable_def gcm_domain_def MAX_PLAINTEXT_def MAX_GCM_def)
  with assms(1) obtain b where "gcm_encrypt c key n p a = Inr b"
    and "length b = length p + 16" and "gcm_decrypt c key n b a = Inr p"
    by (auto simp: sealable_def elim: aead_ok_encrypt)
  then show "gcm_encrypt c key n p a = Inr (seal c key n p a)"
    and "length (seal c key n p a) = length p + 16"
    and "gcm_decrypt c key n (seal c key n p a) a = Inr p"
    by (simp_all add: seal_def)
qed

lemma pbind_aead_encrypt:
  assumes "sealable c key p a"
  shows "pbind (aead_encrypt c key p a) f w =
    f \<lparr>nonce = tape_read (tape w) (tpos w) 12,
       blob = seal c key (tape_read (tape w) (tpos w) 12) p a\<rparr> (w\<lparr>tpos := tpos w + 12\<rparr>)"
proof -
  have "gcm_encrypt c key (tape_read (tape w) (tpos w) 12) p a
      = Inr (seal c key (tape_read (tape w) (tpos w) 12) p a)"
    using assms by (rule seal_ok) simp
  with assms show ?thesis
    by (simp add: aead_encrypt_def aead_lengths sealable_def pbind_assoc)
qed

text \<open>Decryption has three outcomes: the plaintext, the one generic error, or a bad key.\<close>

lemma aead_decrypt_cases:
  assumes "aead_ok c" and "length key = 32" and "length b \<le> MAX_GCM" and "length a \<le> MAX_GCM"
  shows "aead_decrypt c key n b a = Inl (auth_error None) \<or>
    (\<exists>p. aead_decrypt c key n b a = Inr p \<and> gcm_encrypt c key n p a = Inr b
       \<and> length b = length p + 16 \<and> length n = 12)"
proof (cases "length n = 12 \<and> 16 \<le> length b")
  case True
  with assms have "gcm_domain key n b a" by (simp add: gcm_domain_def)
  from aead_ok_decrypt [OF assms(1) this] True assms(2) show ?thesis
    by (auto simp: aead_decrypt_def aead_lengths)
next
  case False
  with assms(2) show ?thesis by (auto simp: aead_decrypt_def aead_lengths)
qed

lemma aead_decrypt_Inr:
  "aead_decrypt c key n b a = Inr p \<Longrightarrow>
     length key = 32 \<and> length n = 12 \<and> 16 \<le> length b \<and> gcm_decrypt c key n b a = Inr p"
  by (auto simp: aead_decrypt_def aead_lengths split: if_splits sum.splits exn.splits)

lemma aead_decrypt_of_gcm:
  "length key = 32 \<Longrightarrow> length n = 12 \<Longrightarrow> 16 \<le> length b \<Longrightarrow> gcm_decrypt c key n b a = Inr p \<Longrightarrow>
     aead_decrypt c key n b a = Inr p"
  by (simp add: aead_decrypt_def aead_lengths)

end
