(* ===== verification/FileFormat.thy ===== *)
theory FileFormat
  imports Kdf Aead
begin

text \<open>
  \<open>src/securevault/fileformat.py\<close>: the on-disk container. \<open>build_kdf_header\<close>,
  \<open>build_full_header\<close> and \<open>serialize\<close> assemble the bytes, \<open>parse\<close> checks and splits them.
  The lemmas show that \<open>parse\<close> inverts \<open>serialize\<close> and that the converse holds too: an
  accepted file is, byte for byte, the serialization of the fields read from it.
\<close>

definition MAGIC :: bytes where "MAGIC = blit ''SVLT''"
definition FORMAT_VERSION :: int where "FORMAT_VERSION = 1"
definition KDF_ARGON2ID :: int where "KDF_ARGON2ID = 1"
definition AEAD_AES256GCM :: int where "AEAD_AES256GCM = 1"
definition DEK_LENGTH :: nat where "DEK_LENGTH = 32"
definition DEK_BLOB_LENGTH :: nat where "DEK_BLOB_LENGTH = DEK_LENGTH + TAG_LENGTH"
definition KDF_HEADER_LENGTH :: nat where
  "KDF_HEADER_LENGTH = 4 + 2 + 1 + 1 + 4 + 4 + 4 + 16"
definition FULL_HEADER_LENGTH :: nat where "FULL_HEADER_LENGTH = KDF_HEADER_LENGTH + 8"
definition DEK_NONCE_OFFSET :: nat where "DEK_NONCE_OFFSET = FULL_HEADER_LENGTH"
definition DEK_BLOB_OFFSET :: nat where "DEK_BLOB_OFFSET = DEK_NONCE_OFFSET + NONCE_LENGTH"
definition BODY_NONCE_OFFSET :: nat where "BODY_NONCE_OFFSET = DEK_BLOB_OFFSET + DEK_BLOB_LENGTH"
definition BODY_LEN_OFFSET :: nat where "BODY_LEN_OFFSET = BODY_NONCE_OFFSET + NONCE_LENGTH"
definition BODY_OFFSET :: nat where "BODY_OFFSET = BODY_LEN_OFFSET + 4"
definition MIN_FILE_LENGTH :: nat where "MIN_FILE_LENGTH = BODY_OFFSET + TAG_LENGTH"

lemmas offset_defs =
  MIN_FILE_LENGTH_def BODY_OFFSET_def BODY_LEN_OFFSET_def BODY_NONCE_OFFSET_def
  DEK_BLOB_OFFSET_def DEK_NONCE_OFFSET_def FULL_HEADER_LENGTH_def KDF_HEADER_LENGTH_def
  DEK_BLOB_LENGTH_def DEK_LENGTH_def

text \<open>The offsets are those of the layout table in the module's documentation.\<close>

lemma offsets [layout]:
  "KDF_HEADER_LENGTH = 36" "FULL_HEADER_LENGTH = 44" "DEK_NONCE_OFFSET = 44"
  "DEK_BLOB_OFFSET = 56" "BODY_NONCE_OFFSET = 104" "BODY_LEN_OFFSET = 116" "BODY_OFFSET = 120"
  "MIN_FILE_LENGTH = 136" "DEK_BLOB_LENGTH = 48" "DEK_LENGTH = 32" "NONCE_LENGTH = 12"
  "TAG_LENGTH = 16" "SALT_LENGTH = 16"
  by (simp_all add: offset_defs aead_lengths SALT_LENGTH_def)

section \<open>Building\<close>

text \<open>\<open>struct.Struct("<4sHBBIII16s").pack\<close>.\<close>

definition pack_kdf_fields ::
  "bytes \<Rightarrow> int \<Rightarrow> int \<Rightarrow> int \<Rightarrow> int \<Rightarrow> int \<Rightarrow> int \<Rightarrow> bytes \<Rightarrow> bytes result" where
  "pack_kdf_fields magic version kdf_id aead_id m t p salt =
     rbind (pack_uint 2 version) (\<lambda>v.
     rbind (pack_uint 1 kdf_id) (\<lambda>k.
     rbind (pack_uint 1 aead_id) (\<lambda>a.
     rbind (pack_uint 4 m) (\<lambda>mb.
     rbind (pack_uint 4 t) (\<lambda>tb.
     rbind (pack_uint 4 p) (\<lambda>pb.
     Inr (pack_str 4 magic @ v @ k @ a @ mb @ tb @ pb @ pack_str 16 salt)))))))"

definition build_kdf_header :: "argon2_parameters \<Rightarrow> bytes \<Rightarrow> bytes result" where
  "build_kdf_header params salt =
     (if length salt \<noteq> SALT_LENGTH
      then Inl (ValueError (lit ''salt must be '' @ show_nat SALT_LENGTH @ lit '' bytes, got ''
                  @ show_nat (length salt)))
      else pack_kdf_fields MAGIC FORMAT_VERSION KDF_ARGON2ID AEAD_AES256GCM
             (memory_kib params) (time_cost params) (parallelism params) salt)"

definition build_full_header :: "argon2_parameters \<Rightarrow> bytes \<Rightarrow> int \<Rightarrow> bytes result" where
  "build_full_header params salt counter =
     (if counter < 0 \<or> counter > 0xFFFFFFFFFFFFFFFF
      then Inl (ValueError (lit ''save_counter out of uint64 range''))
      else rbind (build_kdf_header params salt) (\<lambda>h.
           rbind (pack_uint 8 counter) (\<lambda>c. Inr (h @ c))))"

definition serialize ::
  "bytes \<Rightarrow> int \<Rightarrow> bytes \<Rightarrow> bytes \<Rightarrow> bytes \<Rightarrow> bytes \<Rightarrow> bytes result" where
  "serialize kdf_header counter dek_nonce dek_blob body_nonce body_blob =
     (if length kdf_header \<noteq> KDF_HEADER_LENGTH
      then Inl (ValueError (lit ''bad kdf_header length''))
      else if length dek_nonce \<noteq> NONCE_LENGTH \<or> length body_nonce \<noteq> NONCE_LENGTH
      then Inl (ValueError (lit ''bad nonce length''))
      else if length dek_blob \<noteq> DEK_BLOB_LENGTH
      then Inl (ValueError (lit ''bad dek_blob length''))
      else if length body_blob < TAG_LENGTH
      then Inl (ValueError (lit ''body_blob too short to contain a tag''))
      else rbind (pack_uint 8 counter) (\<lambda>c.
           rbind (pack_uint 4 (int (length body_blob))) (\<lambda>l.
           Inr (kdf_header @ c @ dek_nonce @ dek_blob @ body_nonce @ l @ body_blob))))"

section \<open>Parsing\<close>

record parsed_vault_file =
  pv_params :: argon2_parameters
  pv_salt :: bytes
  pv_counter :: int
  pv_kdf_header :: bytes
  pv_full_header :: bytes
  pv_dek_nonce :: bytes
  pv_dek_blob :: bytes
  pv_body_nonce :: bytes
  pv_body_blob :: bytes

definition parse :: "bytes \<Rightarrow> parsed_vault_file result" where
  "parse data =
     (if length data < MIN_FILE_LENGTH
      then Inl (VaultFormatError (lit ''file too short: '' @ show_nat (length data)
             @ lit '' < minimum '' @ show_nat MIN_FILE_LENGTH))
      else
        (let header = take KDF_HEADER_LENGTH data;
             magic = pyslice 0 4 header;
             version = unpack_uint (pyslice 4 6 header);
             kdf_id = unpack_uint (pyslice 6 7 header);
             aead_id = unpack_uint (pyslice 7 8 header);
             m = unpack_uint (pyslice 8 12 header);
             t = unpack_uint (pyslice 12 16 header);
             p = unpack_uint (pyslice 16 20 header);
             salt = pyslice 20 36 header
         in
         if magic \<noteq> MAGIC
         then Inl (VaultFormatError (lit ''bad magic: not a vault file''))
         else if version \<noteq> FORMAT_VERSION
         then Inl (VaultFormatError (lit ''unsupported format version '' @ show_int version))
         else if kdf_id \<noteq> KDF_ARGON2ID
         then Inl (VaultFormatError (lit ''unsupported kdf id '' @ show_int kdf_id))
         else if aead_id \<noteq> AEAD_AES256GCM
         then Inl (VaultFormatError (lit ''unsupported aead id '' @ show_int aead_id))
         else
           rbind (validate_params \<lparr>memory_kib = m, time_cost = t, parallelism = p\<rparr>) (\<lambda>_.
           let counter = unpack_uint (pyslice KDF_HEADER_LENGTH FULL_HEADER_LENGTH data);
               dek_nonce = pyslice DEK_NONCE_OFFSET DEK_BLOB_OFFSET data;
               dek_blob = pyslice DEK_BLOB_OFFSET BODY_NONCE_OFFSET data;
               body_nonce = pyslice BODY_NONCE_OFFSET BODY_LEN_OFFSET data;
               body_len = unpack_uint (pyslice BODY_LEN_OFFSET BODY_OFFSET data)
           in
           if body_len < int TAG_LENGTH
           then Inl (VaultFormatError (lit ''body_len too small to contain a tag''))
           else if int BODY_OFFSET + body_len \<noteq> int (length data)
           then Inl (VaultFormatError (lit ''declared body length does not match file size''))
           else Inr \<lparr>pv_params = \<lparr>memory_kib = m, time_cost = t, parallelism = p\<rparr>,
                     pv_salt = salt, pv_counter = counter,
                     pv_kdf_header = take KDF_HEADER_LENGTH data,
                     pv_full_header = take FULL_HEADER_LENGTH data,
                     pv_dek_nonce = dek_nonce, pv_dek_blob = dek_blob,
                     pv_body_nonce = body_nonce, pv_body_blob = drop BODY_OFFSET data\<rparr>)))"

section \<open>The layout as plain concatenation\<close>

text \<open>The two byte strings the format is made of, for values that are in range.\<close>

definition kdf_header_bytes :: "argon2_parameters \<Rightarrow> bytes \<Rightarrow> bytes" where
  "kdf_header_bytes p salt =
     MAGIC @ [1, 0] @ [1] @ [1] @ le_bytes 4 (nat (memory_kib p)) @ le_bytes 4 (nat (time_cost p))
     @ le_bytes 4 (nat (parallelism p)) @ salt"

definition file_bytes :: "parsed_vault_file \<Rightarrow> bytes" where
  "file_bytes f =
     pv_kdf_header f @ le_bytes 8 (nat (pv_counter f)) @ pv_dek_nonce f @ pv_dek_blob f
     @ pv_body_nonce f @ le_bytes 4 (length (pv_body_blob f)) @ pv_body_blob f"

definition wf_file :: "parsed_vault_file \<Rightarrow> bool" where
  "wf_file f \<longleftrightarrow>
     params_ok (pv_params f) \<and> length (pv_salt f) = 16 \<and>
     0 \<le> pv_counter f \<and> pv_counter f < 2 ^ 64 \<and>
     pv_kdf_header f = kdf_header_bytes (pv_params f) (pv_salt f) \<and>
     pv_full_header f = pv_kdf_header f @ le_bytes 8 (nat (pv_counter f)) \<and>
     length (pv_dek_nonce f) = 12 \<and> length (pv_dek_blob f) = 48 \<and>
     length (pv_body_nonce f) = 12 \<and>
     16 \<le> length (pv_body_blob f) \<and> length (pv_body_blob f) < 2 ^ 32"

lemma length_MAGIC [simp]: "length MAGIC = 4"
  by (simp add: MAGIC_def)

lemma length_kdf_header_bytes [simp]: "length (kdf_header_bytes p salt) = 20 + length salt"
  by (simp add: kdf_header_bytes_def)

section \<open>Building succeeds on valid fields\<close>

lemma pack_uint_one: "pack_uint 2 1 = Inr [1, 0]" "pack_uint (Suc 0) 1 = Inr [1]"
  by (simp_all add: pack_uint_def numeral_2_eq_2)

lemma params_in_uint32:
  "params_ok p \<Longrightarrow> pack_uint 4 (memory_kib p) = Inr (le_bytes 4 (nat (memory_kib p)))
     \<and> pack_uint 4 (time_cost p) = Inr (le_bytes 4 (nat (time_cost p)))
     \<and> pack_uint 4 (parallelism p) = Inr (le_bytes 4 (nat (parallelism p)))"
  by (auto simp: params_ok_def intro!: pack_uint_ok)

lemma build_kdf_header_ok [simp]:
  assumes "params_ok p" and "length salt = 16"
  shows "build_kdf_header p salt = Inr (kdf_header_bytes p salt)"
  using params_in_uint32 [OF assms(1)] assms(2)
  by (simp add: build_kdf_header_def pack_kdf_fields_def kdf_header_bytes_def pack_uint_one
      FORMAT_VERSION_def KDF_ARGON2ID_def AEAD_AES256GCM_def SALT_LENGTH_def)

lemma build_full_header_ok [simp]:
  assumes "params_ok p" and "length salt = 16" and "0 \<le> n" and "n < 2 ^ 64"
  shows "build_full_header p salt n = Inr (kdf_header_bytes p salt @ le_bytes 8 (nat n))"
  using assms pack_uint_ok [of n 8] by (simp add: build_full_header_def)

lemma build_full_header_range:
  "n < 0 \<or> 2 ^ 64 \<le> n \<Longrightarrow>
     build_full_header p salt n = Inl (ValueError (lit ''save_counter out of uint64 range''))"
  by (auto simp: build_full_header_def)

lemma serialize_ok:
  assumes "wf_file f"
  shows "serialize (pv_kdf_header f) (pv_counter f) (pv_dek_nonce f) (pv_dek_blob f)
    (pv_body_nonce f) (pv_body_blob f) = Inr (file_bytes f)"
  using assms pack_uint_ok [of "pv_counter f" 8] pack_uint_ok [of "int (length (pv_body_blob f))" 4]
  by (simp add: serialize_def wf_file_def file_bytes_def layout)

section \<open>Slicing the layout\<close>

lemma kdf_header_slices:
  assumes "length salt = 16"
  shows "pyslice 0 4 (kdf_header_bytes p salt) = MAGIC"
    "pyslice 4 6 (kdf_header_bytes p salt) = [1, 0]"
    "pyslice 6 7 (kdf_header_bytes p salt) = [1]"
    "pyslice 7 8 (kdf_header_bytes p salt) = [1]"
    "pyslice 8 12 (kdf_header_bytes p salt) = le_bytes 4 (nat (memory_kib p))"
    "pyslice 12 16 (kdf_header_bytes p salt) = le_bytes 4 (nat (time_cost p))"
    "pyslice 16 20 (kdf_header_bytes p salt) = le_bytes 4 (nat (parallelism p))"
    "pyslice 20 36 (kdf_header_bytes p salt) = salt"
  using assms by (simp_all add: kdf_header_bytes_def pyslice_def)

lemma file_slices:
  assumes "length h = 36" and "length c = 8" and "length n1 = 12" and "length b1 = 48"
    and "length n2 = 12" and "length l = 4"
  shows "take 36 (h @ c @ n1 @ b1 @ n2 @ l @ b) = h"
    "take 44 (h @ c @ n1 @ b1 @ n2 @ l @ b) = h @ c"
    "pyslice 36 44 (h @ c @ n1 @ b1 @ n2 @ l @ b) = c"
    "pyslice 44 56 (h @ c @ n1 @ b1 @ n2 @ l @ b) = n1"
    "pyslice 56 104 (h @ c @ n1 @ b1 @ n2 @ l @ b) = b1"
    "pyslice 104 116 (h @ c @ n1 @ b1 @ n2 @ l @ b) = n2"
    "pyslice 116 120 (h @ c @ n1 @ b1 @ n2 @ l @ b) = l"
    "drop 120 (h @ c @ n1 @ b1 @ n2 @ l @ b) = b"
  using assms by (simp_all add: pyslice_def)

lemma unpack_one: "unpack_uint [1, 0] = 1" "unpack_uint [1] = 1"
  by (simp_all add: unpack_uint_def)

lemma unpack_params:
  assumes "params_ok p"
  shows "unpack_uint (le_bytes 4 (nat (memory_kib p))) = memory_kib p"
    "unpack_uint (le_bytes 4 (nat (time_cost p))) = time_cost p"
    "unpack_uint (le_bytes 4 (nat (parallelism p))) = parallelism p"
  using assms by (auto simp: params_ok_def intro!: unpack_le_bytes)

lemma params_eta:
  "\<lparr>memory_kib = memory_kib p, time_cost = time_cost p, parallelism = parallelism p\<rparr>
    = (p :: argon2_parameters)"
  by simp

lemma parse_file_bytes:
  assumes "wf_file f"
  shows "parse (file_bytes f) = Inr f"
proof -
  let ?h = "kdf_header_bytes (pv_params f) (pv_salt f)" and ?c = "le_bytes 8 (nat (pv_counter f))"
    and ?l = "le_bytes 4 (length (pv_body_blob f))"
  note wf = assms [unfolded wf_file_def]
  have fb: "file_bytes f = ?h @ ?c @ pv_dek_nonce f @ pv_dek_blob f @ pv_body_nonce f @ ?l
      @ pv_body_blob f"
    using wf by (simp add: file_bytes_def)
  have len: "length (file_bytes f) = 120 + length (pv_body_blob f)"
    using wf by (simp add: fb)
  have sl: "take 36 (file_bytes f) = ?h" "take 44 (file_bytes f) = ?h @ ?c"
    "pyslice 36 44 (file_bytes f) = ?c" "pyslice 44 56 (file_bytes f) = pv_dek_nonce f"
    "pyslice 56 104 (file_bytes f) = pv_dek_blob f" "pyslice 104 116 (file_bytes f) = pv_body_nonce f"
    "pyslice 116 120 (file_bytes f) = ?l" "drop 120 (file_bytes f) = pv_body_blob f"
    unfolding fb by (rule file_slices; use wf in simp)+
  have "unpack_uint ?c = pv_counter f"
    using wf by (intro unpack_le_bytes) auto
  moreover have "unpack_uint ?l = int (length (pv_body_blob f))"
    using wf unpack_le_bytes [of "int (length (pv_body_blob f))" 4] by simp
  ultimately show ?thesis
    using wf unfolding parse_def layout
    by (simp add: len sl kdf_header_slices unpack_one unpack_params params_eta Let_def
        FORMAT_VERSION_def KDF_ARGON2ID_def AEAD_AES256GCM_def)
qed

section \<open>An accepted file is its own serialization\<close>

lemma bytes_of_unpack_one:
  "length bs = 2 \<Longrightarrow> unpack_uint bs = 1 \<Longrightarrow> bs = [1, 0]"
  "length bs = Suc 0 \<Longrightarrow> unpack_uint bs = 1 \<Longrightarrow> bs = [1]"
  using le_bytes_unpack [of bs 2] le_bytes_unpack [of bs "Suc 0"] by (simp_all add: numeral_2_eq_2)

lemma kdf_header_of_slices:
  assumes len: "length h = 36" and magic: "pyslice 0 4 h = MAGIC"
    and v: "unpack_uint (pyslice 4 6 h) = 1" and k: "unpack_uint (pyslice 6 7 h) = 1"
    and a: "unpack_uint (pyslice 7 8 h) = 1"
  shows "kdf_header_bytes \<lparr>memory_kib = unpack_uint (pyslice 8 12 h),
      time_cost = unpack_uint (pyslice 12 16 h), parallelism = unpack_uint (pyslice 16 20 h)\<rparr>
      (pyslice 20 36 h) = h"
proof -
  have one: "pyslice 4 6 h = [1, 0]" "pyslice 6 7 h = [1]" "pyslice 7 8 h = [1]"
    using len v k a by (auto intro!: bytes_of_unpack_one)
  have "h = take 4 h @ pyslice 4 6 h @ pyslice 6 7 h @ pyslice 7 8 h @ pyslice 8 12 h @ pyslice 12 16 h
      @ pyslice 16 20 h @ pyslice 20 36 h"
    using len by (simp add: slice_append take_slice_drop)
  also have "take 4 h = MAGIC" using magic by (simp add: slice_zero)
  finally show ?thesis
    using len one by (simp add: kdf_header_bytes_def le_bytes_unpack)
qed

lemma file_of_slices:
  assumes "136 \<le> length data"
  shows "take 36 data @ pyslice 36 44 data @ pyslice 44 56 data @ pyslice 56 104 data
    @ pyslice 104 116 data @ pyslice 116 120 data @ drop 120 data = data"
proof -
  have "data = take 120 data @ drop 120 data" by simp
  also have "take 120 data = take 36 data @ pyslice 36 44 data @ pyslice 44 56 data
      @ pyslice 56 104 data @ pyslice 104 116 data @ pyslice 116 120 data"
    by (simp add: slice_append take_slice_drop)
  finally show ?thesis by simp
qed

text \<open>Everything a successful \<open>parse\<close> has checked, and where each field comes from.\<close>

lemma parse_InrD:
  assumes "parse data = Inr f"
  shows "136 \<le> length data" "pyslice 0 4 (take 36 data) = MAGIC"
    "unpack_uint (pyslice 4 6 (take 36 data)) = 1" "unpack_uint (pyslice 6 7 (take 36 data)) = 1"
    "unpack_uint (pyslice 7 8 (take 36 data)) = 1"
    "unpack_uint (pyslice 116 120 data) = int (length (drop 120 data))"
    "16 \<le> length (drop 120 data)" "params_ok (pv_params f)"
    "f = \<lparr>pv_params = \<lparr>memory_kib = unpack_uint (pyslice 8 12 (take 36 data)),
            time_cost = unpack_uint (pyslice 12 16 (take 36 data)),
            parallelism = unpack_uint (pyslice 16 20 (take 36 data))\<rparr>,
          pv_salt = pyslice 20 36 (take 36 data), pv_counter = unpack_uint (pyslice 36 44 data),
          pv_kdf_header = take 36 data, pv_full_header = take 44 data,
          pv_dek_nonce = pyslice 44 56 data, pv_dek_blob = pyslice 56 104 data,
          pv_body_nonce = pyslice 104 116 data, pv_body_blob = drop 120 data\<rparr>"
  using assms unfolding parse_def layout
  by (auto simp: Let_def FORMAT_VERSION_def KDF_ARGON2ID_def AEAD_AES256GCM_def result_simps
      split: if_splits)

lemma parse_sound:
  assumes "parse data = Inr f"
  shows "wf_file f \<and> file_bytes f = data"
proof -
  note d = parse_InrD [OF assms]
  have hdr: "kdf_header_bytes (pv_params f) (pv_salt f) = pv_kdf_header f"
    unfolding d(9) using d(1-5) by (simp add: kdf_header_of_slices)
  have cnt: "le_bytes 8 (nat (unpack_uint (pyslice 36 44 data))) = pyslice 36 44 data"
    using d(1) by (intro le_bytes_unpack) simp
  have blen: "le_bytes 4 (length (drop 120 data)) = pyslice 116 120 data"
    using d(1) le_bytes_unpack [of "pyslice 116 120 data" 4] by (simp add: d(6) del: length_drop)
  have "length (drop 120 data) < 2 ^ 32"
    using d(1,6) unpack_uint_bounds [of "pyslice 116 120 data"] by simp
  moreover have "unpack_uint (pyslice 36 44 data) < 2 ^ 64"
    using d(1) unpack_uint_bounds [of "pyslice 36 44 data"] by simp
  ultimately have "wf_file f"
    using d(1,7,8) hdr unpack_uint_bounds [of "pyslice 36 44 data"] cnt
    unfolding wf_file_def by (subst (asm) (1 2) d(9)) (simp add: d(9) take_slice_drop)
  moreover have "file_bytes f = data"
    unfolding file_bytes_def d(9) using d(1) cnt blen by (simp add: file_of_slices)
  ultimately show ?thesis ..
qed

section \<open>The container as a canonical codec\<close>

interpretation container: canonical_codec file_bytes "\<lambda>data. ok_of (parse data)" wf_file
proof
  fix f assume "wf_file f"
  then show "ok_of (parse (file_bytes f)) = Some f" by (simp add: parse_file_bytes)
next
  fix data f assume "ok_of (parse data) = Some f"
  then show "wf_file f \<and> file_bytes f = data" by (simp add: parse_sound)
qed

lemma wf_file_headers:
  assumes "wf_file f"
  shows "length (pv_kdf_header f) = 36" "length (pv_full_header f) = 44"
    "build_kdf_header (pv_params f) (pv_salt f) = Inr (pv_kdf_header f)"
    "build_full_header (pv_params f) (pv_salt f) (pv_counter f) = Inr (pv_full_header f)"
  using assms by (auto simp: wf_file_def)

lemma kdf_header_inj:
  assumes "params_ok p" "params_ok q" "length s = 16" "length t = 16"
    and "kdf_header_bytes p s = kdf_header_bytes q t"
  shows "p = q \<and> s = t"
proof -
  have "memory_kib p = memory_kib q" "time_cost p = time_cost q" "parallelism p = parallelism q"
    using assms(5) kdf_header_slices(5-7) [OF assms(3), of p] kdf_header_slices(5-7) [OF assms(4), of q]
      unpack_params [OF assms(1)] unpack_params [OF assms(2)]
    by metis+
  moreover have "s = t"
    using assms(5) kdf_header_slices(8) [OF assms(3), of p] kdf_header_slices(8) [OF assms(4), of q]
    by simp
  ultimately show ?thesis by simp
qed

lemma full_header_inj:
  assumes "wf_file f" "wf_file g" "pv_full_header f = pv_full_header g"
  shows "pv_params f = pv_params g \<and> pv_salt f = pv_salt g \<and> pv_counter f = pv_counter g
    \<and> pv_kdf_header f = pv_kdf_header g"
proof -
  note w = assms(1) [unfolded wf_file_def] assms(2) [unfolded wf_file_def]
  have "pv_kdf_header f @ le_bytes 8 (nat (pv_counter f))
      = pv_kdf_header g @ le_bytes 8 (nat (pv_counter g))"
    using w assms(3) by argo
  moreover have "length (pv_kdf_header f) = length (pv_kdf_header g)"
    using assms(1,2) by (simp add: wf_file_headers)
  ultimately have h: "pv_kdf_header f = pv_kdf_header g"
    and c: "le_bytes 8 (nat (pv_counter f)) = le_bytes 8 (nat (pv_counter g))"
    by simp_all
  have "unpack_uint (le_bytes 8 (nat (pv_counter f))) = pv_counter f"
    "unpack_uint (le_bytes 8 (nat (pv_counter g))) = pv_counter g"
    using w by (auto intro!: unpack_le_bytes)
  with c have n: "pv_counter f = pv_counter g" by argo
  have "kdf_header_bytes (pv_params f) (pv_salt f) = kdf_header_bytes (pv_params g) (pv_salt g)"
    using w h by argo
  then have "pv_params f = pv_params g \<and> pv_salt f = pv_salt g"
    using w by (intro kdf_header_inj) auto
  with h n show ?thesis by simp
qed

text \<open>Rejection is always the same kind of error, and depends on the bytes alone.\<close>

lemma parse_InlD: "parse data = Inl e \<Longrightarrow> \<exists>m. e = VaultFormatError m"
  by (auto simp: parse_def Let_def result_simps dest!: validate_params_Inl split: if_splits)

end
