(* ===== verification/Vault.thy ===== *)
theory Vault
  imports FileFormat
begin

text \<open>
  \<open>src/securevault/vault.py\<close>: envelope encryption. \<open>vault_create\<close>, \<open>vault_open\<close> and the
  methods of \<open>UnlockedVault\<close> (\<open>vault_read\<close>, \<open>vault_save\<close>, \<open>vault_change_password\<close>,
  \<open>vault_close\<close>) are programs over the runtime of \<open>Runtime\<close>. The object's \<open>_dek\<close> and
  \<open>_plaintext\<close> are addresses of \<open>bytearray\<close>s. A method that raises leaves the object as it
  was (every assignment to a field comes after the last call that can raise), so the new
  object is part of the result.
\<close>

text \<open>The two third-party primitives: Argon2id and AES-256-GCM.\<close>

record crypto =
  argon2 :: argon2_fun
  aesgcm :: cipher

definition crypto_ok :: "crypto \<Rightarrow> bool" where
  "crypto_ok c \<longleftrightarrow> kdf_ok (argon2 c) \<and> aead_ok (aesgcm c)"

record unlocked_vault =
  uv_params :: argon2_parameters
  uv_salt :: bytes
  uv_counter :: int
  uv_kdf_header :: bytes
  uv_dek_nonce :: bytes
  uv_dek_blob :: bytes
  uv_dek :: nat
  uv_plaintext :: nat
  uv_closed :: bool

section \<open>Creating and opening\<close>

definition params_or_default :: "argon2_parameters option \<Rightarrow> argon2_parameters" where
  "params_or_default p = (case p of None \<Rightarrow> default_parameters | Some q \<Rightarrow> q)"

definition vault_create ::
  "crypto \<Rightarrow> bytes \<Rightarrow> bytes \<Rightarrow> argon2_parameters option \<Rightarrow> ('z machine_scheme, bytes) prog" where
  "vault_create c password plaintext params0 =
     (let params = params_or_default params0 in
      pbind (lift (validate_params params)) (\<lambda>_.
      pbind (urandom SALT_LENGTH) (\<lambda>salt.
      pbind (urandom DEK_LENGTH) (\<lambda>dek_bytes.
      pbind (new_bytearray dek_bytes) (\<lambda>dek.
      pbind (lift (derive_key (argon2 c) password salt params KEY_LENGTH)) (\<lambda>kek.
      with_finally
        (pbind (lift (build_kdf_header params salt)) (\<lambda>kdf_header.
         pbind (read_buffer dek) (\<lambda>d.
         pbind (aead_encrypt (aesgcm c) kek d kdf_header) (\<lambda>wrapped.
         pbind (lift (build_full_header params salt 0)) (\<lambda>full_header.
         pbind (read_buffer dek) (\<lambda>d'.
         pbind (aead_encrypt (aesgcm c) d' plaintext full_header) (\<lambda>body.
         lift (serialize kdf_header 0 (nonce wrapped) (blob wrapped) (nonce body) (blob body)))))))))
        (wipe (ByteArray dek))))))))"

definition vault_open ::
  "crypto \<Rightarrow> bytes \<Rightarrow> bytes \<Rightarrow> ('z machine_scheme, unlocked_vault) prog" where
  "vault_open c password data =
     pbind (lift (parse data)) (\<lambda>parsed.
     pbind (lift (derive_key (argon2 c) password (pv_salt parsed) (pv_params parsed) KEY_LENGTH))
       (\<lambda>kek.
     pbind (lift (aead_decrypt (aesgcm c) kek (pv_dek_nonce parsed) (pv_dek_blob parsed)
                    (pv_kdf_header parsed))) (\<lambda>dek_bytes.
     pbind (new_bytearray dek_bytes) (\<lambda>dek.
     pbind (read_buffer dek) (\<lambda>d.
     pbind (lift (aead_decrypt (aesgcm c) d (pv_body_nonce parsed) (pv_body_blob parsed)
                    (pv_full_header parsed))) (\<lambda>body.
     pbind (new_bytearray body) (\<lambda>pt.
     ret \<lparr>uv_params = pv_params parsed, uv_salt = pv_salt parsed, uv_counter = pv_counter parsed,
          uv_kdf_header = pv_kdf_header parsed, uv_dek_nonce = pv_dek_nonce parsed,
          uv_dek_blob = pv_dek_blob parsed, uv_dek = dek, uv_plaintext = pt,
          uv_closed = False\<rparr>)))))))"

section \<open>Methods of the unlocked vault\<close>

definition closed_error :: exn where
  "closed_error = ValueError (lit ''vault is closed'')"

definition check_open :: "unlocked_vault \<Rightarrow> unit result" where
  "check_open u = (if uv_closed u then Inl closed_error else Inr ())"

definition vault_read :: "unlocked_vault \<Rightarrow> ('z machine_scheme, bytes) prog" where
  "vault_read u = pbind (lift (check_open u)) (\<lambda>_. read_buffer (uv_plaintext u))"

definition vault_save ::
  "crypto \<Rightarrow> unlocked_vault \<Rightarrow> bytes \<Rightarrow> ('z machine_scheme, bytes \<times> unlocked_vault) prog" where
  "vault_save c u new_plaintext =
     pbind (lift (check_open u)) (\<lambda>_.
     let new_counter = uv_counter u + 1 in
     pbind (lift (build_full_header (uv_params u) (uv_salt u) new_counter)) (\<lambda>full_header.
     pbind (read_buffer (uv_dek u)) (\<lambda>d.
     pbind (aead_encrypt (aesgcm c) d new_plaintext full_header) (\<lambda>body.
     pbind (lift (serialize (uv_kdf_header u) new_counter (uv_dek_nonce u) (uv_dek_blob u)
                    (nonce body) (blob body))) (\<lambda>data.
     pbind (wipe (ByteArray (uv_plaintext u))) (\<lambda>_.
     pbind (new_bytearray new_plaintext) (\<lambda>pt.
     ret (data, u\<lparr>uv_plaintext := pt, uv_counter := new_counter\<rparr>))))))))"

definition vault_change_password ::
  "crypto \<Rightarrow> unlocked_vault \<Rightarrow> bytes \<Rightarrow> argon2_parameters option \<Rightarrow>
     ('z machine_scheme, bytes \<times> unlocked_vault) prog" where
  "vault_change_password c u new_password new_params =
     pbind (lift (check_open u)) (\<lambda>_.
     let params = (case new_params of None \<Rightarrow> uv_params u | Some p \<Rightarrow> p) in
     pbind (lift (validate_params params)) (\<lambda>_.
     pbind (urandom SALT_LENGTH) (\<lambda>new_salt.
     pbind (lift (derive_key (argon2 c) new_password new_salt params KEY_LENGTH)) (\<lambda>kek.
     pbind (lift (build_kdf_header params new_salt)) (\<lambda>new_kdf_header.
     pbind (read_buffer (uv_dek u)) (\<lambda>d.
     pbind (aead_encrypt (aesgcm c) kek d new_kdf_header) (\<lambda>wrapped.
     let new_counter = uv_counter u + 1 in
     pbind (lift (build_full_header params new_salt new_counter)) (\<lambda>full_header.
     pbind (read_buffer (uv_dek u)) (\<lambda>d'.
     pbind (read_buffer (uv_plaintext u)) (\<lambda>pt.
     pbind (aead_encrypt (aesgcm c) d' pt full_header) (\<lambda>body.
     pbind (lift (serialize new_kdf_header new_counter (nonce wrapped) (blob wrapped)
                    (nonce body) (blob body))) (\<lambda>data.
     ret (data, u\<lparr>uv_params := params, uv_salt := new_salt, uv_kdf_header := new_kdf_header,
                  uv_dek_nonce := nonce wrapped, uv_dek_blob := blob wrapped,
                  uv_counter := new_counter\<rparr>)))))))))))))"

definition vault_close :: "unlocked_vault \<Rightarrow> ('z machine_scheme, unlocked_vault) prog" where
  "vault_close u =
     (if uv_closed u then ret u
      else pbind (wipe (ByteArray (uv_dek u))) (\<lambda>_.
           pbind (wipe (ByteArray (uv_plaintext u))) (\<lambda>_.
           ret (u\<lparr>uv_closed := True\<rparr>))))"

section \<open>Sealed files\<close>

text \<open>
  The abstract content of a vault file: under password \<open>pw\<close> the fields \<open>f\<close> unwrap to the data
  key \<open>d\<close>, and \<open>d\<close> decrypts the body to \<open>pt\<close>.
\<close>

definition unwraps ::
  "crypto \<Rightarrow> bytes \<Rightarrow> argon2_parameters \<Rightarrow> bytes \<Rightarrow> bytes \<Rightarrow> bytes \<Rightarrow> bytes \<Rightarrow> bytes \<Rightarrow> bool" where
  "unwraps c pw params salt kdf_header n b d \<longleftrightarrow>
     (case derive_key (argon2 c) pw salt params KEY_LENGTH of
        Inl e \<Rightarrow> False
      | Inr kek \<Rightarrow> gcm_decrypt (aesgcm c) kek n b kdf_header = Inr d)"

definition sealed :: "crypto \<Rightarrow> bytes \<Rightarrow> parsed_vault_file \<Rightarrow> bytes \<Rightarrow> bytes \<Rightarrow> bool" where
  "sealed c pw f d pt \<longleftrightarrow>
     wf_file f \<and> length d = 32 \<and> length pt \<le> MAX_PLAINTEXT \<and>
     unwraps c pw (pv_params f) (pv_salt f) (pv_kdf_header f) (pv_dek_nonce f) (pv_dek_blob f) d \<and>
     gcm_decrypt (aesgcm c) d (pv_body_nonce f) (pv_body_blob f) (pv_full_header f) = Inr pt"

definition opened :: "parsed_vault_file \<Rightarrow> nat \<Rightarrow> unlocked_vault" where
  "opened f a =
     \<lparr>uv_params = pv_params f, uv_salt = pv_salt f, uv_counter = pv_counter f,
      uv_kdf_header = pv_kdf_header f, uv_dek_nonce = pv_dek_nonce f, uv_dek_blob = pv_dek_blob f,
      uv_dek = a, uv_plaintext = Suc a, uv_closed = False\<rparr>"

definition after_open :: "bytes \<Rightarrow> bytes \<Rightarrow> 'z machine_scheme \<Rightarrow> 'z machine_scheme" where
  "after_open d pt w =
     w\<lparr>heap := (heap w)(hnext w := d, Suc (hnext w) := pt), hnext := Suc (Suc (hnext w))\<rparr>"

lemma unwrapsE:
  assumes "unwraps c pw params salt h n b d"
  obtains kek where "derive_key (argon2 c) pw salt params KEY_LENGTH = Inr kek"
    and "gcm_decrypt (aesgcm c) kek n b h = Inr d"
  using assms by (auto simp: unwraps_def split: sum.splits)

lemma crypto_okD: "crypto_ok c \<Longrightarrow> kdf_ok (argon2 c)" "crypto_ok c \<Longrightarrow> aead_ok (aesgcm c)"
  by (simp_all add: crypto_ok_def)

lemma kek_length:
  "crypto_ok c \<Longrightarrow> derive_key (argon2 c) pw salt p KEY_LENGTH = Inr k \<Longrightarrow> length k = 32"
  using derive_key_length [of "argon2 c"] by (simp add: crypto_ok_def KEY_LENGTH_def)

text \<open>A sealed file opens, with exactly its fields and its content.\<close>

lemma vault_open_sealed:
  assumes "crypto_ok c" and "sealed c pw f d pt"
  shows "vault_open c pw (file_bytes f) w = Some (Inr (opened f (hnext w)), after_open d pt w)"
proof -
  from assms(2) have wf: "wf_file f" and len: "length d = 32"
    and body: "gcm_decrypt (aesgcm c) d (pv_body_nonce f) (pv_body_blob f) (pv_full_header f)
      = Inr pt"
    by (auto simp: sealed_def)
  from assms(2) obtain kek
    where kek: "derive_key (argon2 c) pw (pv_salt f) (pv_params f) KEY_LENGTH = Inr kek"
      and dek: "gcm_decrypt (aesgcm c) kek (pv_dek_nonce f) (pv_dek_blob f) (pv_kdf_header f) = Inr d"
    unfolding sealed_def by (blast elim: unwrapsE)
  have "length kek = 32" using assms(1) kek by (rule kek_length)
  with wf dek have "aead_decrypt (aesgcm c) kek (pv_dek_nonce f) (pv_dek_blob f) (pv_kdf_header f)
      = Inr d"
    by (intro aead_decrypt_of_gcm) (simp_all add: wf_file_def)
  moreover from wf len body have "aead_decrypt (aesgcm c) d (pv_body_nonce f) (pv_body_blob f)
      (pv_full_header f) = Inr pt"
    by (intro aead_decrypt_of_gcm) (simp_all add: wf_file_def)
  ultimately show ?thesis
    using wf kek by (simp add: vault_open_def parse_file_bytes opened_def after_open_def)
qed

text \<open>And nothing else opens: whatever is accepted is a sealed file, byte for byte.\<close>

lemma vault_open_InrD:
  assumes "crypto_ok c" and "length data \<le> MAX_GCM"
    and "vault_open c pw data w = Some (Inr u, w')"
  shows "\<exists>f d pt. data = file_bytes f \<and> sealed c pw f d pt \<and> u = opened f (hnext w)
    \<and> w' = after_open d pt w"
proof -
  from assms(3) obtain f kek d pt where
      f: "parse data = Inr f"
    and kek: "derive_key (argon2 c) pw (pv_salt f) (pv_params f) KEY_LENGTH = Inr kek"
    and d: "aead_decrypt (aesgcm c) kek (pv_dek_nonce f) (pv_dek_blob f) (pv_kdf_header f) = Inr d"
    and pt: "aead_decrypt (aesgcm c) d (pv_body_nonce f) (pv_body_blob f) (pv_full_header f)
      = Inr pt"
    by (auto simp: vault_open_def result_simps)
  from parse_sound [OF f] have wf: "wf_file f" and data: "data = file_bytes f" by auto
  from aead_decrypt_Inr [OF pt] have len: "length d = 32"
    and body: "gcm_decrypt (aesgcm c) d (pv_body_nonce f) (pv_body_blob f) (pv_full_header f)
      = Inr pt" by auto
  have bl: "length (pv_body_blob f) \<le> MAX_GCM"
    using assms(2) data by (simp add: file_bytes_def)
  have "length pt \<le> MAX_PLAINTEXT"
    using aead_decrypt_cases [of "aesgcm c" d "pv_body_blob f" "pv_full_header f" "pv_body_nonce f"]
      assms(1) len pt bl wf
    by (auto simp: crypto_ok_def wf_file_headers MAX_GCM_def MAX_PLAINTEXT_def)
  with wf len body kek aead_decrypt_Inr [OF d] have s: "sealed c pw f d pt"
    by (simp add: sealed_def unwraps_def)
  from vault_open_sealed [OF assms(1) this, of w] assms(3) data
  have "u = opened f (hnext w)" "w' = after_open d pt w" by simp_all
  with data s show ?thesis by blast
qed

text \<open>
  The three ways opening a well-formed file can end: the key does not unwrap, the key unwraps
  but the body does not authenticate (the key is in a fresh buffer by then), or success.
\<close>

lemma vault_open_cases:
  assumes c: "crypto_ok c" and len: "length data \<le> MAX_GCM" and f: "parse data = Inr f"
  obtains (wrap) "vault_open c pw data w = Some (Inl (auth_error None), w)"
    and "\<nexists>d. unwraps c pw (pv_params f) (pv_salt f) (pv_kdf_header f) (pv_dek_nonce f)
      (pv_dek_blob f) d"
  | (body) d where "unwraps c pw (pv_params f) (pv_salt f) (pv_kdf_header f) (pv_dek_nonce f)
      (pv_dek_blob f) d"
    and "gcm_decrypt (aesgcm c) d (pv_body_nonce f) (pv_body_blob f) (pv_full_header f)
      = Inl InvalidTag"
    and "vault_open c pw data w = Some (Inl (auth_error None),
      w\<lparr>heap := (heap w)(hnext w := d), hnext := Suc (hnext w)\<rparr>)"
  | (success) d pt where "sealed c pw f d pt"
    and "vault_open c pw data w = Some (Inr (opened f (hnext w)), after_open d pt w)"
proof -
  from parse_sound [OF f] have wf: "wf_file f" and data: "data = file_bytes f" by auto
  note h = wf_file_headers(1,2) [OF wf] and w = wf [unfolded wf_file_def]
  have aead: "aead_ok (aesgcm c)" using c by (rule crypto_okD)
  obtain kek where kek: "derive_key (argon2 c) pw (pv_salt f) (pv_params f) KEY_LENGTH = Inr kek"
    and klen: "length kek = 32"
    using derive_key_ok [OF crypto_okD(1) [OF c], of "pv_params f" "pv_salt f" pw] w
    by (auto simp: KEY_LENGTH_def)
  have "gcm_domain kek (pv_dek_nonce f) (pv_dek_blob f) (pv_kdf_header f)"
    using klen h w by (simp add: gcm_domain_def MAX_GCM_def)
  from aead_ok_decrypt [OF aead this]
  consider "gcm_decrypt (aesgcm c) kek (pv_dek_nonce f) (pv_dek_blob f) (pv_kdf_header f)
      = Inl InvalidTag"
    | d where "gcm_decrypt (aesgcm c) kek (pv_dek_nonce f) (pv_dek_blob f) (pv_kdf_header f) = Inr d"
      and "length d = 32"
    using w by force
  then show thesis
  proof cases
    case 1
    with f kek klen h w have "vault_open c pw data w = Some (Inl (auth_error None), w)"
      by (simp add: vault_open_def aead_decrypt_def aead_lengths)
    with 1 kek show thesis by (intro wrap) (simp_all add: unwraps_def)
  next
    case (2 d)
    have un: "unwraps c pw (pv_params f) (pv_salt f) (pv_kdf_header f) (pv_dek_nonce f)
        (pv_dek_blob f) d"
      using kek 2(1) by (simp add: unwraps_def)
    have wrapok: "aead_decrypt (aesgcm c) kek (pv_dek_nonce f) (pv_dek_blob f) (pv_kdf_header f)
        = Inr d"
      using klen w 2(1) by (intro aead_decrypt_of_gcm) simp_all
    have "gcm_domain d (pv_body_nonce f) (pv_body_blob f) (pv_full_header f)"
      using 2(2) h w len data by (simp add: gcm_domain_def MAX_GCM_def file_bytes_def)
    from aead_ok_decrypt [OF aead this]
    consider "gcm_decrypt (aesgcm c) d (pv_body_nonce f) (pv_body_blob f) (pv_full_header f)
        = Inl InvalidTag"
      | pt where "gcm_decrypt (aesgcm c) d (pv_body_nonce f) (pv_body_blob f) (pv_full_header f)
          = Inr pt" and "length (pv_body_blob f) = length pt + 16"
      by blast
    then show thesis
    proof cases
      case 1
      with f kek wrapok 2(2) h w have "vault_open c pw data w = Some (Inl (auth_error None),
          w\<lparr>heap := (heap w)(hnext w := d), hnext := Suc (hnext w)\<rparr>)"
        by (simp add: vault_open_def aead_decrypt_def [of _ d] aead_lengths)
      with un 1 show thesis by (intro body)
    next
      case (2 pt)
      with un \<open>length d = 32\<close> wf len data have s: "sealed c pw f d pt"
        by (simp add: sealed_def file_bytes_def MAX_GCM_def MAX_PLAINTEXT_def)
      from success [OF this] vault_open_sealed [OF c s, of w] data show thesis by simp
    qed
  qed
qed

section \<open>What each operation produces\<close>

lemma with_finally_wipe:
  "m w = Some (r, w') \<Longrightarrow> with_finally m (wipe (ByteArray a)) w = Some (r, memset_zero a w')"
  by (simp add: with_finally_def wipe_ByteArray)

lemma MAX_GCM_uint32: "n \<le> MAX_PLAINTEXT \<Longrightarrow> n + 16 < 2 ^ 32"
  by (simp add: MAX_PLAINTEXT_def)

lemma small_le_MAX [simp]: "44 \<le> MAX_GCM" "36 \<le> MAX_GCM" "32 \<le> MAX_PLAINTEXT"
  by (simp_all add: MAX_GCM_def MAX_PLAINTEXT_def)

text \<open>The file built from a wrapped key and an encrypted body.\<close>

definition sealed_fields ::
  "argon2_parameters \<Rightarrow> bytes \<Rightarrow> int \<Rightarrow> bytes \<Rightarrow> bytes \<Rightarrow> bytes \<Rightarrow> bytes \<Rightarrow> parsed_vault_file" where
  "sealed_fields p salt n dn db bn bb =
     \<lparr>pv_params = p, pv_salt = salt, pv_counter = n, pv_kdf_header = kdf_header_bytes p salt,
      pv_full_header = kdf_header_bytes p salt @ le_bytes 8 (nat n), pv_dek_nonce = dn,
      pv_dek_blob = db, pv_body_nonce = bn, pv_body_blob = bb\<rparr>"

lemma sealed_fields_simps [simp]:
  "pv_params (sealed_fields p salt n dn db bn bb) = p"
  "pv_salt (sealed_fields p salt n dn db bn bb) = salt"
  "pv_counter (sealed_fields p salt n dn db bn bb) = n"
  "pv_kdf_header (sealed_fields p salt n dn db bn bb) = kdf_header_bytes p salt"
  "pv_full_header (sealed_fields p salt n dn db bn bb)
     = kdf_header_bytes p salt @ le_bytes 8 (nat n)"
  "pv_dek_nonce (sealed_fields p salt n dn db bn bb) = dn"
  "pv_dek_blob (sealed_fields p salt n dn db bn bb) = db"
  "pv_body_nonce (sealed_fields p salt n dn db bn bb) = bn"
  "pv_body_blob (sealed_fields p salt n dn db bn bb) = bb"
  by (simp_all add: sealed_fields_def)

lemma wf_sealed_fields:
  assumes "params_ok p" "length salt = 16" "0 \<le> n" "n < 2 ^ 64" "length dn = 12"
    "length db = 48" "length bn = 12" "16 \<le> length bb" "length bb < 2 ^ 32"
  shows "wf_file (sealed_fields p salt n dn db bn bb)"
    and "serialize (kdf_header_bytes p salt) n dn db bn bb
      = Inr (file_bytes (sealed_fields p salt n dn db bn bb))"
proof -
  show wf: "wf_file (sealed_fields p salt n dn db bn bb)"
    using assms by (simp add: wf_file_def)
  from serialize_ok [OF this]
  show "serialize (kdf_header_bytes p salt) n dn db bn bb
      = Inr (file_bytes (sealed_fields p salt n dn db bn bb))"
    by simp
qed

lemma vault_create_ok:
  fixes w :: "'z machine_scheme"
  defines "salt \<equiv> tape_read (tape w) (tpos w) 16" and "d \<equiv> tape_read (tape w) (tpos w + 16) 32"
    and "dn \<equiv> tape_read (tape w) (48 + tpos w) 12" and "bn \<equiv> tape_read (tape w) (60 + tpos w) 12"
  assumes c: "crypto_ok c" and p: "params_ok (params_or_default p0)"
    and pt: "length pt \<le> MAX_PLAINTEXT"
  shows "\<exists>db bb. sealed c pw (sealed_fields (params_or_default p0) salt 0 dn db bn bb) d pt \<and>
    vault_create c pw pt p0 w =
      Some (Inr (file_bytes (sealed_fields (params_or_default p0) salt 0 dn db bn bb)),
        w\<lparr>tpos := tpos w + 72, heap := (heap w)(hnext w := replicate 32 0),
          hnext := Suc (hnext w)\<rparr>)"
proof -
  let ?p = "params_or_default p0"
  let ?h = "kdf_header_bytes ?p salt" and ?fh = "kdf_header_bytes ?p salt @ le_bytes 8 0"
  have len: "length salt = 16" "length d = 32" "length dn = 12" "length bn = 12"
    by (simp_all add: salt_def d_def dn_def bn_def)
  obtain kek where kek: "derive_key (argon2 c) pw salt ?p KEY_LENGTH = Inr kek"
    and klen: "length kek = 32"
    using derive_key_ok [OF crypto_okD(1) [OF c] p len(1), of pw]
    by (auto simp: KEY_LENGTH_def)
  have sk: "sealable (aesgcm c) kek d ?h" and sb: "sealable (aesgcm c) d pt ?fh"
    using c klen len pt by (simp_all add: sealable_def crypto_okD)
  define db bb where "db = seal (aesgcm c) kek dn d ?h" and "bb = seal (aesgcm c) d bn pt ?fh"
  have blen: "length db = 48" "length bb = length pt + 16"
    using seal_ok(2) [OF sk len(3)] seal_ok(2) [OF sb len(4)] len by (simp_all add: db_def bb_def)
  let ?f = "sealed_fields ?p salt 0 dn db bn bb"
  have wf: "wf_file ?f" "serialize ?h 0 dn db bn bb = Inr (file_bytes ?f)"
    using p len blen MAX_GCM_uint32 [OF pt] by (intro wf_sealed_fields; simp)+
  have "sealed c pw ?f d pt"
    using wf(1) len pt kek seal_ok(3) [OF sk len(3)] seal_ok(3) [OF sb len(4)]
    by (simp add: sealed_def unwraps_def db_def bb_def)
  moreover have "vault_create c pw pt p0 w = Some (Inr (file_bytes ?f),
      w\<lparr>tpos := tpos w + 72, heap := (heap w)(hnext w := replicate 32 0),
        hnext := Suc (hnext w)\<rparr>)"
    using p len kek wf(2) sk sb
    by (simp add: vault_create_def Let_def layout flip: salt_def d_def)
       (rule trans [OF with_finally_wipe],
        simp add: pbind_aead_encrypt flip: dn_def bn_def db_def bb_def, simp add: memset_zero_def)
  ultimately show ?thesis by blast
qed

section \<open>Sessions\<close>

text \<open>
  The invariant of an unlocked vault: it is open, its fields can be serialized, its wrapped key
  unwraps under the password \<open>pw\<close> to the key \<open>d\<close> in its key buffer, and its other buffer
  holds \<open>pt\<close>. It is the abstraction relation to the pair of a password and a plaintext.
\<close>

definition session_ok ::
  "crypto \<Rightarrow> bytes \<Rightarrow> bytes \<Rightarrow> bytes \<Rightarrow> unlocked_vault \<Rightarrow> 'z machine_scheme \<Rightarrow> bool" where
  "session_ok c pw d pt u w \<longleftrightarrow>
     \<not> uv_closed u \<and> params_ok (uv_params u) \<and> length (uv_salt u) = 16 \<and>
     0 \<le> uv_counter u \<and> uv_counter u < 2 ^ 64 \<and>
     uv_kdf_header u = kdf_header_bytes (uv_params u) (uv_salt u) \<and>
     length (uv_dek_nonce u) = 12 \<and> length (uv_dek_blob u) = 48 \<and>
     length d = 32 \<and> length pt \<le> MAX_PLAINTEXT \<and>
     unwraps c pw (uv_params u) (uv_salt u) (uv_kdf_header u) (uv_dek_nonce u) (uv_dek_blob u) d \<and>
     heap w (uv_dek u) = d \<and> heap w (uv_plaintext u) = pt \<and>
     uv_dek u \<noteq> uv_plaintext u \<and> uv_dek u < hnext w \<and> uv_plaintext u < hnext w"

lemma opened_session_ok: "sealed c pw f d pt \<Longrightarrow> session_ok c pw d pt (opened f (hnext w)) (after_open d pt w)"
  by (auto simp: session_ok_def sealed_def wf_file_def opened_def after_open_def)

lemma vault_read_session:
  "session_ok c pw d pt u w \<Longrightarrow> vault_read u w = Some (Inr pt, w)"
  by (simp add: vault_read_def check_open_def session_ok_def read_buffer_def)

definition after_save :: "unlocked_vault \<Rightarrow> bytes \<Rightarrow> 'z machine_scheme \<Rightarrow> 'z machine_scheme" where
  "after_save u pt w =
     w\<lparr>tpos := tpos w + 12,
       heap := (heap w)(uv_plaintext u := replicate (length (heap w (uv_plaintext u))) 0,
         hnext w := pt),
       hnext := Suc (hnext w)\<rparr>"

lemma vault_save_ok:
  fixes w :: "'z machine_scheme"
  defines "bn \<equiv> tape_read (tape w) (tpos w) 12"
  assumes c: "crypto_ok c" and s: "session_ok c pw d pt u w"
    and pt': "length pt' \<le> MAX_PLAINTEXT" and n: "uv_counter u + 1 < 2 ^ 64"
  defines "u' \<equiv> u\<lparr>uv_plaintext := hnext w, uv_counter := uv_counter u + 1\<rparr>"
  shows "session_ok c pw d pt' u' (after_save u pt' w) \<and> (\<exists>bb.
    sealed c pw (sealed_fields (uv_params u) (uv_salt u) (uv_counter u + 1) (uv_dek_nonce u)
      (uv_dek_blob u) bn bb) d pt' \<and>
    vault_save c u pt' w =
      Some (Inr (file_bytes (sealed_fields (uv_params u) (uv_salt u) (uv_counter u + 1)
        (uv_dek_nonce u) (uv_dek_blob u) bn bb), u'), after_save u pt' w))"
proof -
  note s' = s [unfolded session_ok_def]
  let ?fh = "kdf_header_bytes (uv_params u) (uv_salt u) @ le_bytes 8 (nat (uv_counter u + 1))"
  have sb: "sealable (aesgcm c) d pt' ?fh"
    using c s' pt' by (simp add: sealable_def crypto_okD)
  define bb where "bb = seal (aesgcm c) d bn pt' ?fh"
  have bn: "length bn = 12" by (simp add: bn_def)
  have bb: "length bb = length pt' + 16" "gcm_decrypt (aesgcm c) d bn bb ?fh = Inr pt'"
    using seal_ok [OF sb bn] by (simp_all add: bb_def)
  let ?f = "sealed_fields (uv_params u) (uv_salt u) (uv_counter u + 1) (uv_dek_nonce u)
      (uv_dek_blob u) bn bb"
  have wf: "wf_file ?f" "serialize (uv_kdf_header u) (uv_counter u + 1) (uv_dek_nonce u)
      (uv_dek_blob u) bn bb = Inr (file_bytes ?f)"
    using s' n bn bb(1) MAX_GCM_uint32 [OF pt'] by (simp_all add: wf_sealed_fields)
  have "sealed c pw ?f d pt'"
    using wf(1) s' pt' bb(2) by (auto simp: sealed_def)
  moreover have "vault_save c u pt' w = Some (Inr (file_bytes ?f, u'), after_save u pt' w)"
    using s' n wf(2) sb
    by (simp add: vault_save_def check_open_def Let_def pbind_aead_encrypt u'_def after_save_def
        memset_zero_def flip: bn_def bb_def)
  moreover have "session_ok c pw d pt' u' (after_save u pt' w)"
    using s' pt' n by (auto simp: session_ok_def u'_def after_save_def)
  ultimately show ?thesis by blast
qed

lemma vault_change_password_ok:
  fixes w :: "'z machine_scheme"
  defines "salt \<equiv> tape_read (tape w) (tpos w) 16" and "dn \<equiv> tape_read (tape w) (tpos w + 16) 12"
    and "bn \<equiv> tape_read (tape w) (28 + tpos w) 12"
  assumes c: "crypto_ok c" and s: "session_ok c pw d pt u w"
    and q: "params_ok (case p of None \<Rightarrow> uv_params u | Some q \<Rightarrow> q)"
    and n: "uv_counter u + 1 < 2 ^ 64"
  shows "\<exists>db bb f u'. f = sealed_fields (case p of None \<Rightarrow> uv_params u | Some q \<Rightarrow> q) salt
        (uv_counter u + 1) dn db bn bb \<and> sealed c pw' f d pt \<and>
    u' = u\<lparr>uv_params := pv_params f, uv_salt := salt, uv_kdf_header := pv_kdf_header f,
      uv_dek_nonce := dn, uv_dek_blob := db, uv_counter := uv_counter u + 1\<rparr> \<and>
    session_ok c pw' d pt u' (w\<lparr>tpos := 40 + tpos w\<rparr>) \<and>
    vault_change_password c u pw' p w = Some (Inr (file_bytes f, u'), w\<lparr>tpos := 40 + tpos w\<rparr>)"
proof -
  note s' = s [unfolded session_ok_def]
  define q where "q = (case p of None \<Rightarrow> uv_params u | Some q \<Rightarrow> q)"
  have qok: "params_ok q" using assms(6) by (simp add: q_def)
  let ?h = "kdf_header_bytes q salt" and ?n = "uv_counter u + 1"
  let ?fh = "?h @ le_bytes 8 (nat ?n)"
  have len: "length salt = 16" "length dn = 12" "length bn = 12"
    by (simp_all add: salt_def dn_def bn_def)
  obtain kek where kek: "derive_key (argon2 c) pw' salt q KEY_LENGTH = Inr kek"
    and klen: "length kek = 32"
    using derive_key_ok [OF crypto_okD(1) [OF c] qok len(1), of pw']
    by (auto simp: KEY_LENGTH_def)
  have sk: "sealable (aesgcm c) kek d ?h" and sb: "sealable (aesgcm c) d pt ?fh"
    using c klen len s' by (simp_all add: sealable_def crypto_okD)
  define db bb where "db = seal (aesgcm c) kek dn d ?h" and "bb = seal (aesgcm c) d bn pt ?fh"
  have blen: "length db = 48" "length bb = length pt + 16"
    using seal_ok(2) [OF sk len(2)] seal_ok(2) [OF sb len(3)] s' by (simp_all add: db_def bb_def)
  let ?f = "sealed_fields q salt ?n dn db bn bb"
  let ?u = "u\<lparr>uv_params := q, uv_salt := salt, uv_kdf_header := ?h, uv_dek_nonce := dn,
      uv_dek_blob := db, uv_counter := ?n\<rparr>"
  have wf: "wf_file ?f" "serialize ?h ?n dn db bn bb = Inr (file_bytes ?f)"
    using qok len blen s' n MAX_GCM_uint32 [of "length pt"] by (simp_all add: wf_sealed_fields)
  have un: "unwraps c pw' q salt ?h dn db d"
    using kek seal_ok(3) [OF sk len(2)] by (simp add: unwraps_def db_def)
  have "sealed c pw' ?f d pt"
    using wf(1) s' un seal_ok(3) [OF sb len(3)] by (simp add: sealed_def bb_def)
  moreover have "session_ok c pw' d pt ?u (w\<lparr>tpos := 40 + tpos w\<rparr>)"
    using s' qok len n un blen by (simp add: session_ok_def)
  moreover have "vault_change_password c u pw' p w
      = Some (Inr (file_bytes ?f, ?u), w\<lparr>tpos := 40 + tpos w\<rparr>)"
    using s' qok n kek len wf(2) sk sb
    by (simp add: vault_change_password_def check_open_def Let_def pbind_aead_encrypt layout
        flip: q_def salt_def dn_def bn_def db_def bb_def)
  ultimately show ?thesis
    by (intro exI [of _ db] exI [of _ bb] exI [of _ ?f] exI [of _ ?u]) (simp add: q_def)
qed

end
