(* ===== verification/VaultSession.thy ===== *)
theory VaultSession
  imports Vault
begin

text \<open>
  Whole sessions of an unlocked vault: any sequence of \<open>save\<close> and \<open>change_password\<close> calls,
  each on the object the previous one left. The abstract vault is a password, a plaintext and
  a counter; \<open>vault_run\<close> is shown to implement it (\<open>spec_run\<close>): after every sequence the
  last file returned opens under the last password to the last plaintext.
\<close>

section \<open>Operations\<close>

datatype vault_op = Save bytes | ChangePassword bytes "argon2_parameters option"

fun vault_step ::
  "crypto \<Rightarrow> unlocked_vault \<Rightarrow> vault_op \<Rightarrow> ('z machine_scheme, bytes \<times> unlocked_vault) prog" where
  "vault_step c u (Save pt) = vault_save c u pt"
| "vault_step c u (ChangePassword pw p) = vault_change_password c u pw p"

text \<open>Run the operations in order, collecting the files they return; stop at an exception.\<close>

fun vault_run ::
  "crypto \<Rightarrow> unlocked_vault \<Rightarrow> vault_op list \<Rightarrow>
     ('z machine_scheme, bytes list \<times> unlocked_vault) prog" where
  "vault_run c u [] = ret ([], u)"
| "vault_run c u (x # xs) =
     pbind (vault_step c u x) (\<lambda>(data, u').
     pbind (vault_run c u' xs) (\<lambda>(files, u'').
     ret (data # files, u'')))"

section \<open>The abstract vault\<close>

fun spec_password :: "bytes \<Rightarrow> vault_op list \<Rightarrow> bytes" where
  "spec_password pw [] = pw"
| "spec_password pw (Save pt # xs) = spec_password pw xs"
| "spec_password pw (ChangePassword pw' p # xs) = spec_password pw' xs"

fun spec_plaintext :: "bytes \<Rightarrow> vault_op list \<Rightarrow> bytes" where
  "spec_plaintext pt [] = pt"
| "spec_plaintext pt (Save pt' # xs) = spec_plaintext pt' xs"
| "spec_plaintext pt (ChangePassword pw p # xs) = spec_plaintext pt xs"

text \<open>The inputs the code accepts: bodies AES-GCM can encrypt, costs in the safe range.\<close>

fun op_ok :: "vault_op \<Rightarrow> bool" where
  "op_ok (Save pt) \<longleftrightarrow> length pt \<le> MAX_PLAINTEXT"
| "op_ok (ChangePassword pw p) \<longleftrightarrow> (case p of None \<Rightarrow> True | Some q \<Rightarrow> params_ok q)"

fun step_password :: "bytes \<Rightarrow> vault_op \<Rightarrow> bytes" where
  "step_password pw (Save pt) = pw"
| "step_password pw (ChangePassword pw' p) = pw'"

fun step_plaintext :: "bytes \<Rightarrow> vault_op \<Rightarrow> bytes" where
  "step_plaintext pt (Save pt') = pt'"
| "step_plaintext pt (ChangePassword pw p) = pt"

lemma spec_Cons:
  "spec_password pw (x # xs) = spec_password (step_password pw x) xs"
  "spec_plaintext pt (x # xs) = spec_plaintext (step_plaintext pt x) xs"
  by (cases x; simp)+

section \<open>One step\<close>

text \<open>
  The file a step writes: sealed under the abstract password, with the counter one higher and
  a body nonce read from the tape at or after the position where the step started and before
  the position where it ended.
\<close>

definition step_file ::
  "crypto \<Rightarrow> bytes \<Rightarrow> bytes \<Rightarrow> bytes \<Rightarrow> int \<Rightarrow> bytes \<Rightarrow> 'z machine_scheme \<Rightarrow> 'z machine_scheme \<Rightarrow> bool" where
  "step_file c pw d pt n data w w' \<longleftrightarrow>
     (\<exists>f i. data = file_bytes f \<and> sealed c pw f d pt \<and> pv_counter f = n \<and>
        tpos w \<le> i \<and> i + 12 = tpos w' \<and> pv_body_nonce f = tape_read (tape w) i 12)"

text \<open>
  Memory hygiene: of the buffers allocated since the frontier was \<open>h\<close>, all but the two the
  session is using hold zeros only.
\<close>

definition clean :: "nat \<Rightarrow> unlocked_vault \<Rightarrow> 'z machine_scheme \<Rightarrow> bool" where
  "clean h u w \<longleftrightarrow>
     (\<forall>a. h \<le> a \<and> a < hnext w \<and> a \<noteq> uv_dek u \<and> a \<noteq> uv_plaintext u \<longrightarrow> zeroed (heap w a))"

lemma clean_after_save:
  "clean h u w \<Longrightarrow> clean h (u\<lparr>uv_plaintext := hnext w, uv_counter := n\<rparr>) (after_save u pt w)"
  by (auto simp: clean_def after_save_def less_Suc_eq)

lemma after_save_extends: "extends w (after_save u pt w)"
  by (simp add: extends_def after_save_def)

lemma vault_step_ok:
  assumes c: "crypto_ok c" and s: "session_ok c pw d pt u w" and x: "op_ok x"
    and n: "uv_counter u + 1 < 2 ^ 64"
  shows "\<exists>data u' w'. vault_step c u x w = Some (Inr (data, u'), w') \<and> extends w w' \<and>
    session_ok c (step_password pw x) d (step_plaintext pt x) u' w' \<and>
    uv_counter u' = uv_counter u + 1 \<and> (\<forall>h. clean h u w \<longrightarrow> clean h u' w') \<and>
    step_file c (step_password pw x) d (step_plaintext pt x) (uv_counter u + 1) data w w'"
proof (cases x)
  case (Save pt')
  with x have "length pt' \<le> MAX_PLAINTEXT" by simp
  let ?u = "u\<lparr>uv_plaintext := hnext w, uv_counter := uv_counter u + 1\<rparr>"
  let ?f = "sealed_fields (uv_params u) (uv_salt u) (uv_counter u + 1) (uv_dek_nonce u)
      (uv_dek_blob u) (tape_read (tape w) (tpos w) 12)"
  from vault_save_ok [OF c s \<open>length pt' \<le> MAX_PLAINTEXT\<close> n] obtain bb where
      so: "session_ok c pw d pt' ?u (after_save u pt' w)"
    and se: "sealed c pw (?f bb) d pt'"
    and run: "vault_save c u pt' w = Some (Inr (file_bytes (?f bb), ?u), after_save u pt' w)"
    by blast
  have "step_file c pw d pt' (uv_counter u + 1) (file_bytes (?f bb)) w (after_save u pt' w)"
    unfolding step_file_def using se
    by (intro exI [of _ "?f bb"] exI [of _ "tpos w"]) (simp add: after_save_def)
  with so run Save show ?thesis
    by (intro exI [of _ "file_bytes (?f bb)"] exI [of _ ?u] exI [of _ "after_save u pt' w"])
       (simp add: after_save_extends clean_after_save)
next
  case (ChangePassword pw' p)
  with x s have "params_ok (case p of None \<Rightarrow> uv_params u | Some q \<Rightarrow> q)"
    by (auto simp: session_ok_def split: option.splits)
  from vault_change_password_ok [OF c s this n, of pw'] obtain f u' where
    "uv_dek u' = uv_dek u" "uv_plaintext u' = uv_plaintext u"
    "sealed c pw' f d pt" "pv_counter f = uv_counter u + 1"
    "pv_body_nonce f = tape_read (tape w) (28 + tpos w) 12"
    "uv_counter u' = uv_counter u + 1" "session_ok c pw' d pt u' (w\<lparr>tpos := 40 + tpos w\<rparr>)"
    "vault_change_password c u pw' p w = Some (Inr (file_bytes f, u'), w\<lparr>tpos := 40 + tpos w\<rparr>)"
    by auto
  with ChangePassword show ?thesis
    by (auto simp: step_file_def extends_def clean_def
        intro!: exI [of _ f] exI [of _ "28 + tpos w"])
qed

section \<open>A whole run\<close>

text \<open>
  The files of a run, each sealed under the password and plaintext current at that point, with
  consecutive counters and with body nonces read from increasing, non-overlapping stretches of
  the random tape.
\<close>

fun run_files ::
  "crypto \<Rightarrow> bytes \<Rightarrow> bytes \<Rightarrow> bytes \<Rightarrow> int \<Rightarrow> (nat \<Rightarrow> byte) \<Rightarrow> nat \<Rightarrow> vault_op list \<Rightarrow> bytes list \<Rightarrow> bool" where
  "run_files c pw d pt n t i [] files \<longleftrightarrow> files = []"
| "run_files c pw d pt n t i (x # xs) [] \<longleftrightarrow> False"
| "run_files c pw d pt n t i (x # xs) (data # files) \<longleftrightarrow>
     (\<exists>f j. data = file_bytes f \<and> sealed c (step_password pw x) f d (step_plaintext pt x) \<and>
        pv_counter f = n + 1 \<and> i \<le> j \<and> pv_body_nonce f = tape_read t j 12 \<and>
        run_files c (step_password pw x) d (step_plaintext pt x) (n + 1) t (j + 12) xs files)"

lemma vault_run_ok:
  assumes "crypto_ok c"
  shows "session_ok c pw d pt u w \<Longrightarrow> list_all op_ok xs \<Longrightarrow>
    uv_counter u + int (length xs) < 2 ^ 64 \<Longrightarrow>
    \<exists>files u' w'. vault_run c u xs w = Some (Inr (files, u'), w') \<and> extends w w' \<and>
      session_ok c (spec_password pw xs) d (spec_plaintext pt xs) u' w' \<and>
      uv_counter u' = uv_counter u + int (length xs) \<and>
      (\<forall>h. clean h u w \<longrightarrow> clean h u' w') \<and>
      run_files c pw d pt (uv_counter u) (tape w) (tpos w) xs files"
proof (induction xs arbitrary: pw pt u w)
  case Nil
  then show ?case by simp
next
  case (Cons x xs)
  from Cons.prems have x: "op_ok x" and n: "uv_counter u + 1 < 2 ^ 64" by simp_all
  from vault_step_ok [OF assms Cons.prems(1) x n] obtain data u1 w1 where
      step: "vault_step c u x w = Some (Inr (data, u1), w1)" and e1: "extends w w1"
    and s1: "session_ok c (step_password pw x) d (step_plaintext pt x) u1 w1"
    and n1: "uv_counter u1 = uv_counter u + 1" and c1: "\<forall>h. clean h u w \<longrightarrow> clean h u1 w1"
    and f1: "step_file c (step_password pw x) d (step_plaintext pt x) (uv_counter u + 1) data w w1"
    by blast
  from Cons.prems(2,3) n1 have "list_all op_ok xs" "uv_counter u1 + int (length xs) < 2 ^ 64"
    by simp_all
  from Cons.IH [OF s1 this] obtain files u' w' where
      run: "vault_run c u1 xs w1 = Some (Inr (files, u'), w')" and e2: "extends w1 w'"
    and s2: "session_ok c (spec_password (step_password pw x) xs) d
        (spec_plaintext (step_plaintext pt x) xs) u' w'"
    and n2: "uv_counter u' = uv_counter u1 + int (length xs)"
    and c2: "\<forall>h. clean h u1 w1 \<longrightarrow> clean h u' w'"
    and f2: "run_files c (step_password pw x) d (step_plaintext pt x) (uv_counter u1) (tape w1)
        (tpos w1) xs files"
    by blast
  have "vault_run c u (x # xs) w = Some (Inr (data # files, u'), w')"
    using step run by (simp add: pbind_def)
  moreover from f1 obtain f i where "data = file_bytes f"
    "sealed c (step_password pw x) f d (step_plaintext pt x)" "pv_counter f = uv_counter u + 1"
    "tpos w \<le> i" "i + 12 = tpos w1" "pv_body_nonce f = tape_read (tape w) i 12"
    by (auto simp: step_file_def)
  then have "run_files c pw d pt (uv_counter u) (tape w) (tpos w) (x # xs) (data # files)"
    using f2 n1 e1 unfolding run_files.simps
    by (intro exI [of _ f] exI [of _ i]) (simp add: extends_def)
  ultimately show ?case
    using extends_trans [OF e1 e2] s2 n1 n2 c1 c2 by (auto simp: spec_Cons)
qed

text \<open>The last file of a run, and the file the abstract vault describes.\<close>

lemma run_files_last:
  "run_files c pw d pt n t i xs files \<Longrightarrow> xs \<noteq> [] \<Longrightarrow>
     files \<noteq> [] \<and> (\<exists>f. last files = file_bytes f \<and>
       sealed c (spec_password pw xs) f d (spec_plaintext pt xs) \<and>
       pv_counter f = n + int (length xs))"
proof (induction c pw d pt n t i xs files rule: run_files.induct)
  case (3 c pw d pt n t i x xs data files)
  from "3.prems"(1) obtain f j where f: "data = file_bytes f"
      "sealed c (step_password pw x) f d (step_plaintext pt x)" "pv_counter f = n + 1"
    and rest: "run_files c (step_password pw x) d (step_plaintext pt x) (n + 1) t (j + 12) xs files"
    by auto
  show ?case
  proof (cases "xs = []")
    case True
    with f rest show ?thesis by (auto simp: spec_Cons)
  next
    case False
    from "3.IH" [OF rest this] show ?thesis by (auto simp: spec_Cons add.assoc)
  qed
qed simp_all

lemma run_files_length: "run_files c pw d pt n t i xs files \<Longrightarrow> length files = length xs"
  by (induction c pw d pt n t i xs files rule: run_files.induct) auto

text \<open>Where the body nonces of a run's files were read from the tape.\<close>

lemma run_files_nonces:
  "run_files c pw d pt n t i xs files \<Longrightarrow>
     \<exists>js. length js = length files \<and> (\<forall>j \<in> set js. i \<le> j) \<and>
       sorted_wrt (\<lambda>j k. j + 12 \<le> k) js \<and>
       list_all2 (\<lambda>data j. \<exists>f. parse data = Inr f \<and> pv_body_nonce f = tape_read t j 12) files js"
proof (induction c pw d pt n t i xs files rule: run_files.induct)
  case (3 c pw d pt n t i x xs data files)
  from "3.prems" obtain f j where f: "data = file_bytes f"
      "sealed c (step_password pw x) f d (step_plaintext pt x)" "i \<le> j"
      "pv_body_nonce f = tape_read t j 12"
    and rest: "run_files c (step_password pw x) d (step_plaintext pt x) (n + 1) t (j + 12) xs files"
    by auto
  from f(1,2) have p: "parse data = Inr f" by (simp add: sealed_def parse_file_bytes)
  from "3.IH" [OF rest] obtain js where js: "length js = length files" "\<forall>k \<in> set js. j + 12 \<le> k"
      "sorted_wrt (\<lambda>j k. j + 12 \<le> k) js"
      "list_all2 (\<lambda>data j. \<exists>f. parse data = Inr f \<and> pv_body_nonce f = tape_read t j 12) files js"
    by blast
  show ?case
    using p f(3,4) js by (intro exI [of _ "j # js"]) fastforce
qed simp_all

end
