(* ===== verification/ReferenceCrypto.thy ===== *)
theory ReferenceCrypto
  imports VaultSession
begin

text \<open>
  A concrete instance of the two third-party primitives, with no security whatsoever, that has
  the functional behaviour the development relies on (\<open>crypto_ok\<close>). It is used by the
  witnesses only: it shows that the hypotheses on Argon2id and AES-GCM can hold and lets the
  program be evaluated on concrete inputs.
\<close>

definition sample_tag :: "bytes \<Rightarrow> bytes \<Rightarrow> bytes \<Rightarrow> bytes \<Rightarrow> bytes" where
  "sample_tag k n p a =
     [sum_list k, sum_list n, sum_list p, sum_list a, hd k, of_nat (length p)] @ take 10 n"

definition sample_encrypt :: "bytes \<Rightarrow> bytes \<Rightarrow> bytes \<Rightarrow> bytes \<Rightarrow> bytes result" where
  "sample_encrypt k n p a = Inr (p @ sample_tag k n p a)"

definition sample_decrypt :: "bytes \<Rightarrow> bytes \<Rightarrow> bytes \<Rightarrow> bytes \<Rightarrow> bytes result" where
  "sample_decrypt k n b a =
     (let p = take (length b - 16) b in
      if 16 \<le> length b \<and> drop (length b - 16) b = sample_tag k n p a then Inr p
      else Inl InvalidTag)"

definition sample_argon2 :: argon2_fun where
  "sample_argon2 pw salt t m p n = Inr (take n (pw @ salt @ replicate n 7))"

definition sample_crypto :: crypto where
  "sample_crypto =
     \<lparr>argon2 = sample_argon2,
      aesgcm = \<lparr>gcm_encrypt = sample_encrypt, gcm_decrypt = sample_decrypt\<rparr>\<rparr>"

lemma length_sample_tag: "length n = 12 \<Longrightarrow> length (sample_tag k n p a) = 16"
  by (simp add: sample_tag_def)

lemma sample_kdf_ok: "kdf_ok sample_argon2"
  by (auto simp: kdf_ok_def sample_argon2_def min_def)

lemma sample_aead_ok: "aead_ok \<lparr>gcm_encrypt = sample_encrypt, gcm_decrypt = sample_decrypt\<rparr>"
  unfolding aead_ok_def
proof (intro conjI allI impI)
  fix k n p a
  assume "gcm_domain k n p a \<and> length p \<le> MAX_PLAINTEXT"
  then have "length (sample_tag k n p a) = 16"
    by (simp add: gcm_domain_def length_sample_tag)
  then show "\<exists>b. gcm_encrypt \<lparr>gcm_encrypt = sample_encrypt, gcm_decrypt = sample_decrypt\<rparr> k n p a = Inr b
      \<and> length b = length p + 16
      \<and> gcm_decrypt \<lparr>gcm_encrypt = sample_encrypt, gcm_decrypt = sample_decrypt\<rparr> k n b a = Inr p"
    by (simp add: sample_encrypt_def sample_decrypt_def)
next
  fix k n b a
  assume "gcm_domain k n b a"
  then have tag: "\<And>p. length (sample_tag k n p a) = 16"
    by (simp add: gcm_domain_def length_sample_tag)
  let ?p = "take (length b - 16) b"
  have "sample_decrypt k n b a = Inr ?p \<Longrightarrow> ?p @ sample_tag k n ?p a = b \<and> length b = length ?p + 16"
    by (auto simp: sample_decrypt_def Let_def split: if_splits) (metis append_take_drop_id)
  then show "gcm_decrypt \<lparr>gcm_encrypt = sample_encrypt, gcm_decrypt = sample_decrypt\<rparr> k n b a
        = Inl InvalidTag \<or>
      (\<exists>p. gcm_decrypt \<lparr>gcm_encrypt = sample_encrypt, gcm_decrypt = sample_decrypt\<rparr> k n b a = Inr p
        \<and> gcm_encrypt \<lparr>gcm_encrypt = sample_encrypt, gcm_decrypt = sample_decrypt\<rparr> k n p a = Inr b
        \<and> length b = length p + 16)"
    by (auto simp: sample_encrypt_def sample_decrypt_def Let_def)
qed

lemma sample_crypto_ok: "crypto_ok sample_crypto"
  by (simp add: crypto_ok_def sample_crypto_def sample_kdf_ok sample_aead_ok)

text \<open>A machine: the random source yields 0, 1, 2, \<open>\<dots>\<close>; no buffer is allocated yet.\<close>

definition sample_machine :: machine where
  "sample_machine = \<lparr>tape = (\<lambda>i. of_nat i), tpos = 0, heap = (\<lambda>a. []), hnext = 0\<rparr>"

definition sample_password :: bytes where
  "sample_password = blit ''correct horse''"

lemma sample_bytes_small: "length (blit s) \<le> MAX_PLAINTEXT" if "length s < 100" for s
  using that by (simp add: MAX_PLAINTEXT_def)

end
