(* ===== verification/VaultProperties.thy ===== *)
theory VaultProperties
  imports ReferenceCrypto
begin

text \<open>
  The properties of the container and of the envelope: round trips, what an accepted file is,
  detection of changes, the errors of \<open>open_vault\<close>, sessions of saves and password changes,
  nonces, and the wiping of secret buffers. Each theorem with a hypothesis is followed by a
  witness that applies it to the sample primitives of \<open>ReferenceCrypto\<close>.
\<close>

section \<open>Facts shared by the properties\<close>

lemma sample_params_ok [simp]: "params_ok (params_or_default None)"
  by (simp add: params_or_default_def)

lemma sample_body_small [simp]: "length (blit ''hello'') \<le> MAX_PLAINTEXT"
  by (simp add: MAX_PLAINTEXT_def)

text \<open>Create, then open: the machine after each, and the session it leaves.\<close>

lemma create_then_open:
  assumes "crypto_ok c" and "params_ok (params_or_default p)" and "length pt \<le> MAX_PLAINTEXT"
  shows "\<exists>f d w1. sealed c pw f d pt \<and> vault_create c pw pt p w = Some (Inr (file_bytes f), w1) \<and>
    pv_params f = params_or_default p \<and> pv_counter f = 0 \<and>
    vault_open c pw (file_bytes f) w1 = Some (Inr (opened f (hnext w1)), after_open d pt w1) \<and>
    session_ok c pw d pt (opened f (hnext w1)) (after_open d pt w1)"
proof -
  from vault_create_ok [OF assms, of pw w] obtain f d w1 where
    "sealed c pw f d pt" "vault_create c pw pt p w = Some (Inr (file_bytes f), w1)"
    "pv_params f = params_or_default p" "pv_counter f = 0"
    by fastforce
  with vault_open_sealed [OF assms(1)] opened_session_ok show ?thesis by blast
qed

lemma opened_simps [simp]:
  "uv_params (opened f a) = pv_params f" "uv_counter (opened f a) = pv_counter f"
  "uv_salt (opened f a) = pv_salt f" "uv_kdf_header (opened f a) = pv_kdf_header f"
  "uv_dek_nonce (opened f a) = pv_dek_nonce f" "uv_dek_blob (opened f a) = pv_dek_blob f"
  "uv_dek (opened f a) = a" "uv_plaintext (opened f a) = Suc a" "uv_closed (opened f a) = False"
  by (simp_all add: opened_def)

lemma after_open_simps [simp]:
  "tape (after_open d pt w) = tape w" "tpos (after_open d pt w) = tpos w"
  "machine.more (after_open d pt w) = machine.more w" "hnext (after_open d pt w) = Suc (Suc (hnext w))"
  "heap (after_open d pt w) (hnext w) = d" "heap (after_open d pt w) (Suc (hnext w)) = pt"
  by (simp_all add: after_open_def)

section \<open>The container\<close>

text \<open>C11: Serializing valid fields and parsing the bytes gives the fields back, and parsing any
  bytes and serializing the fields gives exactly those bytes back: the format has one encoding
  per file and \<open>parse\<close> accepts nothing else.\<close>

theorem parse_serialize_inverse:
  "parse data = Inr f \<longleftrightarrow>
     wf_file f \<and>
     serialize (pv_kdf_header f) (pv_counter f) (pv_dek_nonce f) (pv_dek_blob f) (pv_body_nonce f)
       (pv_body_blob f) = Inr data"
  using container.dec_Some_iff [of data f] serialize_ok [of f] by auto

text \<open>A rejected file is rejected with \<open>VaultFormatError\<close> and nothing else; an accepted one has
  Argon2 costs in the safe range, headers that are the rebuilt headers of its fields, and a
  body of at least a tag.\<close>

theorem parse_total:
  "case parse data of
     Inl e \<Rightarrow> \<exists>m. e = VaultFormatError m
   | Inr f \<Rightarrow> validate_params (pv_params f) = Inr () \<and>
       build_kdf_header (pv_params f) (pv_salt f) = Inr (pv_kdf_header f) \<and>
       build_full_header (pv_params f) (pv_salt f) (pv_counter f) = Inr (pv_full_header f) \<and>
       pv_kdf_header f @ drop 36 (pv_full_header f) = take 44 data \<and>
       length data = 120 + length (pv_body_blob f) \<and> TAG_LENGTH \<le> length (pv_body_blob f)"
proof (cases "parse data")
  case (Inl e)
  then show ?thesis using parse_InlD by auto
next
  case (Inr f)
  with parse_sound have wf: "wf_file f" and data: "file_bytes f = data" by auto
  from wf data have "take 44 data = pv_full_header f" "length data = 120 + length (pv_body_blob f)"
    by (auto simp: file_bytes_def wf_file_def)
  with wf Inr show ?thesis
    by (simp add: wf_file_headers validate_params_Inr_iff wf_file_def layout)
qed

definition sample_fields :: "int \<Rightarrow> parsed_vault_file" where
  "sample_fields n = sealed_fields default_parameters (replicate 16 1) n (replicate 12 2)
     (replicate 48 3) (replicate 12 4) (replicate 20 5)"

lemma sample_fields_parse:
  "0 \<le> n \<Longrightarrow> n < 2 ^ 64 \<Longrightarrow> parse (file_bytes (sample_fields n)) = Inr (sample_fields n)"
  by (simp add: sample_fields_def parse_file_bytes wf_sealed_fields)

lemma sample_fields_counter [simp]: "pv_counter (sample_fields n) = n"
  by (simp add: sample_fields_def)

section \<open>Opening\<close>

text \<open>C10: A vault created with a password opens with that password: the plaintext comes back
  unchanged, the counter is 0 and the parameters are those asked for, for every plaintext
  (the empty one included) and every choice of the random source.\<close>

theorem create_open_roundtrip:
  assumes "crypto_ok c" and "params_ok (params_or_default p)" and "length pt \<le> MAX_PLAINTEXT"
  shows "\<exists>data w1 u w2. vault_create c pw pt p w = Some (Inr data, w1) \<and>
    vault_open c pw data w1 = Some (Inr u, w2) \<and> vault_read u w2 = Some (Inr pt, w2) \<and>
    uv_counter u = 0 \<and> uv_params u = params_or_default p"
  using create_then_open [OF assms, of pw w] vault_read_session by fastforce

theorem create_open_roundtrip_witness:
  "\<exists>data w1 u w2.
     vault_create sample_crypto sample_password (blit ''hello'') None sample_machine
       = Some (Inr data, w1) \<and>
     vault_open sample_crypto sample_password data w1 = Some (Inr u, w2) \<and>
     vault_read u w2 = Some (Inr (blit ''hello''), w2)"
  using create_open_roundtrip [OF sample_crypto_ok sample_params_ok sample_body_small,
      of sample_password sample_machine]
  by blast

text \<open>C9: Whatever \<open>open_vault\<close> accepts is an honest vault file, byte for byte: re-deriving the
  key-encryption key, re-encrypting the recovered data key and plaintext under the stored
  nonces and the rebuilt headers, and serializing gives back exactly the bytes that were
  opened. No other byte string yields this key, content and header.\<close>

theorem open_accepts_only_honest_files:
  assumes "crypto_ok c" and "length data \<le> MAX_GCM"
    and "vault_open c pw data w = Some (Inr u, w')"
  shows "\<exists>kek h fh bn bb.
    derive_key (argon2 c) pw (uv_salt u) (uv_params u) KEY_LENGTH = Inr kek \<and>
    build_kdf_header (uv_params u) (uv_salt u) = Inr h \<and>
    build_full_header (uv_params u) (uv_salt u) (uv_counter u) = Inr fh \<and>
    gcm_encrypt (aesgcm c) kek (uv_dek_nonce u) (heap w' (uv_dek u)) h = Inr (uv_dek_blob u) \<and>
    gcm_encrypt (aesgcm c) (heap w' (uv_dek u)) bn (heap w' (uv_plaintext u)) fh = Inr bb \<and>
    serialize h (uv_counter u) (uv_dek_nonce u) (uv_dek_blob u) bn bb = Inr data"
proof -
  from vault_open_InrD [OF assms] obtain f d pt where data: "data = file_bytes f"
    and s: "sealed c pw f d pt" and u: "u = opened f (hnext w)" and w': "w' = after_open d pt w"
    by blast
  from s have wf: "wf_file f" and len: "length d = 32"
    and body: "gcm_decrypt (aesgcm c) d (pv_body_nonce f) (pv_body_blob f) (pv_full_header f) = Inr pt"
    by (auto simp: sealed_def)
  from s obtain kek
    where kek: "derive_key (argon2 c) pw (pv_salt f) (pv_params f) KEY_LENGTH = Inr kek"
      and dek: "gcm_decrypt (aesgcm c) kek (pv_dek_nonce f) (pv_dek_blob f) (pv_kdf_header f) = Inr d"
    unfolding sealed_def by (blast elim: unwrapsE)
  have klen: "length kek = 32" using assms(1) kek by (rule kek_length)
  have aead: "aead_ok (aesgcm c)" using assms(1) by (rule crypto_okD)
  have "length (pv_body_blob f) \<le> MAX_GCM"
    using assms(2) data by (simp add: file_bytes_def)
  then have "gcm_encrypt (aesgcm c) d (pv_body_nonce f) pt (pv_full_header f) = Inr (pv_body_blob f)"
    using aead_ok_decrypt [OF aead, of d "pv_body_nonce f" "pv_body_blob f" "pv_full_header f"]
      len body wf wf_file_headers [OF wf] by (auto simp: gcm_domain_def wf_file_def)
  moreover have "gcm_encrypt (aesgcm c) kek (pv_dek_nonce f) d (pv_kdf_header f) = Inr (pv_dek_blob f)"
    using aead_ok_decrypt [OF aead, of kek "pv_dek_nonce f" "pv_dek_blob f" "pv_kdf_header f"]
      klen dek wf wf_file_headers [OF wf] by (auto simp: gcm_domain_def wf_file_def MAX_GCM_def)
  ultimately show ?thesis
    using kek wf_file_headers [OF wf] serialize_ok [OF wf] data u w' by auto
qed

text \<open>The two triples of nonce, associated data and ciphertext of a file, by the offsets of the layout table.\<close>

definition key_part :: "bytes \<Rightarrow> bytes \<times> bytes \<times> bytes" where
  "key_part data = (take 12 (drop 44 data), take 36 data, take 48 (drop 56 data))"

definition body_part :: "bytes \<Rightarrow> bytes \<times> bytes \<times> bytes" where
  "body_part data = (take 12 (drop 104 data), take 44 data, drop 120 data)"

definition decrypts :: "crypto \<Rightarrow> bytes \<Rightarrow> bytes \<times> bytes \<times> bytes \<Rightarrow> bytes \<Rightarrow> bool" where
  "decrypts c key part plain \<longleftrightarrow> (case part of (n, a, b) \<Rightarrow> gcm_decrypt (aesgcm c) key n b a = Inr plain)"

lemma file_parts:
  assumes "wf_file f"
  shows "key_part (file_bytes f) = (pv_dek_nonce f, pv_kdf_header f, pv_dek_blob f)"
    "body_part (file_bytes f) = (pv_body_nonce f, pv_full_header f, pv_body_blob f)"
  using assms by (simp_all add: key_part_def body_part_def file_bytes_def wf_file_def)

text \<open>C34: Every byte of a vault file is authenticated: when a file that was changed, in whatever way, still opens
  under the same password, the cipher has accepted a triple of nonce, associated data (the first 36 or
  all 44 bytes of the header) and ciphertext that is none of the two of the original file: under the
  key derived from the password, or, if the wrapped key is untouched, under the very data key of the
  original. So without a forged ciphertext no change of any byte, the counter included, goes unnoticed.\<close>

theorem accepted_change_is_a_forgery:
  assumes "crypto_ok c" and "length data \<le> MAX_GCM" and "length data' \<le> MAX_GCM"
    and "vault_open c pw data w = Some (Inr u, w1)" and "vault_open c pw data' v = Some (Inr u', v1)" and "data' \<noteq> data"
  shows "\<exists>kek. derive_key (argon2 c) pw (uv_salt u') (uv_params u') 32 = Inr kek \<and>
    (key_part data' \<notin> {key_part data, body_part data} \<and> decrypts c kek (key_part data') (heap v1 (uv_dek u')) \<or>
     key_part data' = key_part data \<and> heap v1 (uv_dek u') = heap w1 (uv_dek u) \<and>
       body_part data' \<notin> {key_part data, body_part data} \<and>
       decrypts c (heap w1 (uv_dek u)) (body_part data') (heap v1 (uv_plaintext u')))"
proof -
  from vault_open_InrD [OF assms(1,2,4)] obtain f d pt where f: "data = file_bytes f" "sealed c pw f d pt"
    and u: "u = opened f (hnext w)" "w1 = after_open d pt w" by blast
  from vault_open_InrD [OF assms(1,3,5)] obtain f' d' pt' where f': "data' = file_bytes f'" "sealed c pw f' d' pt'"
    and u': "u' = opened f' (hnext v)" "v1 = after_open d' pt' v" by blast
  from f(2) f'(2) have wf: "wf_file f" "wf_file f'" by (simp_all add: sealed_def)
  note parts = file_parts [OF wf(1), folded f(1)] file_parts [OF wf(2), folded f'(1)]
  from wf have len: "length (pv_kdf_header f) = 36" "length (pv_kdf_header f') = 36"
    "length (pv_full_header f) = 44" "length (pv_full_header f') = 44" by (simp_all add: wf_file_headers)
  then have cross: "key_part data' \<noteq> body_part data" "body_part data' \<noteq> key_part data" unfolding parts by auto
  from f(2) obtain kek where kek: "derive_key (argon2 c) pw (pv_salt f) (pv_params f) KEY_LENGTH = Inr kek"
    "gcm_decrypt (aesgcm c) kek (pv_dek_nonce f) (pv_dek_blob f) (pv_kdf_header f) = Inr d"
    unfolding sealed_def by (blast elim: unwrapsE)
  from f'(2) obtain kek' where kek': "derive_key (argon2 c) pw (pv_salt f') (pv_params f') KEY_LENGTH = Inr kek'"
    "gcm_decrypt (aesgcm c) kek' (pv_dek_nonce f') (pv_dek_blob f') (pv_kdf_header f') = Inr d'"
    unfolding sealed_def by (blast elim: unwrapsE)
  from f'(2) have body: "gcm_decrypt (aesgcm c) d' (pv_body_nonce f') (pv_body_blob f') (pv_full_header f') = Inr pt'"
    by (simp add: sealed_def)
  have k: "derive_key (argon2 c) pw (uv_salt u') (uv_params u') 32 = Inr kek'" using kek'(1) by (simp add: u' KEY_LENGTH_def)
  show ?thesis
  proof (cases "key_part data' = key_part data")
    case False
    then have "key_part data' \<notin> {key_part data, body_part data}" using cross by simp
    moreover have "decrypts c kek' (key_part data') (heap v1 (uv_dek u'))"
      unfolding parts decrypts_def using kek'(2) by (simp add: u')
    ultimately show ?thesis using k by blast
  next
    case True
    then have h: "pv_dek_nonce f' = pv_dek_nonce f" "pv_kdf_header f' = pv_kdf_header f" "pv_dek_blob f' = pv_dek_blob f"
      unfolding parts by simp_all
    have "pv_params f' = pv_params f \<and> pv_salt f' = pv_salt f"
      using wf h(2) by (intro kdf_header_inj) (simp_all add: wf_file_def)
    with kek kek' h have d: "d' = d" by simp
    have "body_part data' \<noteq> body_part data"
    proof
      assume "body_part data' = body_part data"
      then have b: "pv_body_nonce f' = pv_body_nonce f" "pv_full_header f' = pv_full_header f" "pv_body_blob f' = pv_body_blob f"
        unfolding parts by simp_all
      with full_header_inj [OF wf(2,1)] have "pv_counter f' = pv_counter f" by blast
      with h b have "file_bytes f' = file_bytes f" by (simp add: file_bytes_def)
      with assms(6) f(1) f'(1) show False by simp
    qed
    then have "body_part data' \<notin> {key_part data, body_part data}" using cross by simp
    moreover have "decrypts c (heap w1 (uv_dek u)) (body_part data') (heap v1 (uv_plaintext u'))"
      unfolding parts decrypts_def using body by (simp add: u u' d)
    moreover have "heap v1 (uv_dek u') = heap w1 (uv_dek u)" by (simp add: u u' d)
    ultimately show ?thesis using k True by blast
  qed
qed

section \<open>Rejection\<close>

lemma pyslice_take: "j \<le> n \<Longrightarrow> pyslice i j (take n xs) = pyslice i j xs"
  by (simp add: pyslice_def drop_take min_def)

text \<open>A header with costs outside the safe range is refused with a format error before any
  Argon2 or AES-GCM call: the outcome is the same for every implementation of the two
  primitives, every password and every machine.\<close>

theorem hostile_costs_refused_before_crypto:
  assumes "\<not> params_ok \<lparr>memory_kib = unpack_uint (pyslice 8 12 data),
    time_cost = unpack_uint (pyslice 12 16 data), parallelism = unpack_uint (pyslice 16 20 data)\<rparr>"
  shows "\<exists>m. \<forall>c pw w. vault_open c pw data w = Some (Inl (VaultFormatError m), w)"
proof (cases "parse data")
  case (Inl e)
  then show ?thesis using parse_InlD [OF Inl] by (auto simp: vault_open_def)
next
  case (Inr f)
  from parse_InrD(8,9) [OF Inr] have "params_ok \<lparr>memory_kib = unpack_uint (pyslice 8 12 data),
    time_cost = unpack_uint (pyslice 12 16 data), parallelism = unpack_uint (pyslice 16 20 data)\<rparr>"
    by (simp add: pyslice_take)
  with assms show ?thesis ..
qed

theorem hostile_costs_refused_before_crypto_witness:
  "\<exists>m. \<forall>c pw w. vault_open c pw (replicate 200 255) w = Some (Inl (VaultFormatError m), w)"
proof (rule hostile_costs_refused_before_crypto)
  have "replicate 4 (255 :: byte) = [255, 255, 255, 255]" by (simp add: numeral_eq_Suc)
  then have "unpack_uint (pyslice 8 12 (replicate 200 255)) = 4294967295"
    by (simp add: pyslice_def unpack_uint_def)
  then show "\<not> params_ok \<lparr>memory_kib = unpack_uint (pyslice 8 12 (replicate 200 255)),
      time_cost = unpack_uint (pyslice 12 16 (replicate 200 255)),
      parallelism = unpack_uint (pyslice 16 20 (replicate 200 255))\<rparr>"
    by (simp add: params_ok_def)
qed

text \<open>C37: \<open>open_vault\<close> has exactly three outcomes. A structural error depends on the file alone,
  never on the password. Otherwise the call either succeeds or fails with the one generic
  authentication error, whether the password is wrong or the file was changed.\<close>

theorem open_outcomes:
  assumes "crypto_ok c" and "length data \<le> MAX_GCM"
  shows "(\<exists>m. \<forall>pw' w'. vault_open c pw' data w' = Some (Inl (VaultFormatError m), w')) \<or>
    (\<exists>w'. vault_open c pw data w = Some (Inl (VaultAuthenticationError auth_message), w')) \<or>
    (\<exists>u w'. vault_open c pw data w = Some (Inr u, w'))"
proof (cases "parse data")
  case (Inl e)
  then show ?thesis using parse_InlD [OF Inl] by (auto simp: vault_open_def)
next
  case (Inr f)
  from assms Inr show ?thesis
    by (cases rule: vault_open_cases [where pw = pw and w = w]) (auto simp: auth_error_def)
qed

lemma sample_file_small: "length (file_bytes (sample_fields n)) \<le> MAX_GCM"
  by (simp add: file_bytes_def sample_fields_def MAX_GCM_def)

theorem open_outcomes_witness:
  "(\<exists>m. \<forall>pw' w'. vault_open sample_crypto pw' (file_bytes (sample_fields 0)) w'
       = Some (Inl (VaultFormatError m), w')) \<or>
   (\<exists>w'. vault_open sample_crypto sample_password (file_bytes (sample_fields 0)) sample_machine
       = Some (Inl (VaultAuthenticationError auth_message), w')) \<or>
   (\<exists>u w'. vault_open sample_crypto sample_password (file_bytes (sample_fields 0)) sample_machine
       = Some (Inr u, w'))"
  by (rule open_outcomes [OF sample_crypto_ok sample_file_small])

section \<open>Changed files\<close>

text \<open>
  Integrity of AES-GCM for one presented file, as the event that it is no forgery: if the wrapped
  key of \<open>g\<close> authenticates under the key derived for \<open>g\<close>, it is the wrapped key of \<open>f\<close>; if then the
  body of \<open>g\<close> authenticates under the unwrapped key, it is the body of \<open>f\<close>.
\<close>

definition no_forgery :: "crypto \<Rightarrow> bytes \<Rightarrow> parsed_vault_file \<Rightarrow> parsed_vault_file \<Rightarrow> bool" where
  "no_forgery c pw f g \<longleftrightarrow>
     (case derive_key (argon2 c) pw (pv_salt g) (pv_params g) KEY_LENGTH of
        Inl e \<Rightarrow> True
      | Inr kek \<Rightarrow>
          (case gcm_decrypt (aesgcm c) kek (pv_dek_nonce g) (pv_dek_blob g) (pv_kdf_header g) of
             Inl e \<Rightarrow> True
           | Inr d \<Rightarrow>
               (pv_dek_nonce g, pv_dek_blob g, pv_kdf_header g)
                 = (pv_dek_nonce f, pv_dek_blob f, pv_kdf_header f) \<and>
               (case gcm_decrypt (aesgcm c) d (pv_body_nonce g) (pv_body_blob g) (pv_full_header g) of
                  Inl e \<Rightarrow> True
                | Inr pt \<Rightarrow>
                    (pv_body_nonce g, pv_body_blob g, pv_full_header g)
                      = (pv_body_nonce f, pv_body_blob f, pv_full_header f))))"

lemma sealed_no_forgery_eq:
  assumes "sealed c pw g d pt" and "no_forgery c pw f g" and "wf_file f"
  shows "g = f"
proof -
  from assms(1) obtain kek
    where "derive_key (argon2 c) pw (pv_salt g) (pv_params g) KEY_LENGTH = Inr kek"
      and "gcm_decrypt (aesgcm c) kek (pv_dek_nonce g) (pv_dek_blob g) (pv_kdf_header g) = Inr d"
    unfolding sealed_def by (blast elim: unwrapsE)
  with assms(1,2) have eqs: "pv_dek_nonce g = pv_dek_nonce f" "pv_dek_blob g = pv_dek_blob f"
    "pv_body_nonce g = pv_body_nonce f" "pv_body_blob g = pv_body_blob f"
    and h: "pv_full_header g = pv_full_header f"
    by (auto simp: no_forgery_def sealed_def)
  from assms(1) have "wf_file g" by (simp add: sealed_def)
  from full_header_inj [OF this assms(3) h] eqs h show "g = f" by simp
qed

text \<open>A file that differs in any byte from a vault file \<open>data\<close> never opens, unless the change is a
  forgery of an AES-GCM tag: it is refused with a format error or the generic authentication
  error, whichever byte was changed (header, counter, nonce, key blob, length or body).\<close>

theorem changed_file_never_opens:
  assumes "crypto_ok c" and "parse data = Inr f" and "data' \<noteq> data" and "length data' \<le> MAX_GCM"
    and "\<And>g. parse data' = Inr g \<Longrightarrow> no_forgery c pw f g"
  shows "\<exists>e w'. vault_open c pw data' w = Some (Inl e, w') \<and>
    ((\<exists>m. e = VaultFormatError m) \<or> e = VaultAuthenticationError auth_message)"
proof (cases "parse data'")
  case (Inl e)
  then show ?thesis using parse_InlD [OF Inl] by (auto simp: vault_open_def)
next
  case (Inr g)
  from parse_sound [OF assms(2)] parse_sound [OF Inr] assms(3) have "wf_file f" "g \<noteq> f" by auto
  with sealed_no_forgery_eq assms(5) [OF Inr] have ns: "\<And>d pt. \<not> sealed c pw g d pt" by blast
  from assms(1,4) Inr show ?thesis
    by (cases rule: vault_open_cases [where pw = pw and w = w]) (use ns in \<open>auto simp: auth_error_def\<close>)
qed

text \<open>An honest file of the sample primitives, and the same file with its counter raised by one.\<close>

definition sample_kek :: bytes where
  "sample_kek = take 32 (sample_password @ replicate 16 1 @ replicate 32 7)"

lemma sample_derive_key:
  "derive_key (argon2 sample_crypto) sample_password (replicate 16 1) default_parameters KEY_LENGTH
     = Inr sample_kek"
  by (simp add: derive_key_def sample_crypto_def sample_argon2_def sample_kek_def SALT_LENGTH_def
      KEY_LENGTH_def)

definition honest_fields :: "int \<Rightarrow> int \<Rightarrow> parsed_vault_file" where
  "honest_fields n aad_n =
     (let h = kdf_header_bytes default_parameters (replicate 16 1);
          d = replicate 32 9
      in sealed_fields default_parameters (replicate 16 1) n (replicate 12 2)
           (seal (aesgcm sample_crypto) sample_kek (replicate 12 2) d h) (replicate 12 4)
           (seal (aesgcm sample_crypto) d (replicate 12 4) (blit ''hello'')
              (h @ le_bytes 8 (nat aad_n))))"

lemma sample_seal:
  "length n = 12 \<Longrightarrow> seal (aesgcm sample_crypto) k n p a = p @ sample_tag k n p a"
  by (simp add: seal_def sample_crypto_def sample_encrypt_def)

lemma sample_gcm_decrypt:
  "length n = 12 \<Longrightarrow> gcm_decrypt (aesgcm sample_crypto) k n (p @ sample_tag k n p a) a'
     = (if sample_tag k n p a = sample_tag k n p a' then Inr p else Inl InvalidTag)"
  by (simp add: sample_crypto_def sample_decrypt_def length_sample_tag)

lemma honest_simps [simp]:
  "pv_params (honest_fields n m) = default_parameters" "pv_counter (honest_fields n m) = n"
  "pv_salt (honest_fields n m) = replicate 16 1" "pv_dek_nonce (honest_fields n m) = replicate 12 2"
  "pv_body_nonce (honest_fields n m) = replicate 12 4"
  "pv_kdf_header (honest_fields n m) = kdf_header_bytes default_parameters (replicate 16 1)"
  "pv_full_header (honest_fields n m) =
     kdf_header_bytes default_parameters (replicate 16 1) @ le_bytes 8 (nat n)"
  "pv_dek_blob (honest_fields n m) = replicate 32 9 @ sample_tag sample_kek
     (replicate 12 2) (replicate 32 9) (kdf_header_bytes default_parameters (replicate 16 1))"
  "pv_body_blob (honest_fields n m) = blit ''hello'' @ sample_tag (replicate 32 9) (replicate 12 4)
     (blit ''hello'') (kdf_header_bytes default_parameters (replicate 16 1) @ le_bytes 8 (nat m))"
  by (simp_all add: honest_fields_def Let_def sample_seal)

lemma honest_wf: "0 \<le> n \<Longrightarrow> n < 2 ^ 64 \<Longrightarrow> wf_file (honest_fields n m)"
  unfolding honest_fields_def Let_def
  by (rule wf_sealed_fields) (simp_all add: sample_seal length_sample_tag)

lemma honest_unwraps:
  "unwraps sample_crypto sample_password default_parameters (replicate 16 1)
     (kdf_header_bytes default_parameters (replicate 16 1)) (replicate 12 2)
     (pv_dek_blob (honest_fields n m)) (replicate 32 9)"
  by (simp add: unwraps_def sample_derive_key sample_gcm_decrypt)

lemma honest_sealed: "0 \<le> n \<Longrightarrow> n < 2 ^ 64 \<Longrightarrow>
  sealed sample_crypto sample_password (honest_fields n n) (replicate 32 9) (blit ''hello'')"
  using honest_unwraps [of n n] sample_body_small
  by (simp add: sealed_def honest_wf sample_gcm_decrypt del: length_blit)

lemma le_bytes_zero: "le_bytes k 0 = replicate k 0"
  by (induction k) simp_all

lemma le_bytes_one: "le_bytes 8 (Suc 0) = 1 # replicate 7 0"
  using le_bytes.simps(2) [of 7 1] by (simp add: le_bytes_zero)

lemma sample_tag_aad: "sample_tag k n p a = sample_tag k n p a' \<Longrightarrow> sum_list a = sum_list a'"
  by (simp add: sample_tag_def)

lemma stale_body_rejected:
  "gcm_decrypt (aesgcm sample_crypto) (replicate 32 9) (replicate 12 4)
     (pv_body_blob (honest_fields 1 0)) (pv_full_header (honest_fields 1 0)) = Inl InvalidTag"
proof -
  let ?h = "kdf_header_bytes default_parameters (replicate 16 1)"
  have "sum_list (?h @ le_bytes 8 0) \<noteq> sum_list (?h @ le_bytes 8 (Suc 0))"
    by (simp add: le_bytes_zero le_bytes_one sum_list_replicate)
  with sample_tag_aad [of "replicate 32 9" "replicate 12 4" "blit ''hello''"]
  have "sample_tag (replicate 32 9) (replicate 12 4) (blit ''hello'') (?h @ le_bytes 8 0)
      \<noteq> sample_tag (replicate 32 9) (replicate 12 4) (blit ''hello'') (?h @ le_bytes 8 (Suc 0))"
    by blast
  then show ?thesis by (simp add: sample_gcm_decrypt)
qed

lemma stale_no_forgery:
  "no_forgery sample_crypto sample_password (honest_fields 0 0) (honest_fields 1 0)"
proof -
  have "gcm_decrypt (aesgcm sample_crypto) sample_kek (replicate 12 2) (pv_dek_blob (honest_fields 1 0))
      (kdf_header_bytes default_parameters (replicate 16 1)) = Inr (replicate 32 9)"
    by (simp add: sample_gcm_decrypt)
  with stale_body_rejected show ?thesis
    unfolding no_forgery_def honest_simps(1,3) sample_derive_key sum.case honest_simps(4,6)
    by simp
qed

theorem accepted_change_is_a_forgery_witness:
  "\<exists>u w1 u' w2. vault_open sample_crypto sample_password (file_bytes (honest_fields 0 0)) sample_machine = Some (Inr u, w1) \<and>
     vault_open sample_crypto sample_password (file_bytes (honest_fields 1 1)) sample_machine = Some (Inr u', w2) \<and>
     heap w2 (uv_dek u') = heap w1 (uv_dek u) \<and>
     decrypts sample_crypto (heap w1 (uv_dek u)) (body_part (file_bytes (honest_fields 1 1))) (heap w2 (uv_plaintext u'))"
proof -
  have wf: "wf_file (honest_fields 0 0)" "wf_file (honest_fields 1 1)" by (simp_all add: honest_wf)
  have s: "sealed sample_crypto sample_password (honest_fields 0 0) (replicate 32 9) (blit ''hello'')"
    "sealed sample_crypto sample_password (honest_fields 1 1) (replicate 32 9) (blit ''hello'')" by (simp_all add: honest_sealed)
  from vault_open_sealed [OF sample_crypto_ok s(1), of sample_machine] obtain u w1 where
    o: "vault_open sample_crypto sample_password (file_bytes (honest_fields 0 0)) sample_machine = Some (Inr u, w1)" by blast
  from vault_open_sealed [OF sample_crypto_ok s(2), of sample_machine] obtain u' w2 where
    o': "vault_open sample_crypto sample_password (file_bytes (honest_fields 1 1)) sample_machine = Some (Inr u', w2)" by blast
  have len: "length (file_bytes (honest_fields n n)) \<le> MAX_GCM" for n
    by (simp add: file_bytes_def length_sample_tag MAX_GCM_def)
  have k: "key_part (file_bytes (honest_fields 1 1)) = key_part (file_bytes (honest_fields 0 0))"
    unfolding file_parts [OF wf(1)] file_parts [OF wf(2)] by simp
  have ne: "1 # replicate 7 (0 :: byte) \<noteq> replicate 8 0" by (auto dest!: arg_cong [where f = hd])
  have "take 44 (file_bytes (honest_fields 1 1)) \<noteq> take 44 (file_bytes (honest_fields 0 0))"
    by (simp add: file_bytes_def le_bytes_zero le_bytes_one ne)
  then have "file_bytes (honest_fields 1 1) \<noteq> file_bytes (honest_fields 0 0)" by metis
  from accepted_change_is_a_forgery [OF sample_crypto_ok len len o o' this] k o o' show ?thesis by blast
qed

theorem changed_file_never_opens_witness:
  "\<exists>e w'. vault_open sample_crypto sample_password (file_bytes (honest_fields 1 0)) sample_machine
      = Some (Inl e, w') \<and>
    ((\<exists>m. e = VaultFormatError m) \<or> e = VaultAuthenticationError auth_message)"
proof (rule changed_file_never_opens [OF sample_crypto_ok])
  show "parse (file_bytes (honest_fields 0 0)) = Inr (honest_fields 0 0)"
    by (simp add: parse_file_bytes honest_wf)
  have "honest_fields 1 0 \<noteq> honest_fields 0 0"
    by (metis honest_simps(2) zero_neq_one)
  then show "file_bytes (honest_fields 1 0) \<noteq> file_bytes (honest_fields 0 0)"
    using container.enc_inj [of "honest_fields 1 0" "honest_fields 0 0"] by (auto simp: honest_wf)
  show "length (file_bytes (honest_fields 1 0)) \<le> MAX_GCM"
    by (simp add: file_bytes_def length_sample_tag MAX_GCM_def)
  fix g assume "parse (file_bytes (honest_fields 1 0)) = Inr g"
  then have "g = honest_fields 1 0" by (simp add: parse_file_bytes honest_wf)
  then show "no_forgery sample_crypto sample_password (honest_fields 0 0) g"
    by (simp only: stale_no_forgery)
qed

section \<open>Sessions\<close>

lemma vault_open_session:
  assumes "crypto_ok c" and "length data \<le> MAX_GCM" and "vault_open c pw data w0 = Some (Inr u, w)"
    and "vault_read u w = Some (Inr pt, w)"
  obtains d where "session_ok c pw d pt u w" and "clean (hnext w0) u w" and "hnext w0 \<le> hnext w"
    and "tpos w = tpos w0"
proof -
  from vault_open_InrD [OF assms(1-3)] obtain f d p where
    s: "sealed c pw f d p" and u: "u = opened f (hnext w0)" and w: "w = after_open d p w0"
    by blast
  from opened_session_ok [OF s, of w0] have so: "session_ok c pw d p u w" by (simp add: u w)
  from vault_read_session [OF this] assms(4) have "p = pt" by simp
  moreover have "clean (hnext w0) u w" by (auto simp: clean_def u w)
  ultimately show thesis using that so w by simp
qed

text \<open>C8: After any sequence of saves and password changes the session can make, the last file
  returned opens under the password last set, with the plaintext last saved and a counter that
  went up by one per operation (a refinement of the abstract vault of a password, a plaintext
  and a counter).\<close>

theorem session_refines_abstract_vault:
  assumes "crypto_ok c" and "length data \<le> MAX_GCM"
    and "vault_open c pw data w0 = Some (Inr u, w)" and "vault_read u w = Some (Inr pt, w)"
    and "list_all op_ok xs" and "xs \<noteq> []" and "uv_counter u + int (length xs) < 2 ^ 64"
  shows "\<exists>files u' w'. vault_run c u xs w = Some (Inr (files, u'), w') \<and>
    length files = length xs \<and>
    (\<exists>v w''. vault_open c (spec_password pw xs) (last files) w' = Some (Inr v, w'') \<and>
       vault_read v w'' = Some (Inr (spec_plaintext pt xs), w'') \<and>
       uv_counter v = uv_counter u + int (length xs))"
proof -
  obtain d where "session_ok c pw d pt u w"
    using vault_open_session [OF assms(1-4)] by blast
  from vault_run_ok [OF assms(1) this assms(5,7)] obtain files u' w' where
    run: "vault_run c u xs w = Some (Inr (files, u'), w')" and
    rf: "run_files c pw d pt (uv_counter u) (tape w) (tpos w) xs files" by blast
  from run_files_last [OF rf assms(6)] obtain f where last: "last files = file_bytes f"
    and s: "sealed c (spec_password pw xs) f d (spec_plaintext pt xs)"
    and n: "pv_counter f = uv_counter u + int (length xs)" by blast
  have "vault_read (opened f (hnext w')) (after_open d (spec_plaintext pt xs) w')
      = Some (Inr (spec_plaintext pt xs), after_open d (spec_plaintext pt xs) w')"
    using opened_session_ok [OF s] by (rule vault_read_session)
  with run run_files_length [OF rf] last n vault_open_sealed [OF assms(1) s, of w'] show ?thesis
    by fastforce
qed

definition sample_ops :: "vault_op list" where
  "sample_ops = [Save (blit ''hello''), ChangePassword (blit ''new'') None, Save []]"

lemma sample_ops_ok: "list_all op_ok sample_ops" "sample_ops \<noteq> []"
  by (simp_all add: sample_ops_def MAX_PLAINTEXT_def)

lemma honest_file_small: "length (file_bytes (honest_fields n m)) \<le> MAX_GCM"
  by (simp add: file_bytes_def length_sample_tag MAX_GCM_def)

text \<open>The honest sample file, opened on the sample machine.\<close>

lemma honest_opens:
  "vault_open sample_crypto sample_password (file_bytes (honest_fields 0 0)) sample_machine =
     Some (Inr (opened (honest_fields 0 0) (hnext sample_machine)),
       after_open (replicate 32 9) (blit ''hello'') sample_machine)"
  "vault_read (opened (honest_fields 0 0) (hnext sample_machine))
       (after_open (replicate 32 9) (blit ''hello'') sample_machine) =
     Some (Inr (blit ''hello''), after_open (replicate 32 9) (blit ''hello'') sample_machine)"
proof -
  have s: "sealed sample_crypto sample_password (honest_fields 0 0) (replicate 32 9) (blit ''hello'')"
    by (rule honest_sealed) simp_all
  show "vault_open sample_crypto sample_password (file_bytes (honest_fields 0 0)) sample_machine =
     Some (Inr (opened (honest_fields 0 0) (hnext sample_machine)),
       after_open (replicate 32 9) (blit ''hello'') sample_machine)"
    using sample_crypto_ok s by (rule vault_open_sealed)
  show "vault_read (opened (honest_fields 0 0) (hnext sample_machine))
       (after_open (replicate 32 9) (blit ''hello'') sample_machine) =
     Some (Inr (blit ''hello''), after_open (replicate 32 9) (blit ''hello'') sample_machine)"
    using opened_session_ok [OF s] by (rule vault_read_session)
qed

theorem open_accepts_only_honest_files_witness:
  "\<exists>kek h fh bn bb.
    derive_key (argon2 sample_crypto) sample_password (replicate 16 1) default_parameters KEY_LENGTH
      = Inr kek \<and>
    build_kdf_header default_parameters (replicate 16 1) = Inr h \<and>
    gcm_encrypt (aesgcm sample_crypto) (replicate 32 9) bn (blit ''hello'') fh = Inr bb \<and>
    serialize h 0 (replicate 12 2) (pv_dek_blob (honest_fields 0 0)) bn bb
      = Inr (file_bytes (honest_fields 0 0))"
  using open_accepts_only_honest_files [OF sample_crypto_ok honest_file_small honest_opens(1)]
  unfolding opened_simps honest_simps(1-4) after_open_simps by blast

theorem session_refines_abstract_vault_witness:
  "\<exists>files u' w' v w''.
     vault_run sample_crypto (opened (honest_fields 0 0) (hnext sample_machine)) sample_ops
       (after_open (replicate 32 9) (blit ''hello'') sample_machine) = Some (Inr (files, u'), w') \<and>
     vault_open sample_crypto (blit ''new'') (last files) w' = Some (Inr v, w'') \<and>
     vault_read v w'' = Some (Inr [], w'') \<and> uv_counter v = 3"
  using session_refines_abstract_vault [OF sample_crypto_ok honest_file_small honest_opens
      sample_ops_ok]
  by (simp add: sample_ops_def) blast

text \<open>C36: No body nonce is ever drawn twice: the nonces of the files a session writes are read from
  pairwise disjoint stretches of the operating system's random source, none of them read
  before the session, so two of them coincide only if the source itself repeats 12 octets.\<close>

theorem session_nonces_disjoint:
  assumes "crypto_ok c" and "length data \<le> MAX_GCM"
    and "vault_open c pw data w0 = Some (Inr u, w)" and "vault_read u w = Some (Inr pt, w)"
    and "list_all op_ok xs" and "uv_counter u + int (length xs) < 2 ^ 64"
  shows "\<exists>files u' w' js. vault_run c u xs w = Some (Inr (files, u'), w') \<and>
    length js = length xs \<and> (\<forall>j \<in> set js. tpos w0 \<le> j) \<and>
    sorted_wrt (\<lambda>j k. j + NONCE_LENGTH \<le> k) js \<and>
    list_all2 (\<lambda>file j. \<exists>f. parse file = Inr f \<and>
      pv_body_nonce f = tape_read (tape w) j NONCE_LENGTH) files js"
proof -
  obtain d where d: "session_ok c pw d pt u w" and t: "tpos w = tpos w0"
    using vault_open_session [OF assms(1-4)] by blast
  from vault_run_ok [OF assms(1) d assms(5,6)] obtain files u' w' where
    run: "vault_run c u xs w = Some (Inr (files, u'), w')" and
    rf: "run_files c pw d pt (uv_counter u) (tape w) (tpos w) xs files" by blast
  from run_files_nonces [OF rf] run run_files_length [OF rf] t show ?thesis
    by (fastforce simp: aead_lengths)
qed

theorem session_nonces_disjoint_witness:
  "\<exists>files u' w' js.
     vault_run sample_crypto (opened (honest_fields 0 0) (hnext sample_machine)) sample_ops
       (after_open (replicate 32 9) (blit ''hello'') sample_machine) = Some (Inr (files, u'), w') \<and>
     length js = length sample_ops \<and> sorted_wrt (\<lambda>j k. j + NONCE_LENGTH \<le> k) js"
proof -
  have "uv_counter (opened (honest_fields 0 0) (hnext sample_machine)) + int (length sample_ops)
      < 2 ^ 64"
    by (simp add: sample_ops_def)
  from session_nonces_disjoint [OF sample_crypto_ok honest_file_small honest_opens
      sample_ops_ok(1) this]
  show ?thesis by blast
qed

section \<open>Closing and erasing\<close>

text \<open>A closed vault refuses every operation with \<open>ValueError\<close> and changes nothing; closing it
  again is a no-op.\<close>

theorem closed_vault_refuses:
  assumes "uv_closed u"
  shows "vault_read u w = Some (Inl closed_error, w) \<and>
    vault_save c u pt w = Some (Inl closed_error, w) \<and>
    vault_change_password c u pw p w = Some (Inl closed_error, w) \<and>
    vault_close u w = Some (Inr u, w)"
  using assms by (simp add: vault_read_def vault_save_def vault_change_password_def check_open_def
      vault_close_def)

theorem closed_vault_refuses_witness:
  "vault_read (opened (sample_fields 0) 0\<lparr>uv_closed := True\<rparr>) sample_machine
     = Some (Inl closed_error, sample_machine)"
  using closed_vault_refuses [of "opened (sample_fields 0) 0\<lparr>uv_closed := True\<rparr>" sample_machine]
  by simp

text \<open>C35: After a session is closed, every buffer it ever allocated (the data key, the plaintext it
  opened with and every plaintext it saved) holds zeros only, whatever sequence of operations
  was run.\<close>

theorem session_leaves_no_plaintext_buffer:
  assumes "crypto_ok c" and "length data \<le> MAX_GCM"
    and "vault_open c pw data w0 = Some (Inr u, w)" and "vault_read u w = Some (Inr pt, w)"
    and "list_all op_ok xs" and "uv_counter u + int (length xs) < 2 ^ 64"
  shows "\<exists>files u1 w1 u2 w2. vault_run c u xs w = Some (Inr (files, u1), w1) \<and>
    vault_close u1 w1 = Some (Inr u2, w2) \<and> uv_closed u2 \<and>
    (\<forall>a. hnext w0 \<le> a \<and> a < hnext w2 \<longrightarrow> zeroed (heap w2 a))"
proof -
  obtain d where s: "session_ok c pw d pt u w" and cl: "clean (hnext w0) u w"
    using vault_open_session [OF assms(1-4)] by blast
  from vault_run_ok [OF assms(1) s assms(5,6)] cl obtain files u1 w1 where
    run: "vault_run c u xs w = Some (Inr (files, u1), w1)" and
    s1: "session_ok c (spec_password pw xs) d (spec_plaintext pt xs) u1 w1" and
    cl1: "clean (hnext w0) u1 w1" by blast
  let ?w2 = "memset_zero (uv_plaintext u1) (memset_zero (uv_dek u1) w1)"
  have "vault_close u1 w1 = Some (Inr (u1\<lparr>uv_closed := True\<rparr>), ?w2)"
    using s1 by (simp add: vault_close_def session_ok_def)
  moreover have "\<forall>a. hnext w0 \<le> a \<and> a < hnext ?w2 \<longrightarrow> zeroed (heap ?w2 a)"
    using cl1 by (auto simp: clean_def)
  ultimately show ?thesis using run by fastforce
qed

theorem session_leaves_no_plaintext_buffer_witness:
  "\<exists>files u1 w1 u2 w2.
     vault_run sample_crypto (opened (honest_fields 0 0) (hnext sample_machine)) sample_ops
       (after_open (replicate 32 9) (blit ''hello'') sample_machine) = Some (Inr (files, u1), w1) \<and>
     vault_close u1 w1 = Some (Inr u2, w2) \<and>
     (\<forall>a. hnext sample_machine \<le> a \<and> a < hnext w2 \<longrightarrow> zeroed (heap w2 a))"
proof -
  have "uv_counter (opened (honest_fields 0 0) (hnext sample_machine)) + int (length sample_ops)
      < 2 ^ 64"
    by (simp add: sample_ops_def)
  from session_leaves_no_plaintext_buffer [OF sample_crypto_ok honest_file_small honest_opens
      sample_ops_ok(1) this]
  show ?thesis by blast
qed

text \<open>\<open>create\<close> wipes the buffer of its data key: of the buffers it allocated, none holds anything
  but zeros when it returns.\<close>

theorem create_wipes_data_key:
  assumes "crypto_ok c" and "params_ok (params_or_default p)" and "length pt \<le> MAX_PLAINTEXT"
  shows "\<exists>data w'. vault_create c pw pt p w = Some (Inr data, w') \<and> hnext w < hnext w' \<and>
    (\<forall>a. hnext w \<le> a \<and> a < hnext w' \<longrightarrow> zeroed (heap w' a))"
  using vault_create_ok [OF assms, of pw w] by (auto simp: less_Suc_eq)

theorem create_wipes_data_key_witness:
  "\<exists>data w'. vault_create sample_crypto sample_password (blit ''hello'') None sample_machine
      = Some (Inr data, w') \<and>
    (\<forall>a. hnext sample_machine \<le> a \<and> a < hnext w' \<longrightarrow> zeroed (heap w' a))"
  using create_wipes_data_key [OF sample_crypto_ok sample_params_ok sample_body_small] by blast

text \<open>\<open>open_vault\<close> does not: when the key unwraps but the body does not authenticate (a changed
  counter, body nonce or body), the call raises and leaves the data key, unwiped, in the
  buffer it allocated.\<close>

theorem failed_open_leaves_data_key:
  assumes "crypto_ok c" and "length data \<le> MAX_GCM" and "parse data = Inr f"
    and "unwraps c pw (pv_params f) (pv_salt f) (pv_kdf_header f) (pv_dek_nonce f) (pv_dek_blob f) d"
    and "gcm_decrypt (aesgcm c) d (pv_body_nonce f) (pv_body_blob f) (pv_full_header f)
      = Inl InvalidTag"
  shows "\<exists>w'. vault_open c pw data w = Some (Inl (VaultAuthenticationError auth_message), w') \<and>
    hnext w' = Suc (hnext w) \<and> heap w' (hnext w) = d"
  using assms(1-3)
proof (cases rule: vault_open_cases [where pw = pw and w = w])
  case wrap
  with assms(4) show ?thesis by blast
next
  case (body d')
  with assms(4) have "d' = d" by (auto elim!: unwrapsE)
  with body show ?thesis by (simp add: auth_error_def)
next
  case (success d' pt)
  with assms(4) have "d' = d" by (auto simp: sealed_def elim!: unwrapsE)
  with success assms(5) show ?thesis by (simp add: sealed_def)
qed

theorem failed_open_leaves_data_key_witness:
  "\<exists>w'. vault_open sample_crypto sample_password (file_bytes (honest_fields 1 0)) sample_machine
      = Some (Inl (VaultAuthenticationError auth_message), w') \<and>
    heap w' (hnext sample_machine) = replicate 32 9"
proof -
  have p: "parse (file_bytes (honest_fields 1 0)) = Inr (honest_fields 1 0)"
    by (simp add: parse_file_bytes honest_wf)
  have u: "unwraps sample_crypto sample_password (pv_params (honest_fields 1 0))
      (pv_salt (honest_fields 1 0)) (pv_kdf_header (honest_fields 1 0))
      (pv_dek_nonce (honest_fields 1 0)) (pv_dek_blob (honest_fields 1 0)) (replicate 32 9)"
    unfolding honest_simps(1,3,4,6) by (rule honest_unwraps)
  from failed_open_leaves_data_key [OF sample_crypto_ok honest_file_small p u]
    stale_body_rejected [folded honest_simps(5) [of 1 0]]
  show ?thesis by blast
qed

end
