(* ===== verification/Utf8.thy ===== *)
theory Utf8
  imports Errors
begin

text \<open>
  \<open>str.encode("utf-8")\<close> and \<open>bytes.decode("utf-8")\<close>, the strict codec of Python: surrogates are
  not encoded, and the decoder rejects overlong forms, surrogates, truncated sequences and
  values above \<open>0x10FFFF\<close>. The codec is an interpretation of \<open>canonical_codec\<close>.
\<close>

section \<open>Code points\<close>

definition is_high :: "nat \<Rightarrow> bool" where "is_high c \<longleftrightarrow> 55296 \<le> c \<and> c < 56320"
definition is_low :: "nat \<Rightarrow> bool" where "is_low c \<longleftrightarrow> 56320 \<le> c \<and> c < 57344"

text \<open>A Unicode scalar value: a code point that is no surrogate.\<close>

definition is_scalar :: "nat \<Rightarrow> bool" where
  "is_scalar c \<longleftrightarrow> c < 55296 \<or> (57344 \<le> c \<and> c < 1114112)"

text \<open>What a Python \<open>str\<close> can hold at all: code points up to \<open>0x10FFFF\<close>, surrogates included.\<close>

definition is_pystr :: "pystr \<Rightarrow> bool" where
  "is_pystr s \<longleftrightarrow> list_all (\<lambda>c. c < 1114112) s"

section \<open>One character\<close>

definition utf8_char :: "nat \<Rightarrow> nat list" where
  "utf8_char c =
     (if c < 128 then [c]
      else if c < 2048 then [192 + c div 64, 128 + c mod 64]
      else if c < 65536 then [224 + c div 4096, 128 + c div 64 mod 64, 128 + c mod 64]
      else [240 + c div 262144, 128 + c div 4096 mod 64, 128 + c div 64 mod 64, 128 + c mod 64])"

definition cont_byte :: "nat \<Rightarrow> bool" where
  "cont_byte b \<longleftrightarrow> 128 \<le> b \<and> b < 192"

text \<open>Decode the first character; \<open>None\<close> for an ill-formed sequence.\<close>

definition utf8_two :: "nat \<Rightarrow> nat list \<Rightarrow> (nat \<times> nat list) option" where
  "utf8_two b bs =
     (case bs of
        b1 # r \<Rightarrow> if cont_byte b1 then Some ((b - 192) * 64 + (b1 - 128), r) else None
      | _ \<Rightarrow> None)"

definition utf8_three :: "nat \<Rightarrow> nat list \<Rightarrow> (nat \<times> nat list) option" where
  "utf8_three b bs =
     (case bs of
        b1 # b2 # r \<Rightarrow>
          (let c = (b - 224) * 4096 + (b1 - 128) * 64 + (b2 - 128) in
           if cont_byte b1 \<and> cont_byte b2 \<and> 2048 \<le> c \<and> is_scalar c then Some (c, r) else None)
      | _ \<Rightarrow> None)"

definition utf8_four :: "nat \<Rightarrow> nat list \<Rightarrow> (nat \<times> nat list) option" where
  "utf8_four b bs =
     (case bs of
        b1 # b2 # b3 # r \<Rightarrow>
          (let c = (b - 240) * 262144 + (b1 - 128) * 4096 + (b2 - 128) * 64 + (b3 - 128) in
           if cont_byte b1 \<and> cont_byte b2 \<and> cont_byte b3 \<and> 65536 \<le> c \<and> c < 1114112
           then Some (c, r) else None)
      | _ \<Rightarrow> None)"

definition utf8_next :: "nat \<Rightarrow> nat list \<Rightarrow> (nat \<times> nat list) option" where
  "utf8_next b bs =
     (if b < 128 then Some (b, bs)
      else if 194 \<le> b \<and> b < 224 then utf8_two b bs
      else if 224 \<le> b \<and> b < 240 then utf8_three b bs
      else if 240 \<le> b \<and> b < 245 then utf8_four b bs
      else None)"

lemma utf8_next_length: "utf8_next b bs = Some (c, r) \<Longrightarrow> length r \<le> length bs"
  by (auto simp: utf8_next_def utf8_two_def utf8_three_def utf8_four_def Let_def
      split: if_splits list.splits)

lemma utf8_char_not_Nil [simp]: "utf8_char c \<noteq> []"
  by (simp add: utf8_char_def)

lemma utf8_char_bytes: "c < 1114112 \<Longrightarrow> b \<in> set (utf8_char c) \<Longrightarrow> b < 256"
  by (auto simp: utf8_char_def split: if_splits)

lemma div_mod_64: "(c :: nat) = q * 64 + r \<Longrightarrow> r < 64 \<Longrightarrow> c div 64 = q \<and> c mod 64 = r"
  by simp

lemma digits_4096:
  assumes "(c :: nat) = x * 4096 + y * 64 + z" and "y < 64" and "z < 64"
  shows "c mod 64 = z \<and> c div 64 mod 64 = y \<and> c div 4096 = x"
proof -
  have "c = (x * 64 + y) * 64 + z" using assms(1) by simp
  then have "c div 64 = x * 64 + y \<and> c mod 64 = z" using assms(3) by (rule div_mod_64)
  moreover from this have "c div 64 div 64 = x \<and> c div 64 mod 64 = y"
    using assms(2) by (intro div_mod_64) simp_all
  ultimately show ?thesis using div_mult2_eq [of c 64 64] by simp
qed

lemma digits_262144:
  assumes "(c :: nat) = x * 262144 + y * 4096 + z * 64 + u" and "y < 64" and "z < 64" and "u < 64"
  shows "c mod 64 = u \<and> c div 64 mod 64 = z \<and> c div 4096 mod 64 = y \<and> c div 262144 = x"
proof -
  have "c = (x * 64 + y) * 4096 + z * 64 + u" using assms(1) by simp
  then have c: "c mod 64 = u \<and> c div 64 mod 64 = z \<and> c div 4096 = x * 64 + y"
    using assms(3,4) by (rule digits_4096)
  then have "c div 4096 div 64 = x \<and> c div 4096 mod 64 = y"
    using assms(2) by (intro div_mod_64) simp_all
  with c show ?thesis using div_mult2_eq [of c 4096 64] by simp
qed

lemma split_64: "(c :: nat) div 64 * 64 + c mod 64 = c"
  by (rule div_mult_mod_eq)

lemma split_4096: "(c :: nat) div 4096 * 4096 + c div 64 mod 64 * 64 + c mod 64 = c"
proof -
  have "c div 4096 = c div 64 div 64" using div_mult2_eq [of c 64 64] by simp
  then show ?thesis using split_64 [of c] split_64 [of "c div 64"] by linarith
qed

lemma split_262144:
  "(c :: nat) div 262144 * 262144 + c div 4096 mod 64 * 4096 + c div 64 mod 64 * 64 + c mod 64 = c"
proof -
  have "c div 262144 = c div 4096 div 64" using div_mult2_eq [of c 4096 64] by simp
  then show ?thesis using split_4096 [of c] split_64 [of "c div 4096"] by linarith
qed

lemma utf8_next_char:
  assumes "is_scalar c"
  shows "utf8_next (hd (utf8_char c)) (tl (utf8_char c) @ r) = Some (c, r)"
proof -
  consider "c < 128" | "128 \<le> c" "c < 2048" | "2048 \<le> c" "c < 65536" | "65536 \<le> c" by linarith
  then show ?thesis
  proof cases
    case 1
    then show ?thesis by (simp add: utf8_char_def utf8_next_def)
  next
    case 2
    then have "2 \<le> c div 64" "c div 64 < 32" by auto
    with 2 show ?thesis
      by (simp add: utf8_char_def utf8_next_def utf8_two_def cont_byte_def split_64)
  next
    case 3
    then have "c div 4096 < 16" by auto
    with 3 assms show ?thesis
      by (simp add: utf8_char_def utf8_next_def utf8_three_def cont_byte_def Let_def split_4096)
  next
    case 4
    with assms have "c div 262144 < 5" "c < 1114112" by (auto simp: is_scalar_def)
    with 4 show ?thesis
      by (simp add: utf8_char_def utf8_next_def utf8_four_def cont_byte_def Let_def split_262144)
  qed
qed

lemma utf8_next_sound:
  assumes "utf8_next b bs = Some (c, r)"
  shows "is_scalar c \<and> b # bs = utf8_char c @ r"
proof -
  consider "b < 128" | "194 \<le> b" "b < 224" | "224 \<le> b" "b < 240" | "240 \<le> b" "b < 245"
    using assms by (auto simp: utf8_next_def split: if_splits)
  then show ?thesis
  proof cases
    case 1
    with assms show ?thesis by (auto simp: utf8_next_def utf8_char_def is_scalar_def)
  next
    case 2
    with assms obtain b1 where bs: "bs = b1 # r" "128 \<le> b1" "b1 < 192"
      and c: "c = (b - 192) * 64 + (b1 - 128)"
      by (auto simp: utf8_next_def utf8_two_def cont_byte_def split: if_splits list.splits)
    have "c div 64 = b - 192 \<and> c mod 64 = b1 - 128"
      using bs c by (intro div_mod_64) simp_all
    moreover have "128 \<le> c" "c < 2048" using 2 bs unfolding c by auto
    ultimately show ?thesis using 2 bs by (simp add: utf8_char_def is_scalar_def)
  next
    case 3
    with assms obtain b1 b2 where bs: "bs = b1 # b2 # r" "128 \<le> b1" "b1 < 192" "128 \<le> b2" "b2 < 192"
      and c: "c = (b - 224) * 4096 + (b1 - 128) * 64 + (b2 - 128)" "2048 \<le> c" "is_scalar c"
      by (auto simp: utf8_next_def utf8_three_def cont_byte_def Let_def split: if_splits list.splits)
    have "c mod 64 = b2 - 128 \<and> c div 64 mod 64 = b1 - 128 \<and> c div 4096 = b - 224"
      using bs by (intro digits_4096 [OF c(1)]) simp_all
    moreover have "c < 65536" using 3 bs unfolding c by auto
    ultimately show ?thesis using 3 bs c(2,3) by (simp add: utf8_char_def)
  next
    case 4
    with assms obtain b1 b2 b3 where bs: "bs = b1 # b2 # b3 # r" "128 \<le> b1" "b1 < 192" "128 \<le> b2"
        "b2 < 192" "128 \<le> b3" "b3 < 192"
      and c: "c = (b - 240) * 262144 + (b1 - 128) * 4096 + (b2 - 128) * 64 + (b3 - 128)"
        "65536 \<le> c" "c < 1114112"
      by (auto simp: utf8_next_def utf8_four_def cont_byte_def Let_def split: if_splits list.splits)
    have "c mod 64 = b3 - 128 \<and> c div 64 mod 64 = b2 - 128 \<and> c div 4096 mod 64 = b1 - 128
        \<and> c div 262144 = b - 240"
      using bs by (intro digits_262144 [OF c(1)]) simp_all
    with 4 bs c(2,3) show ?thesis by (simp add: utf8_char_def is_scalar_def)
  qed
qed

section \<open>Strings\<close>

function utf8_dec :: "nat list \<Rightarrow> nat list option" where
  "utf8_dec [] = Some []"
| "utf8_dec (b # bs) =
     (case utf8_next b bs of
        None \<Rightarrow> None
      | Some (c, r) \<Rightarrow> (case utf8_dec r of None \<Rightarrow> None | Some s \<Rightarrow> Some (c # s)))"
  by pat_completeness auto

termination
  by (relation "measure length") (auto dest: utf8_next_length)

definition utf8_encode :: "pystr \<Rightarrow> bytes result" where
  "utf8_encode s =
     (if list_all is_scalar s then Inr (map of_nat (concat (map utf8_char s)))
      else Inl UnicodeEncodeError)"

definition utf8_decode :: "bytes \<Rightarrow> pystr result" where
  "utf8_decode b = (case utf8_dec (map unat b) of None \<Rightarrow> Inl UnicodeDecodeError | Some s \<Rightarrow> Inr s)"

lemma utf8_dec_chars:
  "list_all is_scalar s \<Longrightarrow> utf8_dec (concat (map utf8_char s)) = Some s"
proof (induction s)
  case (Cons c s)
  let ?r = "concat (map utf8_char s)"
  from Cons.prems have "utf8_next (hd (utf8_char c)) (tl (utf8_char c) @ ?r) = Some (c, ?r)"
    by (intro utf8_next_char) simp
  moreover have "concat (map utf8_char (c # s)) = hd (utf8_char c) # (tl (utf8_char c) @ ?r)"
    by (simp flip: append_Cons)
  ultimately show ?case using Cons by (simp del: concat.simps list.map)
qed simp

lemma utf8_dec_sound:
  "utf8_dec b = Some s \<Longrightarrow> list_all is_scalar s \<and> concat (map utf8_char s) = b"
proof (induction b arbitrary: s rule: utf8_dec.induct)
  case (2 b bs)
  from 2(2) obtain c r s' where n: "utf8_next b bs = Some (c, r)" and "utf8_dec r = Some s'"
    and "s = c # s'" by (auto split: option.splits)
  with 2(1) [OF n refl] utf8_next_sound [OF n] show ?case by simp
qed simp

lemma map_unat_of_nat_bytes:
  "list_all (\<lambda>b. b < 256) bs \<Longrightarrow> map unat (map of_nat bs :: bytes) = bs"
  by (induction bs) (simp_all add: unat_of_nat)

lemma map_of_nat_unat_bytes: "map of_nat (map unat (bs :: bytes)) = bs"
  by (induction bs) simp_all

lemma utf8_chars_bytes:
  "list_all is_scalar s \<Longrightarrow> list_all (\<lambda>b. b < 256) (concat (map utf8_char s))"
  by (auto simp: list_all_iff is_scalar_def dest!: bspec elim!: utf8_char_bytes [rotated])

interpretation utf8: canonical_codec
  "\<lambda>s. map of_nat (concat (map utf8_char s))" "\<lambda>b. ok_of (utf8_decode b)" "list_all is_scalar"
proof
  fix s :: pystr assume "list_all is_scalar s"
  then show "ok_of (utf8_decode (map of_nat (concat (map utf8_char s)))) = Some s"
    by (simp add: utf8_decode_def map_unat_of_nat_bytes [OF utf8_chars_bytes] utf8_dec_chars
        del: map_map list.map_comp)
next
  fix b s assume "ok_of (utf8_decode b) = Some s"
  then have "utf8_dec (map unat b) = Some s"
    by (simp add: utf8_decode_def split: option.splits)
  from utf8_dec_sound [OF this]
  show "list_all is_scalar s \<and> map of_nat (concat (map utf8_char s)) = b"
    using map_of_nat_unat_bytes [of b] by simp
qed

lemma utf8_encode_Inr_iff [result_simps]:
  "utf8_encode s = Inr b \<longleftrightarrow> list_all is_scalar s \<and> b = map of_nat (concat (map utf8_char s))"
  by (auto simp: utf8_encode_def)

lemma utf8_decode_Inr_iff: "utf8_decode b = Inr s \<longleftrightarrow> utf8_encode s = Inr b"
  using utf8.dec_Some_iff [of b s] by (auto simp: utf8_encode_Inr_iff)

lemma utf8_encode_inj: "utf8_encode s = Inr b \<Longrightarrow> utf8_encode t = Inr b \<Longrightarrow> s = t"
  using utf8.enc_inj by (auto simp: utf8_encode_Inr_iff)

text \<open>ASCII text is encoded octet by octet.\<close>

lemma utf8_ascii: "list_all (\<lambda>c. c < 128) s \<Longrightarrow> utf8_encode s = Inr (map of_nat s)"
proof -
  assume "list_all (\<lambda>c. c < 128) s"
  then have "list_all is_scalar s \<and> concat (map utf8_char s) = s"
    by (induction s) (simp_all add: is_scalar_def utf8_char_def)
  then show ?thesis by (simp add: utf8_encode_def)
qed

end
