(* ===== verification/Json.thy ===== *)
theory Json
  imports Utf8 "HOL-Library.AList"
begin

text \<open>
  The part of Python's \<open>json\<close> module that \<open>entries.py\<close> uses: \<open>json.dumps\<close> with
  \<open>separators=(",", ":")\<close> and the default \<open>ensure_ascii\<close>, and \<open>json.loads\<close> of a \<open>str\<close>, for every
  input. A scanner consumes a prefix of the text and returns the rest. The nesting of values is
  bounded by fuel; \<open>json_loads\<close> gives the scanner one unit more than twice the length of the text and
  \<open>json_loads_enough\<close> shows that it never runs out. Python's recursion limit is not modelled.
\<close>

section \<open>Values\<close>

text \<open>A float is kept as the lexeme it was read from: sign, integer digits, fraction digits, exponent.\<close>

datatype jvalue =
    JNull
  | JBool bool
  | JInt int
  | JFloat bool "nat list" "nat list" int
  | JNaN
  | JInfinity bool
  | JString pystr
  | JArray "jvalue list"
  | JObject "(pystr \<times> jvalue) list"

datatype 'a scan = OutOfFuel | Fail exn | Done 'a pystr

definition sbind :: "'a scan \<Rightarrow> ('a \<Rightarrow> pystr \<Rightarrow> 'b scan) \<Rightarrow> 'b scan" where
  "sbind m f = (case m of OutOfFuel \<Rightarrow> OutOfFuel | Fail e \<Rightarrow> Fail e | Done x r \<Rightarrow> f x r)"

definition smap :: "('a \<Rightarrow> 'b) \<Rightarrow> 'a scan \<Rightarrow> 'b scan" where
  "smap f m = sbind m (\<lambda>x r. Done (f x) r)"

lemma sbind_simps [simp]:
  "sbind OutOfFuel f = OutOfFuel" "sbind (Fail e) f = Fail e" "sbind (Done x r) f = f x r"
  by (simp_all add: sbind_def)

lemma smap_simps [simp]:
  "smap g OutOfFuel = OutOfFuel" "smap g (Fail e) = Fail e" "smap g (Done x r) = Done (g x) r"
  by (simp_all add: smap_def)

section \<open>Scanning\<close>

definition expect :: "nat \<Rightarrow> pystr \<Rightarrow> pystr option" where
  "expect c s = (case s of [] \<Rightarrow> None | x # r \<Rightarrow> if x = c then Some r else None)"

definition is_ws :: "nat \<Rightarrow> bool" where
  "is_ws c \<longleftrightarrow> c = 32 \<or> c = 9 \<or> c = 10 \<or> c = 13"

definition skip_ws :: "pystr \<Rightarrow> pystr" where
  "skip_ws s = dropWhile is_ws s"

definition is_digit :: "nat \<Rightarrow> bool" where
  "is_digit c \<longleftrightarrow> 48 \<le> c \<and> c \<le> 57"

definition hex_value :: "nat \<Rightarrow> nat option" where
  "hex_value c =
     (if 48 \<le> c \<and> c \<le> 57 then Some (c - 48)
      else if 97 \<le> c \<and> c \<le> 102 then Some (c - 87)
      else if 65 \<le> c \<and> c \<le> 70 then Some (c - 55)
      else None)"

fun hex_run :: "nat \<Rightarrow> nat \<Rightarrow> pystr \<Rightarrow> (nat \<times> pystr) option" where
  "hex_run 0 acc s = Some (acc, s)"
| "hex_run (Suc k) acc [] = None"
| "hex_run (Suc k) acc (c # s) =
     (case hex_value c of None \<Rightarrow> None | Some d \<Rightarrow> hex_run k (16 * acc + d) s)"

text \<open>
  One escape, after the backslash. A high surrogate escape followed by a low surrogate escape
  is one character.
\<close>

definition join_surrogates :: "nat \<Rightarrow> nat \<Rightarrow> nat" where
  "join_surrogates h l = 65536 + (h - 55296) * 1024 + (l - 56320)"

definition json_unicode :: "pystr \<Rightarrow> (nat \<times> pystr) option" where
  "json_unicode s =
     (case hex_run 4 0 s of
        None \<Rightarrow> None
      | Some (c, r) \<Rightarrow>
          if \<not> is_high c then Some (c, r)
          else (case Option.bind (expect 92 r) (expect 117) of
                  None \<Rightarrow> Some (c, r)
                | Some r' \<Rightarrow>
                    (case hex_run 4 0 r' of
                       None \<Rightarrow> None
                     | Some (c2, r2) \<Rightarrow>
                         if is_low c2 then Some (join_surrogates c c2, r2) else Some (c, r))))"

definition json_escape :: "pystr \<Rightarrow> (nat \<times> pystr) option" where
  "json_escape s =
     (case s of
        [] \<Rightarrow> None
      | e # r \<Rightarrow>
          if e = 34 \<or> e = 92 \<or> e = 47 then Some (e, r)
          else if e = 98 then Some (8, r)
          else if e = 102 then Some (12, r)
          else if e = 110 then Some (10, r)
          else if e = 114 then Some (13, r)
          else if e = 116 then Some (9, r)
          else if e = 117 then json_unicode r
          else None)"

lemma expect_length: "expect c s = Some r \<Longrightarrow> length s = Suc (length r)"
  by (auto simp: expect_def split: list.splits if_splits)

lemma hex_run_length: "hex_run k acc s = Some (c, r) \<Longrightarrow> length s = k + length r"
  by (induction k acc s rule: hex_run.induct) (auto split: option.splits)

lemma json_unicode_length: "json_unicode s = Some (c, r) \<Longrightarrow> length r < length s"
  by (auto simp: json_unicode_def bind_eq_Some_conv split: option.splits if_splits
      dest!: hex_run_length expect_length)

lemma json_escape_length: "json_escape s = Some (c, r) \<Longrightarrow> length r < length s"
  by (auto simp: json_escape_def split: list.splits if_splits dest: json_unicode_length)

text \<open>The characters of a string literal, after the opening quote (\<open>strict=True\<close>).\<close>

function json_string :: "pystr \<Rightarrow> pystr scan" where
  "json_string [] = Fail JSONDecodeError"
| "json_string (c # r) =
     (if c = 34 then Done [] r
      else if c = 92 then
        (case json_escape r of
           None \<Rightarrow> Fail JSONDecodeError
         | Some (d, r') \<Rightarrow> smap (\<lambda>s. d # s) (json_string r'))
      else if c < 32 then Fail JSONDecodeError
      else smap (\<lambda>s. c # s) (json_string r))"
  by pat_completeness auto

termination
  by (relation "measure length") (auto dest: json_escape_length)

text \<open>Numbers. \<open>int()\<close> of more than 4300 digits raises \<open>ValueError\<close>.\<close>

definition digits_value :: "nat list \<Rightarrow> nat" where
  "digits_value ds = foldl (\<lambda>n d. 10 * n + (d - 48)) 0 ds"

definition scan_fraction :: "pystr \<Rightarrow> nat list \<times> pystr" where
  "scan_fraction s =
     (case expect 46 s of
        None \<Rightarrow> ([], s)
      | Some r \<Rightarrow> if takeWhile is_digit r = [] then ([], s)
                  else (takeWhile is_digit r, dropWhile is_digit r))"

definition scan_sign :: "pystr \<Rightarrow> bool \<times> pystr" where
  "scan_sign s =
     (case expect 45 s of
        Some r \<Rightarrow> (True, r)
      | None \<Rightarrow> (case expect 43 s of Some r \<Rightarrow> (False, r) | None \<Rightarrow> (False, s)))"

definition scan_exponent :: "pystr \<Rightarrow> int option \<times> pystr" where
  "scan_exponent s =
     (case s of
        [] \<Rightarrow> (None, s)
      | c # r \<Rightarrow>
          if c = 101 \<or> c = 69 then
            (let (neg, t) = scan_sign r; ds = takeWhile is_digit t in
             if ds = [] then (None, s)
             else (Some (if neg then - int (digits_value ds) else int (digits_value ds)),
                   dropWhile is_digit t))
          else (None, s))"

definition scan_integer :: "pystr \<Rightarrow> (nat list \<times> pystr) option" where
  "scan_integer s =
     (case expect 48 s of
        Some r \<Rightarrow> Some ([48], r)
      | None \<Rightarrow> if takeWhile is_digit s = [] then None
                else Some (takeWhile is_digit s, dropWhile is_digit s))"

definition MAX_STR_DIGITS :: nat where "MAX_STR_DIGITS = 4300"

definition json_number :: "pystr \<Rightarrow> jvalue scan" where
  "json_number s =
     (let (neg, t) = (case expect 45 s of Some r \<Rightarrow> (True, r) | None \<Rightarrow> (False, s)) in
      case scan_integer t of
        None \<Rightarrow> Fail JSONDecodeError
      | Some (ip, t1) \<Rightarrow>
          (let (fp, t2) = scan_fraction t1; (ep, t3) = scan_exponent t2 in
           if fp = [] \<and> ep = None then
             (if MAX_STR_DIGITS < length ip then Fail (ValueError (lit ''Exceeds the limit for integer string conversion''))
              else Done (JInt (if neg then - int (digits_value ip) else int (digits_value ip))) t3)
           else Done (JFloat neg ip fp (case ep of None \<Rightarrow> 0 | Some e \<Rightarrow> e)) t3))"

definition prefixed :: "string \<Rightarrow> pystr \<Rightarrow> pystr option" where
  "prefixed p s = (if take (length p) s = lit p then Some (drop (length p) s) else None)"

text \<open>Everything that starts with neither a quote nor a bracket.\<close>

definition json_atom :: "pystr \<Rightarrow> jvalue scan" where
  "json_atom s =
     (case prefixed ''null'' s of Some r \<Rightarrow> Done JNull r
      | None \<Rightarrow> (case prefixed ''true'' s of Some r \<Rightarrow> Done (JBool True) r
      | None \<Rightarrow> (case prefixed ''false'' s of Some r \<Rightarrow> Done (JBool False) r
      | None \<Rightarrow> (case prefixed ''NaN'' s of Some r \<Rightarrow> Done JNaN r
      | None \<Rightarrow> (case prefixed ''Infinity'' s of Some r \<Rightarrow> Done (JInfinity False) r
      | None \<Rightarrow> (case prefixed ''-Infinity'' s of Some r \<Rightarrow> Done (JInfinity True) r
      | None \<Rightarrow> json_number s))))))"

text \<open>
  Values, the elements of an array after \<open>[\<close> and the members of an object after \<open>{\<close>. A key
  that occurs twice keeps its first position and takes the last value, as in a \<open>dict\<close>.
\<close>

fun json_value :: "nat \<Rightarrow> pystr \<Rightarrow> jvalue scan"
and json_elements :: "nat \<Rightarrow> jvalue list \<Rightarrow> pystr \<Rightarrow> jvalue scan"
and json_members :: "nat \<Rightarrow> (pystr \<times> jvalue) list \<Rightarrow> pystr \<Rightarrow> jvalue scan" where
  "json_value 0 s = OutOfFuel"
| "json_value (Suc n) s =
     (case expect 34 s of
        Some r \<Rightarrow> smap JString (json_string r)
      | None \<Rightarrow>
     (case expect 123 s of
        Some r \<Rightarrow>
          (case expect 125 (skip_ws r) of
             Some t \<Rightarrow> Done (JObject []) t
           | None \<Rightarrow> json_members n [] (skip_ws r))
      | None \<Rightarrow>
     (case expect 91 s of
        Some r \<Rightarrow>
          (case expect 93 (skip_ws r) of
             Some t \<Rightarrow> Done (JArray []) t
           | None \<Rightarrow> json_elements n [] (skip_ws r))
      | None \<Rightarrow> json_atom s)))"
| "json_elements 0 vs s = OutOfFuel"
| "json_elements (Suc n) vs s =
     sbind (json_value n s) (\<lambda>v r.
     (case expect 93 (skip_ws r) of
        Some t \<Rightarrow> Done (JArray (vs @ [v])) t
      | None \<Rightarrow>
     (case expect 44 (skip_ws r) of
        Some t \<Rightarrow> json_elements n (vs @ [v]) (skip_ws t)
      | None \<Rightarrow> Fail JSONDecodeError)))"
| "json_members 0 ps s = OutOfFuel"
| "json_members (Suc n) ps s =
     (case expect 34 s of
        None \<Rightarrow> Fail JSONDecodeError
      | Some q \<Rightarrow>
          sbind (json_string q) (\<lambda>k t.
          (case expect 58 (skip_ws t) of
             None \<Rightarrow> Fail JSONDecodeError
           | Some u \<Rightarrow>
               sbind (json_value n (skip_ws u)) (\<lambda>v r.
               (case expect 125 (skip_ws r) of
                  Some x \<Rightarrow> Done (JObject (AList.update k v ps)) x
                | None \<Rightarrow>
               (case expect 44 (skip_ws r) of
                  Some x \<Rightarrow> json_members n (AList.update k v ps) (skip_ws x)
                | None \<Rightarrow> Fail JSONDecodeError))))))"

text \<open>\<open>json.loads(s)\<close>: no byte-order mark, one value between white space, nothing after it.\<close>

definition json_loads :: "pystr \<Rightarrow> jvalue scan" where
  "json_loads s =
     (if expect 65279 s \<noteq> None then Fail JSONDecodeError
      else sbind (json_value (Suc (2 * length s)) (skip_ws s)) (\<lambda>v r.
           if skip_ws r = [] then Done v [] else Fail JSONDecodeError))"

section \<open>Enough fuel\<close>

lemma skip_ws_length: "length (skip_ws s) \<le> length s"
  by (simp add: skip_ws_def length_dropWhile_le)

lemma skip_ws_expect_length: "expect c (skip_ws s) = Some r \<Longrightarrow> length r < length s"
  using skip_ws_length [of s] by (auto dest: expect_length)

lemma json_string_length: "json_string s = Done x r \<Longrightarrow> length r < length s"
  by (induction s arbitrary: x r rule: json_string.induct)
     (fastforce simp: smap_def sbind_def split: if_splits option.splits scan.splits
        dest: json_escape_length)+

lemma json_string_fuel: "json_string s \<noteq> OutOfFuel"
  by (induction s rule: json_string.induct)
     (auto simp: smap_def sbind_def split: option.splits scan.splits)

lemma scan_integer_length: "scan_integer s = Some (d, r) \<Longrightarrow> length r < length s"
proof (cases "expect 48 s")
  case None
  assume "scan_integer s = Some (d, r)"
  with None have "takeWhile is_digit s \<noteq> []" and r: "r = dropWhile is_digit s"
    by (auto simp: scan_integer_def split: if_splits)
  then have "length (takeWhile is_digit s) + length r = length s"
    by (metis length_append takeWhile_dropWhile_id)
  with \<open>takeWhile is_digit s \<noteq> []\<close> show ?thesis by (cases "takeWhile is_digit s") auto
qed (auto simp: scan_integer_def dest: expect_length)

lemma scan_fraction_length: "scan_fraction s = (d, r) \<Longrightarrow> length r \<le> length s"
  by (auto simp: scan_fraction_def split: option.splits if_splits dest!: expect_length
      intro: le_SucI [OF length_dropWhile_le])

lemma scan_sign_length: "scan_sign s = (b, r) \<Longrightarrow> length r \<le> length s"
  by (auto simp: scan_sign_def split: option.splits dest!: expect_length)

lemma scan_exponent_length: "scan_exponent s = (d, r) \<Longrightarrow> length r \<le> length s"
proof (cases s)
  case (Cons c s')
  assume e: "scan_exponent s = (d, r)"
  obtain neg t where t: "scan_sign s' = (neg, t)" by fastforce
  from scan_sign_length [OF t] have "length (dropWhile is_digit t) \<le> length s'"
    using length_dropWhile_le order_trans by blast
  with e t Cons show ?thesis by (auto simp: scan_exponent_def Let_def split: if_splits)
qed (auto simp: scan_exponent_def)

lemma json_number_scan: "json_number s \<noteq> OutOfFuel \<and> (json_number s = Done v r \<longrightarrow> length r < length s)"
proof -
  obtain neg t where t: "(case expect 45 s of Some r \<Rightarrow> (True, r) | None \<Rightarrow> (False, s)) = (neg, t)"
    by fastforce
  then have len: "length t \<le> length s" by (auto split: option.splits dest: expect_length)
  show ?thesis
  proof (cases "scan_integer t")
    case None
    with t show ?thesis by (simp add: json_number_def)
  next
    case (Some a)
    obtain ip t1 where a: "a = (ip, t1)" by fastforce
    obtain fp t2 where f: "scan_fraction t1 = (fp, t2)" by fastforce
    obtain ep t3 where e: "scan_exponent t2 = (ep, t3)" by fastforce
    from Some a f e len have "length t3 < length s"
      using scan_integer_length [of t ip t1] scan_fraction_length [OF f] scan_exponent_length [OF e]
      by simp
    with t Some a f e show ?thesis by (auto simp: json_number_def Let_def)
  qed
qed

lemma prefixed_length: "prefixed p s = Some r \<Longrightarrow> p \<noteq> [] \<Longrightarrow> length r < length s"
  by (cases s) (auto simp: prefixed_def lit_def split: if_splits)

lemma json_atom_scan: "json_atom s \<noteq> OutOfFuel \<and> (json_atom s = Done v r \<longrightarrow> length r < length s)"
  using json_number_scan [of s v r]
  by (auto simp: json_atom_def split: option.splits dest: prefixed_length)

text \<open>Every scanner consumes, and fuel above the length of the text is enough.\<close>

lemma json_scan_length:
  "json_value n s = Done v r \<Longrightarrow> length r < length s"
  "json_elements n vs s = Done v r \<Longrightarrow> length r < length s"
  "json_members n ps s = Done v r \<Longrightarrow> length r < length s"
proof (induction n s and n vs s and n ps s arbitrary: v r and v r and v r
    rule: json_value_json_elements_json_members.induct)
  case (2 n s)
  from 2(3) show ?case
  proof (cases "expect 34 s")
    case None
    note a = this
    show ?thesis
    proof (cases "expect 123 s")
      case b: None
      show ?thesis
      proof (cases "expect 91 s")
        case None
        with a b 2(3) show ?thesis using json_atom_scan [of s v r] by simp
      next
        case (Some t)
        show ?thesis
        proof (cases "expect 93 (skip_ws t)")
          case None
          with a b Some 2(3) have "json_elements n [] (skip_ws t) = Done v r" by simp
          from 2(1) [OF a b Some None this] expect_length [OF Some] skip_ws_length [of t]
          show ?thesis by linarith
        next
          case (Some u)
          with a b \<open>expect 91 s = Some t\<close> 2(3) have "r = u" by simp
          with expect_length [OF \<open>expect 91 s = Some t\<close>] skip_ws_expect_length [OF Some]
          show ?thesis by simp
        qed
      qed
    next
      case (Some t)
      show ?thesis
      proof (cases "expect 125 (skip_ws t)")
        case None
        with a Some 2(3) have "json_members n [] (skip_ws t) = Done v r" by simp
        from 2(2) [OF a Some None this] expect_length [OF Some] skip_ws_length [of t]
        show ?thesis by linarith
      next
        case (Some u)
        with a \<open>expect 123 s = Some t\<close> 2(3) have "r = u" by simp
        with expect_length [OF \<open>expect 123 s = Some t\<close>] skip_ws_expect_length [OF Some]
        show ?thesis by simp
      qed
    qed
  qed (auto simp: smap_def sbind_def split: scan.splits dest!: expect_length json_string_length)
next
  case (4 n vs s)
  from 4(3) obtain v1 r1 where v1: "json_value n s = Done v1 r1"
    by (auto simp: sbind_def split: scan.splits)
  from 4(1) [OF v1] have l: "length r1 < length s" .
  show ?case
  proof (cases "expect 93 (skip_ws r1)")
    case None
    with 4(3) v1 obtain t where t: "expect 44 (skip_ws r1) = Some t"
      and "json_elements n (vs @ [v1]) (skip_ws t) = Done v r"
      by (auto split: option.splits)
    with 4(2) [OF None t] l skip_ws_length [of t] skip_ws_expect_length [OF t] show ?thesis by force
  next
    case (Some t)
    with 4(3) v1 l skip_ws_expect_length [OF Some] show ?thesis by simp
  qed
next
  case (6 n ps s)
  from 6(3) obtain q k t u v1 r1 where q: "expect 34 s = Some q" and k: "json_string q = Done k t"
    and u: "expect 58 (skip_ws t) = Some u" and v1: "json_value n (skip_ws u) = Done v1 r1"
    by (auto simp: sbind_def split: scan.splits option.splits)
  from 6(1) [OF q u v1] have l: "length r1 < length s"
    using expect_length [OF q] json_string_length [OF k] skip_ws_expect_length [OF u]
      skip_ws_length [of u] by linarith
  show ?case
  proof (cases "expect 125 (skip_ws r1)")
    case None
    with 6(3) q k u v1 obtain x where x: "expect 44 (skip_ws r1) = Some x"
      and "json_members n (AList.update k v1 ps) (skip_ws x) = Done v r"
      by (auto split: option.splits)
    with 6(2) [OF q u None x] l skip_ws_length [of x] skip_ws_expect_length [OF x]
    show ?thesis by force
  next
    case (Some x)
    with 6(3) q k u v1 l skip_ws_expect_length [OF Some] show ?thesis by simp
  qed
qed simp_all

lemma json_scan_fuel:
  "2 * length s < n \<Longrightarrow> json_value n s \<noteq> OutOfFuel"
  "2 * length s + 1 < n \<Longrightarrow> json_elements n vs s \<noteq> OutOfFuel"
  "2 * length s + 1 < n \<Longrightarrow> json_members n ps s \<noteq> OutOfFuel"
proof (induction n s and n vs s and n ps s
    rule: json_value_json_elements_json_members.induct)
  case (2 n s)
  show ?case
  proof (cases "expect 34 s")
    case a: None
    show ?thesis
    proof (cases "expect 123 s")
      case b: None
      show ?thesis
      proof (cases "expect 91 s")
        case None
        with a b show ?thesis using json_atom_scan by simp
      next
        case (Some t)
        with 2(3) expect_length [OF Some] skip_ws_length [of t]
        have "2 * length (skip_ws t) + 1 < n" by linarith
        with a b Some 2(1) [OF a b Some] show ?thesis by (simp split: option.split)
      qed
    next
      case (Some t)
      with 2(3) expect_length [OF Some] skip_ws_length [of t]
      have "2 * length (skip_ws t) + 1 < n" by linarith
      with a Some 2(2) [OF a Some] show ?thesis by (simp split: option.split)
    qed
  qed (simp add: smap_def sbind_def json_string_fuel split: scan.split)
next
  case (4 n vs s)
  from 4 have nf: "json_value n s \<noteq> OutOfFuel" by simp
  show ?case
  proof (cases "json_value n s")
    case (Done v r)
    from json_scan_length(1) [OF Done] have l: "length r < length s" .
    have "json_elements n (vs @ [v]) (skip_ws t) \<noteq> OutOfFuel"
      if "expect 93 (skip_ws r) = None" and t: "expect 44 (skip_ws r) = Some t" for t
      using 4(3) l skip_ws_length [of t] skip_ws_expect_length [OF t]
      by (intro 4(2) [OF that]) linarith
    with Done show ?thesis by (simp split: option.split)
  qed (use nf in simp_all)
next
  case (6 n ps s)
  show ?case
  proof (cases "expect 34 s")
    case (Some q)
    note q = this
    show ?thesis
    proof (cases "json_string q")
      case (Done k t)
      note k = this
      show ?thesis
      proof (cases "expect 58 (skip_ws t)")
        case (Some u)
        note u = this
        have lu: "length (skip_ws u) < length s"
          using expect_length [OF q] json_string_length [OF k] skip_ws_expect_length [OF u]
            skip_ws_length [of u] by linarith
        with 6(1) [OF q u] 6(3) have nf: "json_value n (skip_ws u) \<noteq> OutOfFuel" by linarith
        show ?thesis
        proof (cases "json_value n (skip_ws u)")
          case (Done v r)
          from json_scan_length(1) [OF Done] lu have l: "length r < length s" by linarith
          have "json_members n (AList.update k v ps) (skip_ws x) \<noteq> OutOfFuel"
            if "expect 125 (skip_ws r) = None" and x: "expect 44 (skip_ws r) = Some x" for x
            using 6(3) l skip_ws_length [of x] skip_ws_expect_length [OF x]
            by (intro 6(2) [OF q u that]) linarith
          with q k u Done show ?thesis by (simp split: option.split)
        qed (use nf q k u in simp_all)
      qed (simp add: q k)
    qed (use json_string_fuel [of q] q in simp_all)
  qed simp
qed simp_all

lemma json_loads_enough: "json_loads s \<noteq> OutOfFuel"
proof -
  have "json_value (Suc (2 * length s)) (skip_ws s) \<noteq> OutOfFuel"
    using skip_ws_length [of s] by (intro json_scan_fuel(1)) simp
  then show ?thesis
    by (auto simp: json_loads_def sbind_def split: scan.split)
qed

section \<open>Errors\<close>

definition json_error :: "exn \<Rightarrow> bool" where
  "json_error e \<longleftrightarrow> e = JSONDecodeError \<or> (\<exists>m. e = ValueError m)"

lemma json_string_error: "json_string s = Fail e \<Longrightarrow> e = JSONDecodeError"
  by (induction s rule: json_string.induct)
     (auto simp: smap_def sbind_def split: if_splits option.splits scan.splits)

lemma json_atom_error: "json_atom s = Fail e \<Longrightarrow> json_error e"
  by (auto simp: json_atom_def json_number_def json_error_def Let_def
      split: option.splits prod.splits if_splits)

lemma json_scan_error:
  "json_value n s = Fail e \<Longrightarrow> json_error e"
  "json_elements n vs s = Fail e \<Longrightarrow> json_error e"
  "json_members n ps s = Fail e \<Longrightarrow> json_error e"
proof (induction n s and n vs s and n ps s
    rule: json_value_json_elements_json_members.induct)
  case (2 n s)
  from 2(3) show ?case
    by (auto simp: smap_def sbind_def json_error_def split: option.splits scan.splits
        dest: json_string_error json_atom_error [unfolded json_error_def]
          2(1) [unfolded json_error_def] 2(2) [unfolded json_error_def])
next
  case (4 n vs s)
  show ?case
  proof (cases "json_value n s")
    case (Fail e')
    with 4 show ?thesis by simp
  next
    case (Done v r)
    with 4(2) 4(3) show ?thesis by (auto simp: json_error_def split: option.splits)
  qed (use 4 in simp)
next
  case (6 n ps s)
  show ?case
  proof (cases "expect 34 s")
    case (Some q)
    note q = this
    show ?thesis
    proof (cases "json_string q")
      case (Fail e')
      with 6 q json_string_error [OF Fail] show ?thesis by (simp add: json_error_def)
    next
      case (Done k t)
      note k = this
      show ?thesis
      proof (cases "expect 58 (skip_ws t)")
        case (Some u)
        with 6(1) [OF q Some] 6(2) [OF q Some] 6(3) q k show ?thesis
          by (cases "json_value n (skip_ws u)") (auto simp: json_error_def split: option.splits)
      qed (use 6(3) q k in \<open>simp add: json_error_def\<close>)
    qed (use 6(3) q in simp)
  qed (use 6(3) in \<open>simp add: json_error_def\<close>)
qed simp_all

lemma json_loads_error: "json_loads s = Fail e \<Longrightarrow> json_error e"
  using json_scan_error(1) [of "Suc (2 * length s)" "skip_ws s" e]
  by (auto simp: json_loads_def sbind_def json_error_def split: if_splits scan.splits
      simp del: json_value.simps)

end
