(* ===== verification/JsonPrint.thy ===== *)
theory JsonPrint
  imports Json
begin

text \<open>
  \<open>json.dumps\<close> with \<open>separators=(",", ":")\<close> and \<open>ensure_ascii\<close>, and the round trip through
  \<open>json.loads\<close>. The text of a float is a parameter (the program never writes one). The round
  trip holds for strings without a high surrogate directly followed by a low one: the decoder
  joins such a pair of escapes into one character.
\<close>

section \<open>The printer\<close>

definition uescape :: "nat \<Rightarrow> pystr" where
  "uescape c = 92 # 117 # hex_fixed 4 c"

definition esc_char :: "nat \<Rightarrow> pystr" where
  "esc_char c =
     (if c = 34 \<or> c = 92 then [92, c]
      else if c = 10 then [92, 110]
      else if c = 13 then [92, 114]
      else if c = 9 then [92, 116]
      else if c = 12 then [92, 102]
      else if c = 8 then [92, 98]
      else if 32 \<le> c \<and> c \<le> 126 then [c]
      else if c < 65536 then uescape c
      else uescape (55296 + (c - 65536) div 1024) @ uescape (56320 + (c - 65536) mod 1024))"

definition esc_chars :: "pystr \<Rightarrow> pystr" where
  "esc_chars s = concat (map esc_char s)"

definition json_quote :: "pystr \<Rightarrow> pystr" where
  "json_quote s = 34 # esc_chars s @ [34]"

fun json_dumps :: "(jvalue \<Rightarrow> pystr) \<Rightarrow> jvalue \<Rightarrow> pystr"
and json_dump_elements :: "(jvalue \<Rightarrow> pystr) \<Rightarrow> jvalue list \<Rightarrow> pystr"
and json_dump_members :: "(jvalue \<Rightarrow> pystr) \<Rightarrow> (pystr \<times> jvalue) list \<Rightarrow> pystr" where
  "json_dumps fl JNull = lit ''null''"
| "json_dumps fl (JBool b) = (if b then lit ''true'' else lit ''false'')"
| "json_dumps fl (JInt i) = show_int i"
| "json_dumps fl (JFloat n ip fp ep) = fl (JFloat n ip fp ep)"
| "json_dumps fl JNaN = lit ''NaN''"
| "json_dumps fl (JInfinity n) = (if n then lit ''-Infinity'' else lit ''Infinity'')"
| "json_dumps fl (JString s) = json_quote s"
| "json_dumps fl (JArray vs) = 91 # json_dump_elements fl vs @ [93]"
| "json_dumps fl (JObject ps) = 123 # json_dump_members fl ps @ [125]"
| "json_dump_elements fl [] = []"
| "json_dump_elements fl [v] = json_dumps fl v"
| "json_dump_elements fl (v # w # vs) = json_dumps fl v @ 44 # json_dump_elements fl (w # vs)"
| "json_dump_members fl [] = []"
| "json_dump_members fl [(k, v)] = json_quote k @ 58 # json_dumps fl v"
| "json_dump_members fl ((k, v) # p # ps) =
     json_quote k @ 58 # json_dumps fl v @ 44 # json_dump_members fl (p # ps)"

text \<open>The printed text is ASCII.\<close>

definition ascii :: "pystr \<Rightarrow> bool" where
  "ascii s \<longleftrightarrow> (\<forall>c \<in> set s. c < 128)"

lemma ascii_simps [simp]:
  "ascii []" "ascii (c # s) \<longleftrightarrow> c < 128 \<and> ascii s" "ascii (s @ t) \<longleftrightarrow> ascii s \<and> ascii t"
  by (auto simp: ascii_def)

lemma ascii_list_all: "ascii s \<longleftrightarrow> list_all (\<lambda>c. c < 128) s"
  by (simp add: ascii_def list_all_iff)

lemma ascii_hex_fixed [simp]: "ascii (hex_fixed k n)"
proof (induction k n rule: hex_fixed.induct)
  case (2 k n)
  have "n mod 16 < 16" by simp
  then have "hex_digit (n mod 16) < 128"
    by (cases "n mod 16 < 10") (simp_all add: hex_digit_def)
  with 2 show ?case by simp
qed simp

lemma ascii_esc_char [simp]: "ascii (esc_char c)"
  by (simp add: esc_char_def uescape_def)

lemma ascii_json_quote [simp]: "ascii (json_quote s)"
proof -
  have "ascii (esc_chars s)" unfolding esc_chars_def by (induction s) simp_all
  then show ?thesis by (simp add: json_quote_def)
qed

lemma ascii_show_nat [simp]: "ascii (show_nat n)"
proof (induction n rule: show_nat.induct)
  case (1 n)
  have "48 + n mod 10 < 128" using mod_less_divisor [of 10 n] by linarith
  with 1 show ?case by (subst show_nat.simps) simp
qed

lemma ascii_show_int [simp]: "ascii (show_int i)"
  by (simp add: show_int_def)

section \<open>Reading strings back\<close>

lemma hex_value_digit [simp]: "d < 16 \<Longrightarrow> hex_value (hex_digit d) = Some d"
  by (auto simp: hex_value_def hex_digit_def)

lemma hex_run_add:
  "hex_run (j + k) acc s =
     (case hex_run j acc s of None \<Rightarrow> None | Some (a, r) \<Rightarrow> hex_run k a r)"
  by (induction j acc s rule: hex_run.induct) (simp_all split: option.split)

lemma hex_run_hex_fixed:
  "n < 16 ^ k \<Longrightarrow> hex_run k acc (hex_fixed k n @ r) = Some (16 ^ k * acc + n, r)"
proof (induction k arbitrary: n r)
  case (Suc k)
  have "n div 16 < 16 ^ k" using Suc.prems by (simp add: less_mult_imp_div_less mult.commute)
  from Suc.IH [OF this] show ?case
    using hex_run_add [of k 1 acc "hex_fixed k (n div 16) @ hex_digit (n mod 16) # r"]
    by (simp add: algebra_simps)
qed simp

lemma expect_Cons [simp]: "expect c (x # r) = (if x = c then Some r else None)"
  by (simp add: expect_def)

lemma expect_Nil [simp]: "expect c [] = None"
  by (simp add: expect_def)

text \<open>The strings that survive: every code point is one, and no surrogate pair is split in two.\<close>

fun no_pair :: "pystr \<Rightarrow> bool" where
  "no_pair (c # d # s) \<longleftrightarrow> \<not> (is_high c \<and> is_low d) \<and> no_pair (d # s)"
| "no_pair s \<longleftrightarrow> True"

definition plain_str :: "pystr \<Rightarrow> bool" where
  "plain_str s \<longleftrightarrow> is_pystr s \<and> no_pair s"

lemma plain_str_Nil [simp]: "plain_str []"
  by (simp add: plain_str_def is_pystr_def)

lemma plain_str_ConsD: "plain_str (c # s) \<Longrightarrow> c < 1114112 \<and> plain_str s"
  by (cases s) (auto simp: plain_str_def is_pystr_def)

lemma plain_str_scalar: "list_all is_scalar s \<Longrightarrow> plain_str s"
  by (induction s rule: no_pair.induct)
     (auto simp: plain_str_def is_pystr_def is_scalar_def is_high_def)

lemma hex4 [simp]: "c < 65536 \<Longrightarrow> hex_run 4 0 (hex_fixed 4 c @ r) = Some (c, r)"
  using hex_run_hex_fixed [of c 4 0 r] by simp

lemma esc_chars_Cons: "esc_chars (c # s) = esc_char c @ esc_chars s"
  by (simp add: esc_chars_def)

text \<open>After a lone high surrogate, the text that follows is no low surrogate escape.\<close>

lemma follows_no_low:
  assumes "no_pair (c # s)" and "is_high c" and "is_pystr s"
    and "Option.bind (expect 92 (esc_chars s @ 34 # r)) (expect 117) = Some r'"
  shows "\<exists>x r2. hex_run 4 0 r' = Some (x, r2) \<and> \<not> is_low x"
proof (cases s)
  case Nil
  with assms(4) show ?thesis by (simp add: esc_chars_def)
next
  case (Cons d s')
  with assms(1,2) have d: "\<not> is_low d" by simp
  from Cons assms(3) have "d < 1114112" by (simp add: is_pystr_def)
  then have hi: "55296 + (d - 65536) div 1024 < 56320" by auto
  show ?thesis
  proof (cases "d < 65536")
    case True
    then have "hex_run 4 0 (hex_fixed 4 d @ esc_chars s' @ 34 # r) = Some (d, esc_chars s' @ 34 # r)"
      by simp
    with True assms(4) d show ?thesis
      by (auto simp: Cons esc_chars_Cons esc_char_def uescape_def split: if_splits)
  next
    case False
    let ?t = "uescape (56320 + (d - 65536) mod 1024) @ esc_chars s' @ 34 # r"
    have "hex_run 4 0 (hex_fixed 4 (55296 + (d - 65536) div 1024) @ ?t)
        = Some (55296 + (d - 65536) div 1024, ?t)"
      using hi by (intro hex4) simp
    moreover have "r' = hex_fixed 4 (55296 + (d - 65536) div 1024) @ ?t"
      using assms(4) False by (simp add: Cons esc_chars_Cons esc_char_def uescape_def)
    ultimately show ?thesis using hi by (simp add: is_low_def)
  qed
qed

lemma json_unicode_hex:
  assumes "c < 65536"
    and "\<And>r'. is_high c \<Longrightarrow> Option.bind (expect 92 t) (expect 117) = Some r' \<Longrightarrow>
      \<exists>x r2. hex_run 4 0 r' = Some (x, r2) \<and> \<not> is_low x"
  shows "json_unicode (hex_fixed 4 c @ t) = Some (c, t)"
  using assms by (fastforce simp: json_unicode_def split: option.split)

lemma json_unicode_pair:
  assumes "65536 \<le> c" and "c < 1114112"
  shows "json_unicode (hex_fixed 4 (55296 + (c - 65536) div 1024) @
      92 # 117 # hex_fixed 4 (56320 + (c - 65536) mod 1024) @ t) = Some (c, t)"
proof -
  let ?h = "55296 + (c - 65536) div 1024" and ?l = "56320 + (c - 65536) mod 1024"
  have h: "?h < 56320" using assms by auto
  have l: "?l < 57344" using mod_less_divisor [of 1024 "c - 65536"] by simp
  have "join_surrogates ?h ?l = c"
    using assms div_mult_mod_eq [of "c - 65536" 1024] by (simp add: join_surrogates_def)
  then show ?thesis
    using h l hex4 [of ?h "92 # 117 # hex_fixed 4 ?l @ t"] hex4 [of ?l t]
    by (simp add: json_unicode_def is_high_def is_low_def)
qed

lemma esc_char_cases:
  obtains (short) e where "esc_char c = [92, e]" and "\<And>t. json_escape (e # t) = Some (c, t)"
  | (plain) "esc_char c = [c]" and "32 \<le> c" and "c \<noteq> 34" and "c \<noteq> 92"
  | (unicode) "esc_char c = uescape c" and "c < 65536"
  | (pair) "65536 \<le> c"
proof -
  consider "c = 34 \<or> c = 92" | "c = 10" | "c = 13" | "c = 9" | "c = 12" | "c = 8"
    | "32 \<le> c" "c \<le> 126" "c \<noteq> 34" "c \<noteq> 92"
    | "c < 65536" "\<not> (32 \<le> c \<and> c \<le> 126)" "c \<notin> {34, 92, 10, 13, 9, 12, 8}" | "65536 \<le> c"
    by force
  then show thesis
  proof cases
    case 1
    then show ?thesis by (intro short [of c]) (auto simp: esc_char_def json_escape_def)
  next
    case 2
    then show ?thesis by (intro short [of 110]) (simp_all add: esc_char_def json_escape_def)
  next
    case 3
    then show ?thesis by (intro short [of 114]) (simp_all add: esc_char_def json_escape_def)
  next
    case 4
    then show ?thesis by (intro short [of 116]) (simp_all add: esc_char_def json_escape_def)
  next
    case 5
    then show ?thesis by (intro short [of 102]) (simp_all add: esc_char_def json_escape_def)
  next
    case 6
    then show ?thesis by (intro short [of 98]) (simp_all add: esc_char_def json_escape_def)
  next
    case 7
    then show ?thesis by (intro plain) (simp_all add: esc_char_def)
  next
    case 8
    then show ?thesis by (intro unicode) (auto simp: esc_char_def)
  qed (rule pair)
qed

lemma json_string_esc: "plain_str s \<Longrightarrow> json_string (esc_chars s @ 34 # r) = Done s r"
proof (induction s)
  case Nil
  then show ?case by (simp add: esc_chars_def)
next
  case (Cons c s)
  from plain_str_ConsD [OF Cons.prems] have c: "c < 1114112" and s: "plain_str s" by auto
  let ?t = "esc_chars s @ 34 # r"
  from Cons.IH [OF s] have IH: "json_string ?t = Done s r" .
  show ?case
  proof (cases rule: esc_char_cases [of c])
    case unicode
    have "json_unicode (hex_fixed 4 c @ ?t) = Some (c, ?t)"
      using Cons.prems s unicode(2)
      by (intro json_unicode_hex follows_no_low) (auto simp: plain_str_def)
    then show ?thesis using IH by (simp add: esc_chars_Cons unicode uescape_def json_escape_def)
  next
    case pair
    with json_unicode_pair [OF this c, of ?t] IH show ?thesis
      by (simp add: esc_chars_Cons esc_char_def uescape_def json_escape_def)
  next
    case plain
    with IH show ?thesis by (simp add: esc_chars_Cons)
  next
    case (short e)
    with IH show ?thesis by (simp add: esc_chars_Cons)
  qed
qed

end
