(* ===== verification/JsonRoundtrip.thy ===== *)
theory JsonRoundtrip
  imports JsonPrint
begin

text \<open>
  \<open>json.loads(json.dumps(v)) == v\<close> for every value the printer and the scanner agree on
  (\<open>json_ok\<close>: integers within the digit limit, plain strings, distinct keys, no floats), as an
  interpretation of \<open>codec\<close>.
\<close>

section \<open>Integers\<close>

lemma show_nat_digits: "list_all is_digit (show_nat n)"
proof (induction n rule: show_nat.induct)
  case (1 n)
  have "n mod 10 < 10" by simp
  then have "is_digit (48 + n mod 10)" unfolding is_digit_def by linarith
  moreover have "n < 10 \<Longrightarrow> is_digit (48 + n)" by (simp add: is_digit_def)
  ultimately show ?case using 1 by (subst show_nat.simps) auto
qed

lemma show_nat_hd: "\<exists>d ds. show_nat n = d # ds \<and> (d = 48 \<longleftrightarrow> n = 0) \<and> (n = 0 \<longrightarrow> ds = [])"
proof (induction n rule: show_nat.induct)
  case (1 n)
  show ?case
  proof (cases "n < 10")
    case False
    with 1 obtain d ds where "show_nat (n div 10) = d # ds" "d = 48 \<longleftrightarrow> n div 10 = 0"
      by auto
    with False show ?thesis by (subst show_nat.simps) auto
  qed (subst show_nat.simps, auto)
qed

lemma digits_value_snoc: "digits_value (ds @ [d]) = 10 * digits_value ds + (d - 48)"
  by (simp add: digits_value_def)

lemma digits_value_show_nat [simp]: "digits_value (show_nat n) = n"
proof (induction n rule: show_nat.induct)
  case (1 n)
  show ?case
  proof (cases "n < 10")
    case True
    then show ?thesis by (subst show_nat.simps) (simp add: digits_value_def)
  next
    case False
    with 1 show ?thesis by (subst show_nat.simps) (simp add: digits_value_snoc)
  qed
qed

definition delimited :: "pystr \<Rightarrow> bool" where
  "delimited r \<longleftrightarrow> (case r of [] \<Rightarrow> True | c # _ \<Rightarrow> c = 44 \<or> c = 93 \<or> c = 125)"

lemma delimited_simps [simp]:
  "delimited []" "delimited (c # r) \<longleftrightarrow> c = 44 \<or> c = 93 \<or> c = 125"
  by (simp_all add: delimited_def)

lemma delimited_scan:
  assumes "delimited r"
  shows "takeWhile is_digit r = []" "dropWhile is_digit r = r" "scan_fraction r = ([], r)"
    "scan_exponent r = (None, r)"
  using assms by (cases r; auto simp: is_digit_def scan_fraction_def scan_exponent_def)+

lemma scan_integer_show_nat:
  assumes "delimited r"
  shows "scan_integer (show_nat n @ r) = Some (show_nat n, r)"
proof -
  obtain d ds where d: "show_nat n = d # ds" "d = 48 \<longleftrightarrow> n = 0" "n = 0 \<longrightarrow> ds = []"
    using show_nat_hd by blast
  have tw: "takeWhile is_digit (show_nat n @ r) = show_nat n" "dropWhile is_digit (show_nat n @ r) = r"
    using show_nat_digits [of n] delimited_scan [OF assms]
    by (simp_all add: takeWhile_append2 dropWhile_append2 list_all_iff)
  show ?thesis
  proof (cases "n = 0")
    case True
    with d show ?thesis by (simp add: scan_integer_def)
  next
    case False
    with d tw show ?thesis by (simp add: scan_integer_def)
  qed
qed

lemma show_int_cases:
  obtains (neg) n d ds where "i = - int n" and "show_int i = 45 # show_nat n"
    and "show_nat n = d # ds" and "is_digit d" and "nat \<bar>i\<bar> = n"
  | (pos) n d ds where "i = int n" and "show_int i = show_nat n"
    and "show_nat n = d # ds" and "is_digit d" and "nat \<bar>i\<bar> = n"
proof -
  obtain d ds where d: "show_nat (nat \<bar>i\<bar>) = d # ds" using show_nat_hd by blast
  with show_nat_digits [of "nat \<bar>i\<bar>"] have "is_digit d" by simp
  with d neg [of "nat \<bar>i\<bar>" d ds] pos [of "nat \<bar>i\<bar>" d ds] show thesis
    by (cases "i < 0") (auto simp: show_int_def)
qed

definition int_printable :: "int \<Rightarrow> bool" where
  "int_printable i \<longleftrightarrow> length (show_nat (nat \<bar>i\<bar>)) \<le> MAX_STR_DIGITS"

lemma prefixed_Cons [simp]:
  "prefixed (a # p) (c # s) = (if c = of_char a then prefixed p s else None)"
  "prefixed (a # p) [] = None" "prefixed [] s = Some s"
  by (auto simp: prefixed_def lit_def)

lemma json_atom_int:
  assumes "delimited r" and "int_printable i"
  shows "json_atom (show_int i @ r) = Done (JInt i) r"
proof -
  have scan: "scan_integer (show_nat (nat \<bar>i\<bar>) @ r) = Some (show_nat (nat \<bar>i\<bar>), r)"
    using assms(1) by (rule scan_integer_show_nat)
  from assms(2) have small: "\<not> MAX_STR_DIGITS < length (show_nat (nat \<bar>i\<bar>))"
    by (simp add: int_printable_def)
  show ?thesis
  proof (cases rule: show_int_cases [of i])
    case (neg n d ds)
    then have "json_atom (show_int i @ r) = json_number (show_int i @ r)"
      by (auto simp: json_atom_def is_digit_def)
    with neg scan small digits_value_show_nat [of n] delimited_scan [OF assms(1)]
    show ?thesis by (simp add: json_number_def)
  next
    case (pos n d ds)
    then have "json_atom (show_int i @ r) = json_number (show_int i @ r)" and "d \<noteq> 45"
      by (auto simp: json_atom_def is_digit_def)
    with pos scan small digits_value_show_nat [of n] delimited_scan [OF assms(1)]
    show ?thesis by (simp add: json_number_def)
  qed
qed

section \<open>Values\<close>

fun json_ok :: "jvalue \<Rightarrow> bool" where
  "json_ok (JInt i) \<longleftrightarrow> int_printable i"
| "json_ok (JFloat n ip fp ep) \<longleftrightarrow> False"
| "json_ok (JString s) \<longleftrightarrow> plain_str s"
| "json_ok (JArray vs) \<longleftrightarrow> list_all json_ok vs"
| "json_ok (JObject ps) \<longleftrightarrow>
     list_all (\<lambda>(k, v). plain_str k \<and> json_ok v) ps \<and> distinct (map fst ps)"
| "json_ok _ \<longleftrightarrow> True"

lemma skip_ws_Cons: "skip_ws (c # s) = (if is_ws c then skip_ws s else c # s)"
  by (simp add: skip_ws_def)

lemma skip_ws_delimited: "delimited r \<Longrightarrow> skip_ws r = r"
  by (cases r) (auto simp: skip_ws_def is_ws_def)

text \<open>How a printed value starts: no white space, and nothing that closes a bracket.\<close>

lemma json_dumps_hd:
  assumes "json_ok v"
  shows "\<exists>c t. json_dumps fl v = c # t \<and> \<not> is_ws c \<and> c \<noteq> 93 \<and> c \<noteq> 125 \<and> c \<noteq> 65279"
proof (cases v)
  case (JInt i)
  then show ?thesis
    by (cases rule: show_int_cases [of i]) (auto simp: is_digit_def is_ws_def)
next
  case (JInfinity n)
  then show ?thesis by (cases n) (simp_all add: lit_def is_ws_def)
next
  case (JBool n)
  then show ?thesis by (cases n) (simp_all add: lit_def is_ws_def)
qed (use assms in \<open>simp_all add: lit_def is_ws_def json_quote_def\<close>)

lemma skip_ws_dumps [simp]: "json_ok v \<Longrightarrow> skip_ws (json_dumps fl v @ r) = json_dumps fl v @ r"
  using json_dumps_hd [of v fl] by (auto simp: skip_ws_Cons)

lemma expect_dumps [simp]:
  "json_ok v \<Longrightarrow> expect 93 (json_dumps fl v @ r) = None"
  "json_ok v \<Longrightarrow> expect 125 (json_dumps fl v @ r) = None"
  using json_dumps_hd [of v fl] by auto

lemma json_atom_literals [simp]:
  "json_atom (lit ''null'' @ r) = Done JNull r"
  "json_atom (lit ''true'' @ r) = Done (JBool True) r"
  "json_atom (lit ''false'' @ r) = Done (JBool False) r"
  "json_atom (lit ''NaN'' @ r) = Done JNaN r"
  "json_atom (lit ''Infinity'' @ r) = Done (JInfinity False) r"
  "json_atom (lit ''-Infinity'' @ r) = Done (JInfinity True) r"
  by (simp_all add: json_atom_def lit_def)

lemma json_quote_scan:
  "plain_str s \<Longrightarrow> expect 34 (json_quote s @ r) = Some (esc_chars s @ 34 # r)"
  by (simp add: json_quote_def)

lemma update_fresh: "k \<notin> fst ` set ps \<Longrightarrow> AList.update k v ps = ps @ [(k, v)]"
  by (induction ps) auto

lemma json_value_atom:
  "expect 34 s = None \<Longrightarrow> expect 123 s = None \<Longrightarrow> expect 91 s = None \<Longrightarrow>
     json_value (Suc n) s = json_atom s"
  by simp

text \<open>
  The scanner on a printed value, on the printed elements of an array and on the printed members of
  an object.
\<close>

lemma json_value_dumps:
  "json_ok v \<Longrightarrow> delimited r \<Longrightarrow> 2 * length (json_dumps fl v @ r) < n \<Longrightarrow>
     json_value n (json_dumps fl v @ r) = Done v r"
  "list_all json_ok vs \<Longrightarrow> vs \<noteq> [] \<Longrightarrow>
     2 * length (json_dump_elements fl vs @ 93 # r) + 1 < n \<Longrightarrow>
     json_elements n acc (json_dump_elements fl vs @ 93 # r) = Done (JArray (acc @ vs)) r"
  "list_all (\<lambda>(k, v). plain_str k \<and> json_ok v) ps \<Longrightarrow> ps \<noteq> [] \<Longrightarrow>
     distinct (map fst (macc @ ps)) \<Longrightarrow>
     2 * length (json_dump_members fl ps @ 125 # r) + 1 < n \<Longrightarrow>
     json_members n macc (json_dump_members fl ps @ 125 # r) = Done (JObject (macc @ ps)) r"
proof (induction fl v and fl vs and fl ps arbitrary: n r and n r acc and n r macc
    rule: json_dumps_json_dump_elements_json_dump_members.induct)
  case (3 fl i)
  from 3 obtain m where n: "n = Suc m" by (cases n) auto
  have "expect 34 (show_int i @ r) = None \<and> expect 123 (show_int i @ r) = None
      \<and> expect 91 (show_int i @ r) = None"
    by (cases rule: show_int_cases [of i]) (auto simp: is_digit_def)
  with json_atom_int [of r i] 3 n show ?case by simp
next
  case (7 fl s)
  then obtain m where "n = Suc m" by (cases n) auto
  with 7 json_string_esc [of s r] show ?case by (simp add: json_quote_scan)
next
  case (8 fl vs)
  then obtain m where n: "n = Suc m" by (cases n) auto
  show ?case
  proof (cases vs)
    case Nil
    then show ?thesis by (simp add: n skip_ws_Cons is_ws_def)
  next
    case (Cons v ws)
    have "skip_ws (json_dump_elements fl vs @ 93 # r) = json_dump_elements fl vs @ 93 # r
        \<and> expect 93 (json_dump_elements fl vs @ 93 # r) = None"
      using 8(2) by (cases ws) (simp_all add: Cons)
    with 8(1) [of r m "[]"] 8(2,4) Cons show ?thesis by (simp add: n)
  qed
next
  case (9 fl ps)
  then obtain m where n: "n = Suc m" by (cases n) auto
  show ?case
  proof (cases ps)
    case Nil
    then show ?thesis by (simp add: n skip_ws_Cons is_ws_def)
  next
    case (Cons p qs)
    obtain k v where "p = (k, v)" by fastforce
    then have "skip_ws (json_dump_members fl ps @ 125 # r) = json_dump_members fl ps @ 125 # r
        \<and> expect 125 (json_dump_members fl ps @ 125 # r) = None"
      by (cases qs) (simp_all add: Cons json_quote_def skip_ws_Cons is_ws_def)
    with 9(1) [of "[]" r m] 9(2,4) Cons show ?thesis by (simp add: n)
  qed
next
  case (11 fl v)
  then obtain m where n: "n = Suc m" by (cases n) auto
  with 11 have "json_value m (json_dumps fl v @ 93 # r) = Done v (93 # r)" by simp
  then show ?case by (simp add: n skip_ws_Cons is_ws_def)
next
  case (12 fl v w vs)
  then obtain m where n: "n = Suc m" by (cases n) auto
  let ?t = "json_dump_elements fl (w # vs) @ 93 # r"
  have t: "skip_ws ?t = ?t" using 12 by (cases vs) simp_all
  from 12 n have "json_value m (json_dumps fl v @ 44 # ?t) = Done v (44 # ?t)" by simp
  moreover from 12 n have "json_elements m (acc @ [v]) ?t = Done (JArray ((acc @ [v]) @ w # vs)) r"
    by simp
  ultimately show ?case using t by (simp add: n skip_ws_Cons is_ws_def)
next
  case (14 fl k v)
  then obtain m where n: "n = Suc m" by (cases n) auto
  with 14 have "json_value m (json_dumps fl v @ 125 # r) = Done v (125 # r)" by simp
  with 14 n json_string_esc [of k] show ?case
    by (simp add: json_quote_scan skip_ws_Cons is_ws_def update_fresh)
next
  case (15 fl k v p ps)
  then obtain m where n: "n = Suc m" by (cases n) auto
  let ?t = "json_dump_members fl (p # ps) @ 125 # r"
  obtain k' v' where p: "p = (k', v')" by fastforce
  have t: "skip_ws ?t = ?t"
    by (cases ps) (simp_all add: p json_quote_def skip_ws_Cons is_ws_def)
  from 15 n have "json_value m (json_dumps fl v @ 44 # ?t) = Done v (44 # ?t)" by simp
  moreover from 15(2) [of "macc @ [(k, v)]" r m] 15(3-) n
  have "json_members m (macc @ [(k, v)]) ?t = Done (JObject ((macc @ [(k, v)]) @ p # ps)) r"
    by simp
  moreover from 15 have "AList.update k v macc = macc @ [(k, v)]"
    by (intro update_fresh) auto
  ultimately show ?case using t 15 n json_string_esc [of k]
    by (simp add: json_quote_scan skip_ws_Cons is_ws_def)
qed (auto simp: lit_def json_atom_def gr0_conv_Suc less_eq_Suc_le Suc_le_D dest!: Suc_le_D)

lemma json_loads_dumps: "json_ok v \<Longrightarrow> json_loads (json_dumps fl v) = Done v []"
proof -
  assume v: "json_ok v"
  from json_dumps_hd [OF v, of fl] have "expect 65279 (json_dumps fl v) = None" by auto
  moreover have "json_value (Suc (2 * length (json_dumps fl v))) (json_dumps fl v @ [])
      = Done v []"
    using v by (intro json_value_dumps(1)) simp_all
  ultimately show ?thesis
    using skip_ws_dumps [OF v, of fl "[]"]
    by (simp add: json_loads_def skip_ws_def del: json_value.simps)
qed

lemma json_dumps_ascii:
  "json_ok v \<Longrightarrow> ascii (json_dumps fl v)"
  "list_all json_ok vs \<Longrightarrow> ascii (json_dump_elements fl vs)"
  "list_all (\<lambda>(k, v). plain_str k \<and> json_ok v) ps \<Longrightarrow> ascii (json_dump_members fl ps)"
  by (induction fl v and fl vs and fl ps
      rule: json_dumps_json_dump_elements_json_dump_members.induct) (simp_all add: lit_def)

definition scan_result :: "'a scan \<Rightarrow> 'a result" where
  "scan_result m = (case m of Done x r \<Rightarrow> Inr x | Fail e \<Rightarrow> Inl e | OutOfFuel \<Rightarrow> Inl JSONDecodeError)"

interpretation json: codec
  "json_dumps fl" "\<lambda>s. ok_of (scan_result (json_loads s))" json_ok for fl
  by unfold_locales (simp add: json_loads_dumps scan_result_def)

end
