(* ===== verification/Entries.thy ===== *)
theory Entries
  imports JsonRoundtrip Runtime
begin

text \<open>
  \<open>src/securevault/entries.py\<close>: the entry record, its dictionary form, the JSON body of the
  vault and the generators of identifiers and time stamps. The parameter \<open>rp\<close> is Python's
  \<open>repr\<close> of the values whose text depends on float printing or on the Unicode tables (floats,
  lists, dictionaries and, in one error message, strings); the program never relies on it.
\<close>

section \<open>Time stamps\<close>

text \<open>
  \<open>datetime.fromtimestamp(t, timezone.utc).isoformat(timespec="seconds")\<close> of a number of seconds
  since 1970 (the proleptic Gregorian calendar, years of four digits).
\<close>

fun pad_nat :: "nat \<Rightarrow> nat \<Rightarrow> pystr" where
  "pad_nat 0 n = []"
| "pad_nat (Suc k) n = pad_nat k (n div 10) @ [48 + n mod 10]"

definition civil_date :: "nat \<Rightarrow> nat \<times> nat \<times> nat" where
  "civil_date days =
     (let z = days + 719468;
          era = z div 146097;
          doe = z mod 146097;
          yoe = (doe - doe div 1460 + doe div 36524 - doe div 146096) div 365;
          doy = doe - (365 * yoe + yoe div 4 - yoe div 100);
          mp = (5 * doy + 2) div 153;
          d = doy - (153 * mp + 2) div 5 + 1;
          m = (if mp < 10 then mp + 3 else mp - 9)
      in (yoe + era * 400 + (if m \<le> 2 then 1 else 0), m, d))"

definition utc_isoformat :: "nat \<Rightarrow> pystr" where
  "utc_isoformat t =
     (let (y, m, d) = civil_date (t div 86400); s = t mod 86400 in
      pad_nat 4 y @ lit ''-'' @ pad_nat 2 m @ lit ''-'' @ pad_nat 2 d @ lit ''T'' @
      pad_nat 2 (s div 3600) @ lit '':'' @ pad_nat 2 (s div 60 mod 60) @ lit '':'' @
      pad_nat 2 (s mod 60) @ lit ''+00:00'')"

section \<open>Identifiers\<close>

definition bytes_hex :: "bytes \<Rightarrow> pystr" where
  "bytes_hex b = concat (map (\<lambda>x. hex_fixed 2 (unat x)) b)"

text \<open>\<open>uuid.uuid4()\<close>: 16 random octets with the version and variant bits set.\<close>

definition uuid4_bytes :: "bytes \<Rightarrow> bytes" where
  "uuid4_bytes b = b[6 := or (and (b ! 6) 15) 64, 8 := or (and (b ! 8) 63) 128]"

definition new_entry_id :: "('z machine_scheme, pystr) prog" where
  "new_entry_id = pbind (urandom 16) (\<lambda>b. ret (take 8 (bytes_hex (uuid4_bytes b))))"

section \<open>Entries\<close>

record entry =
  e_id :: pystr
  e_service :: pystr
  e_username :: pystr
  e_password :: pystr
  e_notes :: pystr
  e_created :: pystr
  e_updated :: pystr

definition to_dict :: "entry \<Rightarrow> (pystr \<times> jvalue) list" where
  "to_dict e =
     [(lit ''id'', JString (e_id e)), (lit ''service'', JString (e_service e)),
      (lit ''username'', JString (e_username e)), (lit ''password'', JString (e_password e)),
      (lit ''notes'', JString (e_notes e)), (lit ''created_at'', JString (e_created e)),
      (lit ''updated_at'', JString (e_updated e))]"

definition str_of :: "(jvalue \<Rightarrow> pystr) \<Rightarrow> jvalue \<Rightarrow> pystr" where
  "str_of rp v =
     (case v of
        JString s \<Rightarrow> s
      | JNull \<Rightarrow> lit ''None''
      | JBool b \<Rightarrow> if b then lit ''True'' else lit ''False''
      | JInt i \<Rightarrow> show_int i
      | _ \<Rightarrow> rp v)"

definition repr_of :: "(jvalue \<Rightarrow> pystr) \<Rightarrow> jvalue \<Rightarrow> pystr" where
  "repr_of rp v =
     (case v of
        JNull \<Rightarrow> lit ''None''
      | JBool b \<Rightarrow> if b then lit ''True'' else lit ''False''
      | JInt i \<Rightarrow> show_int i
      | _ \<Rightarrow> rp v)"

definition field :: "(jvalue \<Rightarrow> pystr) \<Rightarrow> (pystr \<times> jvalue) list \<Rightarrow> string \<Rightarrow> pystr result" where
  "field rp d k =
     (case map_of d (lit k) of None \<Rightarrow> Inl (KeyError (lit k)) | Some v \<Rightarrow> Inr (str_of rp v))"

definition field_or_empty :: "(jvalue \<Rightarrow> pystr) \<Rightarrow> (pystr \<times> jvalue) list \<Rightarrow> string \<Rightarrow> pystr result" where
  "field_or_empty rp d k =
     Inr (case map_of d (lit k) of None \<Rightarrow> [] | Some v \<Rightarrow> str_of rp v)"

text \<open>
  \<open>Entry.from_dict\<close>: subscripting anything but a dictionary with a string raises \<open>TypeError\<close>,
  which is not caught; a missing key raises \<open>KeyError\<close>, which is.
\<close>

definition missing_field :: "pystr \<Rightarrow> exn" where
  "missing_field k =
     VaultFormatError (lit ''malformed entry: missing field '' @ [39] @ k @ [39])"

definition from_dict :: "(jvalue \<Rightarrow> pystr) \<Rightarrow> jvalue \<Rightarrow> entry result" where
  "from_dict rp data =
     (case data of
        JObject d \<Rightarrow>
          (case rbind (field rp d ''id'') (\<lambda>i.
                rbind (field rp d ''service'') (\<lambda>s.
                rbind (field rp d ''username'') (\<lambda>u.
                rbind (field rp d ''password'') (\<lambda>p.
                rbind (field_or_empty rp d ''notes'') (\<lambda>n.
                rbind (field rp d ''created_at'') (\<lambda>c.
                rbind (field rp d ''updated_at'') (\<lambda>t.
                Inr \<lparr>e_id = i, e_service = s, e_username = u, e_password = p, e_notes = n,
                     e_created = c, e_updated = t\<rparr>))))))) of
             Inl (KeyError k) \<Rightarrow> Inl (missing_field k)
           | r \<Rightarrow> r)
      | _ \<Rightarrow> Inl TypeError)"

section \<open>The vault body\<close>

definition SCHEMA_VERSION :: int where "SCHEMA_VERSION = 1"

definition payload :: "entry list \<Rightarrow> jvalue" where
  "payload es =
     JObject [(lit ''schema_version'', JInt SCHEMA_VERSION),
              (lit ''entries'', JArray (map (\<lambda>e. JObject (to_dict e)) es))]"

definition serialize_entries :: "(jvalue \<Rightarrow> pystr) \<Rightarrow> entry list \<Rightarrow> bytes result" where
  "serialize_entries rp es = utf8_encode (json_dumps rp (payload es))"

text \<open>
  \<open>v == 1\<close>: the integer, \<open>True\<close>, or a float that rounds to 1.0 (the value of the lexeme is
  between the midpoints of 1.0 and its two neighbours, which both round to the even 1.0).
\<close>

definition float_is_one :: "bool \<Rightarrow> nat list \<Rightarrow> nat list \<Rightarrow> int \<Rightarrow> bool" where
  "float_is_one neg ip fp ep =
     (let d = digits_value (ip @ fp); k = ep - int (length fp) in
      \<not> neg \<and>
      (if 0 \<le> k then d * 10 ^ nat k = 1
       else (2 ^ 54 - 1) * 10 ^ nat (- k) \<le> d * 2 ^ 54 \<and> d * 2 ^ 53 \<le> (2 ^ 53 + 1) * 10 ^ nat (- k)))"

definition equals_schema :: "jvalue \<Rightarrow> bool" where
  "equals_schema v =
     (case v of
        JInt i \<Rightarrow> i = SCHEMA_VERSION
      | JBool b \<Rightarrow> b
      | JFloat n ip fp ep \<Rightarrow> float_is_one n ip fp ep
      | _ \<Rightarrow> False)"

definition load_body :: "bytes \<Rightarrow> jvalue result" where
  "load_body data =
     (case rbind (utf8_decode data) (\<lambda>s. scan_result (json_loads s)) of
        Inl JSONDecodeError \<Rightarrow> Inl (VaultFormatError (lit ''vault body is not valid JSON''))
      | Inl UnicodeDecodeError \<Rightarrow> Inl (VaultFormatError (lit ''vault body is not valid JSON''))
      | r \<Rightarrow> r)"

fun from_dicts :: "(jvalue \<Rightarrow> pystr) \<Rightarrow> jvalue list \<Rightarrow> entry list result" where
  "from_dicts rp [] = Inr []"
| "from_dicts rp (v # vs) = rbind (from_dict rp v) (\<lambda>e. rbind (from_dicts rp vs) (\<lambda>es. Inr (e # es)))"

definition check_payload :: "(jvalue \<Rightarrow> pystr) \<Rightarrow> jvalue \<Rightarrow> entry list result" where
  "check_payload rp v =
     (case v of
        JObject d \<Rightarrow>
          (case map_of d (lit ''entries'') of
             None \<Rightarrow> Inl (VaultFormatError (lit ''vault body missing '' @ [39] @ lit ''entries'' @ [39]))
           | Some raw \<Rightarrow>
               (let ver = (case map_of d (lit ''schema_version'') of None \<Rightarrow> JNull | Some x \<Rightarrow> x) in
                if \<not> equals_schema ver
                then Inl (VaultFormatError (lit ''unsupported entry schema version '' @ repr_of rp ver))
                else (case raw of
                        JArray vs \<Rightarrow> from_dicts rp vs
                      | _ \<Rightarrow> Inl (VaultFormatError
                               (lit ''vault body '' @ [39] @ lit ''entries'' @ [39] @ lit '' must be a list'')))))
      | _ \<Rightarrow> Inl (VaultFormatError (lit ''vault body missing '' @ [39] @ lit ''entries'' @ [39])))"

definition deserialize_entries :: "(jvalue \<Rightarrow> pystr) \<Rightarrow> bytes \<Rightarrow> entry list result" where
  "deserialize_entries rp data = rbind (load_body data) (check_payload rp)"

section \<open>The round trip\<close>

lemma lit_inj [simp]: "lit s = lit t \<longleftrightarrow> s = t"
  unfolding lit_def by (rule inj_map_eq_map) (simp add: inj_def)

lemma str_of_JString [simp]: "str_of rp (JString s) = s"
  by (simp add: str_of_def)

lemma from_dict_to_dict: "from_dict rp (JObject (to_dict e)) = Inr e"
  by (simp add: from_dict_def to_dict_def field_def field_or_empty_def)

lemma from_dicts_map:
  "from_dicts rp (map (\<lambda>e. JObject (to_dict e)) es) = Inr es"
  by (induction es) (simp_all add: from_dict_to_dict)

text \<open>The entries the round trip preserves: every field is a plain string.\<close>

definition entry_ok :: "entry \<Rightarrow> bool" where
  "entry_ok e \<longleftrightarrow>
     plain_str (e_id e) \<and> plain_str (e_service e) \<and> plain_str (e_username e) \<and>
     plain_str (e_password e) \<and> plain_str (e_notes e) \<and> plain_str (e_created e) \<and>
     plain_str (e_updated e)"

lemma plain_str_lit_ascii: "list_all (\<lambda>c. of_char c < (128 :: nat)) s \<Longrightarrow> plain_str (lit s)"
  by (rule plain_str_scalar) (auto simp: lit_def list_all_iff is_scalar_def)

lemma plain_keys [simp]:
  "plain_str (lit ''id'')" "plain_str (lit ''service'')" "plain_str (lit ''username'')"
  "plain_str (lit ''password'')" "plain_str (lit ''notes'')" "plain_str (lit ''created_at'')"
  "plain_str (lit ''updated_at'')" "plain_str (lit ''schema_version'')" "plain_str (lit ''entries'')"
  by (rule plain_str_lit_ascii, simp)+

lemma int_printable_1: "int_printable 1"
  by (simp add: int_printable_def MAX_STR_DIGITS_def show_nat.simps)

lemma json_ok_payload: "json_ok (payload es) \<longleftrightarrow> list_all entry_ok es"
  by (auto simp: payload_def SCHEMA_VERSION_def int_printable_1 list_all_iff entry_ok_def to_dict_def)

lemma check_payload_payload: "check_payload rp (payload es) = Inr es"
  by (simp add: check_payload_def payload_def from_dicts_map equals_schema_def)

text \<open>The body is always ASCII text, so encoding it never fails.\<close>

lemma ascii_members_quoted:
  "ascii (json_dump_members rp (map (\<lambda>(k, s). (k, JString s)) ps))"
  by (induction ps rule: induct_list012) (auto simp: ascii_json_quote)

lemma to_dict_map: "to_dict e = map (\<lambda>(k, s). (k, JString s))
  [(lit ''id'', e_id e), (lit ''service'', e_service e), (lit ''username'', e_username e),
   (lit ''password'', e_password e), (lit ''notes'', e_notes e), (lit ''created_at'', e_created e),
   (lit ''updated_at'', e_updated e)]"
  by (simp add: to_dict_def)

lemma ascii_entry: "ascii (json_dumps rp (JObject (to_dict e)))"
  unfolding to_dict_map json_dumps.simps using ascii_members_quoted by simp

lemma ascii_entries: "ascii (json_dump_elements rp (map (\<lambda>e. JObject (to_dict e)) es))"
  by (induction es rule: induct_list012)
     (simp_all del: json_dumps.simps add: ascii_entry)

lemma ascii_payload: "ascii (json_dumps rp (payload es))"
  using ascii_entries [of rp es] by (simp add: payload_def)

lemma serialize_entries_ok:
  "serialize_entries rp es = Inr (map of_nat (json_dumps rp (payload es)))"
  unfolding serialize_entries_def
  by (rule utf8_ascii) (simp add: ascii_payload flip: ascii_list_all)

text \<open>JSON over UTF-8, as a chain of two codecs.\<close>

interpretation body: codec_chain
  "json_dumps rp" "\<lambda>s. ok_of (scan_result (json_loads s))" json_ok
  "\<lambda>s. map of_nat (concat (map utf8_char s))" "\<lambda>b. ok_of (utf8_decode b)" "list_all is_scalar" for rp
proof unfold_locales
  fix v assume "json_ok v"
  then have "ascii (json_dumps rp v)" by (rule json_dumps_ascii)
  then show "list_all is_scalar (json_dumps rp v)"
    by (auto simp: ascii_list_all list_all_iff is_scalar_def)
qed

lemma load_body_Inr_iff:
  "load_body b = Inr v \<longleftrightarrow>
     Option.bind (ok_of (utf8_decode b)) (\<lambda>s. ok_of (scan_result (json_loads s))) = Some v"
  by (cases "utf8_decode b")
     (auto simp: load_body_def rbind_def split: sum.splits exn.splits)

lemma load_body_dumps:
  "json_ok v \<Longrightarrow> utf8_encode (json_dumps rp v) = Inr b \<Longrightarrow> load_body b = Inr v"
  using body.chain [of v rp] by (auto simp: load_body_Inr_iff utf8_encode_Inr_iff)

lemma deserialize_serialize:
  assumes "list_all entry_ok es" and "serialize_entries rp es = Inr b"
  shows "deserialize_entries rp' b = Inr es"
  using load_body_dumps [of "payload es" rp b] assms
  by (simp add: json_ok_payload serialize_entries_def deserialize_entries_def check_payload_payload)

interpretation entries: codec
  "\<lambda>es. map of_nat (json_dumps rp (payload es))" "\<lambda>b. ok_of (deserialize_entries rp b)"
  "list_all entry_ok" for rp
  by unfold_locales (simp add: deserialize_serialize serialize_entries_ok)

end
