(* ===== verification/EntryProperties.thy ===== *)
theory EntryProperties
  imports Entries
begin

text \<open>
  Properties of the vault body: the round trip of entries, the errors of
  \<open>deserialize_entries\<close>, the identifiers and the time stamps.
\<close>

section \<open>Errors of the body\<close>

lemma field_error: "field rp d k = Inl e \<Longrightarrow> \<exists>k. e = KeyError k"
  by (auto simp: field_def split: option.splits)

lemma from_dict_error: "from_dict rp v = Inl e \<Longrightarrow> (\<exists>m. e = VaultFormatError m) \<or> e = TypeError"
proof (cases v)
  case (JObject d)
  let ?r = "rbind (field rp d ''id'') (\<lambda>i. rbind (field rp d ''service'') (\<lambda>s.
      rbind (field rp d ''username'') (\<lambda>u. rbind (field rp d ''password'') (\<lambda>p.
      rbind (field_or_empty rp d ''notes'') (\<lambda>n. rbind (field rp d ''created_at'') (\<lambda>c.
      rbind (field rp d ''updated_at'') (\<lambda>t.
      Inr \<lparr>e_id = i, e_service = s, e_username = u, e_password = p, e_notes = n,
        e_created = c, e_updated = t\<rparr>)))))))"
  have "?r = Inl e' \<Longrightarrow> \<exists>k. e' = KeyError k" for e'
    by (auto simp: rbind_Inl_iff field_or_empty_def dest: field_error)
  then show "from_dict rp v = Inl e \<Longrightarrow> (\<exists>m. e = VaultFormatError m) \<or> e = TypeError"
    by (cases ?r) (auto simp: JObject from_dict_def missing_field_def)
qed (simp_all add: from_dict_def)

lemma from_dicts_error: "from_dicts rp vs = Inl e \<Longrightarrow> (\<exists>m. e = VaultFormatError m) \<or> e = TypeError"
  by (induction vs) (auto simp: rbind_Inl_iff dest: from_dict_error)

lemma load_body_error: "load_body b = Inl e \<Longrightarrow> (\<exists>m. e = VaultFormatError m) \<or> (\<exists>m. e = ValueError m)"
proof -
  assume e: "load_body b = Inl e"
  show ?thesis
  proof (cases "utf8_decode b")
    case (Inl e')
    with e show ?thesis
      by (auto simp: load_body_def utf8_decode_def split: option.splits)
  next
    case (Inr s)
    with e show ?thesis
      using json_loads_enough [of s] json_loads_error [of s]
      by (cases "json_loads s") (auto simp: load_body_def scan_result_def json_error_def)
  qed
qed

text \<open>C31: Serializing any list of entries succeeds, and deserializing the bytes gives the list back,
  for entries whose strings hold no high surrogate directly followed by a low one (every string
  of Unicode scalar values is such a string).\<close>

theorem entries_roundtrip:
  assumes "list_all entry_ok es"
  shows "\<exists>b. serialize_entries rp es = Inr b \<and> deserialize_entries rp' b = Inr es"
  using serialize_entries_ok deserialize_serialize [OF assms] by blast

definition sample_entry :: entry where
  "sample_entry = \<lparr>e_id = lit ''0a1b2c3d'', e_service = [34, 92, 10], e_username = lit ''bob'',
     e_password = [233, 8364, 128512], e_notes = [], e_created = lit ''2024-01-01'',
     e_updated = lit ''2024-01-01''\<rparr>"

lemma sample_entry_ok: "list_all entry_ok [sample_entry]"
  by (simp add: sample_entry_def entry_ok_def plain_str_def is_pystr_def is_high_def lit_def)

theorem entries_roundtrip_witness:
  "\<exists>b. serialize_entries (\<lambda>v. []) [sample_entry] = Inr b \<and>
     deserialize_entries (\<lambda>v. []) b = Inr [sample_entry]"
  by (rule entries_roundtrip [OF sample_entry_ok])

text \<open>\<open>deserialize_entries\<close> of any bytes at all returns a list or raises: \<open>VaultFormatError\<close>,
  the \<open>TypeError\<close> of an element that is no dictionary, or the \<open>ValueError\<close> of an integer literal
  above Python's digit limit. No Unicode, JSON or key error escapes, and the scanner never runs
  out of the fuel it is given.\<close>

theorem deserialize_outcomes:
  "case deserialize_entries rp data of
     Inl e \<Rightarrow> (\<exists>m. e = VaultFormatError m) \<or> e = TypeError \<or> (\<exists>m. e = ValueError m)
   | Inr es \<Rightarrow> (\<exists>s d vs. utf8_decode data = Inr s \<and> json_loads s = Done (JObject d) [] \<and>
       map_of d (lit ''entries'') = Some (JArray vs) \<and> length es = length vs)"
proof (cases "deserialize_entries rp data")
  case (Inl e)
  have "check_payload rp v = Inl e \<Longrightarrow> (\<exists>m. e = VaultFormatError m) \<or> e = TypeError" for v
    by (auto simp: check_payload_def Let_def dest: from_dicts_error
        split: jvalue.splits option.splits if_splits)
  with Inl show ?thesis
    by (auto simp: deserialize_entries_def rbind_Inl_iff dest: load_body_error)
next
  case (Inr es)
  then obtain v where v: "load_body data = Inr v" and c: "check_payload rp v = Inr es"
    by (auto simp: deserialize_entries_def rbind_Inr_iff)
  from v obtain s where s: "utf8_decode data = Inr s" and "scan_result (json_loads s) = Inr v"
    by (auto simp: load_body_Inr_iff bind_eq_Some_conv)
  then have l: "json_loads s = Done v []"
    by (auto simp: scan_result_def json_loads_def sbind_def split: scan.splits if_splits)
  have "from_dicts rp vs = Inr es \<Longrightarrow> length es = length vs" for vs
    by (induction vs arbitrary: es) (auto simp: rbind_Inr_iff)
  with c obtain d vs where "v = JObject d" "map_of d (lit ''entries'') = Some (JArray vs)"
    "length es = length vs"
    by (auto simp: check_payload_def Let_def split: jvalue.splits option.splits if_splits)
  with s l Inr show ?thesis by auto
qed

text \<open>A body whose entries hold anything but a dictionary escapes as \<open>TypeError\<close>, although the
  documentation promises \<open>VaultFormatError\<close> on any structural problem.\<close>

theorem non_dict_entry_raises_TypeError:
  assumes "json_ok v" and "\<And>d. v \<noteq> JObject d"
    and "utf8_encode (json_dumps rp (JObject [(lit ''schema_version'', JInt SCHEMA_VERSION),
      (lit ''entries'', JArray [v])])) = Inr data"
  shows "deserialize_entries rp data = Inl TypeError"
proof -
  let ?v = "JObject [(lit ''schema_version'', JInt SCHEMA_VERSION), (lit ''entries'', JArray [v])]"
  have "json_ok ?v" using assms(1) by (simp add: SCHEMA_VERSION_def int_printable_1)
  then have "load_body data = Inr ?v" using assms(3) by (rule load_body_dumps)
  moreover have "from_dict rp v = Inl TypeError"
  proof (cases v)
    case (JObject d)
    with assms(2) show ?thesis by blast
  qed (simp_all add: from_dict_def)
  ultimately show ?thesis
    by (simp add: deserialize_entries_def check_payload_def equals_schema_def)
qed

lemma number_body_encodes:
  "\<exists>data. utf8_encode (json_dumps (\<lambda>v. []) (JObject [(lit ''schema_version'', JInt SCHEMA_VERSION),
     (lit ''entries'', JArray [JInt 1])])) = Inr data"
proof -
  have "ascii (json_dumps (\<lambda>v. []) (JObject [(lit ''schema_version'', JInt SCHEMA_VERSION),
     (lit ''entries'', JArray [JInt 1])]))"
    by (rule json_dumps_ascii) (simp add: SCHEMA_VERSION_def int_printable_1)
  then show ?thesis using utf8_ascii ascii_list_all by blast
qed

theorem non_dict_entry_raises_TypeError_witness:
  "\<exists>data. utf8_encode (json_dumps (\<lambda>v. []) (JObject [(lit ''schema_version'', JInt SCHEMA_VERSION),
     (lit ''entries'', JArray [JInt 1])])) = Inr data \<and>
     deserialize_entries (\<lambda>v. []) data = Inl TypeError"
proof -
  obtain data where d: "utf8_encode (json_dumps (\<lambda>v. []) (JObject [(lit ''schema_version'',
      JInt SCHEMA_VERSION), (lit ''entries'', JArray [JInt 1])])) = Inr data"
    using number_body_encodes by blast
  have "json_ok (JInt 1)" by (simp add: int_printable_1)
  from non_dict_entry_raises_TypeError [OF this _ d] d show ?thesis by simp
qed

text \<open>A high surrogate followed by a low one is not preserved: the decoder joins the two escapes,
  so an entry whose notes are the two surrogates reads back with one other character.\<close>

theorem surrogate_pair_is_joined:
  assumes "entry_ok e" and "is_high h" and "is_low l"
    and "serialize_entries rp [e\<lparr>e_notes := [h, l]\<rparr>] = Inr data"
  shows "deserialize_entries rp data = Inr [e\<lparr>e_notes := [join_surrogates h l]\<rparr>]"
proof -
  let ?c = "join_surrogates h l"
  have hl: "55296 \<le> h" "h < 56320" "56320 \<le> l" "l < 57344"
    using assms(2,3) by (auto simp: is_high_def is_low_def)
  then have c: "?c - 65536 = (h - 55296) * 1024 + (l - 56320)" "65536 \<le> ?c" "?c < 1114112"
    by (auto simp: join_surrogates_def)
  have "(a * 1024 + b) div 1024 = a \<and> (a * 1024 + b) mod 1024 = b" if "b < 1024" for a b :: nat
    using that by simp
  from this [of "l - 56320" "h - 55296"] hl
  have "(?c - 65536) div 1024 = h - 55296" "(?c - 65536) mod 1024 = l - 56320"
    unfolding c(1) by linarith+
  with hl c(2) have "esc_chars [?c] = uescape h @ uescape l"
    by (simp add: esc_chars_def esc_char_def)
  moreover have "esc_chars [h, l] = uescape h @ uescape l"
    using hl by (simp add: esc_chars_def esc_char_def)
  ultimately have "json_quote [?c] = json_quote [h, l]" by (simp add: json_quote_def)
  then have "json_dumps rp (payload [e\<lparr>e_notes := [?c]\<rparr>]) = json_dumps rp (payload [e\<lparr>e_notes := [h, l]\<rparr>])"
    by (simp add: payload_def to_dict_def)
  with assms(4) have "serialize_entries rp [e\<lparr>e_notes := [?c]\<rparr>] = Inr data"
    by (simp add: serialize_entries_def)
  moreover have "plain_str [?c]" using c(3) by (simp add: plain_str_def is_pystr_def)
  with assms(1) have "list_all entry_ok [e\<lparr>e_notes := [?c]\<rparr>]" by (simp add: entry_ok_def)
  ultimately show ?thesis using deserialize_serialize by blast
qed

theorem surrogate_pair_is_joined_witness:
  "\<exists>data. serialize_entries (\<lambda>v. []) [sample_entry\<lparr>e_notes := [55357, 56832]\<rparr>] = Inr data \<and>
     deserialize_entries (\<lambda>v. []) data = Inr [sample_entry\<lparr>e_notes := [128512]\<rparr>]"
proof -
  have "is_high 55357" "is_low 56832" "join_surrogates 55357 56832 = 128512"
    by (simp_all add: is_high_def is_low_def join_surrogates_def)
  moreover have "entry_ok sample_entry" using sample_entry_ok by simp
  ultimately show ?thesis
    using surrogate_pair_is_joined [of sample_entry 55357 56832 "\<lambda>v. []"] serialize_entries_ok
    by (metis (no_types))
qed

section \<open>Identifiers and time stamps\<close>

lemma bytes_hex_Cons: "bytes_hex (x # b) = hex_fixed 2 (unat x) @ bytes_hex b"
  by (simp add: bytes_hex_def)

lemma length_bytes_hex: "length (bytes_hex b) = 2 * length b"
  by (induction b) (simp_all add: bytes_hex_def)

lemma bytes_hex_append: "bytes_hex (a @ b) = bytes_hex a @ bytes_hex b"
  by (simp add: bytes_hex_def)

lemma take_bytes_hex: "take (2 * n) (bytes_hex b) = bytes_hex (take n b)"
proof (induction b arbitrary: n)
  case (Cons x b)
  show ?case
  proof (cases n)
    case (Suc m)
    with Cons show ?thesis by (simp add: bytes_hex_Cons numeral_2_eq_2)
  qed (simp add: bytes_hex_def)
qed (simp add: bytes_hex_def)

lemma hex_digits_inj: "hex_fixed k m = hex_fixed k n \<Longrightarrow> m < 16 ^ k \<Longrightarrow> n < 16 ^ k \<Longrightarrow> m = n"
  using hex_run_hex_fixed [of m k 0 "[]"] hex_run_hex_fixed [of n k 0 "[]"] by simp

lemma bytes_hex_inj: "bytes_hex a = bytes_hex b \<Longrightarrow> a = b"
proof (induction a arbitrary: b)
  case Nil
  then have "length (bytes_hex b) = 0" by (metis length_bytes_hex list.size(3) mult_0_right)
  then show ?case by (simp add: length_bytes_hex)
next
  case (Cons x a)
  have "length b = Suc (length a)"
    using Cons.prems length_bytes_hex [of b] length_bytes_hex [of "x # a"] by simp
  then obtain y b' where b: "b = y # b'" by (cases b) auto
  with Cons.prems have "hex_fixed 2 (unat x) = hex_fixed 2 (unat y)" "bytes_hex a = bytes_hex b'"
    by (auto simp: bytes_hex_Cons)
  moreover have "unat x < 16 ^ 2" "unat y < 16 ^ 2" using unsigned_less [of x] unsigned_less [of y] by simp_all
  ultimately show ?case using Cons.IH hex_digits_inj b word_unat_eq_iff [of x y] by metis
qed

lemma new_entry_id_eq:
  "new_entry_id w = Some (Inr (bytes_hex (tape_read (tape w) (tpos w) 4)), w\<lparr>tpos := tpos w + 16\<rparr>)"
proof -
  let ?b = "tape_read (tape w) (tpos w) 16"
  have "take 8 (bytes_hex (uuid4_bytes ?b)) = bytes_hex (take 4 (uuid4_bytes ?b))"
    using take_bytes_hex [of 4 "uuid4_bytes ?b"] by simp
  also have "take 4 (uuid4_bytes ?b) = take 4 ?b" by (simp add: uuid4_bytes_def)
  also have "take 4 ?b = tape_read (tape w) (tpos w) 4"
    by (simp add: tape_read_def take_map)
  finally show ?thesis
    by (simp add: new_entry_id_def)
qed

text \<open>An identifier is the hexadecimal text of the first four of the sixteen octets drawn: eight
  characters, with the version and variant bits of the UUID out of sight, and different for any
  two draws that differ in those four octets (32 random bits).\<close>

theorem entry_id_four_octets:
  "new_entry_id w = Some (Inr (bytes_hex (tape_read (tape w) (tpos w) 4)), w\<lparr>tpos := tpos w + 16\<rparr>) \<and>
   length (bytes_hex (tape_read (tape w) (tpos w) 4)) = 8 \<and>
   inj bytes_hex"
  by (simp add: new_entry_id_eq length_bytes_hex inj_def bytes_hex_inj)

lemma hex_digit_scalar: "d < 16 \<Longrightarrow> is_scalar (hex_digit d)"
  by (simp add: hex_digit_def is_scalar_def)

lemma hex_fixed_scalar: "list_all is_scalar (hex_fixed k n)"
  by (induction k arbitrary: n) (simp_all add: hex_digit_scalar)

lemma bytes_hex_plain: "plain_str (bytes_hex b)"
proof (rule plain_str_scalar)
  show "list_all is_scalar (bytes_hex b)"
    by (induction b) (simp_all add: bytes_hex_Cons hex_fixed_scalar del: hex_fixed.simps, simp add: bytes_hex_def)
qed

lemma length_pad_nat: "length (pad_nat k n) = k"
  by (induction k arbitrary: n) simp_all

lemma pad_nat_digits: "list_all is_scalar (pad_nat k n)"
proof (induction k arbitrary: n)
  case (Suc k)
  have "48 + n mod 10 < 128" using mod_less_divisor [of 10 n] by linarith
  with Suc show ?case by (simp add: is_scalar_def)
qed simp

lemma utc_isoformat_plain: "plain_str (utc_isoformat t)" "length (utc_isoformat t) = 25"
proof -
  obtain y m d where c: "civil_date (t div 86400) = (y, m, d)" by (cases "civil_date (t div 86400)")
  have l: "list_all is_scalar (lit s)" if "list_all (\<lambda>c. of_char c < (128 :: nat)) s" for s
    using that by (auto simp: lit_def list_all_iff is_scalar_def)
  show "plain_str (utc_isoformat t)"
    using c by (auto intro!: plain_str_scalar l simp: utc_isoformat_def pad_nat_digits Let_def)
  show "length (utc_isoformat t) = 25"
    using c by (simp add: utc_isoformat_def length_pad_nat Let_def)
qed

text \<open>Every time stamp is a plain ASCII string of 25 characters, so the round trip of entries
  preserves it.\<close>

theorem timestamp_plain:
  "plain_str (utc_isoformat t) \<and> length (utc_isoformat t) = 25"
  by (simp add: utc_isoformat_plain)

end
