(* ===== verification/EntryTypes.thy ===== *)
theory EntryTypes
  imports EntryProperties
begin

text \<open>
  The types of what is read from a vault body: whatever the bytes, every string the JSON scanner
  returns is a Python string in which no surrogate pair is split, so every entry that is read can
  be stored and read back unchanged.
\<close>

named_theorems scalar_rest \<open>a scanner leaves a part of its input\<close>

lemma expect_rest [scalar_rest]: "expect c s = Some r \<Longrightarrow> list_all P s \<Longrightarrow> list_all P r"
  by (auto simp: expect_def split: list.splits if_splits)

lemma hex_run_rest [scalar_rest]: "hex_run k a s = Some (c, r) \<Longrightarrow> list_all P s \<Longrightarrow> list_all P r"
  by (induction k a s rule: hex_run.induct) (auto split: option.splits)

lemma skip_ws_rest [scalar_rest, simp]: "list_all P s \<Longrightarrow> list_all P (skip_ws s)"
  by (auto simp: skip_ws_def list_all_iff dest: set_dropWhileD)

lemma dropWhile_rest [scalar_rest, simp]: "list_all P s \<Longrightarrow> list_all P (dropWhile Q s)"
  by (auto simp: list_all_iff dest: set_dropWhileD)

lemma json_unicode_rest [scalar_rest]: "json_unicode s = Some (c, r) \<Longrightarrow> list_all P s \<Longrightarrow> list_all P r"
  by (auto simp: json_unicode_def bind_eq_Some_conv split: option.splits if_splits)
     (meson hex_run_rest expect_rest)+

lemma json_escape_rest [scalar_rest]: "json_escape s = Some (c, r) \<Longrightarrow> list_all P s \<Longrightarrow> list_all P r"
  by (auto simp: json_escape_def split: list.splits if_splits dest: json_unicode_rest)

lemma json_string_rest [scalar_rest]: "json_string s = Done x r \<Longrightarrow> list_all P s \<Longrightarrow> list_all P r"
proof (induction s arbitrary: x rule: json_string.induct)
  case (2 c s)
  then show ?case
    by (auto simp: smap_def sbind_def split: if_splits option.splits scan.splits dest: json_escape_rest)
qed simp

section \<open>The code points of a string\<close>

lemma hex_value_bound: "hex_value c = Some d \<Longrightarrow> d < 16"
  by (auto simp: hex_value_def split: if_splits)

lemma hex_run_bound: "hex_run k a s = Some (c, r) \<Longrightarrow> c < (a + 1) * 16 ^ k"
proof (induction k a s rule: hex_run.induct)
  case (3 k a x s)
  then obtain d where d: "hex_value x = Some d" "hex_run k (16 * a + d) s = Some (c, r)" by (auto split: option.splits)
  from 3(1) [OF d] have "c < (16 * a + d + 1) * 16 ^ k" by simp
  also have "\<dots> \<le> (16 * (a + 1)) * 16 ^ k" using hex_value_bound [OF d(1)] by (intro mult_right_mono) simp_all
  finally show ?case by (simp add: algebra_simps)
qed simp_all

lemma hex4_bound: "hex_run 4 0 s = Some (c, r) \<Longrightarrow> c < 65536"
  using hex_run_bound [of 4 0 s c r] by simp

lemma json_unicode_bound: "json_unicode s = Some (c, r) \<Longrightarrow> c < 1114112"
  by (auto simp: json_unicode_def bind_eq_Some_conv join_surrogates_def is_high_def is_low_def
      split: option.splits if_splits dest!: hex4_bound)

lemma json_escape_bound: "json_escape s = Some (c, r) \<Longrightarrow> c < 1114112"
  by (auto simp: json_escape_def split: list.splits if_splits dest: json_unicode_bound)

text \<open>A low surrogate is the value of an escape only if its four digits say so.\<close>

lemma low_escape:
  assumes "json_escape s = Some (d, r)" and "is_low d"
  obtains t r' where "s = 117 # t" and "hex_run 4 0 t = Some (d, r')"
proof (cases s)
  case (Cons e t)
  have "\<not> is_low 8" "\<not> is_low 12" "\<not> is_low 10" "\<not> is_low 13" "\<not> is_low 9" "\<not> is_low 34" "\<not> is_low 92" "\<not> is_low 47"
    by (simp_all add: is_low_def)
  with Cons assms have u: "e = 117" "json_unicode t = Some (d, r)"
    by (auto simp: json_escape_def split: if_splits)
  have "\<not> is_low (join_surrogates a b)" if "is_high a" for a b
    using that by (simp add: join_surrogates_def is_low_def)
  with u(2) assms(2) obtain r' where "hex_run 4 0 t = Some (d, r')"
    by (auto simp: json_unicode_def split: option.splits if_splits)
  with Cons u(1) show ?thesis by (intro that) simp_all
qed (use assms in \<open>simp add: json_escape_def\<close>)

text \<open>A lone high surrogate of the input is not followed by a low one in the output.\<close>

lemma high_escape_alone:
  assumes "json_escape s = Some (c, r)" and "is_high c" and "json_string r = Done (d # x) t" and "list_all is_scalar r"
  shows "\<not> is_low d"
proof
  assume low: "is_low d"
  from assms(1,2) obtain q where q: "json_unicode q = Some (c, r)"
    by (auto simp: json_escape_def is_high_def split: list.splits if_splits)
  have "\<not> is_high (join_surrogates a b)" for a b by (simp add: join_surrogates_def is_high_def)
  with q assms(2) have alone: "case Option.bind (expect 92 r) (expect 117) of None \<Rightarrow> True
      | Some r' \<Rightarrow> (case hex_run 4 0 r' of None \<Rightarrow> False | Some (b, r2) \<Rightarrow> \<not> is_low b)"
    by (auto simp: json_unicode_def split: option.splits if_splits)
  from assms(3) obtain b r' where r: "r = b # r'" by (cases r) simp_all
  show False
  proof (cases "b = 92")
    case False
    with assms(3) r have "d = b" by (auto simp: smap_def sbind_def split: if_splits scan.splits)
    with assms(4) r low show False by (simp add: is_scalar_def is_low_def)
  next
    case True
    with assms(3) r obtain r2 where "json_escape r' = Some (d, r2)"
      by (auto simp: smap_def sbind_def split: option.splits scan.splits)
    from low_escape [OF this low] obtain u r3 where "r' = 117 # u" "hex_run 4 0 u = Some (d, r3)" .
    with r True alone low show False by simp
  qed
qed

lemma plain_str_Cons:
  "c < 1114112 \<Longrightarrow> plain_str x \<Longrightarrow> (\<And>d y. x = d # y \<Longrightarrow> is_high c \<Longrightarrow> \<not> is_low d) \<Longrightarrow> plain_str (c # x)"
  by (cases x) (auto simp: plain_str_def is_pystr_def)

lemma json_string_plain: "json_string s = Done x t \<Longrightarrow> list_all is_scalar s \<Longrightarrow> plain_str x"
proof (induction s arbitrary: x rule: json_string.induct)
  case (2 c s)
  consider "c = 34" "x = []" | d r y where "c = 92" "json_escape s = Some (d, r)" "json_string r = Done y t" "x = d # y"
    | y where "c \<noteq> 34" "c \<noteq> 92" "\<not> c < 32" "json_string s = Done y t" "x = c # y"
    using 2(3) by (auto simp: smap_def sbind_def split: if_splits option.splits scan.splits)
  then show ?case
  proof cases
    case (2 d r y)
    have s: "list_all is_scalar r" using json_escape_rest [OF 2(2)] \<open>list_all is_scalar (c # s)\<close> by simp
    from "2.IH"(1) [of "(d, r)" d r y] 2 s have "plain_str y" by simp
    with 2 s show ?thesis using json_escape_bound [OF 2(2)] high_escape_alone [OF 2(2)]
      by (auto intro!: plain_str_Cons)
  next
    case (3 y)
    with "2.IH"(2) [of y] \<open>list_all is_scalar (c # s)\<close> have "plain_str y" "is_scalar c" by simp_all
    with 3 show ?thesis by (auto intro!: plain_str_Cons simp: is_scalar_def is_high_def)
  qed simp
qed simp

section \<open>The strings of a value\<close>

fun strings_plain :: "jvalue \<Rightarrow> bool" where
  "strings_plain (JString s) \<longleftrightarrow> plain_str s"
| "strings_plain (JArray vs) \<longleftrightarrow> (\<forall>v \<in> set vs. strings_plain v)"
| "strings_plain (JObject ps) \<longleftrightarrow> (\<forall>p \<in> set ps. plain_str (fst p) \<and> strings_plain (snd p))"
| "strings_plain _ \<longleftrightarrow> True"

lemma scan_integer_rest [scalar_rest]: "scan_integer s = Some (d, r) \<Longrightarrow> list_all P s \<Longrightarrow> list_all P r"
  by (auto simp: scan_integer_def split: option.splits if_splits dest: expect_rest)

lemma scan_fraction_rest [scalar_rest]: "scan_fraction s = (d, r) \<Longrightarrow> list_all P s \<Longrightarrow> list_all P r"
  by (auto simp: scan_fraction_def split: option.splits if_splits dest: expect_rest)

lemma scan_sign_rest: "scan_sign s = (b, r) \<Longrightarrow> list_all P s \<Longrightarrow> list_all P r"
  by (auto simp: scan_sign_def split: option.splits dest: expect_rest)

lemma scan_exponent_rest [scalar_rest]: "scan_exponent s = (d, r) \<Longrightarrow> list_all P s \<Longrightarrow> list_all P r"
  by (auto simp: scan_exponent_def Let_def split: list.splits prod.splits if_splits dest: scan_sign_rest)

lemma json_number_type:
  assumes "json_number s = Done v r"
  shows "strings_plain v" and "list_all P s \<Longrightarrow> list_all P r"
proof -
  obtain neg t where t: "(case expect 45 s of Some r \<Rightarrow> (True, r) | None \<Rightarrow> (False, s)) = (neg, t)" by fastforce
  with assms obtain ip t1 where i: "scan_integer t = Some (ip, t1)"
    by (cases "scan_integer t") (auto simp: json_number_def)
  obtain fp t2 where f: "scan_fraction t1 = (fp, t2)" by fastforce
  obtain ep t3 where e: "scan_exponent t2 = (ep, t3)" by fastforce
  have d: "strings_plain v \<and> r = t3"
    using assms t i f e by (auto simp: json_number_def Let_def split: if_splits)
  then show "strings_plain v" by simp
  assume "list_all P s"
  with t have "list_all P t" by (auto split: option.splits dest: expect_rest)
  with i f e d show "list_all P r" by (blast dest: scan_integer_rest scan_fraction_rest scan_exponent_rest)
qed

lemma prefixed_rest: "prefixed p s = Some r \<Longrightarrow> list_all P s \<Longrightarrow> list_all P r"
  by (auto simp: prefixed_def list_all_iff split: if_splits dest: in_set_dropD)

lemma json_atom_type: "json_atom s = Done v r \<Longrightarrow> strings_plain v \<and> (list_all P s \<longrightarrow> list_all P r)"
  by (auto simp: json_atom_def split: option.splits dest: prefixed_rest json_number_type)

definition well_read :: "jvalue \<Rightarrow> pystr \<Rightarrow> bool" where
  "well_read v r \<longleftrightarrow> strings_plain v \<and> list_all is_scalar r"

lemma set_update: "set (AList.update k v ps) \<subseteq> insert (k, v) (set ps)"
  by (induction ps) (simp_all split: prod.split, blast)

lemma strings_plain_update:
  assumes "strings_plain (JObject ps)" and "plain_str k" and "strings_plain v"
  shows "strings_plain (JObject (AList.update k v ps))"
proof -
  have "\<forall>p \<in> insert (k, v) (set ps). plain_str (fst p) \<and> strings_plain (snd p)" using assms by simp
  with set_update [of k v ps] show ?thesis unfolding strings_plain.simps by blast
qed

lemma json_scan_type:
  "json_value n s = Done v r \<Longrightarrow> list_all is_scalar s \<Longrightarrow> well_read v r"
  "json_elements n vs s = Done v r \<Longrightarrow> list_all is_scalar s \<Longrightarrow> (\<forall>u \<in> set vs. strings_plain u) \<Longrightarrow> well_read v r"
  "json_members n ps s = Done v r \<Longrightarrow> list_all is_scalar s \<Longrightarrow> strings_plain (JObject ps) \<Longrightarrow> well_read v r"
proof (induction n s and n vs s and n ps s arbitrary: v r and v r and v r
    rule: json_value_json_elements_json_members.induct)
  case (2 n s)
  show ?case
  proof (cases "expect 34 s")
    case a: None
    show ?thesis
    proof (cases "expect 123 s")
      case b: None
      show ?thesis
      proof (cases "expect 91 s")
        case None
        with a b 2(3,4) json_atom_type [of s v r is_scalar] show ?thesis by (simp add: well_read_def)
      next
        case (Some t)
        have t: "list_all is_scalar (skip_ws t)" using expect_rest [OF Some 2(4)] by simp
        show ?thesis
        proof (cases "expect 93 (skip_ws t)")
          case None
          with a b Some 2(3) have "json_elements n [] (skip_ws t) = Done v r" by simp
          from 2(1) [OF a b Some None this t] show ?thesis by simp
        next
          case u: (Some u)
          with a b Some 2(3) expect_rest [OF u t] show ?thesis by (auto simp: well_read_def)
        qed
      qed
    next
      case (Some t)
      have t: "list_all is_scalar (skip_ws t)" using expect_rest [OF Some 2(4)] by simp
      show ?thesis
      proof (cases "expect 125 (skip_ws t)")
        case None
        with a Some 2(3) have "json_members n [] (skip_ws t) = Done v r" by simp
        from 2(2) [OF a Some None this t] show ?thesis by simp
      next
        case u: (Some u)
        with a Some 2(3) expect_rest [OF u t] show ?thesis by (auto simp: well_read_def)
      qed
    qed
  next
    case (Some q)
    with 2(3) obtain x where x: "json_string q = Done x r" "v = JString x"
      by (auto simp: smap_def sbind_def split: scan.splits)
    have "list_all is_scalar q" using expect_rest [OF Some 2(4)] .
    with x json_string_plain [OF x(1)] json_string_rest [OF x(1), of is_scalar] show ?thesis by (simp add: well_read_def)
  qed
next
  case (4 n vs s)
  from 4(3) obtain v1 r1 where v1: "json_value n s = Done v1 r1"
    by (auto simp: sbind_def split: scan.splits)
  from 4(1) [OF v1 4(4)] have w: "strings_plain v1" "list_all is_scalar (skip_ws r1)" by (simp_all add: well_read_def)
  show ?case
  proof (cases "expect 93 (skip_ws r1)")
    case None
    with 4(3) v1 obtain t where t: "expect 44 (skip_ws r1) = Some t"
      and d: "json_elements n (vs @ [v1]) (skip_ws t) = Done v r" by (auto split: option.splits)
    have "list_all is_scalar (skip_ws t)" using expect_rest [OF t w(2)] by simp
    from 4(2) [OF None t d this] 4(5) w(1) show ?thesis by simp
  next
    case (Some t)
    with 4(3,5) v1 w expect_rest [OF Some w(2)] show ?thesis by (auto simp: well_read_def)
  qed
next
  case (6 n ps s)
  from 6(3) obtain q k t u v1 r1 where q: "expect 34 s = Some q" and k: "json_string q = Done k t"
    and u: "expect 58 (skip_ws t) = Some u" and v1: "json_value n (skip_ws u) = Done v1 r1"
    by (auto simp: sbind_def split: scan.splits option.splits)
  have l: "list_all is_scalar q" using expect_rest [OF q 6(4)] .
  have "list_all is_scalar (skip_ws u)" using json_string_rest [OF k l] expect_rest [OF u] by simp
  from 6(1) [OF q u v1 this] have w: "strings_plain v1" "list_all is_scalar (skip_ws r1)" by (simp_all add: well_read_def)
  from strings_plain_update [OF 6(5) json_string_plain [OF k l] w(1)] have p: "strings_plain (JObject (AList.update k v1 ps))" .
  show ?case
  proof (cases "expect 125 (skip_ws r1)")
    case None
    with 6(3) q k u v1 obtain x where x: "expect 44 (skip_ws r1) = Some x"
      and d: "json_members n (AList.update k v1 ps) (skip_ws x) = Done v r" by (auto split: option.splits)
    have "list_all is_scalar (skip_ws x)" using expect_rest [OF x w(2)] by simp
    from 6(2) [OF q u None x d this p] show ?thesis .
  next
    case (Some x)
    with 6(3) q k u v1 p expect_rest [OF Some w(2)] show ?thesis by (auto simp: well_read_def)
  qed
qed simp_all

lemma json_loads_plain: "json_loads s = Done v r \<Longrightarrow> list_all is_scalar s \<Longrightarrow> strings_plain v"
  using json_scan_type(1) [of "Suc (2 * length s)" "skip_ws s"]
  by (auto simp: json_loads_def sbind_def well_read_def simp del: json_value.simps split: if_splits scan.splits)

section \<open>The entries\<close>

text \<open>What is asked of Python's \<open>repr\<close> of floats and containers: its text splits no surrogate pair either
  (\<open>repr\<close> writes surrogates as escapes).\<close>

definition repr_plain :: "(jvalue \<Rightarrow> pystr) \<Rightarrow> bool" where
  "repr_plain rp \<longleftrightarrow> (\<forall>v. plain_str (rp v))"

lemma str_of_plain: "repr_plain rp \<Longrightarrow> strings_plain v \<Longrightarrow> plain_str (str_of rp v)"
proof -
  have "plain_str (show_int i)" for i
    using ascii_show_int [of i] by (intro plain_str_scalar) (auto simp: ascii_list_all list_all_iff is_scalar_def)
  moreover have "plain_str (lit ''None'')" "plain_str (lit ''True'')" "plain_str (lit ''False'')"
    by (rule plain_str_lit_ascii, simp)+
  ultimately show "repr_plain rp \<Longrightarrow> strings_plain v \<Longrightarrow> plain_str (str_of rp v)"
    by (auto simp: str_of_def repr_plain_def split: jvalue.splits)
qed

lemma field_plain:
  assumes "repr_plain rp" and "strings_plain (JObject d)"
  shows "field rp d k = Inr x \<Longrightarrow> plain_str x" and "field_or_empty rp d k = Inr x \<Longrightarrow> plain_str x"
proof -
  have "plain_str (str_of rp v)" if "map_of d (lit k) = Some v" for v
    using assms map_of_SomeD [OF that] by (intro str_of_plain) auto
  then show "field rp d k = Inr x \<Longrightarrow> plain_str x" "field_or_empty rp d k = Inr x \<Longrightarrow> plain_str x"
    by (auto simp: field_def field_or_empty_def split: option.splits)
qed

lemma from_dict_type:
  assumes "repr_plain rp" and "strings_plain v" and "from_dict rp v = Inr e"
  shows "entry_ok e"
proof (cases v)
  case (JObject d)
  let ?r = "rbind (field rp d ''id'') (\<lambda>i. rbind (field rp d ''service'') (\<lambda>s.
      rbind (field rp d ''username'') (\<lambda>u. rbind (field rp d ''password'') (\<lambda>p.
      rbind (field_or_empty rp d ''notes'') (\<lambda>n. rbind (field rp d ''created_at'') (\<lambda>c.
      rbind (field rp d ''updated_at'') (\<lambda>t.
      Inr \<lparr>e_id = i, e_service = s, e_username = u, e_password = p, e_notes = n,
        e_created = c, e_updated = t\<rparr>)))))))"
  have "?r = Inr e"
  proof (cases ?r)
    case (Inl x)
    with JObject assms(3) show ?thesis by (cases x) (simp_all add: from_dict_def)
  next
    case (Inr y)
    with JObject assms(3) show ?thesis by (simp add: from_dict_def)
  qed
  then show ?thesis using field_plain [OF assms(1) assms(2) [unfolded JObject]]
    by (auto simp: rbind_Inr_iff entry_ok_def)
qed (use assms(3) in \<open>simp_all add: from_dict_def\<close>)

lemma from_dicts_type:
  "repr_plain rp \<Longrightarrow> from_dicts rp vs = Inr es \<Longrightarrow> \<forall>v \<in> set vs. strings_plain v \<Longrightarrow> list_all entry_ok es"
  by (induction vs arbitrary: es) (auto simp: rbind_Inr_iff from_dict_type)

text \<open>C32: Every entry \<open>deserialize_entries\<close> returns, from any bytes, has seven strings of Python's type \<open>str\<close> in
  which no surrogate pair is split, so the list can be serialized and reads back as it is.\<close>

theorem loaded_entries_well_typed:
  assumes "repr_plain rp" and "deserialize_entries rp data = Inr es"
  shows "list_all entry_ok es \<and> (\<exists>b. serialize_entries rp es = Inr b \<and> deserialize_entries rp b = Inr es)"
proof -
  from assms(2) obtain v where v: "load_body data = Inr v" and c: "check_payload rp v = Inr es"
    by (auto simp: deserialize_entries_def rbind_Inr_iff)
  from v obtain s where s: "utf8_decode data = Inr s" and "scan_result (json_loads s) = Inr v"
    by (auto simp: load_body_Inr_iff bind_eq_Some_conv)
  then obtain r where "json_loads s = Done v r" by (auto simp: scan_result_def split: scan.splits)
  from json_loads_plain [OF this] s have p: "strings_plain v" by (simp add: utf8_decode_Inr_iff utf8_encode_Inr_iff)
  from c obtain d vs where d: "v = JObject d" "map_of d (lit ''entries'') = Some (JArray vs)" "from_dicts rp vs = Inr es"
    by (auto simp: check_payload_def Let_def split: jvalue.splits option.splits if_splits)
  from p d(1) map_of_SomeD [OF d(2)] have "\<forall>v \<in> set vs. strings_plain v" by fastforce
  from from_dicts_type [OF assms(1) d(3) this] have ok: "list_all entry_ok es" .
  then show ?thesis using serialize_entries_ok deserialize_serialize by blast
qed

theorem loaded_entries_well_typed_witness:
  "list_all entry_ok [sample_entry] \<and>
     (\<exists>b. serialize_entries (\<lambda>v. []) [sample_entry] = Inr b \<and> deserialize_entries (\<lambda>v. []) b = Inr [sample_entry])"
proof -
  obtain b where "serialize_entries (\<lambda>v. []) [sample_entry] = Inr b" "deserialize_entries (\<lambda>v. []) b = Inr [sample_entry]"
    using serialize_entries_ok deserialize_serialize [OF sample_entry_ok] by blast
  from loaded_entries_well_typed [OF _ this(2)] show ?thesis by (simp add: repr_plain_def)
qed

end
