(* ===== verification/OpSys.thy ===== *)
theory OpSys
  imports Runtime
begin

text \<open>
  The operating system as the program uses it: path names, one disk of named inodes, open
  descriptors, advisory locks, a clock, and an oracle that may make any system call fail with
  any exception. A call that fails has no effect, except that a write may have written a part of
  its data and that \<open>close\<close> releases the descriptor. Every successful call appends the state of the
  disk to \<open>disk_trace\<close>, the history a crash is a cut of.
\<close>

section \<open>Path names\<close>

fun split_slash :: "pystr \<Rightarrow> pystr list" where
  "split_slash [] = [[]]"
| "split_slash (c # s) =
     (if c = 47 then [] # split_slash s
      else (case split_slash s of [] \<Rightarrow> [[c]] | p # ps \<Rightarrow> (c # p) # ps))"

fun join_slash :: "pystr list \<Rightarrow> pystr" where
  "join_slash [] = []"
| "join_slash [p] = p"
| "join_slash (p # q # ps) = p @ 47 # join_slash (q # ps)"

text \<open>\<open>os.path.abspath\<close>: join with the working directory and normalize.\<close>

definition dotdot :: pystr where "dotdot = [46, 46]"

fun norm_parts :: "pystr list \<Rightarrow> pystr list \<Rightarrow> pystr list" where
  "norm_parts acc [] = rev acc"
| "norm_parts acc (p # ps) =
     (if p = [] \<or> p = [46] then norm_parts acc ps
      else if p = dotdot then norm_parts (tl acc) ps
      else norm_parts (p # acc) ps)"

text \<open>Exactly two leading slashes are kept, as POSIX allows.\<close>

definition leading :: "pystr \<Rightarrow> pystr" where
  "leading s = (if take 2 s = [47, 47] \<and> take 3 s \<noteq> [47, 47, 47] then [47, 47] else [47])"

definition abspath :: "pystr \<Rightarrow> pystr \<Rightarrow> pystr" where
  "abspath cwd p =
     (let full = (if take 1 p = [47] then p
                  else if cwd \<noteq> [] \<and> last cwd = 47 then cwd @ p else cwd @ 47 # p)
      in leading full @ join_slash (norm_parts [] (split_slash full)))"

text \<open>\<open>os.path.dirname\<close> and \<open>os.path.join\<close> with a relative second part.\<close>

definition dirname :: "pystr \<Rightarrow> pystr" where
  "dirname s =
     (let head = rev (dropWhile (\<lambda>c. c \<noteq> 47) (rev s)) in
      if list_all (\<lambda>c. c = 47) head then head else rev (dropWhile (\<lambda>c. c = 47) (rev head)))"

definition path_join :: "pystr \<Rightarrow> pystr \<Rightarrow> pystr" where
  "path_join d p = (if d \<noteq> [] \<and> last d = 47 then d @ p else d @ 47 # p)"

section \<open>State\<close>

record inode =
  i_data :: bytes
  i_mode :: nat
  i_synced :: bool

text \<open>
  \<open>d_names\<close> is the directory as processes see it, \<open>d_durable\<close> the directory as last synced to
  stable storage.
\<close>

record disk =
  d_names :: "pystr \<Rightarrow> nat option"
  d_durable :: "pystr \<Rightarrow> nat option"
  d_inodes :: "nat \<Rightarrow> inode"

datatype descriptor = FileFd nat | DirFd

record os = machine +
  disk :: disk
  disk_trace :: "disk list"
  inode_next :: nat
  fds :: "nat \<Rightarrow> descriptor option"
  fd_next :: nat
  wbuf :: "nat \<Rightarrow> bytes"
  flocks :: "nat \<Rightarrow> nat option"
  faults :: "nat \<Rightarrow> exn option"
  partial :: "nat \<Rightarrow> nat"
  calls :: nat
  tmp_names :: "nat \<Rightarrow> pystr"
  tmp_next :: nat
  tmp_mode :: nat
  clock :: "nat \<Rightarrow> nat"
  ticks :: nat
  cwd :: pystr
  has_fchmod :: bool
  has_fcntl :: bool

definition resolve :: "'z os_scheme \<Rightarrow> pystr \<Rightarrow> pystr" where
  "resolve w p = abspath (cwd w) p"

section \<open>System calls\<close>

text \<open>One call: the oracle decides whether it fails; if not, it runs and the disk is recorded.\<close>

definition syscall :: "('z os_scheme \<Rightarrow> 'a result \<times> 'z os_scheme) \<Rightarrow> ('z os_scheme, 'a) prog" where
  "syscall body w =
     (let w1 = w\<lparr>calls := Suc (calls w)\<rparr> in
      case faults w (calls w) of
        Some e \<Rightarrow> Some (Inl e, w1)
      | None \<Rightarrow> (let (r, w2) = body w1 in Some (r, w2\<lparr>disk_trace := disk_trace w2 @ [disk w2]\<rparr>)))"

definition not_found :: "pystr \<Rightarrow> exn" where
  "not_found p = FileNotFoundError p"

definition alloc_fd :: "descriptor \<Rightarrow> 'z os_scheme \<Rightarrow> nat result \<times> 'z os_scheme" where
  "alloc_fd d w =
     (Inr (fd_next w), w\<lparr>fds := (fds w)(fd_next w := Some d), fd_next := Suc (fd_next w)\<rparr>)"

definition create_inode :: "pystr \<Rightarrow> 'z os_scheme \<Rightarrow> 'z os_scheme" where
  "create_inode k w =
     w\<lparr>disk := (disk w)\<lparr>d_names := (d_names (disk w))(k := Some (inode_next w)),
         d_inodes := (d_inodes (disk w))(inode_next w :=
           \<lparr>i_data = [], i_mode = tmp_mode w, i_synced = False\<rparr>)\<rparr>,
       inode_next := Suc (inode_next w)\<rparr>"

text \<open>\<open>open(path, "rb")\<close>; \<open>os.open\<close> with \<open>O_CREAT | O_EXCL\<close>, with \<open>O_CREAT\<close>, and of a directory.\<close>

definition sys_open_read :: "pystr \<Rightarrow> ('z os_scheme, nat) prog" where
  "sys_open_read p = syscall (\<lambda>w.
     case d_names (disk w) (resolve w p) of
       None \<Rightarrow> (Inl (not_found p), w)
     | Some i \<Rightarrow> alloc_fd (FileFd i) w)"

definition sys_open_excl :: "pystr \<Rightarrow> ('z os_scheme, nat) prog" where
  "sys_open_excl p = syscall (\<lambda>w.
     case d_names (disk w) (resolve w p) of
       Some i \<Rightarrow> (Inl (FileExistsError p), w)
     | None \<Rightarrow> alloc_fd (FileFd (inode_next w)) (create_inode (resolve w p) w))"

definition sys_open_create :: "pystr \<Rightarrow> ('z os_scheme, nat) prog" where
  "sys_open_create p = syscall (\<lambda>w.
     case d_names (disk w) (resolve w p) of
       Some i \<Rightarrow> alloc_fd (FileFd i) w
     | None \<Rightarrow> alloc_fd (FileFd (inode_next w)) (create_inode (resolve w p) w))"

definition sys_open_dir :: "pystr \<Rightarrow> ('z os_scheme, nat) prog" where
  "sys_open_dir p = syscall (alloc_fd DirFd)"

definition EBADF :: nat where "EBADF = 9"
definition EWOULDBLOCK :: nat where "EWOULDBLOCK = 11"

definition on_inode ::
  "nat \<Rightarrow> (nat \<Rightarrow> 'z os_scheme \<Rightarrow> 'a result \<times> 'z os_scheme) \<Rightarrow> 'z os_scheme \<Rightarrow> 'a result \<times> 'z os_scheme" where
  "on_inode fd f w = (case fds w fd of Some (FileFd i) \<Rightarrow> f i w | _ \<Rightarrow> (Inl (OSError EBADF), w))"

definition set_inode :: "nat \<Rightarrow> inode \<Rightarrow> 'z os_scheme \<Rightarrow> 'z os_scheme" where
  "set_inode i n w = w\<lparr>disk := (disk w)\<lparr>d_inodes := (d_inodes (disk w))(i := n)\<rparr>\<rparr>"

definition sys_read :: "nat \<Rightarrow> ('z os_scheme, bytes) prog" where
  "sys_read fd = syscall (on_inode fd (\<lambda>i w. (Inr (i_data (d_inodes (disk w) i)), w)))"

definition sys_fchmod :: "nat \<Rightarrow> nat \<Rightarrow> ('z os_scheme, unit) prog" where
  "sys_fchmod fd mode = syscall (on_inode fd (\<lambda>i w.
     (Inr (), set_inode i ((d_inodes (disk w) i)\<lparr>i_mode := mode\<rparr>) w)))"

text \<open>\<open>fsync\<close> makes a file's data, or the directory, durable.\<close>

definition sys_fsync :: "nat \<Rightarrow> ('z os_scheme, unit) prog" where
  "sys_fsync fd = syscall (\<lambda>w.
     case fds w fd of
       Some (FileFd i) \<Rightarrow> (Inr (), set_inode i ((d_inodes (disk w) i)\<lparr>i_synced := True\<rparr>) w)
     | Some DirFd \<Rightarrow> (Inr (), w\<lparr>disk := (disk w)\<lparr>d_durable := d_names (disk w)\<rparr>\<rparr>)
     | None \<Rightarrow> (Inl (OSError EBADF), w))"

text \<open>\<open>close\<close> releases the descriptor and the lock it holds, also when it reports an error.\<close>

definition release_fd :: "nat \<Rightarrow> 'z os_scheme \<Rightarrow> 'z os_scheme" where
  "release_fd fd w =
     w\<lparr>fds := (fds w)(fd := None),
       flocks := (\<lambda>i. if flocks w i = Some fd then None else flocks w i)\<rparr>"

definition sys_close :: "nat \<Rightarrow> ('z os_scheme, unit) prog" where
  "sys_close fd w =
     (case fds w fd of
        None \<Rightarrow> syscall (\<lambda>w. (Inl (OSError EBADF), w)) w
      | Some d \<Rightarrow> syscall (\<lambda>w. (Inr (), w)) (release_fd fd w))"

definition sys_replace :: "pystr \<Rightarrow> pystr \<Rightarrow> ('z os_scheme, unit) prog" where
  "sys_replace src dst = syscall (\<lambda>w.
     case d_names (disk w) (resolve w src) of
       None \<Rightarrow> (Inl (not_found src), w)
     | Some i \<Rightarrow>
         (Inr (), w\<lparr>disk := (disk w)\<lparr>d_names :=
            (d_names (disk w))(resolve w src := None, resolve w dst := Some i)\<rparr>\<rparr>))"

definition sys_unlink :: "pystr \<Rightarrow> ('z os_scheme, unit) prog" where
  "sys_unlink p = syscall (\<lambda>w.
     case d_names (disk w) (resolve w p) of
       None \<Rightarrow> (Inl (not_found p), w)
     | Some i \<Rightarrow> (Inr (), w\<lparr>disk := (disk w)\<lparr>d_names := (d_names (disk w))(resolve w p := None)\<rparr>\<rparr>))"

text \<open>\<open>os.path.exists\<close>: an error of \<open>stat\<close> counts as absent.\<close>

definition path_exists :: "pystr \<Rightarrow> ('z os_scheme, bool) prog" where
  "path_exists p =
     handle (syscall (\<lambda>w. (Inr (d_names (disk w) (resolve w p) \<noteq> None), w)))
       (\<lambda>e. if is_os_error e \<or> is_value_error e then ret False else throw e)"

text \<open>\<open>fcntl.flock\<close>: \<open>LOCK_EX | LOCK_NB\<close> and \<open>LOCK_UN\<close>.\<close>

definition sys_flock :: "nat \<Rightarrow> ('z os_scheme, unit) prog" where
  "sys_flock fd = syscall (on_inode fd (\<lambda>i w.
     case flocks w i of
       Some h \<Rightarrow> if h = fd then (Inr (), w) else (Inl (OSError EWOULDBLOCK), w)
     | None \<Rightarrow> (Inr (), w\<lparr>flocks := (flocks w)(i := Some fd)\<rparr>)))"

definition sys_funlock :: "nat \<Rightarrow> ('z os_scheme, unit) prog" where
  "sys_funlock fd = syscall (on_inode fd (\<lambda>i w.
     (Inr (), if flocks w i = Some fd then w\<lparr>flocks := (flocks w)(i := None)\<rparr> else w)))"

text \<open>\<open>datetime.now(timezone.utc)\<close>: the clock, read once.\<close>

definition read_clock :: "('z os_scheme, nat) prog" where
  "read_clock w = Some (Inr (clock w (ticks w)), w\<lparr>ticks := Suc (ticks w)\<rparr>)"

section \<open>Buffered output\<close>

text \<open>
  A binary file object over a descriptor (\<open>os.fdopen(fd, "wb")\<close>): \<open>write\<close> may push any part of the
  buffer to the file, \<open>flush\<close> pushes all of it, and either may fail half way; \<open>close\<close> flushes what
  is left and then closes the descriptor, even if the flush fails.
\<close>

definition push :: "nat \<Rightarrow> nat \<Rightarrow> 'z os_scheme \<Rightarrow> 'z os_scheme" where
  "push fd k w =
     (case fds w fd of
        Some (FileFd i) \<Rightarrow>
          (let n = d_inodes (disk w) i in
           (set_inode i (n\<lparr>i_data := i_data n @ take k (wbuf w fd), i_synced := False\<rparr>) w)
             \<lparr>wbuf := (wbuf w)(fd := drop k (wbuf w fd))\<rparr>)
      | _ \<Rightarrow> w)"

text \<open>A push of at most \<open>k\<close> octets; on a fault, what the oracle let through stays written.\<close>

definition sys_push :: "(nat \<Rightarrow> nat \<Rightarrow> nat) \<Rightarrow> nat \<Rightarrow> ('z os_scheme, unit) prog" where
  "sys_push amount fd w =
     (let k = partial w (calls w);
          w1 = w\<lparr>calls := Suc (calls w)\<rparr>;
          n = length (wbuf w fd);
          w2 = push fd (case faults w (calls w) of Some e \<Rightarrow> k | None \<Rightarrow> amount n k) w1;
          w3 = w2\<lparr>disk_trace := disk_trace w2 @ [disk w2]\<rparr>
      in Some (case faults w (calls w) of Some e \<Rightarrow> Inl e | None \<Rightarrow> Inr (), w3))"

definition fh_write :: "nat \<Rightarrow> bytes \<Rightarrow> ('z os_scheme, unit) prog" where
  "fh_write fd data w = sys_push (\<lambda>n k. k) fd (w\<lparr>wbuf := (wbuf w)(fd := wbuf w fd @ data)\<rparr>)"

definition fh_flush :: "nat \<Rightarrow> ('z os_scheme, unit) prog" where
  "fh_flush fd w = (if wbuf w fd = [] then Some (Inr (), w) else sys_push (\<lambda>n k. n) fd w)"

definition fh_close :: "nat \<Rightarrow> ('z os_scheme, unit) prog" where
  "fh_close fd = with_finally (fh_flush fd) (sys_close fd)"

end
