(* ===== verification/Hoare.thy ===== *)
theory Hoare
  imports Errors
begin

text \<open>
  Total-correctness triples for programs with exceptions: from every state that satisfies \<open>P\<close> the
  program returns, either normally in a state that satisfies \<open>Q\<close> of the result, or with an
  exception in a state that satisfies \<open>E\<close> of the exception. One rule per combinator.
\<close>

definition triple ::
  "('w \<Rightarrow> bool) \<Rightarrow> ('w, 'a) prog \<Rightarrow> ('a \<Rightarrow> 'w \<Rightarrow> bool) \<Rightarrow> (exn \<Rightarrow> 'w \<Rightarrow> bool) \<Rightarrow> bool" where
  "triple P m Q E \<longleftrightarrow>
     (\<forall>w. P w \<longrightarrow>
        (case m w of
           None \<Rightarrow> False
         | Some (Inl e, w') \<Rightarrow> E e w'
         | Some (Inr x, w') \<Rightarrow> Q x w'))"

named_theorems hoare \<open>triples of the primitives\<close>

lemma tripleI:
  "(\<And>w. P w \<Longrightarrow> case m w of None \<Rightarrow> False | Some (Inl e, w') \<Rightarrow> E e w' | Some (Inr x, w') \<Rightarrow> Q x w')
    \<Longrightarrow> triple P m Q E"
  by (simp add: triple_def)

lemma tripleD:
  assumes "triple P m Q E" and "P w"
  obtains (normal) x w' where "m w = Some (Inr x, w')" and "Q x w'"
  | (raised) e w' where "m w = Some (Inl e, w')" and "E e w'"
proof -
  from assms have t: "case m w of None \<Rightarrow> False | Some (Inl e, w') \<Rightarrow> E e w' | Some (Inr x, w') \<Rightarrow> Q x w'"
    unfolding triple_def by blast
  show thesis
  proof (cases "m w")
    case None
    with t show thesis by simp
  next
    case (Some a)
    obtain r w' where a: "a = (r, w')" by fastforce
    with t Some normal raised show thesis by (cases r) auto
  qed
qed

lemma triple_conseq:
  "triple P m Q E \<Longrightarrow> (\<And>w. P' w \<Longrightarrow> P w) \<Longrightarrow> (\<And>x w. Q x w \<Longrightarrow> Q' x w) \<Longrightarrow>
     (\<And>e w. E e w \<Longrightarrow> E' e w) \<Longrightarrow> triple P' m Q' E'"
  by (rule tripleI, elim tripleD [of P m Q E]) auto

lemma triple_pre: "triple P m Q E \<Longrightarrow> (\<And>w. P' w \<Longrightarrow> P w) \<Longrightarrow> triple P' m Q E"
  by (rule triple_conseq)

lemma triple_post:
  "triple P m Q E \<Longrightarrow> (\<And>x w. Q x w \<Longrightarrow> Q' x w) \<Longrightarrow> (\<And>e w. E e w \<Longrightarrow> E' e w) \<Longrightarrow> triple P m Q' E'"
  by (rule triple_conseq)

lemma triple_ex: "(\<And>a. triple (P a) m Q E) \<Longrightarrow> triple (\<lambda>w. \<exists>a. P a w) m Q E"
  by (auto simp: triple_def)

lemma triple_fact: "(a \<Longrightarrow> triple P m Q E) \<Longrightarrow> triple (\<lambda>w. a \<and> P w) m Q E"
  by (auto simp: triple_def)

lemma triple_ret: "(\<And>w. P w \<Longrightarrow> Q x w) \<Longrightarrow> triple P (ret x) Q E"
  by (simp add: triple_def)

lemma triple_throw: "(\<And>w. P w \<Longrightarrow> E e w) \<Longrightarrow> triple P (throw e) Q E"
  by (simp add: triple_def)

lemma triple_bind:
  assumes "triple P m Q E" and "\<And>x. triple (Q x) (f x) R E"
  shows "triple P (pbind m f) R E"
proof (rule tripleI)
  fix w assume "P w"
  with assms(1)
  show "case pbind m f w of None \<Rightarrow> False | Some (Inl e, w') \<Rightarrow> E e w' | Some (Inr x, w') \<Rightarrow> R x w'"
  proof (cases rule: tripleD)
    case (normal x w')
    with assms(2) [of x] show ?thesis by (simp add: pbind_def triple_def)
  qed (simp add: pbind_def)
qed

lemma triple_handle:
  assumes "triple P m Q E" and "\<And>e. triple (E e) (h e) Q E'"
  shows "triple P (handle m h) Q E'"
proof (rule tripleI)
  fix w assume "P w"
  with assms(1)
  show "case handle m h w of None \<Rightarrow> False | Some (Inl e, w') \<Rightarrow> E' e w' | Some (Inr x, w') \<Rightarrow> Q x w'"
  proof (cases rule: tripleD)
    case (raised e w')
    with assms(2) [of e] show ?thesis by (simp add: handle_def triple_def)
  qed (simp add: handle_def)
qed

lemma triple_finally:
  assumes "triple P m Q E" and "\<And>x. triple (Q x) f (\<lambda>_. R x) E'"
    and "\<And>e. triple (E e) f (\<lambda>_. E' e) E'"
  shows "triple P (with_finally m f) R E'"
proof (rule tripleI)
  fix w assume "P w"
  with assms(1)
  show "case with_finally m f w of None \<Rightarrow> False | Some (Inl e, w') \<Rightarrow> E' e w' | Some (Inr x, w') \<Rightarrow> R x w'"
  proof (cases rule: tripleD)
    case (normal x w')
    from assms(2) normal(2) show ?thesis
      by (cases rule: tripleD) (simp_all add: with_finally_def normal(1))
  next
    case (raised e w')
    from assms(3) raised(2) show ?thesis
      by (cases rule: tripleD) (simp_all add: with_finally_def raised(1))
  qed
qed

text \<open>An invariant of the state, kept by normal and by exceptional returns.\<close>

definition keeps :: "('w \<Rightarrow> bool) \<Rightarrow> ('w, 'a) prog \<Rightarrow> bool" where
  "keeps I m \<longleftrightarrow> triple I m (\<lambda>_. I) (\<lambda>_. I)"

lemma keeps_ret [hoare]: "keeps I (ret x)"
  by (simp add: keeps_def triple_ret)

lemma keeps_throw [hoare]: "keeps I (throw e)"
  by (simp add: keeps_def triple_throw)

lemma keeps_bind: "keeps I m \<Longrightarrow> (\<And>x. keeps I (f x)) \<Longrightarrow> keeps I (pbind m f)"
  unfolding keeps_def by (rule triple_bind)

lemma keeps_handle: "keeps I m \<Longrightarrow> (\<And>e. keeps I (h e)) \<Longrightarrow> keeps I (handle m h)"
  unfolding keeps_def by (rule triple_handle)

lemma keeps_finally: "keeps I m \<Longrightarrow> keeps I f \<Longrightarrow> keeps I (with_finally m f)"
  unfolding keeps_def by (rule triple_finally)

end
