(* ===== verification/Storage.thy ===== *)
theory Storage
  imports OpSys Hoare
begin

text \<open>
  \<open>src/securevault/storage.py\<close>: reading the vault file and replacing it atomically. The temporary
  file comes from \<open>tempfile.mkstemp\<close>, which tries up to 10000 random names with \<open>O_EXCL\<close>. The
  properties hold for every behaviour of the fault oracle: whichever call fails, with whatever
  exception, and wherever a crash cuts the history of the disk.
\<close>

section \<open>The operations\<close>

definition VAULT_FILE_MODE :: nat where "VAULT_FILE_MODE = 384"

definition storage_read :: "pystr \<Rightarrow> ('z os_scheme, bytes) prog" where
  "storage_read path = pbind (sys_open_read path) (\<lambda>fd. with_finally (sys_read fd) (sys_close fd))"

definition TMP_MAX :: nat where "TMP_MAX = 10000"

definition next_tmp_name :: "('z os_scheme, pystr) prog" where
  "next_tmp_name w = Some (Inr (tmp_names w (tmp_next w)), w\<lparr>tmp_next := Suc (tmp_next w)\<rparr>)"

fun mkstemp_loop :: "nat \<Rightarrow> pystr \<Rightarrow> ('z os_scheme, nat \<times> pystr) prog" where
  "mkstemp_loop 0 d = throw (FileExistsError (lit ''No usable temporary file name found''))"
| "mkstemp_loop (Suc n) d =
     pbind next_tmp_name (\<lambda>nm.
     let file = path_join d (lit ''.vault-'' @ nm @ lit ''.tmp'') in
     handle (pbind (sys_open_excl file) (\<lambda>fd. ret (fd, file)))
       (\<lambda>e. case e of FileExistsError m \<Rightarrow> mkstemp_loop n d | _ \<Rightarrow> throw e))"

definition mkstemp :: "pystr \<Rightarrow> ('z os_scheme, nat \<times> pystr) prog" where
  "mkstemp d = mkstemp_loop TMP_MAX d"

definition target_dir :: "pystr \<Rightarrow> ('z os_scheme, pystr) prog" where
  "target_dir path w = Some (Inr (dirname (resolve w path)), w)"

definition fsync_directory :: "pystr \<Rightarrow> ('z os_scheme, unit) prog" where
  "fsync_directory d =
     pbind (handle (pbind (sys_open_dir d) (\<lambda>fd. ret (Some fd)))
              (\<lambda>e. if is_os_error e then ret None else throw e))
       (\<lambda>r. case r of
              None \<Rightarrow> ret ()
            | Some fd \<Rightarrow>
                with_finally
                  (handle (sys_fsync fd) (\<lambda>e. if is_os_error e then ret () else throw e))
                  (sys_close fd))"

definition fchmod_if_any :: "nat \<Rightarrow> ('z os_scheme, unit) prog" where
  "fchmod_if_any fd w = (if has_fchmod w then sys_fchmod fd VAULT_FILE_MODE w else Some (Inr (), w))"

definition fill_file :: "nat \<Rightarrow> bytes \<Rightarrow> ('z os_scheme, unit) prog" where
  "fill_file fd data =
     with_finally
       (pbind (fh_write fd data) (\<lambda>_. pbind (fh_flush fd) (\<lambda>_. sys_fsync fd)))
       (fh_close fd)"

definition remove_tmp :: "pystr \<Rightarrow> ('z os_scheme, unit) prog" where
  "remove_tmp tmp =
     handle (sys_unlink tmp) (\<lambda>e. case e of FileNotFoundError m \<Rightarrow> ret () | _ \<Rightarrow> throw e)"

definition write_atomic :: "pystr \<Rightarrow> bytes \<Rightarrow> ('z os_scheme, unit) prog" where
  "write_atomic path data =
     pbind (target_dir path) (\<lambda>directory.
     pbind (mkstemp directory) (\<lambda>(fd, tmp).
     handle
       (pbind (fchmod_if_any fd) (\<lambda>_.
        pbind (fill_file fd data) (\<lambda>_.
        pbind (sys_replace tmp path) (\<lambda>_.
        fsync_directory directory))))
       (\<lambda>e. pbind (remove_tmp tmp) (\<lambda>_. throw e))))"

end
