(* ===== verification/StorageProofs.thy ===== *)
theory StorageProofs
  imports Storage
begin

text \<open>
  The stages of \<open>write_atomic\<close>: what holds from the moment the temporary file exists until the
  rename (\<open>tmp_stage\<close>), and from the rename on (\<open>new_stage\<close>). Both contain the frame (everything
  the call leaves alone) and a statement about every disk state recorded on the way.
\<close>

section \<open>Well-formed systems\<close>

definition wf_os :: "'z os_scheme \<Rightarrow> bool" where
  "wf_os w \<longleftrightarrow>
     (\<forall>k i. d_names (disk w) k = Some i \<longrightarrow> i < inode_next w) \<and>
     (\<forall>k i. d_durable (disk w) k = Some i \<longrightarrow> i < inode_next w) \<and>
     (\<forall>f i. fds w f = Some (FileFd i) \<longrightarrow> i < inode_next w) \<and>
     (\<forall>f. fd_next w \<le> f \<longrightarrow> fds w f = None \<and> wbuf w f = []) \<and>
     (\<forall>i h. flocks w i = Some h \<longrightarrow> h < fd_next w)"

text \<open>What no storage operation touches.\<close>

definition frame :: "'z os_scheme \<Rightarrow> 'z os_scheme \<Rightarrow> bool" where
  "frame w0 w \<longleftrightarrow>
     tape w = tape w0 \<and> tpos w = tpos w0 \<and> heap w = heap w0 \<and> hnext w = hnext w0 \<and>
     os.more w = os.more w0 \<and> flocks w = flocks w0 \<and> cwd w = cwd w0 \<and>
     faults w = faults w0 \<and> clock w = clock w0 \<and> ticks w = ticks w0 \<and>
     tmp_names w = tmp_names w0 \<and> tmp_mode w = tmp_mode w0 \<and>
     has_fchmod w = has_fchmod w0 \<and> has_fcntl w = has_fcntl w0 \<and>
     fd_next w0 \<le> fd_next w \<and> inode_next w0 \<le> inode_next w \<and> calls w0 \<le> calls w \<and>
     (\<forall>f < fd_next w0. fds w f = fds w0 f \<and> wbuf w f = wbuf w0 f) \<and>
     (\<forall>i < inode_next w0. d_inodes (disk w) i = d_inodes (disk w0) i)"

lemma frame_refl [simp]: "frame w w"
  by (simp add: frame_def)

lemma frame_trans: "frame w0 w1 \<Longrightarrow> frame w1 w2 \<Longrightarrow> frame w0 w2"
  by (auto simp: frame_def)

lemma frame_resolve: "frame w0 w \<Longrightarrow> resolve w p = resolve w0 p"
  by (simp add: frame_def resolve_def)

lemma wf_fresh_fd: "wf_os w \<Longrightarrow> fds w (fd_next w) = None"
  by (simp add: wf_os_def)

lemma wf_os_close: "wf_os w \<Longrightarrow> wf_os (w\<lparr>fds := (fds w)(fd := None)\<rparr>)"
  by (auto simp: wf_os_def)

lemma frame_close: "frame w0 w \<Longrightarrow> fd_next w0 \<le> fd \<Longrightarrow> frame w0 (w\<lparr>fds := (fds w)(fd := None)\<rparr>)"
  by (simp add: frame_def)

section \<open>What the disk may look like\<close>

definition final_mode :: "'z os_scheme \<Rightarrow> nat" where
  "final_mode w = (if has_fchmod w then VAULT_FILE_MODE else tmp_mode w)"

definition old_at :: "pystr \<Rightarrow> disk \<Rightarrow> disk \<Rightarrow> bool" where
  "old_at k d0 d \<longleftrightarrow> d_names d k = d_names d0 k \<and> d_durable d k = d_durable d0 k"

definition new_at :: "'z os_scheme \<Rightarrow> pystr \<Rightarrow> bytes \<Rightarrow> disk \<Rightarrow> bool" where
  "new_at w0 k data d \<longleftrightarrow>
     (\<exists>t \<ge> inode_next w0. d_names d k = Some t \<and>
        (d_durable d k = d_durable (disk w0) k \<or> d_durable d k = Some t) \<and>
        d_inodes d t = \<lparr>i_data = data, i_mode = final_mode w0, i_synced = True\<rparr>)"

definition disk_ok :: "'z os_scheme \<Rightarrow> pystr \<Rightarrow> bytes \<Rightarrow> disk \<Rightarrow> bool" where
  "disk_ok w0 k data d \<longleftrightarrow>
     (\<forall>i < inode_next w0. d_inodes d i = d_inodes (disk w0) i) \<and>
     (old_at k (disk w0) d \<or> new_at w0 k data d)"

definition history_ok :: "'z os_scheme \<Rightarrow> pystr \<Rightarrow> bytes \<Rightarrow> 'z os_scheme \<Rightarrow> bool" where
  "history_ok w0 k data w \<longleftrightarrow>
     (\<exists>ds. disk_trace w = disk_trace w0 @ ds \<and> (\<forall>d \<in> set ds. disk_ok w0 k data d))"

lemma history_refl [simp]: "history_ok w0 k data w0"
  by (simp add: history_ok_def)

lemma history_snoc:
  "history_ok w0 k data w \<Longrightarrow> disk_ok w0 k data d \<Longrightarrow> disk_trace w' = disk_trace w @ [d] \<Longrightarrow>
     history_ok w0 k data w'"
  by (fastforce simp: history_ok_def)

definition sound :: "'z os_scheme \<Rightarrow> pystr \<Rightarrow> bytes \<Rightarrow> 'z os_scheme \<Rightarrow> bool" where
  "sound w0 k data w \<longleftrightarrow> frame w0 w \<and> wf_os w \<and> history_ok w0 k data w"

section \<open>Before the rename\<close>

text \<open>
  \<open>T\<close> is the name of the temporary file, \<open>t\<close> its inode, \<open>fd\<close> its descriptor; \<open>\<Phi>\<close> speaks of the
  inode, of the descriptor and of the octets still buffered.
\<close>

definition tmp_stage ::
  "'z os_scheme \<Rightarrow> pystr \<Rightarrow> bytes \<Rightarrow> pystr \<Rightarrow> nat \<Rightarrow> nat \<Rightarrow>
     (inode \<Rightarrow> descriptor option \<Rightarrow> bytes \<Rightarrow> bool) \<Rightarrow> 'z os_scheme \<Rightarrow> bool" where
  "tmp_stage w0 k data T t fd \<Phi> w \<longleftrightarrow>
     sound w0 k data w \<and> old_at k (disk w0) (disk w) \<and>
     T \<noteq> k \<and> d_names (disk w0) T = None \<and> d_names (disk w) T = Some t \<and>
     (\<forall>n. n \<noteq> T \<longrightarrow> d_names (disk w) n = d_names (disk w0) n) \<and>
     inode_next w0 \<le> t \<and> t < inode_next w \<and> fd_next w0 \<le> fd \<and> fd < fd_next w \<and>
     (fds w fd = Some (FileFd t) \<or> fds w fd = None) \<and>
     \<Phi> (d_inodes (disk w) t) (fds w fd) (wbuf w fd)"

definition any_file :: "inode \<Rightarrow> descriptor option \<Rightarrow> bytes \<Rightarrow> bool" where
  "any_file n d b \<longleftrightarrow> True"

lemma tmp_stage_weaken:
  "tmp_stage w0 k data T t fd \<Phi> w \<Longrightarrow>
     (\<And>n d b. \<Phi> n d b \<Longrightarrow> d = Some (FileFd t) \<or> d = None \<Longrightarrow> \<Psi> n d b) \<Longrightarrow>
     tmp_stage w0 k data T t fd \<Psi> w"
  by (auto simp: tmp_stage_def)

lemma tmp_stage_any: "tmp_stage w0 k data T t fd \<Phi> w \<Longrightarrow> tmp_stage w0 k data T t fd any_file w"
  by (rule tmp_stage_weaken) (simp_all add: any_file_def)

lemma sound_calls [simp]:
  "sound w0 k data w \<Longrightarrow> calls w \<le> n \<Longrightarrow> sound w0 k data (w\<lparr>calls := n\<rparr>)"
  by (auto simp: sound_def frame_def wf_os_def history_ok_def)

lemma tmp_stage_calls [simp]:
  "tmp_stage w0 k data T t fd \<Phi> w \<Longrightarrow> tmp_stage w0 k data T t fd \<Phi> (w\<lparr>calls := Suc (calls w)\<rparr>)"
  by (auto simp: tmp_stage_def)

lemma tmp_stage_disk_ok: "tmp_stage w0 k data T t fd \<Phi> w \<Longrightarrow> disk_ok w0 k data (disk w)"
  by (simp add: tmp_stage_def disk_ok_def sound_def frame_def)

lemma sound_record:
  assumes "sound w0 k data w" and "disk_ok w0 k data (disk w)"
  shows "sound w0 k data (w\<lparr>disk_trace := disk_trace w @ [disk w]\<rparr>)"
proof -
  have "history_ok w0 k data (w\<lparr>disk_trace := disk_trace w @ [disk w]\<rparr>)"
    by (rule history_snoc [of w0 k data w]) (use assms in \<open>simp_all add: sound_def\<close>)
  moreover have "frame w0 (w\<lparr>disk_trace := disk_trace w @ [disk w]\<rparr>)"
    using assms(1) by (simp add: sound_def frame_def)
  moreover have "wf_os (w\<lparr>disk_trace := disk_trace w @ [disk w]\<rparr>)"
    using assms(1) by (simp add: sound_def wf_os_def)
  ultimately show ?thesis by (simp add: sound_def)
qed

lemma tmp_stage_record:
  assumes "tmp_stage w0 k data T t fd \<Phi> w"
  shows "tmp_stage w0 k data T t fd \<Phi> (w\<lparr>disk_trace := disk_trace w @ [disk w]\<rparr>)"
  using assms sound_record [OF _ tmp_stage_disk_ok [OF assms]] by (simp add: tmp_stage_def)

lemma tmp_stage_set_inode:
  assumes "tmp_stage w0 k data T t fd \<Phi> w" and "\<Psi> n (fds w fd) (wbuf w fd)"
  shows "tmp_stage w0 k data T t fd \<Psi> (set_inode t n w)"
  using assms
  by (auto simp: tmp_stage_def sound_def frame_def wf_os_def history_ok_def set_inode_def old_at_def)

lemma tmp_stage_wbuf:
  assumes "tmp_stage w0 k data T t fd \<Phi> w" and "\<Psi> (d_inodes (disk w) t) (fds w fd) b"
  shows "tmp_stage w0 k data T t fd \<Psi> (w\<lparr>wbuf := (wbuf w)(fd := b)\<rparr>)"
  using assms by (auto simp: tmp_stage_def sound_def frame_def wf_os_def history_ok_def)

text \<open>A descriptor the call opened itself holds no lock.\<close>

lemma release_flocks:
  assumes "frame w0 w" and "wf_os w0" and "fd_next w0 \<le> fd"
  shows "release_fd fd w = w\<lparr>fds := (fds w)(fd := None)\<rparr>"
proof -
  have "flocks w = flocks w0" using assms(1) by (simp add: frame_def)
  moreover have "\<forall>i h. flocks w0 i = Some h \<longrightarrow> h < fd_next w0" using assms(2) by (simp add: wf_os_def)
  ultimately have "flocks w i \<noteq> Some fd" for i using assms(3) by force
  then have "(\<lambda>i. if flocks w i = Some fd then None else flocks w i) = flocks w" by auto
  then show ?thesis by (simp add: release_fd_def)
qed

lemma tmp_stage_release:
  assumes "tmp_stage w0 k data T t fd \<Phi> w" and "\<Psi> (d_inodes (disk w) t) None (wbuf w fd)"
    and "wf_os w0"
  shows "tmp_stage w0 k data T t fd \<Psi> (release_fd fd w)"
proof -
  have "frame w0 w" "fd_next w0 \<le> fd"
    using assms(1) by (simp_all add: tmp_stage_def sound_def)
  from release_flocks [OF this(1) assms(3) this(2)] assms show ?thesis
    by (auto simp: tmp_stage_def sound_def frame_def wf_os_def history_ok_def)
qed

section \<open>Counting faults\<close>

definition nfaults :: "'z os_scheme \<Rightarrow> 'z os_scheme \<Rightarrow> nat" where
  "nfaults w0 w = length (filter (\<lambda>c. faults w0 c \<noteq> None) [calls w0..<calls w])"

lemma nfaults_Suc:
  "calls w0 \<le> calls w \<Longrightarrow> nfaults w0 (w\<lparr>calls := Suc (calls w)\<rparr>)
     = nfaults w0 w + (if faults w0 (calls w) = None then 0 else 1)"
  by (simp add: nfaults_def)

lemma nfaults_cong: "calls w' = calls w \<Longrightarrow> nfaults w0 w' = nfaults w0 w"
  by (simp add: nfaults_def)

lemma triple_syscall:
  assumes "\<And>w e. P w \<Longrightarrow> faults w (calls w) = Some e \<Longrightarrow> E e (w\<lparr>calls := Suc (calls w)\<rparr>)"
    and "\<And>w r w2. P w \<Longrightarrow> faults w (calls w) = None \<Longrightarrow> body (w\<lparr>calls := Suc (calls w)\<rparr>) = (r, w2) \<Longrightarrow>
      (case r of Inl e \<Rightarrow> E e (w2\<lparr>disk_trace := disk_trace w2 @ [disk w2]\<rparr>)
       | Inr x \<Rightarrow> Q x (w2\<lparr>disk_trace := disk_trace w2 @ [disk w2]\<rparr>))"
  shows "triple P (syscall body) Q E"
proof (rule tripleI)
  fix w assume P: "P w"
  obtain r w2 where b: "body (w\<lparr>calls := Suc (calls w)\<rparr>) = (r, w2)" by fastforce
  show "case syscall body w of None \<Rightarrow> False | Some (Inl e, w') \<Rightarrow> E e w' | Some (Inr x, w') \<Rightarrow> Q x w'"
    using assms(1) [OF P] assms(2) [OF P _ b]
    by (cases "faults w (calls w)"; cases r) (simp_all add: syscall_def Let_def b)
qed

definition faulted :: "'z os_scheme \<Rightarrow> nat \<Rightarrow> 'z os_scheme \<Rightarrow> bool" where
  "faulted w0 n w \<longleftrightarrow> n \<le> nfaults w0 w"

lemma frame_calls: "frame w0 w \<Longrightarrow> calls w0 \<le> calls w \<and> faults w = faults w0"
  by (simp add: frame_def)

lemma faulted_step:
  "frame w0 w \<Longrightarrow> faulted w0 n w \<Longrightarrow> faults w (calls w) = Some e \<Longrightarrow>
     faulted w0 (Suc n) (w\<lparr>calls := Suc (calls w)\<rparr>)"
  using frame_calls [of w0 w] by (simp add: faulted_def nfaults_Suc)

lemma faulted_mono:
  assumes "frame w0 w" and "faulted w0 n w" and "calls w \<le> calls w'"
  shows "faulted w0 n w'"
proof -
  have "[calls w0..<calls w'] = [calls w0..<calls w] @ [calls w..<calls w']"
    using frame_calls [OF assms(1)] assms(3) by (metis upt_add_eq_append le_Suc_ex)
  with assms(2) show ?thesis by (simp add: faulted_def nfaults_def)
qed

lemma faulted_0 [simp]: "faulted w0 0 w"
  by (simp add: faulted_def)

lemma faulted_cong: "calls w' = calls w \<Longrightarrow> faulted w0 n w' = faulted w0 n w"
  by (simp add: faulted_def nfaults_def)

lemma tmp_stage_frame: "tmp_stage w0 k data T t fd \<Phi> w \<Longrightarrow> frame w0 w"
  by (simp add: tmp_stage_def sound_def)

section \<open>Triples of the calls before the rename\<close>

text \<open>A call that succeeds unless the oracle fails it.\<close>

lemma tmp_stage_call:
  assumes "\<And>w. tmp_stage w0 k data T t fd \<Phi> w \<Longrightarrow>
      \<exists>x w'. body w = (Inr x, w') \<and> calls w' = calls w \<and> tmp_stage w0 k data T t fd \<Psi> w'"
  shows "triple (\<lambda>w. tmp_stage w0 k data T t fd \<Phi> w \<and> faulted w0 n w) (syscall body)
    (\<lambda>_ w. tmp_stage w0 k data T t fd \<Psi> w \<and> faulted w0 n w)
    (\<lambda>_ w. tmp_stage w0 k data T t fd \<Phi> w \<and> faulted w0 (Suc n) w)"
proof (rule triple_syscall)
  fix w e assume p: "tmp_stage w0 k data T t fd \<Phi> w \<and> faulted w0 n w"
    and e: "faults w (calls w) = Some e"
  from p show "tmp_stage w0 k data T t fd \<Phi> (w\<lparr>calls := Suc (calls w)\<rparr>) \<and>
      faulted w0 (Suc n) (w\<lparr>calls := Suc (calls w)\<rparr>)"
    using faulted_step [OF tmp_stage_frame [OF conjunct1 [OF p]] conjunct2 [OF p] e] by simp
next
  fix w r w2
  assume p: "tmp_stage w0 k data T t fd \<Phi> w \<and> faulted w0 n w"
    and b: "body (w\<lparr>calls := Suc (calls w)\<rparr>) = (r, w2)"
  from assms [OF tmp_stage_calls [OF conjunct1 [OF p]]] b obtain x
    where r: "r = Inr x" and c: "calls w2 = Suc (calls w)" and s: "tmp_stage w0 k data T t fd \<Psi> w2"
    by auto
  have "faulted w0 n (w2\<lparr>disk_trace := disk_trace w2 @ [disk w2]\<rparr>)"
    by (rule faulted_mono [OF tmp_stage_frame [OF conjunct1 [OF p]]]) (use p c in simp_all)
  with tmp_stage_record [OF s] r
  show "case r of Inl e \<Rightarrow> tmp_stage w0 k data T t fd \<Phi> (w2\<lparr>disk_trace := disk_trace w2 @ [disk w2]\<rparr>)
        \<and> faulted w0 (Suc n) (w2\<lparr>disk_trace := disk_trace w2 @ [disk w2]\<rparr>)
      | Inr x \<Rightarrow> tmp_stage w0 k data T t fd \<Psi> (w2\<lparr>disk_trace := disk_trace w2 @ [disk w2]\<rparr>)
        \<and> faulted w0 n (w2\<lparr>disk_trace := disk_trace w2 @ [disk w2]\<rparr>)"
    by simp
qed

lemma set_inode_simps [simp]:
  "calls (set_inode i n w) = calls w" "fds (set_inode i n w) = fds w"
  "wbuf (set_inode i n w) = wbuf w" "d_inodes (disk (set_inode i n w)) = (d_inodes (disk w))(i := n)"
  by (simp_all add: set_inode_def)

lemma fchmod_triple:
  "triple (\<lambda>w. tmp_stage w0 k data T t fd (\<lambda>n d b. n = \<lparr>i_data = x, i_mode = m, i_synced = s\<rparr> \<and>
        d = Some (FileFd t) \<and> b = []) w \<and> faulted w0 c w)
     (sys_fchmod fd mode)
     (\<lambda>_ w. tmp_stage w0 k data T t fd (\<lambda>n d b. n = \<lparr>i_data = x, i_mode = mode, i_synced = s\<rparr> \<and>
        d = Some (FileFd t) \<and> b = []) w \<and> faulted w0 c w)
     (\<lambda>_ w. tmp_stage w0 k data T t fd (\<lambda>n d b. n = \<lparr>i_data = x, i_mode = m, i_synced = s\<rparr> \<and>
        d = Some (FileFd t) \<and> b = []) w \<and> faulted w0 (Suc c) w)"
  unfolding sys_fchmod_def
proof (rule tmp_stage_call)
  fix w assume s: "tmp_stage w0 k data T t fd (\<lambda>n d b. n = \<lparr>i_data = x, i_mode = m, i_synced = s\<rparr> \<and>
      d = Some (FileFd t) \<and> b = []) w"
  then have d: "fds w fd = Some (FileFd t)" "wbuf w fd = []"
    "d_inodes (disk w) t = \<lparr>i_data = x, i_mode = m, i_synced = s\<rparr>"
    by (auto simp: tmp_stage_def)
  then show "\<exists>y w'. on_inode fd (\<lambda>i w. (Inr (), set_inode i (d_inodes (disk w) i\<lparr>i_mode := mode\<rparr>) w)) w
      = (Inr y, w') \<and> calls w' = calls w \<and>
      tmp_stage w0 k data T t fd (\<lambda>n d b. n = \<lparr>i_data = x, i_mode = mode, i_synced = s\<rparr> \<and>
        d = Some (FileFd t) \<and> b = []) w'"
    using tmp_stage_set_inode [OF s] by (simp add: on_inode_def)
qed

text \<open>The file while it is written: what it holds and what is buffered make up \<open>x\<close>.\<close>

definition writing :: "nat \<Rightarrow> bytes \<Rightarrow> nat \<Rightarrow> inode \<Rightarrow> descriptor option \<Rightarrow> bytes \<Rightarrow> bool" where
  "writing t x m n d b \<longleftrightarrow> i_data n @ b = x \<and> i_mode n = m \<and> d = Some (FileFd t)"

definition written :: "nat \<Rightarrow> bytes \<Rightarrow> nat \<Rightarrow> inode \<Rightarrow> descriptor option \<Rightarrow> bytes \<Rightarrow> bool" where
  "written t x m n d b \<longleftrightarrow> i_data n = x \<and> i_mode n = m \<and> d = Some (FileFd t) \<and> b = []"

definition durable ::
  "bytes \<Rightarrow> nat \<Rightarrow> descriptor option \<Rightarrow> inode \<Rightarrow> descriptor option \<Rightarrow> bytes \<Rightarrow> bool" where
  "durable x m d' n d b \<longleftrightarrow> n = \<lparr>i_data = x, i_mode = m, i_synced = True\<rparr> \<and> d = d' \<and> b = []"

definition is_open :: "nat \<Rightarrow> inode \<Rightarrow> descriptor option \<Rightarrow> bytes \<Rightarrow> bool" where
  "is_open t n d b \<longleftrightarrow> d = Some (FileFd t)"

lemma tmp_stage_push:
  assumes "tmp_stage w0 k data T t fd (writing t x m) w"
  shows "tmp_stage w0 k data T t fd (writing t x m) (push fd j w)"
    and "length (wbuf w fd) \<le> j \<Longrightarrow> tmp_stage w0 k data T t fd (written t x m) (push fd j w)"
proof -
  let ?n = "d_inodes (disk w) t"
  let ?n' = "?n\<lparr>i_data := i_data ?n @ take j (wbuf w fd), i_synced := False\<rparr>"
  from assms have d: "fds w fd = Some (FileFd t)" and x: "i_data ?n @ wbuf w fd = x" "i_mode ?n = m"
    by (simp_all add: tmp_stage_def writing_def)
  have s: "tmp_stage w0 k data T t fd (\<lambda>n d b. n = ?n' \<and> d = Some (FileFd t)) (set_inode t ?n' w)"
    by (rule tmp_stage_set_inode [OF assms]) (simp add: d)
  have p: "push fd j w = (set_inode t ?n' w)\<lparr>wbuf := (wbuf (set_inode t ?n' w))(fd := drop j (wbuf w fd))\<rparr>"
    by (simp add: push_def d Let_def set_inode_def)
  show "tmp_stage w0 k data T t fd (writing t x m) (push fd j w)"
    unfolding p by (rule tmp_stage_wbuf [OF s]) (use x d in \<open>auto simp: writing_def\<close>)
  show "tmp_stage w0 k data T t fd (written t x m) (push fd j w)" if "length (wbuf w fd) \<le> j"
    unfolding p
    by (rule tmp_stage_wbuf [OF s]) (use x d that in \<open>auto simp: written_def\<close>)
qed

lemma push_calls [simp]: "calls (push fd j w) = calls w"
  by (simp add: push_def Let_def split: option.split descriptor.split)

lemma push_triple:
  assumes "\<And>n j. full \<Longrightarrow> n \<le> amount n j"
  shows "triple (\<lambda>w. tmp_stage w0 k data T t fd (writing t x m) w \<and> faulted w0 c w)
     (sys_push amount fd)
     (\<lambda>_ w. tmp_stage w0 k data T t fd (if full then written t x m else writing t x m) w \<and> faulted w0 c w)
     (\<lambda>_ w. tmp_stage w0 k data T t fd (writing t x m) w \<and> faulted w0 (Suc c) w)"
proof (rule tripleI)
  fix w :: "'a os_scheme"
  let ?w1 = "w\<lparr>calls := Suc (calls w)\<rparr>"
  assume p: "tmp_stage w0 k data T t fd (writing t x m) w \<and> faulted w0 c w"
  then have s1: "tmp_stage w0 k data T t fd (writing t x m) ?w1" by simp
  from p have f: "frame w0 w" by (blast intro: tmp_stage_frame)
  show "case sys_push amount fd w of None \<Rightarrow> False
    | Some (Inl e, w') \<Rightarrow> tmp_stage w0 k data T t fd (writing t x m) w' \<and> faulted w0 (Suc c) w'
    | Some (Inr _, w') \<Rightarrow>
        tmp_stage w0 k data T t fd (if full then written t x m else writing t x m) w' \<and> faulted w0 c w'"
  proof (cases "faults w (calls w)")
    case None
    let ?a = "amount (length (wbuf w fd)) (partial w (calls w))"
    have "faulted w0 c (push fd ?a ?w1\<lparr>disk_trace := disk_trace (push fd ?a ?w1) @ [disk (push fd ?a ?w1)]\<rparr>)"
      by (rule faulted_mono [OF f]) (use p in simp_all)
    with None tmp_stage_record [OF tmp_stage_push(1) [OF s1, of ?a]]
      tmp_stage_record [OF tmp_stage_push(2) [OF s1, of ?a]] assms
    show ?thesis by (simp add: sys_push_def Let_def)
  next
    case (Some e)
    let ?a = "partial w (calls w)"
    from faulted_step [OF f _ Some] p have "faulted w0 (Suc c) ?w1" by blast
    then have "faulted w0 (Suc c)
        (push fd ?a ?w1\<lparr>disk_trace := disk_trace (push fd ?a ?w1) @ [disk (push fd ?a ?w1)]\<rparr>)"
      by (rule faulted_mono [OF tmp_stage_frame [OF s1]]) simp
    with Some tmp_stage_record [OF tmp_stage_push(1) [OF s1, of ?a]]
    show ?thesis by (simp add: sys_push_def Let_def)
  qed
qed

lemma triple_upd:
  "(\<And>w. P w \<Longrightarrow> m w = m' (g w) \<and> P' (g w)) \<Longrightarrow> triple P' m' Q E \<Longrightarrow> triple P m Q E"
  by (auto simp: triple_def)

text \<open>A stage with a fault count, as the assertions of the triples below.\<close>

definition at_stage ::
  "'z os_scheme \<Rightarrow> pystr \<Rightarrow> bytes \<Rightarrow> pystr \<Rightarrow> nat \<Rightarrow> nat \<Rightarrow>
     (inode \<Rightarrow> descriptor option \<Rightarrow> bytes \<Rightarrow> bool) \<Rightarrow> nat \<Rightarrow> 'z os_scheme \<Rightarrow> bool" where
  "at_stage w0 k data T t fd \<Phi> n w \<longleftrightarrow> tmp_stage w0 k data T t fd \<Phi> w \<and> faulted w0 n w"

lemma at_stage_weaken:
  assumes "at_stage w0 k data T t fd \<Phi> n w" and "\<And>i d b. \<Phi> i d b \<Longrightarrow> \<Psi> i d b" and "m \<le> n"
  shows "at_stage w0 k data T t fd \<Psi> m w"
  using assms tmp_stage_weaken [of w0 k data T t fd \<Phi> w \<Psi>]
  by (auto simp: at_stage_def faulted_def)

lemma write_triple:
  "triple (at_stage w0 k data T t fd (written t [] m) c) (fh_write fd x)
     (\<lambda>_. at_stage w0 k data T t fd (writing t x m) c)
     (\<lambda>_. at_stage w0 k data T t fd (writing t x m) (Suc c))"
proof (rule triple_upd)
  fix w assume "at_stage w0 k data T t fd (written t [] m) c w"
  then have s: "tmp_stage w0 k data T t fd (written t [] m) w" and f: "faulted w0 c w"
    by (simp_all add: at_stage_def)
  then have b: "wbuf w fd = []" "i_data (d_inodes (disk w) t) = []" "i_mode (d_inodes (disk w) t) = m"
    "fds w fd = Some (FileFd t)"
    by (simp_all add: tmp_stage_def written_def)
  show "fh_write fd x w = sys_push (\<lambda>n k. k) fd (w\<lparr>wbuf := (wbuf w)(fd := wbuf w fd @ x)\<rparr>) \<and>
      at_stage w0 k data T t fd (writing t x m) c (w\<lparr>wbuf := (wbuf w)(fd := wbuf w fd @ x)\<rparr>)"
    using tmp_stage_wbuf [OF s, of "writing t x m" x] b f
    by (simp add: fh_write_def at_stage_def writing_def faulted_def nfaults_def)
next
  show "triple (at_stage w0 k data T t fd (writing t x m) c) (sys_push (\<lambda>n k. k) fd)
     (\<lambda>_. at_stage w0 k data T t fd (writing t x m) c)
     (\<lambda>_. at_stage w0 k data T t fd (writing t x m) (Suc c))"
    using push_triple [of False "\<lambda>n k. k"] unfolding at_stage_def by simp
qed

lemma flush_triple:
  "triple (at_stage w0 k data T t fd (writing t x m) c) (fh_flush fd)
     (\<lambda>_. at_stage w0 k data T t fd (written t x m) c)
     (\<lambda>_. at_stage w0 k data T t fd (writing t x m) (Suc c))"
proof (rule tripleI)
  fix w assume s: "at_stage w0 k data T t fd (writing t x m) c w"
  have "triple (at_stage w0 k data T t fd (writing t x m) c) (sys_push (\<lambda>n k. n) fd)
     (\<lambda>_. at_stage w0 k data T t fd (written t x m) c)
     (\<lambda>_. at_stage w0 k data T t fd (writing t x m) (Suc c))"
    using push_triple [of True "\<lambda>n k. n"] unfolding at_stage_def by simp
  from this s
  show "case fh_flush fd w of None \<Rightarrow> False
    | Some (Inl e, w') \<Rightarrow> at_stage w0 k data T t fd (writing t x m) (Suc c) w'
    | Some (Inr u, w') \<Rightarrow> at_stage w0 k data T t fd (written t x m) c w'"
  proof (cases "wbuf w fd = []")
    case True
    with s have "at_stage w0 k data T t fd (written t x m) c w"
      by (auto simp: at_stage_def tmp_stage_def writing_def written_def)
    with True show ?thesis by (simp add: fh_flush_def)
  next
    case False
    then have "fh_flush fd w = sys_push (\<lambda>n k. n) fd w" by (simp add: fh_flush_def)
    with \<open>triple _ _ _ _\<close> s show ?thesis by (auto simp: triple_def)
  qed
qed

lemma fsync_triple:
  "triple (at_stage w0 k data T t fd (written t x m) c) (sys_fsync fd)
     (\<lambda>_. at_stage w0 k data T t fd (durable x m (Some (FileFd t))) c)
     (\<lambda>_. at_stage w0 k data T t fd (written t x m) (Suc c))"
  unfolding sys_fsync_def at_stage_def
proof (rule tmp_stage_call)
  fix w assume s: "tmp_stage w0 k data T t fd (written t x m) w"
  then have d: "fds w fd = Some (FileFd t)" "wbuf w fd = []"
    "i_data (d_inodes (disk w) t) = x" "i_mode (d_inodes (disk w) t) = m"
    by (simp_all add: tmp_stage_def written_def)
  have "d_inodes (disk w) t\<lparr>i_synced := True\<rparr> = \<lparr>i_data = x, i_mode = m, i_synced = True\<rparr>"
    using d by (cases "d_inodes (disk w) t") simp
  with d have "tmp_stage w0 k data T t fd (durable x m (Some (FileFd t)))
      (set_inode t (d_inodes (disk w) t\<lparr>i_synced := True\<rparr>) w)"
    by (intro tmp_stage_set_inode [OF s]) (simp add: durable_def)
  with d show "\<exists>y w'. (case fds w fd of None \<Rightarrow> (Inl (OSError EBADF), w)
        | Some (FileFd i) \<Rightarrow> (Inr (), set_inode i (d_inodes (disk w) i\<lparr>i_synced := True\<rparr>) w)
        | Some DirFd \<Rightarrow> (Inr (), w\<lparr>disk := disk w\<lparr>d_durable := d_names (disk w)\<rparr>\<rparr>)) = (Inr y, w') \<and>
      calls w' = calls w \<and> tmp_stage w0 k data T t fd (durable x m (Some (FileFd t))) w'"
    by simp
qed

lemma release_simps [simp]:
  "calls (release_fd fd w) = calls w" "disk (release_fd fd w) = disk w" "wbuf (release_fd fd w) = wbuf w"
  "faults (release_fd fd w) = faults w" "fds (release_fd fd w) fd = None"
  by (simp_all add: release_fd_def)

lemma close_triple:
  assumes "wf_os w0" and "\<And>n d b. \<Phi> n d b \<Longrightarrow> d = Some (FileFd t)" and "\<And>n d b. \<Phi> n d b \<Longrightarrow> \<Psi> n None b"
  shows "triple (at_stage w0 k data T t fd \<Phi> c) (sys_close fd)
     (\<lambda>_. at_stage w0 k data T t fd \<Psi> c) (\<lambda>_. at_stage w0 k data T t fd \<Psi> (Suc c))"
proof (rule triple_upd)
  fix w assume "at_stage w0 k data T t fd \<Phi> c w"
  then have s: "tmp_stage w0 k data T t fd \<Phi> w" and f: "faulted w0 c w" by (simp_all add: at_stage_def)
  then have \<Phi>: "\<Phi> (d_inodes (disk w) t) (fds w fd) (wbuf w fd)" by (simp add: tmp_stage_def)
  have "fds w fd = Some (FileFd t)" using assms(2) [OF \<Phi>] .
  with tmp_stage_release [OF s, of \<Psi>] assms(1,3) \<Phi> f
  show "sys_close fd w = syscall (\<lambda>w. (Inr (), w)) (release_fd fd w) \<and>
      at_stage w0 k data T t fd \<Psi> c (release_fd fd w)"
    by (simp add: sys_close_def at_stage_def faulted_def nfaults_def)
next
  show "triple (at_stage w0 k data T t fd \<Psi> c) (syscall (\<lambda>w. (Inr (), w)))
     (\<lambda>_. at_stage w0 k data T t fd \<Psi> c) (\<lambda>_. at_stage w0 k data T t fd \<Psi> (Suc c))"
    unfolding at_stage_def by (rule tmp_stage_call) simp
qed

lemma flush_open:
  "triple (at_stage w0 k data T t fd (is_open t) c) (fh_flush fd)
     (\<lambda>_. at_stage w0 k data T t fd (is_open t) c) (\<lambda>_. at_stage w0 k data T t fd (is_open t) c)"
proof (rule triple_pre)
  show "triple (\<lambda>w. \<exists>x m. at_stage w0 k data T t fd (writing t x m) c w) (fh_flush fd)
     (\<lambda>_. at_stage w0 k data T t fd (is_open t) c) (\<lambda>_. at_stage w0 k data T t fd (is_open t) c)"
    by (intro triple_ex triple_post [OF flush_triple])
       (auto elim!: at_stage_weaken simp: written_def writing_def is_open_def)
  fix w assume "at_stage w0 k data T t fd (is_open t) c w"
  then have "at_stage w0 k data T t fd (writing t
      (i_data (d_inodes (disk w) t) @ wbuf w fd) (i_mode (d_inodes (disk w) t))) c w"
    by (simp add: at_stage_def tmp_stage_def is_open_def writing_def)
  then show "\<exists>x m. at_stage w0 k data T t fd (writing t x m) c w" by blast
qed

lemma fh_close_open:
  assumes "wf_os w0"
  shows "triple (at_stage w0 k data T t fd (is_open t) c) (fh_close fd)
     (\<lambda>_. at_stage w0 k data T t fd any_file c) (\<lambda>_. at_stage w0 k data T t fd any_file c)"
proof -
  have "triple (at_stage w0 k data T t fd (is_open t) c) (sys_close fd)
     (\<lambda>_. at_stage w0 k data T t fd any_file c) (\<lambda>_. at_stage w0 k data T t fd any_file c)"
    by (rule triple_post [OF close_triple [OF assms, where \<Psi> = any_file]])
       (auto simp: is_open_def any_file_def elim: at_stage_weaken)
  then show ?thesis unfolding fh_close_def by (intro triple_finally [OF flush_open])
qed

lemma fh_close_durable:
  assumes "wf_os w0"
  shows "triple (at_stage w0 k data T t fd (durable x m (Some (FileFd t))) c) (fh_close fd)
     (\<lambda>_. at_stage w0 k data T t fd (durable x m None) c) (\<lambda>_. at_stage w0 k data T t fd any_file (Suc c))"
proof -
  have "triple (at_stage w0 k data T t fd (durable x m (Some (FileFd t))) c) (fh_flush fd)
     (\<lambda>_. at_stage w0 k data T t fd (durable x m (Some (FileFd t))) c) (\<lambda>_ _. False)"
    by (rule tripleI) (simp add: fh_flush_def at_stage_def tmp_stage_def durable_def)
  moreover have "triple (at_stage w0 k data T t fd (durable x m (Some (FileFd t))) c) (sys_close fd)
     (\<lambda>_. at_stage w0 k data T t fd (durable x m None) c) (\<lambda>_. at_stage w0 k data T t fd any_file (Suc c))"
    by (rule triple_post [OF close_triple [OF assms, where \<Psi> = "durable x m None"]])
       (auto simp: durable_def any_file_def elim: at_stage_weaken)
  moreover have "triple (\<lambda>_. False) (sys_close fd) (\<lambda>_. at_stage w0 k data T t fd any_file (Suc c))
     (\<lambda>_. at_stage w0 k data T t fd any_file (Suc c))"
    by (simp add: triple_def)
  ultimately show ?thesis unfolding fh_close_def by (intro triple_finally) auto
qed

text \<open>
  Filling the temporary file: either it is complete, durable and closed, or a call failed and the
  file is whatever it is.
\<close>

lemma fill_file_triple:
  assumes "wf_os w0"
  shows "triple (at_stage w0 k data T t fd (written t [] m) c) (fill_file fd x)
     (\<lambda>_. at_stage w0 k data T t fd (durable x m None) c) (\<lambda>_. at_stage w0 k data T t fd any_file (Suc c))"
proof -
  have "triple (at_stage w0 k data T t fd (written t [] m) c) (fh_write fd x)
     (\<lambda>_. at_stage w0 k data T t fd (writing t x m) c)
     (\<lambda>_. at_stage w0 k data T t fd (is_open t) (Suc c))"
    by (rule triple_post [OF write_triple]) (auto elim!: at_stage_weaken simp: writing_def is_open_def)
  moreover have "triple (at_stage w0 k data T t fd (writing t x m) c) (fh_flush fd)
     (\<lambda>_. at_stage w0 k data T t fd (written t x m) c)
     (\<lambda>_. at_stage w0 k data T t fd (is_open t) (Suc c))"
    by (rule triple_post [OF flush_triple]) (auto elim!: at_stage_weaken simp: writing_def is_open_def)
  moreover have "triple (at_stage w0 k data T t fd (written t x m) c) (sys_fsync fd)
     (\<lambda>_. at_stage w0 k data T t fd (durable x m (Some (FileFd t))) c)
     (\<lambda>_. at_stage w0 k data T t fd (is_open t) (Suc c))"
    by (rule triple_post [OF fsync_triple]) (auto elim!: at_stage_weaken simp: written_def is_open_def)
  ultimately have "triple (at_stage w0 k data T t fd (written t [] m) c)
     (pbind (fh_write fd x) (\<lambda>_. pbind (fh_flush fd) (\<lambda>_. sys_fsync fd)))
     (\<lambda>_. at_stage w0 k data T t fd (durable x m (Some (FileFd t))) c)
     (\<lambda>_. at_stage w0 k data T t fd (is_open t) (Suc c))"
    by (intro triple_bind)
  then show ?thesis
    unfolding fill_file_def
    by (rule triple_finally) (rule fh_close_durable [OF assms], rule fh_close_open [OF assms])
qed

lemma fchmod_if_any_triple:
  "triple (at_stage w0 k data T t fd (written t [] (tmp_mode w0)) c) (fchmod_if_any fd)
     (\<lambda>_. at_stage w0 k data T t fd (written t [] (final_mode w0)) c)
     (\<lambda>_. at_stage w0 k data T t fd any_file (Suc c))"
proof (rule tripleI)
  fix w assume s: "at_stage w0 k data T t fd (written t [] (tmp_mode w0)) c w"
  then have h: "has_fchmod w = has_fchmod w0"
    by (simp add: at_stage_def tmp_stage_def sound_def frame_def)
  obtain y where y: "tmp_stage w0 k data T t fd (\<lambda>n d b. n = \<lparr>i_data = [], i_mode = tmp_mode w0,
      i_synced = y\<rparr> \<and> d = Some (FileFd t) \<and> b = []) w \<and> faulted w0 c w"
    using s by (cases "d_inodes (disk w) t") (auto simp: at_stage_def tmp_stage_def written_def)
  show "case fchmod_if_any fd w of None \<Rightarrow> False
    | Some (Inl e, w') \<Rightarrow> at_stage w0 k data T t fd any_file (Suc c) w'
    | Some (Inr u, w') \<Rightarrow> at_stage w0 k data T t fd (written t [] (final_mode w0)) c w'"
  proof (cases "has_fchmod w0")
    case True
    with h have run: "fchmod_if_any fd w = sys_fchmod fd VAULT_FILE_MODE w"
      by (simp add: fchmod_if_any_def)
    from fchmod_triple [of w0 k data T t fd "[]" "tmp_mode w0" y c VAULT_FILE_MODE] y
    show ?thesis
    proof (cases rule: tripleD)
      case (normal u w')
      from normal(2) have "tmp_stage w0 k data T t fd (written t [] VAULT_FILE_MODE) w'"
        by (auto elim!: tmp_stage_weaken simp: written_def)
      with normal True run show ?thesis by (simp add: final_mode_def at_stage_def)
    next
      case (raised e w')
      with run tmp_stage_any [OF conjunct1 [OF raised(2)]] show ?thesis by (simp add: at_stage_def)
    qed
  next
    case False
    with s h show ?thesis by (simp add: fchmod_if_any_def final_mode_def)
  qed
qed

end
