(* ===== verification/StorageAtomic.thy ===== *)
theory StorageAtomic
  imports StorageProofs
begin

text \<open>
  The rest of \<open>write_atomic\<close>: creating the temporary file, the rename, the directory sync and the
  clean-up, and the triple of the whole call.
\<close>

section \<open>Creating the temporary file\<close>

definition start_stage :: "'z os_scheme \<Rightarrow> pystr \<Rightarrow> bytes \<Rightarrow> 'z os_scheme \<Rightarrow> bool" where
  "start_stage w0 k data w \<longleftrightarrow> sound w0 k data w \<and> disk w = disk w0"

text \<open>The vault is not itself named like a temporary file of its directory.\<close>

definition tmp_path :: "pystr \<Rightarrow> pystr \<Rightarrow> pystr" where
  "tmp_path d nm = path_join d (lit ''.vault-'' @ nm @ lit ''.tmp'')"

definition tmp_clear :: "'z os_scheme \<Rightarrow> pystr \<Rightarrow> bool" where
  "tmp_clear w path \<longleftrightarrow>
     (\<forall>n. resolve w (tmp_path (dirname (resolve w path)) (tmp_names w n)) \<noteq> resolve w path)"

lemma start_stage_disk_ok: "start_stage w0 k data w \<Longrightarrow> disk_ok w0 k data (disk w)"
  by (simp add: start_stage_def disk_ok_def old_at_def)

lemma start_stage_calls: "start_stage w0 k data w \<Longrightarrow> start_stage w0 k data (w\<lparr>calls := Suc (calls w)\<rparr>)"
  by (simp add: start_stage_def)

lemma start_stage_record:
  "start_stage w0 k data w \<Longrightarrow> start_stage w0 k data (w\<lparr>disk_trace := disk_trace w @ [disk w]\<rparr>)"
  using sound_record [of w0 k data w] start_stage_disk_ok [of w0 k data w]
  by (auto simp: start_stage_def)

definition after_excl :: "pystr \<Rightarrow> 'z os_scheme \<Rightarrow> 'z os_scheme" where
  "after_excl T w = snd (alloc_fd (FileFd (inode_next w)) (create_inode T w))"

lemma after_excl_stage:
  assumes s: "start_stage w0 k data w" and T: "T \<noteq> k" and free: "d_names (disk w0) T = None"
  shows "tmp_stage w0 k data T (inode_next w) (fd_next w) (written (inode_next w) [] (tmp_mode w0))
    (after_excl T w)"
proof -
  let ?w = "after_excl T w"
  from s have wf: "wf_os w" and fr: "frame w0 w" and h: "history_ok w0 k data w"
    and d: "disk w = disk w0"
    by (simp_all add: start_stage_def sound_def)
  have "frame w0 ?w"
    using fr by (auto simp: frame_def after_excl_def alloc_fd_def create_inode_def)
  moreover have "wf_os ?w"
    using wf by (auto simp: wf_os_def after_excl_def alloc_fd_def create_inode_def
        intro: less_SucI)
  moreover have "history_ok w0 k data ?w"
    using h by (simp add: history_ok_def after_excl_def alloc_fd_def create_inode_def)
  moreover have "wbuf w (fd_next w) = []" using wf by (simp add: wf_os_def)
  ultimately show ?thesis
    using T free d fr
    by (simp add: tmp_stage_def sound_def after_excl_def alloc_fd_def create_inode_def old_at_def
        written_def frame_def)
qed

definition tmp_made :: "'z os_scheme \<Rightarrow> pystr \<Rightarrow> bytes \<Rightarrow> nat \<times> pystr \<Rightarrow> 'z os_scheme \<Rightarrow> bool" where
  "tmp_made w0 k data r w \<longleftrightarrow>
     (\<exists>t. at_stage w0 k data (resolve w0 (snd r)) t (fst r) (written t [] (tmp_mode w0)) 0 w)"

lemma open_excl_triple:
  fixes w0 :: "'z os_scheme"
  assumes "resolve w0 p \<noteq> k"
  shows "triple (start_stage w0 k data) (sys_open_excl p)
    (\<lambda>fd. tmp_made w0 k data (fd, p))
    (\<lambda>_ w. start_stage w0 k data w \<and> (faulted w0 1 w \<or> d_names (disk w0) (resolve w0 p) \<noteq> None))"
  unfolding sys_open_excl_def
proof (rule triple_syscall)
  fix w e assume s: "start_stage w0 k data w" and e: "faults w (calls w) = Some e"
  then have "frame w0 w" by (simp add: start_stage_def sound_def)
  from faulted_step [OF this faulted_0 e] start_stage_calls [OF s]
  show "start_stage w0 k data (w\<lparr>calls := Suc (calls w)\<rparr>) \<and>
      (faulted w0 1 (w\<lparr>calls := Suc (calls w)\<rparr>) \<or> d_names (disk w0) (resolve w0 p) \<noteq> None)"
    by simp
next
  fix w :: "'z os_scheme" and r w2
  let ?w1 = "w\<lparr>calls := Suc (calls w)\<rparr>"
  assume s: "start_stage w0 k data w"
    and b: "(case d_names (disk ?w1) (resolve ?w1 p) of
        None \<Rightarrow> alloc_fd (FileFd (inode_next ?w1)) (create_inode (resolve ?w1 p) ?w1)
      | Some i \<Rightarrow> (Inl (FileExistsError p), ?w1)) = (r, w2)"
  from s have s1: "start_stage w0 k data ?w1" by (rule start_stage_calls)
  have res: "resolve ?w1 p = resolve w0 p"
    using s1 frame_resolve by (auto simp: start_stage_def sound_def)
  have d: "disk ?w1 = disk w0" using s1 by (simp only: start_stage_def)
  show "case r of
      Inl e \<Rightarrow> start_stage w0 k data (w2\<lparr>disk_trace := disk_trace w2 @ [disk w2]\<rparr>) \<and>
        (faulted w0 1 (w2\<lparr>disk_trace := disk_trace w2 @ [disk w2]\<rparr>) \<or>
         d_names (disk w0) (resolve w0 p) \<noteq> None)
    | Inr fd \<Rightarrow> tmp_made w0 k data (fd, p) (w2\<lparr>disk_trace := disk_trace w2 @ [disk w2]\<rparr>)"
  proof (cases "d_names (disk w0) (resolve w0 p)")
    case None
    with b res d have "r = Inr (fd_next ?w1)" "w2 = after_excl (resolve w0 p) ?w1"
      by (auto simp: after_excl_def alloc_fd_def create_inode_def)
    with tmp_stage_record [OF after_excl_stage [OF s1 assms None]] show ?thesis
      unfolding tmp_made_def at_stage_def by auto
  next
    case (Some i)
    with b res d have "r = Inl (FileExistsError p)" "w2 = ?w1" by auto
    with start_stage_record [OF s1] Some show ?thesis by simp
  qed
qed

lemma mkstemp_loop_triple:
  assumes "\<And>n. resolve w0 (tmp_path d (tmp_names w0 n)) \<noteq> k"
  shows "triple (start_stage w0 k data) (mkstemp_loop m d) (tmp_made w0 k data) (\<lambda>_. start_stage w0 k data)"
proof (induction m)
  case 0
  then show ?case by (simp add: triple_def)
next
  case (Suc m)
  have "triple (start_stage w0 k data)
      (handle (pbind (sys_open_excl (tmp_path d nm)) (\<lambda>fd. ret (fd, tmp_path d nm)))
        (\<lambda>e. case e of FileExistsError m' \<Rightarrow> mkstemp_loop m d | _ \<Rightarrow> throw e))
      (tmp_made w0 k data) (\<lambda>_. start_stage w0 k data)"
    if "resolve w0 (tmp_path d nm) \<noteq> k" for nm
  proof (rule triple_handle)
    show "triple (start_stage w0 k data) (pbind (sys_open_excl (tmp_path d nm)) (\<lambda>fd. ret (fd, tmp_path d nm)))
        (tmp_made w0 k data) (\<lambda>_. start_stage w0 k data)"
    proof (rule triple_bind)
      show "triple (start_stage w0 k data) (sys_open_excl (tmp_path d nm))
          (\<lambda>fd. tmp_made w0 k data (fd, tmp_path d nm)) (\<lambda>_. start_stage w0 k data)"
        by (rule triple_post [OF open_excl_triple [OF that]]) simp_all
    qed (simp add: triple_ret)
    show "triple (start_stage w0 k data)
        (case e of FileExistsError m' \<Rightarrow> mkstemp_loop m d | _ \<Rightarrow> throw e)
        (tmp_made w0 k data) (\<lambda>_. start_stage w0 k data)" for e
      using Suc.IH by (cases e) (simp_all add: triple_throw)
  qed
  note loop = this
  have next_name: "triple (start_stage w0 k data) next_tmp_name
      (\<lambda>nm w. (\<exists>n. nm = tmp_names w0 n) \<and> start_stage w0 k data w) (\<lambda>_. start_stage w0 k data)"
  proof (rule tripleI)
    fix w assume s: "start_stage w0 k data w"
    then have "tmp_names w = tmp_names w0" by (simp add: start_stage_def sound_def frame_def)
    moreover have "start_stage w0 k data (w\<lparr>tmp_next := Suc (tmp_next w)\<rparr>)"
      using s by (simp add: start_stage_def sound_def frame_def wf_os_def history_ok_def)
    ultimately show "case next_tmp_name w of None \<Rightarrow> False
      | Some (Inl e, w') \<Rightarrow> start_stage w0 k data w'
      | Some (Inr nm, w') \<Rightarrow> (\<exists>n. nm = tmp_names w0 n) \<and> start_stage w0 k data w'"
      by (auto simp: next_tmp_name_def)
  qed
  show ?case
    unfolding mkstemp_loop.simps Let_def
  proof (rule triple_bind [OF next_name])
    fix nm
    show "triple (\<lambda>w. (\<exists>n. nm = tmp_names w0 n) \<and> start_stage w0 k data w)
        (handle (pbind (sys_open_excl (path_join d (lit ''.vault-'' @ nm @ lit ''.tmp'')))
            (\<lambda>fd. ret (fd, path_join d (lit ''.vault-'' @ nm @ lit ''.tmp''))))
          (\<lambda>e. case e of FileExistsError m' \<Rightarrow> mkstemp_loop m d | _ \<Rightarrow> throw e))
        (tmp_made w0 k data) (\<lambda>_. start_stage w0 k data)"
      using loop assms unfolding tmp_path_def by (intro triple_fact) auto
  qed
qed

section \<open>The rename and after\<close>

definition renamed :: "'z os_scheme \<Rightarrow> pystr \<Rightarrow> bytes \<Rightarrow> 'z os_scheme \<Rightarrow> bool" where
  "renamed w0 k data w \<longleftrightarrow>
     sound w0 k data w \<and> new_at w0 k data (disk w) \<and>
     (\<forall>n. n \<noteq> k \<longrightarrow> d_names (disk w) n = d_names (disk w0) n)"

definition undone :: "'z os_scheme \<Rightarrow> pystr \<Rightarrow> bytes \<Rightarrow> 'z os_scheme \<Rightarrow> bool" where
  "undone w0 k data w \<longleftrightarrow>
     sound w0 k data w \<and> old_at k (disk w0) (disk w) \<and> d_names (disk w) = d_names (disk w0)"

lemma renamed_disk_ok: "renamed w0 k data w \<Longrightarrow> disk_ok w0 k data (disk w)"
  by (simp add: renamed_def disk_ok_def sound_def frame_def)

lemma renamed_calls: "renamed w0 k data w \<Longrightarrow> renamed w0 k data (w\<lparr>calls := Suc (calls w)\<rparr>)"
  by (simp add: renamed_def)

lemma renamed_record:
  "renamed w0 k data w \<Longrightarrow> renamed w0 k data (w\<lparr>disk_trace := disk_trace w @ [disk w]\<rparr>)"
  using sound_record [of w0 k data w] renamed_disk_ok [of w0 k data w] by (auto simp: renamed_def)

lemma undone_calls: "undone w0 k data w \<Longrightarrow> undone w0 k data (w\<lparr>calls := Suc (calls w)\<rparr>)"
  by (simp add: undone_def)

lemma undone_record:
  "undone w0 k data w \<Longrightarrow> undone w0 k data (w\<lparr>disk_trace := disk_trace w @ [disk w]\<rparr>)"
  using sound_record [of w0 k data w]
  by (auto simp: undone_def disk_ok_def sound_def frame_def)

lemma start_undone: "start_stage w0 k data w \<Longrightarrow> undone w0 k data w"
  by (simp add: start_stage_def undone_def old_at_def)

lemma sound_names:
  "sound w0 k data w \<Longrightarrow> (\<And>n i. N n = Some i \<Longrightarrow> i < inode_next w) \<Longrightarrow>
     sound w0 k data (w\<lparr>disk := (disk w)\<lparr>d_names := N\<rparr>\<rparr>)"
  by (simp add: sound_def frame_def wf_os_def history_ok_def)

lemma sound_durable:
  "sound w0 k data w \<Longrightarrow> (\<And>n i. N n = Some i \<Longrightarrow> i < inode_next w) \<Longrightarrow>
     sound w0 k data (w\<lparr>disk := (disk w)\<lparr>d_durable := N\<rparr>\<rparr>)"
  by (simp add: sound_def frame_def wf_os_def history_ok_def)

lemma sound_alloc_dir:
  "sound w0 k data w \<Longrightarrow>
     sound w0 k data (w\<lparr>fds := (fds w)(fd_next w := Some DirFd), fd_next := Suc (fd_next w)\<rparr>)"
  by (auto simp: sound_def frame_def wf_os_def history_ok_def intro: less_SucI)

lemma sound_names_bound: "sound w0 k data w \<Longrightarrow> d_names (disk w) n = Some i \<Longrightarrow> i < inode_next w"
  by (simp add: sound_def wf_os_def)

text \<open>A call that keeps the new state and fails only if the oracle makes it fail.\<close>

definition renamed_fault :: "'z os_scheme \<Rightarrow> pystr \<Rightarrow> bytes \<Rightarrow> 'z os_scheme \<Rightarrow> bool" where
  "renamed_fault w0 k data w \<longleftrightarrow> renamed w0 k data w \<and> faulted w0 1 w"

lemma renamed_frame: "renamed w0 k data w \<Longrightarrow> frame w0 w"
  by (simp add: renamed_def sound_def)

lemma renamed_call:
  assumes "\<And>w. renamed w0 k data w \<Longrightarrow> \<Phi> w \<Longrightarrow>
      \<exists>x w'. body (w\<lparr>calls := Suc (calls w)\<rparr>) = (Inr x, w') \<and> renamed w0 k data w' \<and>
        \<Psi> x (w'\<lparr>disk_trace := disk_trace w' @ [disk w']\<rparr>)"
    and "\<And>w. \<Phi> w \<Longrightarrow> \<Theta> (w\<lparr>calls := Suc (calls w)\<rparr>)"
  shows "triple (\<lambda>w. renamed w0 k data w \<and> \<Phi> w) (syscall body)
    (\<lambda>x w. renamed w0 k data w \<and> \<Psi> x w) (\<lambda>_ w. renamed_fault w0 k data w \<and> \<Theta> w)"
proof (rule triple_syscall)
  fix w e assume r: "renamed w0 k data w \<and> \<Phi> w" and e: "faults w (calls w) = Some e"
  then have "frame w0 w" using renamed_frame [of w0 k data w] by simp
  from faulted_step [OF this faulted_0 e] assms(2) r renamed_calls [of w0 k data w]
  show "renamed_fault w0 k data (w\<lparr>calls := Suc (calls w)\<rparr>) \<and> \<Theta> (w\<lparr>calls := Suc (calls w)\<rparr>)"
    by (simp add: renamed_fault_def)
next
  fix w r w2
  assume "renamed w0 k data w \<and> \<Phi> w" and b: "body (w\<lparr>calls := Suc (calls w)\<rparr>) = (r, w2)"
  with assms(1) [of w] obtain x where "r = Inr x" and "renamed w0 k data w2"
    and "\<Psi> x (w2\<lparr>disk_trace := disk_trace w2 @ [disk w2]\<rparr>)"
    by auto
  with renamed_record [of w0 k data w2]
  show "case r of Inl e \<Rightarrow> renamed_fault w0 k data (w2\<lparr>disk_trace := disk_trace w2 @ [disk w2]\<rparr>) \<and>
        \<Theta> (w2\<lparr>disk_trace := disk_trace w2 @ [disk w2]\<rparr>)
    | Inr x \<Rightarrow> renamed w0 k data (w2\<lparr>disk_trace := disk_trace w2 @ [disk w2]\<rparr>) \<and>
        \<Psi> x (w2\<lparr>disk_trace := disk_trace w2 @ [disk w2]\<rparr>)"
    by simp
qed

text \<open>The descriptor of the directory.\<close>

definition dir_open :: "'z os_scheme \<Rightarrow> nat \<Rightarrow> 'z os_scheme \<Rightarrow> bool" where
  "dir_open w0 fd w \<longleftrightarrow> fds w fd = Some DirFd \<and> fd_next w0 \<le> fd"

lemma open_dir_triple:
  "triple (\<lambda>w. renamed w0 k data w \<and> True) (sys_open_dir d)
    (\<lambda>fd w. renamed w0 k data w \<and> dir_open w0 fd w) (\<lambda>_ w. renamed_fault w0 k data w \<and> True)"
  unfolding sys_open_dir_def
proof (rule renamed_call)
  fix w assume r: "renamed w0 k data w"
  define w1 where "w1 = w\<lparr>calls := Suc (calls w)\<rparr>"
  have r1: "renamed w0 k data w1" using r by (simp add: w1_def renamed_calls)
  then have "renamed w0 k data (w1\<lparr>fds := (fds w1)(fd_next w1 := Some DirFd), fd_next := Suc (fd_next w1)\<rparr>)"
    using sound_alloc_dir [of w0 k data w1] by (simp add: renamed_def)
  moreover have "fd_next w0 \<le> fd_next w1" using renamed_frame [OF r1] by (simp add: frame_def)
  ultimately show "\<exists>fd w'. alloc_fd DirFd (w\<lparr>calls := Suc (calls w)\<rparr>) = (Inr fd, w') \<and>
      renamed w0 k data w' \<and> dir_open w0 fd (w'\<lparr>disk_trace := disk_trace w' @ [disk w']\<rparr>)"
    unfolding w1_def [symmetric] by (simp add: alloc_fd_def dir_open_def)
qed simp

lemma fsync_dir_triple:
  "triple (\<lambda>w. renamed w0 k data w \<and> dir_open w0 fd w) (sys_fsync fd)
    (\<lambda>_ w. renamed w0 k data w \<and> dir_open w0 fd w)
    (\<lambda>_ w. renamed_fault w0 k data w \<and> dir_open w0 fd w)"
  unfolding sys_fsync_def
proof (rule renamed_call)
  fix w assume r: "renamed w0 k data w" and d: "dir_open w0 fd w"
  define w1 where "w1 = w\<lparr>calls := Suc (calls w)\<rparr>"
  have r1: "renamed w0 k data w1" using r by (simp add: w1_def renamed_calls)
  have d1: "fds w1 fd = Some DirFd" using d by (simp add: w1_def dir_open_def)
  have so: "sound w0 k data w1" using r1 by (simp add: renamed_def)
  have "sound w0 k data (w1\<lparr>disk := (disk w1)\<lparr>d_durable := d_names (disk w1)\<rparr>\<rparr>)"
    by (rule sound_durable [OF so]) (rule sound_names_bound [OF so])
  then have "renamed w0 k data (w1\<lparr>disk := (disk w1)\<lparr>d_durable := d_names (disk w1)\<rparr>\<rparr>)"
    using r1 by (auto simp: renamed_def new_at_def)
  then show "\<exists>x w'. (case fds (w\<lparr>calls := Suc (calls w)\<rparr>) fd of
        None \<Rightarrow> (Inl (OSError EBADF), w\<lparr>calls := Suc (calls w)\<rparr>)
      | Some (FileFd i) \<Rightarrow> (Inr (), set_inode i (d_inodes (disk (w\<lparr>calls := Suc (calls w)\<rparr>)) i
          \<lparr>i_synced := True\<rparr>) (w\<lparr>calls := Suc (calls w)\<rparr>))
      | Some DirFd \<Rightarrow> (Inr (), (w\<lparr>calls := Suc (calls w)\<rparr>)\<lparr>disk := disk (w\<lparr>calls := Suc (calls w)\<rparr>)
          \<lparr>d_durable := d_names (disk (w\<lparr>calls := Suc (calls w)\<rparr>))\<rparr>\<rparr>)) = (Inr x, w') \<and>
      renamed w0 k data w' \<and> dir_open w0 fd (w'\<lparr>disk_trace := disk_trace w' @ [disk w']\<rparr>)"
    unfolding w1_def [symmetric] using d1 d by (simp add: dir_open_def)
qed (simp add: dir_open_def)

lemma close_dir_triple:
  assumes wf: "wf_os w0"
  shows "triple (\<lambda>w. renamed w0 k data w \<and> dir_open w0 fd w) (sys_close fd)
    (\<lambda>_. renamed w0 k data) (\<lambda>_. renamed_fault w0 k data)"
proof (rule triple_upd)
  fix w assume r: "renamed w0 k data w \<and> dir_open w0 fd w"
  then have "frame w0 w" "fd_next w0 \<le> fd" by (auto intro: renamed_frame simp: dir_open_def)
  from release_flocks [OF this(1) wf this(2)] this r
  have "renamed w0 k data (release_fd fd w)"
    by (simp add: renamed_def sound_def frame_def wf_os_def history_ok_def)
  with r show "sys_close fd w = syscall (\<lambda>w. (Inr (), w)) (release_fd fd w) \<and>
      renamed w0 k data (release_fd fd w)"
    by (simp add: sys_close_def dir_open_def)
next
  show "triple (renamed w0 k data) (syscall (\<lambda>w. (Inr (), w)))
    (\<lambda>_. renamed w0 k data) (\<lambda>_. renamed_fault w0 k data)"
    using renamed_call [of w0 k data "\<lambda>_. True" "\<lambda>w. (Inr (), w)" "\<lambda>_ _. True" "\<lambda>_. True"]
      renamed_calls [of w0 k data] by simp
qed

lemma fsync_directory_triple:
  assumes "wf_os w0"
  shows "triple (renamed w0 k data) (fsync_directory d)
    (\<lambda>_. renamed w0 k data) (\<lambda>_. renamed_fault w0 k data)"
proof -
  let ?R = "renamed w0 k data"
  let ?opt = "\<lambda>r w. ?R w \<and> (case r of None \<Rightarrow> True | Some fd \<Rightarrow> dir_open w0 fd w)"
  let ?E = "\<lambda>fd _ w. renamed_fault w0 k data w \<and> dir_open w0 fd w"
  have fsync: "triple (\<lambda>w. ?R w \<and> dir_open w0 fd w)
      (handle (sys_fsync fd) (\<lambda>e. if is_os_error e then ret () else throw e))
      (\<lambda>_ w. ?R w \<and> dir_open w0 fd w) (?E fd)" for fd
    by (rule triple_handle [OF fsync_dir_triple]) (simp add: triple_def renamed_fault_def)
  have raised: "triple (?E fd e) (sys_close fd) (\<lambda>_. renamed_fault w0 k data) (\<lambda>_. renamed_fault w0 k data)"
    for fd e
  proof (rule tripleI)
    fix w assume w: "?E fd e w"
    then have "?R w \<and> dir_open w0 fd w" by (simp add: renamed_fault_def)
    from close_dir_triple [OF assms] this
    show "case sys_close fd w of None \<Rightarrow> False | Some (Inl e, w') \<Rightarrow> renamed_fault w0 k data w'
      | Some (Inr u, w') \<Rightarrow> renamed_fault w0 k data w'"
    proof (cases rule: tripleD)
      case (normal u w')
      from w have "fds w fd = Some DirFd" by (simp add: dir_open_def)
      with normal(1) have "calls w \<le> calls w'"
        by (auto simp: sys_close_def syscall_def Let_def split: option.splits)
      then have "faulted w0 1 w'"
        using w faulted_mono [of w0 w 1 w'] renamed_frame [of w0 k data w]
        by (simp add: renamed_fault_def)
      with normal show ?thesis by (simp add: renamed_fault_def)
    qed simp
  qed
  have close: "triple (\<lambda>w. ?R w \<and> dir_open w0 fd w)
      (with_finally (handle (sys_fsync fd) (\<lambda>e. if is_os_error e then ret () else throw e)) (sys_close fd))
      (\<lambda>_. ?R) (\<lambda>_. renamed_fault w0 k data)" for fd
    by (rule triple_finally [OF fsync]) (rule close_dir_triple [OF assms], rule raised)
  have "triple ?R (handle (pbind (sys_open_dir d) (\<lambda>fd. ret (Some fd)))
        (\<lambda>e. if is_os_error e then ret None else throw e)) ?opt (\<lambda>_. renamed_fault w0 k data)"
  proof (rule triple_handle)
    show "triple ?R (pbind (sys_open_dir d) (\<lambda>fd. ret (Some fd))) ?opt (\<lambda>_ w. renamed_fault w0 k data w \<and> True)"
      by (rule triple_bind [OF triple_pre [OF open_dir_triple]]) (simp_all add: triple_def)
    show "triple (\<lambda>w. renamed_fault w0 k data w \<and> True) (if is_os_error e then ret None else throw e) ?opt
      (\<lambda>_. renamed_fault w0 k data)" for e
      by (simp add: triple_def renamed_fault_def)
  qed
  then show ?thesis
    unfolding fsync_directory_def
  proof (rule triple_bind)
    show "triple (?opt r) (case r of None \<Rightarrow> ret () | Some fd \<Rightarrow> with_finally
        (handle (sys_fsync fd) (\<lambda>e. if is_os_error e then ret () else throw e)) (sys_close fd))
      (\<lambda>_. ?R) (\<lambda>_. renamed_fault w0 k data)" for r
      using close by (cases r) (simp_all add: triple_def)
  qed
qed

lemma replace_triple:
  fixes w0 :: "'z os_scheme"
  assumes k: "k = resolve w0 path" and T: "T = resolve w0 tmp"
  shows "triple (at_stage w0 k data T t fd (durable data (final_mode w0) None) c) (sys_replace tmp path)
    (\<lambda>_. renamed w0 k data) (\<lambda>_. at_stage w0 k data T t fd any_file (Suc c))"
  unfolding sys_replace_def
proof (rule triple_syscall)
  fix w e assume "at_stage w0 k data T t fd (durable data (final_mode w0) None) c w"
    and e: "faults w (calls w) = Some e"
  then have s: "tmp_stage w0 k data T t fd (durable data (final_mode w0) None) w" and f: "faulted w0 c w"
    by (simp_all add: at_stage_def)
  from tmp_stage_any [OF tmp_stage_calls [OF s]] faulted_step [OF tmp_stage_frame [OF s] f e]
  show "at_stage w0 k data T t fd any_file (Suc c) (w\<lparr>calls := Suc (calls w)\<rparr>)"
    by (simp add: at_stage_def)
next
  fix w :: "'z os_scheme" and r w2
  let ?w1 = "w\<lparr>calls := Suc (calls w)\<rparr>"
  assume "at_stage w0 k data T t fd (durable data (final_mode w0) None) c w"
    and b: "(case d_names (disk ?w1) (resolve ?w1 tmp) of None \<Rightarrow> (Inl (not_found tmp), ?w1)
      | Some i \<Rightarrow> (Inr (), ?w1\<lparr>disk := disk ?w1\<lparr>d_names := (d_names (disk ?w1))
          (resolve ?w1 tmp := None, resolve ?w1 path \<mapsto> i)\<rparr>\<rparr>)) = (r, w2)"
  then have s: "tmp_stage w0 k data T t fd (durable data (final_mode w0) None) ?w1"
    by (simp add: at_stage_def)
  have "resolve ?w1 tmp = T" "resolve ?w1 path = k"
    using frame_resolve [OF tmp_stage_frame [OF s]] by (simp_all only: k T)
  moreover have n: "d_names (disk ?w1) T = Some t" using s by (simp only: tmp_stage_def)
  ultimately have r: "r = Inr ()"
    and w2: "w2 = ?w1\<lparr>disk := disk ?w1\<lparr>d_names := (d_names (disk ?w1))(T := None, k \<mapsto> t)\<rparr>\<rparr>"
    using b by auto
  have so: "sound w0 k data ?w1" "t < inode_next ?w1" using s by (simp_all only: tmp_stage_def)
  have "sound w0 k data w2"
    unfolding w2 by (rule sound_names [OF so(1)])
      (use so sound_names_bound [OF so(1)] in \<open>auto split: if_splits\<close>)
  moreover have "new_at w0 k data (disk w2)"
    using s unfolding w2 by (auto simp: tmp_stage_def new_at_def durable_def old_at_def)
  moreover have "\<forall>n. n \<noteq> k \<longrightarrow> d_names (disk w2) n = d_names (disk w0) n"
    using s unfolding w2 by (auto simp: tmp_stage_def)
  ultimately have "renamed w0 k data w2" by (simp add: renamed_def)
  with renamed_record r
  show "case r of Inl e \<Rightarrow> at_stage w0 k data T t fd any_file (Suc c) (w2\<lparr>disk_trace := disk_trace w2 @ [disk w2]\<rparr>)
    | Inr u \<Rightarrow> renamed w0 k data (w2\<lparr>disk_trace := disk_trace w2 @ [disk w2]\<rparr>)"
    by simp
qed

section \<open>Cleaning up\<close>

definition left_tmp :: "'z os_scheme \<Rightarrow> pystr \<Rightarrow> bytes \<Rightarrow> 'z os_scheme \<Rightarrow> bool" where
  "left_tmp w0 k data w \<longleftrightarrow> (\<exists>T t fd. at_stage w0 k data T t fd any_file 2 w)"

lemma unlink_tmp_triple:
  fixes w0 :: "'z os_scheme"
  assumes T: "T = resolve w0 tmp"
  shows "triple (at_stage w0 k data T t fd any_file 1) (sys_unlink tmp)
    (\<lambda>_. undone w0 k data) (\<lambda>_. left_tmp w0 k data)"
  unfolding sys_unlink_def
proof (rule triple_syscall)
  fix w e assume "at_stage w0 k data T t fd any_file 1 w" and e: "faults w (calls w) = Some e"
  then have s: "tmp_stage w0 k data T t fd any_file w" and f: "faulted w0 1 w"
    by (simp_all add: at_stage_def)
  from tmp_stage_calls [OF s] faulted_step [OF tmp_stage_frame [OF s] f e]
  show "left_tmp w0 k data (w\<lparr>calls := Suc (calls w)\<rparr>)"
    unfolding left_tmp_def at_stage_def numeral_2_eq_2 by auto
next
  fix w :: "'z os_scheme" and r w2
  let ?w1 = "w\<lparr>calls := Suc (calls w)\<rparr>"
  assume "at_stage w0 k data T t fd any_file 1 w"
    and b: "(case d_names (disk ?w1) (resolve ?w1 tmp) of None \<Rightarrow> (Inl (not_found tmp), ?w1)
      | Some i \<Rightarrow> (Inr (), ?w1\<lparr>disk := disk ?w1\<lparr>d_names := (d_names (disk ?w1))(resolve ?w1 tmp := None)\<rparr>\<rparr>))
      = (r, w2)"
  then have s: "tmp_stage w0 k data T t fd any_file ?w1" by (simp add: at_stage_def)
  have "resolve ?w1 tmp = T" using frame_resolve [OF tmp_stage_frame [OF s]] by (simp only: T)
  moreover have "d_names (disk ?w1) T = Some t" using s by (simp only: tmp_stage_def)
  ultimately have r: "r = Inr ()"
    and w2: "w2 = ?w1\<lparr>disk := disk ?w1\<lparr>d_names := (d_names (disk ?w1))(T := None)\<rparr>\<rparr>"
    using b by auto
  have so: "sound w0 k data ?w1" using s by (simp only: tmp_stage_def)
  have "sound w0 k data w2"
    unfolding w2 by (rule sound_names [OF so])
      (use sound_names_bound [OF so] in \<open>auto split: if_splits\<close>)
  moreover have "old_at k (disk w0) (disk w2)"
    using s unfolding w2 by (auto simp: tmp_stage_def old_at_def)
  moreover have "d_names (disk w2) = d_names (disk w0)"
    using s unfolding w2 by (auto simp: tmp_stage_def fun_eq_iff)
  ultimately have "undone w0 k data w2" by (simp add: undone_def)
  with undone_record r
  show "case r of Inl e \<Rightarrow> left_tmp w0 k data (w2\<lparr>disk_trace := disk_trace w2 @ [disk w2]\<rparr>)
    | Inr u \<Rightarrow> undone w0 k data (w2\<lparr>disk_trace := disk_trace w2 @ [disk w2]\<rparr>)"
    by simp
qed

lemma unlink_renamed_triple:
  fixes w0 :: "'z os_scheme"
  shows "triple (renamed w0 k data) (sys_unlink tmp)
    (\<lambda>_ w. renamed w0 k data w \<or> resolve w0 tmp = k \<or> d_names (disk w0) (resolve w0 tmp) \<noteq> None)
    (\<lambda>_. renamed w0 k data)"
  unfolding sys_unlink_def
proof (rule triple_syscall)
  fix w e assume "renamed w0 k data w"
  then show "renamed w0 k data (w\<lparr>calls := Suc (calls w)\<rparr>)" by (rule renamed_calls)
next
  fix w :: "'z os_scheme" and r w2
  let ?w1 = "w\<lparr>calls := Suc (calls w)\<rparr>"
  assume "renamed w0 k data w"
    and b: "(case d_names (disk ?w1) (resolve ?w1 tmp) of None \<Rightarrow> (Inl (not_found tmp), ?w1)
      | Some i \<Rightarrow> (Inr (), ?w1\<lparr>disk := disk ?w1\<lparr>d_names := (d_names (disk ?w1))(resolve ?w1 tmp := None)\<rparr>\<rparr>))
      = (r, w2)"
  then have s: "renamed w0 k data ?w1" by (simp only: renamed_calls)
  then have res: "resolve ?w1 tmp = resolve w0 tmp"
    by (intro frame_resolve) (simp add: renamed_def sound_def)
  show "case r of Inl e \<Rightarrow> renamed w0 k data (w2\<lparr>disk_trace := disk_trace w2 @ [disk w2]\<rparr>)
    | Inr u \<Rightarrow> renamed w0 k data (w2\<lparr>disk_trace := disk_trace w2 @ [disk w2]\<rparr>) \<or>
        resolve w0 tmp = k \<or> d_names (disk w0) (resolve w0 tmp) \<noteq> None"
  proof (cases "d_names (disk ?w1) (resolve ?w1 tmp)")
    case None
    with b have "r = Inl (not_found tmp)" "w2 = ?w1" by auto
    with renamed_record [OF s] show ?thesis by simp
  next
    case (Some i)
    with b have "r = Inr ()" by auto
    moreover have "resolve w0 tmp = k \<or> d_names (disk w0) (resolve w0 tmp) \<noteq> None"
      using s Some unfolding res renamed_def by (metis option.distinct(1))
    ultimately show ?thesis by simp
  qed
qed

section \<open>The whole call\<close>

definition write_failed :: "'z os_scheme \<Rightarrow> pystr \<Rightarrow> bytes \<Rightarrow> 'z os_scheme \<Rightarrow> bool" where
  "write_failed w0 k data w \<longleftrightarrow>
     undone w0 k data w \<or> renamed w0 k data w \<or> left_tmp w0 k data w"

lemma triple_or:
  "triple P m Q E \<Longrightarrow> triple P' m Q E \<Longrightarrow> triple (\<lambda>w. P w \<or> P' w) m Q E"
  by (auto simp: triple_def)

text \<open>
  What holds when the body of the \<open>try\<close> raises: either the temporary file is still there, or it has
  become the vault.
\<close>

definition broken ::
  "'z os_scheme \<Rightarrow> pystr \<Rightarrow> bytes \<Rightarrow> pystr \<Rightarrow> nat \<Rightarrow> nat \<Rightarrow> 'z os_scheme \<Rightarrow> bool" where
  "broken w0 k data T t fd w \<longleftrightarrow> at_stage w0 k data T t fd any_file 1 w \<or> renamed_fault w0 k data w"

lemma handler_triple:
  assumes T: "T = resolve w0 tmp" and new: "T \<noteq> k" "d_names (disk w0) T = None"
  shows "triple (broken w0 k data T t fd) (pbind (remove_tmp tmp) (\<lambda>_. throw e)) Q
    (\<lambda>_. write_failed w0 k data)"
proof -
  have "triple (at_stage w0 k data T t fd any_file 1) (sys_unlink tmp)
      (\<lambda>_. write_failed w0 k data) (\<lambda>_. write_failed w0 k data)"
    by (rule triple_post [OF unlink_tmp_triple [OF T]]) (simp_all add: write_failed_def)
  moreover have "triple (renamed_fault w0 k data) (sys_unlink tmp)
      (\<lambda>_. write_failed w0 k data) (\<lambda>_. write_failed w0 k data)"
    by (rule triple_conseq [OF unlink_renamed_triple])
       (use T new in \<open>auto simp: write_failed_def renamed_fault_def\<close>)
  ultimately have u: "triple (broken w0 k data T t fd) (sys_unlink tmp)
      (\<lambda>_. write_failed w0 k data) (\<lambda>_. write_failed w0 k data)"
    unfolding broken_def by (rule triple_or)
  have "triple (broken w0 k data T t fd) (remove_tmp tmp)
      (\<lambda>_. write_failed w0 k data) (\<lambda>_. write_failed w0 k data)"
    unfolding remove_tmp_def
    by (rule triple_handle [OF u]) (simp add: triple_def split: exn.split)
  then show ?thesis by (rule triple_bind) (simp add: triple_def)
qed

lemma body_triple:
  assumes wf: "wf_os w0" and k: "k = resolve w0 path" and T: "T = resolve w0 tmp"
  shows "triple (at_stage w0 k data T t fd (written t [] (tmp_mode w0)) 0)
    (pbind (fchmod_if_any fd) (\<lambda>_. pbind (fill_file fd data) (\<lambda>_.
      pbind (sys_replace tmp path) (\<lambda>_. fsync_directory d))))
    (\<lambda>_. renamed w0 k data) (\<lambda>_. broken w0 k data T t fd)"
proof -
  have "triple (at_stage w0 k data T t fd (written t [] (tmp_mode w0)) 0) (fchmod_if_any fd)
     (\<lambda>_. at_stage w0 k data T t fd (written t [] (final_mode w0)) 0) (\<lambda>_. broken w0 k data T t fd)"
    by (rule triple_post [OF fchmod_if_any_triple]) (simp_all add: broken_def)
  moreover have "triple (at_stage w0 k data T t fd (written t [] (final_mode w0)) 0) (fill_file fd data)
     (\<lambda>_. at_stage w0 k data T t fd (durable data (final_mode w0) None) 0)
     (\<lambda>_. broken w0 k data T t fd)"
    by (rule triple_post [OF fill_file_triple [OF wf]]) (simp_all add: broken_def)
  moreover have "triple (at_stage w0 k data T t fd (durable data (final_mode w0) None) 0)
     (sys_replace tmp path) (\<lambda>_. renamed w0 k data) (\<lambda>_. broken w0 k data T t fd)"
    by (rule triple_post [OF replace_triple [OF k T]]) (simp_all add: broken_def)
  moreover have "triple (renamed w0 k data) (fsync_directory d) (\<lambda>_. renamed w0 k data)
     (\<lambda>_. broken w0 k data T t fd)"
    by (rule triple_post [OF fsync_directory_triple [OF wf]]) (simp_all add: broken_def)
  ultimately show ?thesis by (intro triple_bind)
qed

text \<open>The part of the call that has the temporary file.\<close>

definition write_rest :: "pystr \<Rightarrow> bytes \<Rightarrow> pystr \<Rightarrow> nat \<times> pystr \<Rightarrow> ('z os_scheme, unit) prog" where
  "write_rest path data d =
     (\<lambda>(fd, tmp). handle
        (pbind (fchmod_if_any fd) (\<lambda>_. pbind (fill_file fd data) (\<lambda>_.
         pbind (sys_replace tmp path) (\<lambda>_. fsync_directory d))))
        (\<lambda>e. pbind (remove_tmp tmp) (\<lambda>_. throw e)))"

lemma write_atomic_rest:
  "write_atomic path data =
     pbind (target_dir path) (\<lambda>d. pbind (mkstemp d) (write_rest path data d))"
  by (simp add: write_atomic_def write_rest_def)

lemma write_rest_triple:
  assumes wf: "wf_os w0"
  shows "triple (tmp_made w0 (resolve w0 path) data r) (write_rest path data d r)
    (\<lambda>_. renamed w0 (resolve w0 path) data) (\<lambda>_. write_failed w0 (resolve w0 path) data)"
proof -
  obtain fd tmp where r: "r = (fd, tmp)" by fastforce
  let ?k = "resolve w0 path"
  show ?thesis
    unfolding tmp_made_def r fst_conv snd_conv write_rest_def prod.case
  proof (rule triple_ex)
    fix t
    let ?S = "at_stage w0 ?k data (resolve w0 tmp) t fd (written t [] (tmp_mode w0)) 0"
    show "triple ?S (handle (pbind (fchmod_if_any fd) (\<lambda>_. pbind (fill_file fd data) (\<lambda>_.
          pbind (sys_replace tmp path) (\<lambda>_. fsync_directory d))))
        (\<lambda>e. pbind (remove_tmp tmp) (\<lambda>_. throw e)))
      (\<lambda>_. renamed w0 ?k data) (\<lambda>_. write_failed w0 ?k data)"
    proof (cases "resolve w0 tmp \<noteq> ?k \<and> d_names (disk w0) (resolve w0 tmp) = None")
      case True
      then show ?thesis
        by (intro triple_handle [OF body_triple [OF wf refl refl]] handler_triple) auto
    next
      case False
      then have "\<not> ?S w" for w by (auto simp: at_stage_def tmp_stage_def)
      then show ?thesis by (simp add: triple_def)
    qed
  qed
qed

text \<open>
  \<open>write_atomic\<close> always returns. If it returns normally, the new file is in place; if it raises, the
  directory is as before, or the new file is in place after all, or the clean-up failed too.
\<close>

lemma write_atomic_triple:
  assumes wf: "wf_os w0" and clear: "tmp_clear w0 path"
  shows "triple (\<lambda>w. w = w0) (write_atomic path data)
    (\<lambda>_. renamed w0 (resolve w0 path) data) (\<lambda>_. write_failed w0 (resolve w0 path) data)"
proof -
  let ?k = "resolve w0 path" and ?d = "dirname (resolve w0 path)"
  have "start_stage w0 ?k data w0" using wf by (simp add: start_stage_def sound_def)
  then have dir: "triple (\<lambda>w. w = w0) (target_dir path) (\<lambda>d w. d = ?d \<and> start_stage w0 ?k data w)
      (\<lambda>_. write_failed w0 ?k data)"
    by (simp add: triple_def target_dir_def)
  have mk: "triple (start_stage w0 ?k data) (mkstemp ?d) (tmp_made w0 ?k data) (\<lambda>_. write_failed w0 ?k data)"
    unfolding mkstemp_def
    by (rule triple_post [OF mkstemp_loop_triple])
       (use clear in \<open>auto simp: tmp_clear_def write_failed_def start_undone\<close>)
  have "triple (\<lambda>w. d = ?d \<and> start_stage w0 ?k data w) (pbind (mkstemp d) (write_rest path data d))
      (\<lambda>_. renamed w0 ?k data) (\<lambda>_. write_failed w0 ?k data)" for d
    by (rule triple_fact) (simp add: triple_bind [OF mk write_rest_triple [OF wf]])
  then show ?thesis
    unfolding write_atomic_rest by (rule triple_bind [OF dir])
qed

section \<open>A run without faults\<close>

definition quiet :: "'z os_scheme \<Rightarrow> bool" where
  "quiet w \<longleftrightarrow> (\<forall>n \<ge> calls w. faults w n = None)"

text \<open>The first temporary name the process will try is not in use.\<close>

definition tmp_free :: "'z os_scheme \<Rightarrow> pystr \<Rightarrow> bool" where
  "tmp_free w path \<longleftrightarrow>
     d_names (disk w) (resolve w (tmp_path (dirname (resolve w path)) (tmp_names w (tmp_next w)))) = None"

lemma quiet_faulted: "quiet w0 \<Longrightarrow> \<not> faulted w0 (Suc n) w"
  by (auto simp: quiet_def faulted_def nfaults_def filter_empty_conv)

lemma mkstemp_quiet:
  assumes q: "quiet w0" and new: "resolve w0 (tmp_path d (tmp_names w0 (tmp_next w0))) \<noteq> k"
    and free: "d_names (disk w0) (resolve w0 (tmp_path d (tmp_names w0 (tmp_next w0)))) = None"
  shows "triple (\<lambda>w. start_stage w0 k data w \<and> tmp_next w = tmp_next w0) (mkstemp d)
    (tmp_made w0 k data) (\<lambda>_ _. False)"
proof -
  let ?p = "tmp_path d (tmp_names w0 (tmp_next w0))"
  have "triple (start_stage w0 k data) (sys_open_excl ?p) (\<lambda>fd. tmp_made w0 k data (fd, ?p)) (\<lambda>_ _. False)"
    by (rule triple_post [OF open_excl_triple [OF new]]) (use q free quiet_faulted [of w0 0] in auto)
  then have made: "triple (start_stage w0 k data)
      (handle (pbind (sys_open_excl ?p) (\<lambda>fd. ret (fd, ?p)))
        (\<lambda>e. case e of FileExistsError m' \<Rightarrow> mkstemp_loop 9999 d | _ \<Rightarrow> throw e))
      (tmp_made w0 k data) (\<lambda>_ _. False)"
    by (intro triple_handle [where E = "\<lambda>_ _. False"] triple_bind) (auto simp: triple_def)
  have name: "triple (\<lambda>w. start_stage w0 k data w \<and> tmp_next w = tmp_next w0) next_tmp_name
      (\<lambda>nm w. nm = tmp_names w0 (tmp_next w0) \<and> start_stage w0 k data w) (\<lambda>_ _. False)"
    by (rule tripleI)
       (simp add: next_tmp_name_def start_stage_def sound_def frame_def wf_os_def history_ok_def)
  have loop: "mkstemp d = mkstemp_loop (Suc 9999) d" by (simp add: mkstemp_def TMP_MAX_def)
  show ?thesis
    unfolding loop mkstemp_loop.simps Let_def
    by (rule triple_bind [OF name], rule triple_fact) (use made in \<open>simp add: tmp_path_def\<close>)
qed

lemma write_atomic_quiet:
  assumes wf: "wf_os w" and clear: "tmp_clear w path" and q: "quiet w" and free: "tmp_free w path"
  shows "\<exists>w'. write_atomic path data w = Some (Inr (), w') \<and> renamed w (resolve w path) data w'"
proof -
  let ?k = "resolve w path" and ?d = "dirname (resolve w path)"
  have "start_stage w ?k data w" using wf by (simp add: start_stage_def sound_def)
  then have dir: "triple (\<lambda>v. v = w) (target_dir path)
      (\<lambda>d v. d = ?d \<and> start_stage w ?k data v \<and> tmp_next v = tmp_next w) (\<lambda>_ _. False)"
    by (simp add: triple_def target_dir_def)
  have mk: "triple (\<lambda>v. start_stage w ?k data v \<and> tmp_next v = tmp_next w) (mkstemp ?d)
      (tmp_made w ?k data) (\<lambda>_ _. False)"
    by (rule mkstemp_quiet [OF q]) (use clear free in \<open>auto simp: tmp_clear_def tmp_free_def\<close>)
  have body: "triple (at_stage w ?k data (resolve w tmp) t fd (written t [] (tmp_mode w)) 0)
      (pbind (fchmod_if_any fd) (\<lambda>_. pbind (fill_file fd data) (\<lambda>_.
        pbind (sys_replace tmp path) (\<lambda>_. fsync_directory d))))
      (\<lambda>_. renamed w ?k data) (\<lambda>_ _. False)" for tmp t fd d
    by (rule triple_post [OF body_triple [OF wf refl refl]])
       (use quiet_faulted [OF q, of 0] in \<open>auto simp: broken_def at_stage_def renamed_fault_def\<close>)
  have rest: "triple (tmp_made w ?k data r) (write_rest path data d r) (\<lambda>_. renamed w ?k data) (\<lambda>_ _. False)"
    for r d
    unfolding tmp_made_def write_rest_def prod.case_eq_if
    by (intro triple_ex triple_handle [OF body]) (simp add: triple_def)
  have "triple (\<lambda>v. d = ?d \<and> start_stage w ?k data v \<and> tmp_next v = tmp_next w)
      (pbind (mkstemp d) (write_rest path data d)) (\<lambda>_. renamed w ?k data) (\<lambda>_ _. False)" for d
    by (rule triple_fact) (simp add: triple_bind [OF mk rest])
  then have "triple (\<lambda>v. v = w) (write_atomic path data) (\<lambda>_. renamed w ?k data) (\<lambda>_ _. False)"
    unfolding write_atomic_rest by (rule triple_bind [OF dir])
  from this refl [of w] show ?thesis by (cases rule: tripleD) auto
qed

end
