(* ===== verification/StorageProperties.thy ===== *)
theory StorageProperties
  imports StorageAtomic
begin

text \<open>
  The properties of the storage layer, read off the triple of \<open>write_atomic\<close>: what a process and
  what a power loss can find at every moment, what a normal return means, what is left behind by
  a failure, and that reading returns what is there.
\<close>

section \<open>What can be found under a name\<close>

text \<open>The content a process sees, and the contents a power loss can leave.\<close>

definition visible :: "disk \<Rightarrow> pystr \<Rightarrow> bytes option" where
  "visible d k = map_option (\<lambda>i. i_data (d_inodes d i)) (d_names d k)"

text \<open>
  After a power loss the name is bound as it was last synced or as it was last seen; an inode that
  was not synced may hold anything.
\<close>

definition may_survive :: "disk \<Rightarrow> pystr \<Rightarrow> bytes option \<Rightarrow> bool" where
  "may_survive d k c \<longleftrightarrow>
     (\<exists>n \<in> {d_names d k, d_durable d k}.
        case n of
          None \<Rightarrow> c = None
        | Some i \<Rightarrow> c \<noteq> None \<and> (i_synced (d_inodes d i) \<longrightarrow> c = Some (i_data (d_inodes d i))))"

definition settled :: "'z os_scheme \<Rightarrow> pystr \<Rightarrow> bool" where
  "settled w k \<longleftrightarrow>
     d_durable (disk w) k = d_names (disk w) k \<and>
     (\<forall>i. d_names (disk w) k = Some i \<longrightarrow> i_synced (d_inodes (disk w) i))"

lemma old_visible:
  assumes "wf_os w" and "disk_ok w k data d" and "old_at k (disk w) d"
  shows "visible d k = visible (disk w) k"
  using assms
  by (cases "d_names (disk w) k") (auto simp: visible_def old_at_def disk_ok_def wf_os_def)

lemma new_visible: "new_at w k data d \<Longrightarrow> visible d k = Some data"
  by (auto simp: visible_def new_at_def)

lemma disk_ok_visible:
  "wf_os w \<Longrightarrow> disk_ok w k data d \<Longrightarrow> visible d k = visible (disk w) k \<or> visible d k = Some data"
  using old_visible [of w k data d] new_visible [of w k data d] by (auto simp: disk_ok_def)

lemma disk_ok_survive:
  assumes wf: "wf_os w" and ok: "disk_ok w k data d" and st: "settled w k" and c: "may_survive d k c"
  shows "c = visible (disk w) k \<or> c = Some data"
proof -
  have old: "c = visible (disk w) k"
    if "case d_names (disk w) k of None \<Rightarrow> c = None
        | Some i \<Rightarrow> c \<noteq> None \<and> (i_synced (d_inodes d i) \<longrightarrow> c = Some (i_data (d_inodes d i)))"
    using that wf ok st by (auto simp: visible_def disk_ok_def settled_def wf_os_def split: option.splits)
  show ?thesis
  proof (cases "old_at k (disk w) d")
    case True
    then show ?thesis using c old st by (auto simp: may_survive_def old_at_def settled_def)
  next
    case False
    with ok obtain t where t: "d_names d k = Some t" "d_durable d k = d_durable (disk w) k \<or> d_durable d k = Some t"
      and n: "d_inodes d t = \<lparr>i_data = data, i_mode = final_mode w, i_synced = True\<rparr>"
      by (auto simp: disk_ok_def new_at_def)
    from c consider "case d_names d k of None \<Rightarrow> c = None
        | Some i \<Rightarrow> c \<noteq> None \<and> (i_synced (d_inodes d i) \<longrightarrow> c = Some (i_data (d_inodes d i)))"
      | "case d_durable d k of None \<Rightarrow> c = None
        | Some i \<Rightarrow> c \<noteq> None \<and> (i_synced (d_inodes d i) \<longrightarrow> c = Some (i_data (d_inodes d i)))"
      by (auto simp: may_survive_def)
    then show ?thesis
    proof cases
      case 1
      with t(1) n show ?thesis by simp
    next
      case 2
      from t(2) show ?thesis
      proof
        assume "d_durable d k = d_durable (disk w) k"
        with 2 st old show ?thesis by (simp add: settled_def)
      next
        assume "d_durable d k = Some t"
        with 2 n show ?thesis by simp
      qed
    qed
  qed
qed

section \<open>The triple as facts about one call\<close>

lemma write_atomic_runs:
  assumes "wf_os w" and "tmp_clear w path"
  obtains (normal) w' where "write_atomic path data w = Some (Inr (), w')"
    and "renamed w (resolve w path) data w'"
  | (raised) e w' where "write_atomic path data w = Some (Inl e, w')"
    and "write_failed w (resolve w path) data w'"
proof -
  from write_atomic_triple [OF assms, of data] refl [of w] show thesis
    by (cases rule: tripleD) (auto intro: normal raised)
qed

lemma write_outcome_sound:
  "renamed w k data w' \<Longrightarrow> sound w k data w'" "write_failed w k data w' \<Longrightarrow> sound w k data w'"
  by (auto simp: renamed_def write_failed_def undone_def left_tmp_def at_stage_def tmp_stage_def)

lemma write_outcome_disk_ok:
  "renamed w k data w' \<Longrightarrow> disk_ok w k data (disk w')" "write_failed w k data w' \<Longrightarrow> disk_ok w k data (disk w')"
  using renamed_disk_ok [of w k data w']
  by (auto simp: write_failed_def undone_def disk_ok_def sound_def frame_def left_tmp_def at_stage_def
      tmp_stage_def)

lemma write_atomic_history:
  assumes "wf_os w" and "tmp_clear w path"
  shows "\<exists>r w' ds. write_atomic path data w = Some (r, w') \<and> disk_trace w' = disk_trace w @ ds \<and>
    (\<forall>d \<in> set (disk w' # ds). disk_ok w (resolve w path) data d)"
  using assms
proof (cases rule: write_atomic_runs [where data = data])
  case (normal w')
  with write_outcome_sound(1) [OF normal(2)] write_outcome_disk_ok(1) [OF normal(2)]
  show ?thesis by (fastforce simp: sound_def history_ok_def)
next
  case (raised e w')
  with write_outcome_sound(2) [OF raised(2)] write_outcome_disk_ok(2) [OF raised(2)]
  show ?thesis by (fastforce simp: sound_def history_ok_def)
qed

section \<open>Atomicity\<close>

text \<open>Whatever system calls fail, with whatever exceptions, \<open>write_atomic\<close> returns, and in every
  state of the disk from its start to its end a process that opens the vault finds the complete
  old content or the complete new one.\<close>

theorem write_atomic_old_or_new:
  assumes "wf_os w" and "tmp_clear w path"
  shows "\<exists>r w' ds. write_atomic path data w = Some (r, w') \<and> disk_trace w' = disk_trace w @ ds \<and>
    (\<forall>d \<in> set (disk w' # ds). visible d (resolve w path) \<in> {visible (disk w) (resolve w path), Some data})"
proof -
  from write_atomic_history [OF assms, of data] obtain r w' ds where
    "write_atomic path data w = Some (r, w')" "disk_trace w' = disk_trace w @ ds"
    "\<forall>d \<in> set (disk w' # ds). disk_ok w (resolve w path) data d" by blast
  with disk_ok_visible [OF assms(1)] show ?thesis by blast
qed

text \<open>C12: The same holds for a power loss at any moment: if the vault was safely on disk before, what
  is found afterwards is the complete old file or the complete new one, because the new file is
  synced before the rename.\<close>

theorem write_atomic_survives_power_loss:
  assumes "wf_os w" and "tmp_clear w path" and "settled w (resolve w path)"
  shows "\<exists>r w' ds. write_atomic path data w = Some (r, w') \<and> disk_trace w' = disk_trace w @ ds \<and>
    (\<forall>d \<in> set (disk w' # ds). \<forall>c. may_survive d (resolve w path) c \<longrightarrow>
      c = visible (disk w) (resolve w path) \<or> c = Some data)"
proof -
  from write_atomic_history [OF assms(1,2), of data] obtain r w' ds where
    "write_atomic path data w = Some (r, w')" "disk_trace w' = disk_trace w @ ds"
    "\<forall>d \<in> set (disk w' # ds). disk_ok w (resolve w path) data d" by blast
  with disk_ok_survive [OF assms(1) _ assms(3)] show ?thesis by blast
qed

text \<open>When \<open>write_atomic\<close> returns normally the vault holds exactly the new data, synced, with the
  permission bits 0600, and no other name of the directory was added or changed: the temporary
  file is gone.\<close>

theorem write_atomic_success:
  assumes "wf_os w" and "tmp_clear w path" and "has_fchmod w"
    and "write_atomic path data w = Some (Inr u, w')"
  shows "\<exists>i. d_names (disk w') (resolve w path) = Some i \<and>
      d_inodes (disk w') i = \<lparr>i_data = data, i_mode = 384, i_synced = True\<rparr> \<and>
      (\<forall>n. n \<noteq> resolve w path \<longrightarrow> d_names (disk w') n = d_names (disk w) n)"
  using assms(1,2)
proof (cases rule: write_atomic_runs [where data = data])
  case (normal w'')
  with assms(3,4) show ?thesis
    by (auto simp: renamed_def new_at_def final_mode_def VAULT_FILE_MODE_def)
next
  case (raised e w'')
  with assms(4) show ?thesis by simp
qed

text \<open>When \<open>write_atomic\<close> raises, no temporary file is left in the directory, unless two or more
  system calls failed (the write and its own clean-up).\<close>

theorem write_atomic_failure_tidy:
  assumes "wf_os w" and "tmp_clear w path" and "write_atomic path data w = Some (Inl e, w')"
    and "nfaults w w' < 2"
  shows "\<forall>n. n \<noteq> resolve w path \<longrightarrow> d_names (disk w') n = d_names (disk w) n"
  using assms(1,2)
proof (cases rule: write_atomic_runs [where data = data])
  case (normal w'')
  with assms(3) show ?thesis by simp
next
  case (raised e' w'')
  with assms(3,4) show ?thesis
    by (auto simp: write_failed_def undone_def renamed_def left_tmp_def at_stage_def faulted_def)
qed

text \<open>If no system call fails and the first temporary name is free, \<open>write_atomic\<close> succeeds: it
  cannot fail on its own account.\<close>

theorem write_atomic_succeeds:
  assumes "wf_os w" and "tmp_clear w path" and "quiet w" and "tmp_free w path"
  shows "\<exists>w'. write_atomic path data w = Some (Inr (), w') \<and>
    visible (disk w') (resolve w path) = Some data"
  using write_atomic_quiet [OF assms] new_visible by (fastforce simp: renamed_def)

section \<open>Reading\<close>

text \<open>What every outcome of \<open>storage_read\<close> leaves: the disk as it was, and no new descriptor.\<close>

definition read_kept :: "'z os_scheme \<Rightarrow> nat option \<Rightarrow> 'z os_scheme \<Rightarrow> bool" where
  "read_kept w0 fd w \<longleftrightarrow>
     frame w0 w \<and> wf_os w \<and> disk w = disk w0 \<and>
     (\<forall>f. fd \<noteq> Some f \<longrightarrow> fds w f = fds w0 f) \<and>
     (\<forall>f. fd = Some f \<longrightarrow> fd_next w0 \<le> f \<and> fds w0 f = None)"

lemma read_kept_start: "wf_os w \<Longrightarrow> read_kept w None w"
  by (simp add: read_kept_def)

lemma read_kept_step:
  "read_kept w0 fd w \<Longrightarrow> read_kept w0 fd (w\<lparr>calls := Suc (calls w)\<rparr>)"
  "read_kept w0 fd w \<Longrightarrow> read_kept w0 fd (w\<lparr>disk_trace := disk_trace w @ [disk w]\<rparr>)"
  by (simp_all add: read_kept_def frame_def wf_os_def)

lemma read_kept_open:
  assumes "read_kept w0 None w" and "i < inode_next w"
  shows "read_kept w0 (Some (fd_next w))
    (w\<lparr>fds := (fds w)(fd_next w := Some (FileFd i)), fd_next := Suc (fd_next w)\<rparr>)"
proof -
  have "fds w (fd_next w) = None" "fds w (fd_next w) = fds w0 (fd_next w)"
    using assms(1) wf_fresh_fd [of w] by (auto simp: read_kept_def)
  with assms show ?thesis
    by (auto simp: read_kept_def frame_def wf_os_def intro: less_SucI)
qed

lemma read_kept_close:
  assumes "wf_os w0" and r: "read_kept w0 (Some fd) w"
  shows "read_kept w0 None (release_fd fd w)"
proof -
  have "frame w0 w" "fd_next w0 \<le> fd" using r by (simp_all add: read_kept_def)
  from release_flocks [OF this(1) assms(1) this(2)] frame_close [OF this] r show ?thesis
    by (auto simp: read_kept_def wf_os_close)
qed

text \<open>An open descriptor of the file, with its content.\<close>

definition reading :: "'z os_scheme \<Rightarrow> pystr \<Rightarrow> nat \<Rightarrow> nat \<Rightarrow> 'z os_scheme \<Rightarrow> bool" where
  "reading w0 k n fd w \<longleftrightarrow>
     read_kept w0 (Some fd) w \<and> faulted w0 n w \<and>
     (\<exists>i. d_names (disk w0) k = Some i \<and> fds w fd = Some (FileFd i))"

definition read_done :: "'z os_scheme \<Rightarrow> nat \<Rightarrow> 'z os_scheme \<Rightarrow> bool" where
  "read_done w0 n w \<longleftrightarrow> read_kept w0 None w \<and> faulted w0 n w"

lemma read_kept_frame: "read_kept w0 fd w \<Longrightarrow> frame w0 w"
  by (simp add: read_kept_def)

lemma open_read_triple:
  fixes w0 :: "'z os_scheme"
  shows "triple (read_kept w0 None) (sys_open_read p) (reading w0 (resolve w0 p) 0)
    (\<lambda>e w. read_done w0 1 w \<or>
      (read_done w0 0 w \<and> e = not_found p \<and> d_names (disk w0) (resolve w0 p) = None))"
  unfolding sys_open_read_def
proof (rule triple_syscall)
  fix w e assume r: "read_kept w0 None w" and e: "faults w (calls w) = Some e"
  from faulted_step [OF read_kept_frame [OF r] faulted_0 e] read_kept_step(1) [OF r]
  show "read_done w0 1 (w\<lparr>calls := Suc (calls w)\<rparr>) \<or>
      (read_done w0 0 (w\<lparr>calls := Suc (calls w)\<rparr>) \<and> e = not_found p \<and>
        d_names (disk w0) (resolve w0 p) = None)"
    by (simp add: read_done_def)
next
  fix w :: "'z os_scheme" and r w2
  define w1 where "w1 = w\<lparr>calls := Suc (calls w)\<rparr>"
  assume "read_kept w0 None w"
  then have r1: "read_kept w0 None w1" by (simp add: w1_def read_kept_step)
  then have d: "disk w1 = disk w0" and res: "resolve w1 p = resolve w0 p"
    using frame_resolve [of w0 w1] by (auto simp: read_kept_def)
  assume "(case d_names (disk (w\<lparr>calls := Suc (calls w)\<rparr>)) (resolve (w\<lparr>calls := Suc (calls w)\<rparr>) p) of
      None \<Rightarrow> (Inl (not_found p), w\<lparr>calls := Suc (calls w)\<rparr>)
    | Some i \<Rightarrow> alloc_fd (FileFd i) (w\<lparr>calls := Suc (calls w)\<rparr>)) = (r, w2)"
  then have b: "(case d_names (disk w0) (resolve w0 p) of None \<Rightarrow> (Inl (not_found p), w1)
      | Some i \<Rightarrow> alloc_fd (FileFd i) w1) = (r, w2)"
    unfolding w1_def [symmetric] by (simp add: d res)
  let ?v = "w2\<lparr>disk_trace := disk_trace w2 @ [disk w2]\<rparr>"
  show "case r of
      Inl e \<Rightarrow> read_done w0 1 ?v \<or>
        (read_done w0 0 ?v \<and> e = not_found p \<and> d_names (disk w0) (resolve w0 p) = None)
    | Inr fd \<Rightarrow> reading w0 (resolve w0 p) 0 fd ?v"
  proof (cases "d_names (disk w0) (resolve w0 p)")
    case None
    with b read_kept_step(2) [OF r1] show ?thesis by (auto simp: read_done_def)
  next
    case (Some i)
    with r1 d have "i < inode_next w1" by (auto simp: read_kept_def wf_os_def)
    from read_kept_step(2) [OF read_kept_open [OF r1 this]] Some b show ?thesis
      by (auto simp: alloc_fd_def reading_def)
  qed
qed

lemma read_triple:
  fixes w0 :: "'z os_scheme"
  shows "triple (reading w0 k n fd) (sys_read fd)
    (\<lambda>x w. reading w0 k n fd w \<and> visible (disk w0) k = Some x) (\<lambda>_. reading w0 k (Suc n) fd)"
  unfolding sys_read_def
proof (rule triple_syscall)
  fix w e assume r: "reading w0 k n fd w" and e: "faults w (calls w) = Some e"
  then have "read_kept w0 (Some fd) w" "faulted w0 n w" by (simp_all add: reading_def)
  from faulted_step [OF read_kept_frame [OF this(1)] this(2) e] read_kept_step(1) [OF this(1)] r
  show "reading w0 k (Suc n) fd (w\<lparr>calls := Suc (calls w)\<rparr>)" by (simp add: reading_def)
next
  fix w :: "'z os_scheme" and r w2
  assume r: "reading w0 k n fd w"
    and b: "on_inode fd (\<lambda>i w. (Inr (i_data (d_inodes (disk w) i)), w)) (w\<lparr>calls := Suc (calls w)\<rparr>) = (r, w2)"
  let ?w1 = "w\<lparr>calls := Suc (calls w)\<rparr>"
  from r obtain i where i: "d_names (disk w0) k = Some i" "fds w fd = Some (FileFd i)"
    and rk: "read_kept w0 (Some fd) w" and f: "faulted w0 n w"
    by (auto simp: reading_def)
  then have "r = Inr (i_data (d_inodes (disk w) i))" "w2 = ?w1" using b by (auto simp: on_inode_def)
  moreover have "visible (disk w0) k = Some (i_data (d_inodes (disk w) i))"
    using i rk by (simp add: visible_def read_kept_def)
  moreover have "reading w0 k n fd (?w1\<lparr>disk_trace := disk_trace ?w1 @ [disk ?w1]\<rparr>)"
    unfolding reading_def
  proof (intro conjI)
    show "read_kept w0 (Some fd) (?w1\<lparr>disk_trace := disk_trace ?w1 @ [disk ?w1]\<rparr>)"
      by (intro read_kept_step rk)
    show "faulted w0 n (?w1\<lparr>disk_trace := disk_trace ?w1 @ [disk ?w1]\<rparr>)"
      by (rule faulted_mono [OF read_kept_frame [OF rk] f]) simp
  qed (use i in simp)
  ultimately show "case r of
      Inl e \<Rightarrow> reading w0 k (Suc n) fd (w2\<lparr>disk_trace := disk_trace w2 @ [disk w2]\<rparr>)
    | Inr x \<Rightarrow> reading w0 k n fd (w2\<lparr>disk_trace := disk_trace w2 @ [disk w2]\<rparr>) \<and>
        visible (disk w0) k = Some x"
    by simp
qed

lemma close_read_triple:
  assumes wf: "wf_os w0"
  shows "triple (reading w0 k n fd) (sys_close fd) (\<lambda>_. read_done w0 n) (\<lambda>_. read_done w0 (Suc n))"
proof (rule triple_upd)
  fix w assume r: "reading w0 k n fd w"
  with read_kept_close [OF wf] show "sys_close fd w = syscall (\<lambda>w. (Inr (), w)) (release_fd fd w) \<and>
      read_done w0 n (release_fd fd w)"
    by (auto simp: reading_def sys_close_def read_done_def faulted_def nfaults_def)
next
  show "triple (read_done w0 n) (syscall (\<lambda>w. (Inr (), w))) (\<lambda>_. read_done w0 n) (\<lambda>_. read_done w0 (Suc n))"
  proof (rule triple_syscall)
    fix w e assume r: "read_done w0 n w" and e: "faults w (calls w) = Some e"
    then have "read_kept w0 None w" "faulted w0 n w" by (simp_all add: read_done_def)
    from faulted_step [OF read_kept_frame [OF this(1)] this(2) e] read_kept_step(1) [OF this(1)]
    show "read_done w0 (Suc n) (w\<lparr>calls := Suc (calls w)\<rparr>)" by (simp add: read_done_def)
  next
    fix w r w2 assume r: "read_done w0 n w" and b: "(Inr (), w\<lparr>calls := Suc (calls w)\<rparr>) = (r, w2)"
    let ?w1 = "w\<lparr>calls := Suc (calls w)\<rparr>"
    from r have k: "read_kept w0 None w" and f: "faulted w0 n w" by (simp_all add: read_done_def)
    have "faulted w0 n (?w1\<lparr>disk_trace := disk_trace ?w1 @ [disk ?w1]\<rparr>)"
      by (rule faulted_mono [OF read_kept_frame [OF k] f]) simp
    with read_kept_step(2) [OF read_kept_step(1) [OF k]] b
    show "case r of Inl e \<Rightarrow> read_done w0 (Suc n) (w2\<lparr>disk_trace := disk_trace w2 @ [disk w2]\<rparr>)
      | Inr u \<Rightarrow> read_done w0 n (w2\<lparr>disk_trace := disk_trace w2 @ [disk w2]\<rparr>)"
      by (auto simp: read_done_def)
  qed
qed

lemma storage_read_triple:
  assumes wf: "wf_os w0"
  shows "triple (\<lambda>w. w = w0) (storage_read p)
    (\<lambda>x w. read_done w0 0 w \<and> visible (disk w0) (resolve w0 p) = Some x)
    (\<lambda>e w. read_done w0 1 w \<or>
      (read_done w0 0 w \<and> e = not_found p \<and> d_names (disk w0) (resolve w0 p) = None))"
  unfolding storage_read_def
proof (rule triple_bind [OF triple_pre [OF open_read_triple]])
  fix w assume "w = w0"
  then show "read_kept w0 None w" using read_kept_start [OF wf] by simp
next
  fix fd
  let ?E = "\<lambda>e w. read_done w0 1 w \<or>
      (read_done w0 0 w \<and> e = not_found p \<and> d_names (disk w0) (resolve w0 p) = None)"
  show "triple (reading w0 (resolve w0 p) 0 fd) (with_finally (sys_read fd) (sys_close fd))
    (\<lambda>x w. read_done w0 0 w \<and> visible (disk w0) (resolve w0 p) = Some x) ?E"
  proof (rule triple_finally [OF read_triple])
    fix x
    have "triple (\<lambda>w. visible (disk w0) (resolve w0 p) = Some x \<and> reading w0 (resolve w0 p) 0 fd w)
      (sys_close fd) (\<lambda>_ w. read_done w0 0 w \<and> visible (disk w0) (resolve w0 p) = Some x) ?E"
      by (rule triple_fact, rule triple_post [OF close_read_triple [OF wf]]) simp_all
    then show "triple (\<lambda>w. reading w0 (resolve w0 p) 0 fd w \<and> visible (disk w0) (resolve w0 p) = Some x)
      (sys_close fd) (\<lambda>_ w. read_done w0 0 w \<and> visible (disk w0) (resolve w0 p) = Some x) ?E"
      by (rule triple_pre) simp
  next
    fix e
    show "triple (reading w0 (resolve w0 p) (Suc 0) fd) (sys_close fd) (\<lambda>_. ?E e) ?E"
      by (rule triple_post [OF close_read_triple [OF wf]]) (auto simp: read_done_def faulted_def)
  qed
qed

section \<open>The contract of the store\<close>

text \<open>
  What the repository relies on: reading returns the content, and writing either replaces it or,
  when it raises, leaves the old content or the new one. The lemma of the contract is about any
  sequence of writes of which any may fail.
\<close>

locale atomic_store =
  fixes load :: "('w, 'c) prog"
    and store :: "'c \<Rightarrow> ('w, unit) prog"
    and content :: "'w \<Rightarrow> 'c option"
    and ready :: "'w \<Rightarrow> bool"
  assumes store_ok: "ready w \<Longrightarrow> store x w = Some (Inr u, w') \<Longrightarrow> content w' = Some x \<and> ready w'"
    and store_raises: "ready w \<Longrightarrow> store x w = Some (Inl e, w') \<Longrightarrow>
      (content w' = content w \<or> content w' = Some x) \<and> ready w'"
    and store_returns: "ready w \<Longrightarrow> store x w \<noteq> None"
    and load_ok: "ready w \<Longrightarrow> load w = Some (Inr x, w') \<Longrightarrow>
      content w = Some x \<and> content w' = content w \<and> ready w'"
begin

text \<open>Write the values in order, going on after a failure; collect the values that were accepted.\<close>

fun store_all :: "'c list \<Rightarrow> 'w \<Rightarrow> 'w option" where
  "store_all [] w = Some w"
| "store_all (x # xs) w = (case store x w of None \<Rightarrow> None | Some (r, w') \<Rightarrow> store_all xs w')"

lemma store_all_content:
  "ready w \<Longrightarrow> \<exists>w'. store_all xs w = Some w' \<and> ready w' \<and>
     (content w' = content w \<or> (\<exists>x \<in> set xs. content w' = Some x))"
proof (induction xs arbitrary: w)
  case (Cons x xs)
  obtain r w1 where s: "store x w = Some (r, w1)" using store_returns [OF Cons.prems] by fastforce
  have "ready w1 \<and> (content w1 = content w \<or> content w1 = Some x)"
  proof (cases r)
    case (Inl e)
    with s store_raises [OF Cons.prems] show ?thesis by auto
  next
    case (Inr u)
    with s store_ok [OF Cons.prems] show ?thesis by auto
  qed
  with Cons.IH [of w1] s show ?case by fastforce
qed simp

lemma store_then_load:
  "ready w \<Longrightarrow> store x w = Some (Inr u, w1) \<Longrightarrow> load w1 = Some (Inr y, w2) \<Longrightarrow> y = x"
  using store_ok load_ok by (metis option.inject)

end

definition file_content :: "pystr \<Rightarrow> 'z os_scheme \<Rightarrow> bytes option" where
  "file_content path w = visible (disk w) (resolve w path)"

definition store_ready :: "pystr \<Rightarrow> 'z os_scheme \<Rightarrow> bool" where
  "store_ready path w \<longleftrightarrow> wf_os w \<and> tmp_clear w path"

lemma store_ready_frame: "store_ready path w0 \<Longrightarrow> frame w0 w \<Longrightarrow> wf_os w \<Longrightarrow> store_ready path w"
  using frame_resolve [of w0 w] by (simp add: store_ready_def tmp_clear_def frame_def)

lemma write_atomic_content:
  assumes "store_ready path w" and "write_atomic path data w = Some (r, w')"
  shows "frame w w' \<and> wf_os w' \<and> store_ready path w' \<and>
    (case r of
       Inr u \<Rightarrow> file_content path w' = Some data
     | Inl e \<Rightarrow> file_content path w' = file_content path w \<or> file_content path w' = Some data)"
proof -
  from assms(1) have "wf_os w" "tmp_clear w path" by (simp_all add: store_ready_def)
  then show ?thesis
  proof (cases rule: write_atomic_runs [where data = data])
    case (normal w'')
    from write_outcome_sound(1) [OF normal(2)] have "frame w w''" "wf_os w''"
      by (simp_all add: sound_def)
    with store_ready_frame [OF assms(1)] normal assms(2) frame_resolve [of w w'']
    show ?thesis by (auto simp: renamed_def new_visible file_content_def)
  next
    case (raised e w'')
    from write_outcome_sound(2) [OF raised(2)] have "frame w w''" "wf_os w''"
      by (simp_all add: sound_def)
    with store_ready_frame [OF assms(1)] raised assms(2) frame_resolve [of w w'']
      disk_ok_visible [OF \<open>wf_os w\<close> write_outcome_disk_ok(2) [OF raised(2)]]
    show ?thesis by (auto simp: file_content_def)
  qed
qed

lemma write_atomic_returns: "store_ready path w \<Longrightarrow> write_atomic path data w \<noteq> None"
  using write_atomic_runs [of w path data] by (fastforce simp: store_ready_def)

lemma storage_read_content:
  assumes "store_ready path w" and "storage_read path w = Some (r, w')"
  shows "frame w w' \<and> wf_os w' \<and> store_ready path w' \<and> disk w' = disk w \<and>
    (\<forall>x. r = Inr x \<longrightarrow> file_content path w = Some x)"
proof -
  from assms(1) have "wf_os w" by (simp add: store_ready_def)
  from storage_read_triple [OF this, of path] refl [of w]
  have "frame w w' \<and> wf_os w' \<and> disk w' = disk w \<and> (\<forall>x. r = Inr x \<longrightarrow> file_content path w = Some x)"
    by (cases rule: tripleD) (use assms(2) in \<open>auto simp: read_done_def read_kept_def file_content_def\<close>)
  with store_ready_frame [OF assms(1)] show ?thesis by auto
qed

section \<open>Histories a power loss may cut\<close>

text \<open>Whenever the power fails between two states, the name is found as a power loss could have left it
  before, or with a content that is good. Nothing else can be found, not even half a file.\<close>

definition endures :: "pystr \<Rightarrow> (bytes \<Rightarrow> bool) \<Rightarrow> 'z os_scheme \<Rightarrow> 'z os_scheme \<Rightarrow> bool" where
  "endures path good w w' \<longleftrightarrow>
     cwd w' = cwd w \<and>
     (\<exists>ds. disk_trace w' = disk_trace w @ ds \<and>
        (\<forall>d \<in> set (disk w' # ds). \<forall>x. may_survive d (resolve w path) x \<longrightarrow>
           may_survive (disk w) (resolve w path) x \<or> (\<exists>b. x = Some b \<and> good b)))"

lemma endures_refl: "endures path good w w"
  by (simp add: endures_def)

lemma endures_trans:
  assumes "endures path good w w1" and "endures path good w1 w2"
  shows "endures path good w w2"
proof -
  let ?k = "resolve w path" and ?g = "\<lambda>x. \<exists>b. x = Some b \<and> good b"
  from assms(1) have c: "resolve w1 path = ?k" "cwd w1 = cwd w" by (simp_all add: endures_def resolve_def)
  from assms obtain ds es where t: "disk_trace w1 = disk_trace w @ ds" "disk_trace w2 = disk_trace w1 @ es"
    and d: "\<forall>d \<in> set (disk w1 # ds). \<forall>x. may_survive d ?k x \<longrightarrow> may_survive (disk w) ?k x \<or> ?g x"
    and e: "\<forall>d \<in> set (disk w2 # es). \<forall>x. may_survive d ?k x \<longrightarrow> may_survive (disk w1) ?k x \<or> ?g x"
    unfolding endures_def c by blast
  from t have "disk_trace w2 = disk_trace w @ (ds @ es)" by simp
  moreover have "\<forall>d' \<in> set (disk w2 # ds @ es). \<forall>x. may_survive d' ?k x \<longrightarrow> may_survive (disk w) ?k x \<or> ?g x"
  proof (intro ballI allI impI)
    fix d' x assume d': "d' \<in> set (disk w2 # ds @ es)" and x: "may_survive d' ?k x"
    show "may_survive (disk w) ?k x \<or> ?g x"
    proof (cases "d' \<in> set ds")
      case True
      with d x show ?thesis by simp
    next
      case False
      with d' have "d' \<in> set (disk w2 # es)" by auto
      with e x have "may_survive (disk w1) ?k x \<or> ?g x" by blast
      with d show ?thesis by auto
    qed
  qed
  ultimately show ?thesis using assms c(2) unfolding endures_def by auto
qed

lemma endures_mono: "endures path good w w' \<Longrightarrow> (\<And>b. good b \<Longrightarrow> fine b) \<Longrightarrow> endures path fine w w'"
  unfolding endures_def by blast

text \<open>A step that leaves the disk alone.\<close>

definition diskless :: "'z os_scheme \<Rightarrow> 'z os_scheme \<Rightarrow> bool" where
  "diskless w w' \<longleftrightarrow>
     cwd w' = cwd w \<and> disk w' = disk w \<and>
     (\<exists>ds. disk_trace w' = disk_trace w @ ds \<and> (\<forall>d \<in> set ds. d = disk w))"

lemma diskless_refl: "diskless w w"
  by (simp add: diskless_def)

lemma diskless_trans: "diskless w w1 \<Longrightarrow> diskless w1 w2 \<Longrightarrow> diskless w w2"
  by (force simp: diskless_def)

lemma diskless_endures: "diskless w w' \<Longrightarrow> endures path good w w'"
  by (force simp: diskless_def endures_def)

lemma diskless_start:
  assumes "diskless w w1" and "endures path good w1 w2"
  shows "endures path good w w2"
  using diskless_endures [OF assms(1)] assms(2) by (rule endures_trans)

text \<open>What was on the disk and is safe there is what is found, or something good.\<close>

lemma settled_survive: "settled w k \<Longrightarrow> may_survive (disk w) k x \<Longrightarrow> x = visible (disk w) k"
  by (auto simp: settled_def may_survive_def visible_def split: option.splits)

lemma disk_ok_endures:
  assumes wf: "wf_os w" and ok: "disk_ok w k data d" and x: "may_survive d k x"
  shows "may_survive (disk w) k x \<or> x = Some data"
proof -
  have inodes: "d_inodes d i = d_inodes (disk w) i" if "d_names (disk w) k = Some i \<or> d_durable (disk w) k = Some i" for i
    using that wf ok by (auto simp: disk_ok_def wf_os_def)
  show ?thesis
  proof (cases "old_at k (disk w) d")
    case True
    with x inodes show ?thesis
      by (cases "d_names (disk w) k"; cases "d_durable (disk w) k") (auto simp: may_survive_def old_at_def)
  next
    case False
    with ok obtain t where "d_names d k = Some t" "d_durable d k = d_durable (disk w) k \<or> d_durable d k = Some t"
      "d_inodes d t = \<lparr>i_data = data, i_mode = final_mode w, i_synced = True\<rparr>"
      by (auto simp: disk_ok_def new_at_def)
    with x inodes show ?thesis by (cases "d_durable (disk w) k") (auto simp: may_survive_def)
  qed
qed

lemma write_atomic_endures:
  assumes "store_ready path w" and "write_atomic path data w = Some (r, w')"
  shows "endures path (\<lambda>b. b = data) w w'"
proof -
  from assms(1) have wf: "wf_os w" "tmp_clear w path" by (simp_all add: store_ready_def)
  from write_atomic_history [OF wf, of data] assms(2) obtain ds where
    "disk_trace w' = disk_trace w @ ds" "\<forall>d \<in> set (disk w' # ds). disk_ok w (resolve w path) data d" by auto
  moreover have "cwd w' = cwd w" using write_atomic_content [OF assms] by (simp add: frame_def)
  ultimately show ?thesis using disk_ok_endures [OF wf(1)] unfolding endures_def by blast
qed

interpretation store: atomic_store
  "storage_read path" "write_atomic path" "file_content path" "store_ready path" for path
proof
  fix w :: "'z os_scheme" and x u w'
  assume "store_ready path w" and "write_atomic path x w = Some (Inr u, w')"
  from write_atomic_content [OF this] show "file_content path w' = Some x \<and> store_ready path w'" by simp
next
  fix w :: "'z os_scheme" and x e w'
  assume "store_ready path w" and "write_atomic path x w = Some (Inl e, w')"
  from write_atomic_content [OF this]
  show "(file_content path w' = file_content path w \<or> file_content path w' = Some x) \<and> store_ready path w'"
    by simp
next
  fix w :: "'z os_scheme" and x
  assume "store_ready path w"
  then show "write_atomic path x w \<noteq> None" by (rule write_atomic_returns)
next
  fix w :: "'z os_scheme" and x w'
  assume "store_ready path w" and "storage_read path w = Some (Inr x, w')"
  from storage_read_content [OF this] frame_resolve [of w w']
  show "file_content path w = Some x \<and> file_content path w' = file_content path w \<and> store_ready path w'"
    by (simp add: file_content_def)
qed

end
