(* ===== verification/Locking.thy ===== *)
theory Locking
  imports StorageProperties
begin

text \<open>
  \<open>src/securevault/locking.py\<close>: the exclusive advisory lock on the sidecar file. The object's two
  fields are the process fields \<open>lk_path\<close> and \<open>lk_fd\<close>; the lock itself is a property of the inode
  (\<open>flocks\<close>), shared by all processes.
\<close>

record proc = os +
  lk_path :: pystr
  lk_fd :: "nat option"

section \<open>The operations\<close>

definition lock_init :: "pystr \<Rightarrow> ('z proc_scheme, unit) prog" where
  "lock_init vault_path w =
     Some (Inr (), w\<lparr>lk_path := vault_path @ lit ''.lock'', lk_fd := None\<rparr>)"

definition set_lock_fd :: "nat option \<Rightarrow> ('z proc_scheme, unit) prog" where
  "set_lock_fd fd w = Some (Inr (), w\<lparr>lk_fd := fd\<rparr>)"

definition locked_error :: "pystr \<Rightarrow> exn" where
  "locked_error p = VaultLockedError (take (length p - 5) p @ lit '' is locked by another process'')"

definition lock_acquire :: "('z proc_scheme, unit) prog" where
  "lock_acquire w =
     (if \<not> has_fcntl w then Some (Inr (), w)
      else pbind (sys_open_create (lk_path w)) (\<lambda>fd.
           pbind (handle (sys_flock fd)
                    (\<lambda>e. if is_os_error e
                         then pbind (sys_close fd) (\<lambda>_. throw (locked_error (lk_path w)))
                         else throw e)) (\<lambda>_.
           set_lock_fd (Some fd))) w)"

definition lock_release :: "('z proc_scheme, unit) prog" where
  "lock_release w =
     (case lk_fd w of
        None \<Rightarrow> Some (Inr (), w)
      | Some fd \<Rightarrow>
          with_finally
            (if has_fcntl w then sys_funlock fd else ret ())
            (pbind (sys_close fd) (\<lambda>_. set_lock_fd None)) w)"

text \<open>\<open>with FileLock(...): body\<close>, once the object is built: \<open>__enter__\<close> acquires, \<open>__exit__\<close> releases however the body ends.\<close>

definition with_lock :: "('z proc_scheme, 'a) prog \<Rightarrow> ('z proc_scheme, 'a) prog" where
  "with_lock body = pbind lock_acquire (\<lambda>_. with_finally body lock_release)"

section \<open>What the operations do\<close>

text \<open>The lock file is not the vault, nor a name \<open>mkstemp\<close> would use.\<close>

definition lock_clear :: "'z os_scheme \<Rightarrow> pystr \<Rightarrow> bool" where
  "lock_clear w path \<longleftrightarrow> resolve w (path @ lit ''.lock'') \<noteq> resolve w path"

text \<open>Process \<open>fd\<close> holds the lock on the inode the name \<open>p\<close> is bound to.\<close>

definition holds :: "'z os_scheme \<Rightarrow> pystr \<Rightarrow> nat \<Rightarrow> bool" where
  "holds w p fd \<longleftrightarrow>
     (\<exists>i. d_names (disk w) (resolve w p) = Some i \<and> fds w fd = Some (FileFd i) \<and> flocks w i = Some fd)"

text \<open>Somebody holds it.\<close>

definition locked :: "'z os_scheme \<Rightarrow> pystr \<Rightarrow> bool" where
  "locked w p \<longleftrightarrow> (\<exists>i h. d_names (disk w) (resolve w p) = Some i \<and> flocks w i = Some h)"

lemma holds_locked: "holds w p fd \<Longrightarrow> locked w p"
  by (auto simp: holds_def locked_def)

text \<open>
  What the lock operations leave alone: everything but the lock file, the lock table, the
  descriptors and the fields of the lock object.
\<close>

definition lock_frame :: "'z proc_scheme \<Rightarrow> 'z proc_scheme \<Rightarrow> bool" where
  "lock_frame w0 w \<longleftrightarrow>
     tape w = tape w0 \<and> tpos w = tpos w0 \<and> heap w = heap w0 \<and> hnext w = hnext w0 \<and>
     proc.more w = proc.more w0 \<and> lk_path w = lk_path w0 \<and> cwd w = cwd w0 \<and>
     faults w = faults w0 \<and> clock w = clock w0 \<and> ticks w = ticks w0 \<and>
     tmp_names w = tmp_names w0 \<and> tmp_next w = tmp_next w0 \<and> tmp_mode w = tmp_mode w0 \<and>
     has_fchmod w = has_fchmod w0 \<and> has_fcntl w = has_fcntl w0 \<and> wbuf w = wbuf w0 \<and>
     inode_next w0 \<le> inode_next w \<and> fd_next w0 \<le> fd_next w \<and> calls w0 \<le> calls w \<and>
     d_durable (disk w) = d_durable (disk w0) \<and>
     (\<forall>i < inode_next w0. d_inodes (disk w) i = d_inodes (disk w0) i) \<and>
     (\<forall>n. n \<noteq> resolve w0 (lk_path w0) \<longrightarrow> d_names (disk w) n = d_names (disk w0) n) \<and>
     (\<forall>n i. d_names (disk w0) n = Some i \<longrightarrow> d_names (disk w) n = Some i)"

lemma lock_frame_refl [simp]: "lock_frame w w"
  by (simp add: lock_frame_def)

lemma lock_frame_resolve: "lock_frame w0 w \<Longrightarrow> resolve w p = resolve w0 p"
  by (simp add: lock_frame_def resolve_def)

lemma lock_frame_trans: "lock_frame w0 w1 \<Longrightarrow> lock_frame w1 w2 \<Longrightarrow> lock_frame w0 w2"
  using lock_frame_resolve [of w0 w1] by (simp add: lock_frame_def)

lemma lock_frame_content:
  assumes "lock_frame w0 w" and "wf_os w0" and "resolve w0 p \<noteq> resolve w0 (lk_path w0)"
  shows "file_content p w = file_content p w0"
proof -
  have "d_names (disk w) (resolve w0 p) = d_names (disk w0) (resolve w0 p)"
    using assms(1,3) by (simp add: lock_frame_def)
  moreover have "d_inodes (disk w) i = d_inodes (disk w0) i"
    if "d_names (disk w0) (resolve w0 p) = Some i" for i
    using that assms(1,2) by (simp add: lock_frame_def wf_os_def)
  ultimately show ?thesis
    by (cases "d_names (disk w0) (resolve w0 p)")
       (simp_all add: file_content_def visible_def lock_frame_resolve [OF assms(1)])
qed

lemma wf_flock_lt: "wf_os w \<Longrightarrow> flocks w i = Some h \<Longrightarrow> h < fd_next w"
  by (simp add: wf_os_def)

lemma wf_fd_lt: "wf_os w \<Longrightarrow> fds w f = Some d \<Longrightarrow> f < fd_next w"
  by (rule ccontr) (simp add: wf_os_def)

section \<open>Small steps\<close>

text \<open>An exception that comes from the oracle, not from the code.\<close>

definition injected :: "'z os_scheme \<Rightarrow> exn \<Rightarrow> bool" where
  "injected w e \<longleftrightarrow> (\<exists>c \<ge> calls w. faults w c = Some e)"

text \<open>The opened lock file, before the lock is asked for.\<close>

definition lock_opened :: "'z proc_scheme \<Rightarrow> nat \<Rightarrow> nat \<Rightarrow> 'z proc_scheme \<Rightarrow> bool" where
  "lock_opened w0 i fd w \<longleftrightarrow>
     lock_frame w0 w \<and> wf_os w \<and> flocks w = flocks w0 \<and> lk_fd w = lk_fd w0 \<and>
     d_names (disk w) (resolve w0 (lk_path w0)) = Some i \<and> fds w fd = Some (FileFd i) \<and>
     fd_next w0 \<le> fd \<and> (\<forall>f. f \<noteq> fd \<longrightarrow> fds w f = fds w0 f) \<and>
     (\<forall>n i. d_names (disk w0) n = None \<longrightarrow> d_names (disk w) n = Some i \<longrightarrow> inode_next w0 \<le> i)"

text \<open>No lock taken, no descriptor left.\<close>

definition lock_refused :: "'z proc_scheme \<Rightarrow> 'z proc_scheme \<Rightarrow> bool" where
  "lock_refused w0 w \<longleftrightarrow>
     lock_frame w0 w \<and> wf_os w \<and> flocks w = flocks w0 \<and> lk_fd w = lk_fd w0 \<and>
     (\<forall>f < fd_next w0. fds w f = fds w0 f) \<and>
     (\<forall>n i. d_names (disk w0) n = None \<longrightarrow> d_names (disk w) n = Some i \<longrightarrow> inode_next w0 \<le> i)"

lemma lock_frame_step [simp]:
  "lock_frame w0 w \<Longrightarrow> lock_frame w0 (w\<lparr>calls := Suc (calls w)\<rparr>)"
  "lock_frame w0 (w\<lparr>disk_trace := ds\<rparr>) = lock_frame w0 w"
  by (simp_all add: lock_frame_def)

lemma wf_os_step [simp]:
  "wf_os (w\<lparr>calls := n\<rparr>) = wf_os w" "wf_os (w\<lparr>disk_trace := ds\<rparr>) = wf_os w"
  by (simp_all add: wf_os_def)

lemma resolve_step [simp]:
  "resolve (w\<lparr>calls := n\<rparr>) p = resolve w p" "resolve (w\<lparr>disk_trace := ds\<rparr>) p = resolve w p"
  by (simp_all add: resolve_def)

lemma open_create_triple:
  fixes w0 :: "'z proc_scheme"
  assumes wf: "wf_os w0"
  shows "triple (\<lambda>w. w = w0) (sys_open_create (lk_path w0))
    (\<lambda>fd w. \<exists>i. lock_opened w0 i fd w \<and>
      (d_names (disk w0) (resolve w0 (lk_path w0)) \<noteq> None \<longrightarrow>
        d_names (disk w0) (resolve w0 (lk_path w0)) = Some i) \<and>
      (d_names (disk w0) (resolve w0 (lk_path w0)) = None \<longrightarrow> i = inode_next w0))
    (\<lambda>e w. lock_refused w0 w \<and> injected w0 e)"
  unfolding sys_open_create_def
proof (rule triple_syscall)
  fix w e assume "w = w0" "faults w (calls w) = Some e"
  then show "lock_refused w0 (w\<lparr>calls := Suc (calls w)\<rparr>) \<and> injected w0 e"
    using wf by (auto simp: lock_refused_def injected_def)
next
  fix w :: "'z proc_scheme" and r w2
  assume w: "w = w0"
    and b: "(case d_names (disk (w\<lparr>calls := Suc (calls w)\<rparr>)) (resolve (w\<lparr>calls := Suc (calls w)\<rparr>) (lk_path w0)) of
        None \<Rightarrow> alloc_fd (FileFd (inode_next (w\<lparr>calls := Suc (calls w)\<rparr>)))
            (create_inode (resolve (w\<lparr>calls := Suc (calls w)\<rparr>) (lk_path w0)) (w\<lparr>calls := Suc (calls w)\<rparr>))
      | Some i \<Rightarrow> alloc_fd (FileFd i) (w\<lparr>calls := Suc (calls w)\<rparr>)) = (r, w2)"
  show "case r of Inl e \<Rightarrow> lock_refused w0 (w2\<lparr>disk_trace := disk_trace w2 @ [disk w2]\<rparr>) \<and> injected w0 e
    | Inr fd \<Rightarrow> \<exists>i. lock_opened w0 i fd (w2\<lparr>disk_trace := disk_trace w2 @ [disk w2]\<rparr>) \<and>
      (d_names (disk w0) (resolve w0 (lk_path w0)) \<noteq> None \<longrightarrow>
        d_names (disk w0) (resolve w0 (lk_path w0)) = Some i) \<and>
      (d_names (disk w0) (resolve w0 (lk_path w0)) = None \<longrightarrow> i = inode_next w0)"
  proof (cases "d_names (disk w0) (resolve w0 (lk_path w0))")
    case None
    with b w have r: "r = Inr (fd_next w0)"
      and w2: "w2 = snd (alloc_fd (FileFd (inode_next w0)) (create_inode (resolve w0 (lk_path w0))
        (w0\<lparr>calls := Suc (calls w0)\<rparr>)))"
      by (auto simp: alloc_fd_def create_inode_def)
    have "wf_os w2" using wf unfolding w2
      by (auto simp: wf_os_def alloc_fd_def create_inode_def intro: less_SucI)
    moreover have "lock_frame w0 w2" using None unfolding w2
      by (auto simp: lock_frame_def alloc_fd_def create_inode_def)
    ultimately have "lock_opened w0 (inode_next w0) (fd_next w0) w2"
      unfolding lock_opened_def by (simp add: w2 alloc_fd_def create_inode_def)
    with r None show ?thesis by (simp add: lock_opened_def)
  next
    case (Some i)
    with b w have r: "r = Inr (fd_next w0)"
      and w2: "w2 = snd (alloc_fd (FileFd i) (w0\<lparr>calls := Suc (calls w0)\<rparr>))"
      by (auto simp: alloc_fd_def)
    have "i < inode_next w0" using wf Some by (simp add: wf_os_def)
    then have "wf_os w2" using wf unfolding w2 by (auto simp: wf_os_def alloc_fd_def intro: less_SucI)
    moreover have "lock_frame w0 w2" unfolding w2 by (simp add: lock_frame_def alloc_fd_def)
    ultimately have "lock_opened w0 i (fd_next w0) w2"
      unfolding lock_opened_def using Some by (simp add: w2 alloc_fd_def)
    with r Some show ?thesis by (simp add: lock_opened_def)
  qed
qed


lemma opened_injected:
  "lock_opened w0 i fd w \<Longrightarrow> faults w (calls w) = Some e \<Longrightarrow> injected w0 e"
  "lock_refused w0 w \<Longrightarrow> faults w (calls w) = Some e \<Longrightarrow> injected w0 e"
  by (auto simp: lock_opened_def lock_refused_def lock_frame_def injected_def)

lemma lock_opened_step [simp]:
  "lock_opened w0 i fd w \<Longrightarrow> lock_opened w0 i fd (w\<lparr>calls := Suc (calls w)\<rparr>)"
  "lock_opened w0 i fd w \<Longrightarrow> lock_opened w0 i fd (w\<lparr>disk_trace := ds\<rparr>)"
  "lock_refused w0 w \<Longrightarrow> lock_refused w0 (w\<lparr>calls := Suc (calls w)\<rparr>)"
  "lock_refused w0 w \<Longrightarrow> lock_refused w0 (w\<lparr>disk_trace := ds\<rparr>)"
  by (simp_all add: lock_opened_def lock_refused_def)

lemma lock_opened_refused: "lock_opened w0 i fd w \<Longrightarrow> lock_refused w0 w"
  by (simp add: lock_opened_def lock_refused_def)

text \<open>The lock taken: \<open>flock\<close> succeeded, which it does only on a free inode.\<close>

definition lock_got :: "'z proc_scheme \<Rightarrow> nat \<Rightarrow> nat \<Rightarrow> 'z proc_scheme \<Rightarrow> bool" where
  "lock_got w0 i fd w \<longleftrightarrow>
     lock_frame w0 w \<and> wf_os w \<and> flocks w0 i = None \<and> flocks w = (flocks w0)(i := Some fd) \<and>
     lk_fd w = lk_fd w0 \<and> d_names (disk w) (resolve w0 (lk_path w0)) = Some i \<and>
     fds w fd = Some (FileFd i) \<and> fd_next w0 \<le> fd \<and> (\<forall>f. f \<noteq> fd \<longrightarrow> fds w f = fds w0 f)"

lemma lock_got_step [simp]: "lock_got w0 i fd w \<Longrightarrow> lock_got w0 i fd (w\<lparr>disk_trace := ds\<rparr>)"
  by (simp add: lock_got_def)

lemma lock_opened_got:
  assumes o: "lock_opened w0 i fd w" and n: "flocks w i = None"
  shows "lock_got w0 i fd (w\<lparr>flocks := (flocks w)(i := Some fd)\<rparr>)"
proof -
  let ?w = "w\<lparr>flocks := (flocks w)(i := Some fd)\<rparr>"
  from o have f: "lock_frame w0 w" "wf_os w" "flocks w = flocks w0" "fds w fd = Some (FileFd i)"
    by (simp_all add: lock_opened_def)
  have "fd < fd_next w" using f(2,4) by (rule wf_fd_lt)
  with f(2) have "wf_os ?w" by (auto simp: wf_os_def)
  moreover from f(1) have "lock_frame w0 ?w" by (simp add: lock_frame_def)
  ultimately show ?thesis using o n by (simp add: lock_opened_def lock_got_def)
qed

lemma flock_triple:
  fixes w0 :: "'z proc_scheme"
  assumes wf: "wf_os w0"
  shows "triple (lock_opened w0 i fd) (sys_flock fd) (\<lambda>_. lock_got w0 i fd)
    (\<lambda>e w. lock_opened w0 i fd w \<and> (is_os_error e \<and> flocks w0 i \<noteq> None \<or> injected w0 e))"
  unfolding sys_flock_def
proof (rule triple_syscall)
  fix w e assume "lock_opened w0 i fd w" "faults w (calls w) = Some e"
  then show "lock_opened w0 i fd (w\<lparr>calls := Suc (calls w)\<rparr>) \<and>
      (is_os_error e \<and> flocks w0 i \<noteq> None \<or> injected w0 e)"
    by (simp add: opened_injected)
next
  fix w :: "'z proc_scheme" and r w2
  define w1 where "w1 = w\<lparr>calls := Suc (calls w)\<rparr>"
  assume "lock_opened w0 i fd w"
  then have o: "lock_opened w0 i fd w1" by (simp add: w1_def)
  then have fd: "fds w1 fd = Some (FileFd i)" and fl: "flocks w1 = flocks w0" and "fd_next w0 \<le> fd"
    by (simp_all add: lock_opened_def)
  then have ne: "flocks w1 i \<noteq> Some fd" using wf_flock_lt [OF wf, of i fd] by auto
  assume "on_inode fd (\<lambda>i w. case flocks w i of
       Some h \<Rightarrow> if h = fd then (Inr (), w) else (Inl (OSError EWOULDBLOCK), w)
     | None \<Rightarrow> (Inr (), w\<lparr>flocks := (flocks w)(i := Some fd)\<rparr>)) (w\<lparr>calls := Suc (calls w)\<rparr>) = (r, w2)"
  then have b: "(case flocks w1 i of Some h \<Rightarrow> if h = fd then (Inr (), w1) else (Inl (OSError EWOULDBLOCK), w1)
     | None \<Rightarrow> (Inr (), w1\<lparr>flocks := (flocks w1)(i := Some fd)\<rparr>)) = (r, w2)"
    unfolding w1_def [symmetric] on_inode_def fd by simp
  show "case r of Inl e \<Rightarrow> lock_opened w0 i fd (w2\<lparr>disk_trace := disk_trace w2 @ [disk w2]\<rparr>) \<and>
        (is_os_error e \<and> flocks w0 i \<noteq> None \<or> injected w0 e)
    | Inr u \<Rightarrow> lock_got w0 i fd (w2\<lparr>disk_trace := disk_trace w2 @ [disk w2]\<rparr>)"
  proof (cases "flocks w1 i")
    case None
    with b have "r = Inr ()" "w2 = w1\<lparr>flocks := (flocks w1)(i := Some fd)\<rparr>" by auto
    with lock_opened_got [OF o None] show ?thesis by (simp del: fun_upd_apply)
  next
    case (Some h)
    with ne have "h \<noteq> fd" by simp
    with b Some have "r = Inl (OSError EWOULDBLOCK)" "w2 = w1" by auto
    with o Some fl show ?thesis by simp
  qed
qed

lemma close_refused_triple:
  fixes w0 :: "'z proc_scheme"
  assumes wf: "wf_os w0"
  shows "triple (lock_opened w0 i fd) (sys_close fd) (\<lambda>_. lock_refused w0)
    (\<lambda>e w. lock_refused w0 w \<and> injected w0 e)"
proof (rule triple_upd)
  fix w assume o: "lock_opened w0 i fd w"
  then have fd: "fds w fd = Some (FileFd i)" by (simp add: lock_opened_def)
  from o have f: "lock_frame w0 w" "wf_os w" "flocks w = flocks w0" "fd_next w0 \<le> fd" "lk_fd w = lk_fd w0"
    by (simp_all add: lock_opened_def)
  have "flocks w0 j \<noteq> Some fd" for j using wf_flock_lt [OF wf, of j fd] f(4) by auto
  then have fl: "flocks (release_fd fd w) = flocks w0"
    using f(3) by (auto simp: release_fd_def)
  have "wf_os (release_fd fd w)" using f(2) by (auto simp: wf_os_def release_fd_def)
  moreover have "lock_frame w0 (release_fd fd w)" using f(1) by (simp add: lock_frame_def release_fd_def)
  moreover have "lk_fd (release_fd fd w) = lk_fd w0" using f(5) by (simp add: release_fd_def)
  moreover have "\<forall>f < fd_next w0. fds (release_fd fd w) f = fds w0 f"
    using o by (auto simp: lock_opened_def release_fd_def)
  ultimately have "lock_refused w0 (release_fd fd w)" using fl o
    by (simp add: lock_refused_def lock_opened_def release_fd_def)
  with fd show "sys_close fd w = syscall (\<lambda>w. (Inr (), w)) (release_fd fd w) \<and> lock_refused w0 (release_fd fd w)"
    by (simp add: sys_close_def)
next
  show "triple (lock_refused w0) (syscall (\<lambda>w. (Inr (), w))) (\<lambda>_. lock_refused w0)
    (\<lambda>e w. lock_refused w0 w \<and> injected w0 e)"
    by (rule triple_syscall) (auto simp: opened_injected)
qed

section \<open>Acquiring\<close>

definition lock_taken :: "'z proc_scheme \<Rightarrow> 'z proc_scheme \<Rightarrow> bool" where
  "lock_taken w0 w \<longleftrightarrow>
     (\<exists>i fd w1. lock_got w0 i fd w1 \<and> w = w1\<lparr>lk_fd := Some fd\<rparr> \<and>
       (\<forall>j. d_names (disk w0) (resolve w0 (lk_path w0)) = Some j \<longrightarrow> j = i))"

text \<open>The inode that is, or will be, the lock file is locked already.\<close>

definition contended :: "'z proc_scheme \<Rightarrow> bool" where
  "contended w0 \<longleftrightarrow>
     (\<exists>i. (\<forall>j. d_names (disk w0) (resolve w0 (lk_path w0)) = Some j \<longrightarrow> j = i) \<and>
       (d_names (disk w0) (resolve w0 (lk_path w0)) = None \<longrightarrow> i = inode_next w0) \<and> flocks w0 i \<noteq> None)"

lemma lock_acquire_triple:
  fixes w0 :: "'z proc_scheme"
  assumes wf: "wf_os w0" and fc: "has_fcntl w0"
  shows "triple (\<lambda>w. w = w0) lock_acquire (\<lambda>_. lock_taken w0)
    (\<lambda>e w. lock_refused w0 w \<and> (e = locked_error (lk_path w0) \<or> injected w0 e) \<and>
       (contended w0 \<or> (\<exists>x. injected w0 x)))"
    (is "triple _ _ _ ?E")
proof -
  let ?old = "\<lambda>i. (\<forall>j. d_names (disk w0) (resolve w0 (lk_path w0)) = Some j \<longrightarrow> j = i) \<and>
      (d_names (disk w0) (resolve w0 (lk_path w0)) = None \<longrightarrow> i = inode_next w0)"
  let ?F = "\<lambda>i e w. lock_refused w0 w \<and> (e = locked_error (lk_path w0) \<or> injected w0 e) \<and>
      (flocks w0 i \<noteq> None \<or> (\<exists>x. injected w0 x))"
  let ?h = "\<lambda>fd e. if is_os_error e
      then pbind (sys_close fd) (\<lambda>_. throw (locked_error (lk_path w0))) else throw e"
  have "triple (\<lambda>w. lock_opened w0 i fd w \<and> (is_os_error e \<and> flocks w0 i \<noteq> None \<or> injected w0 e)) (?h fd e)
      (\<lambda>_. lock_got w0 i fd) (?F i)" for i fd e
  proof (cases "is_os_error e")
    case True
    have "triple (\<lambda>w. (flocks w0 i \<noteq> None \<or> (\<exists>x. injected w0 x)) \<and> lock_opened w0 i fd w)
        (pbind (sys_close fd) (\<lambda>_. throw (locked_error (lk_path w0)))) (\<lambda>_. lock_got w0 i fd) (?F i)"
      by (rule triple_fact, rule triple_bind [where Q = "\<lambda>_. lock_refused w0"],
          rule triple_post [OF close_refused_triple [OF wf]]) (auto intro!: triple_throw)
    with True show ?thesis by (auto simp: triple_def)
  qed (auto intro!: triple_throw lock_opened_refused)
  from triple_handle [OF flock_triple [OF wf] this]
  have h: "triple (lock_opened w0 i fd) (handle (sys_flock fd) (?h fd)) (\<lambda>_. lock_got w0 i fd) (?F i)" for i fd .
  have "triple (\<lambda>w. \<exists>i. ?old i \<and> lock_opened w0 i fd w)
      (pbind (handle (sys_flock fd) (?h fd)) (\<lambda>_. set_lock_fd (Some fd))) (\<lambda>_. lock_taken w0) ?E" for fd
  proof (rule triple_ex, rule triple_fact)
    fix i assume i: "?old i"
    have "triple (lock_opened w0 i fd) (pbind (handle (sys_flock fd) (?h fd)) (\<lambda>_. set_lock_fd (Some fd)))
        (\<lambda>_. lock_taken w0) (?F i)"
      by (rule triple_bind [OF h]) (use i in \<open>auto simp: triple_def set_lock_fd_def lock_taken_def\<close>)
    then show "triple (lock_opened w0 i fd) (pbind (handle (sys_flock fd) (?h fd)) (\<lambda>_. set_lock_fd (Some fd)))
        (\<lambda>_. lock_taken w0) ?E"
      by (rule triple_post) (use i in \<open>auto simp: contended_def\<close>)
  qed
  note rest = this
  have "triple (\<lambda>w. w = w0) (pbind (sys_open_create (lk_path w0)) (\<lambda>fd.
      pbind (handle (sys_flock fd) (?h fd)) (\<lambda>_. set_lock_fd (Some fd)))) (\<lambda>_. lock_taken w0) ?E"
    by (rule triple_bind [OF _ rest], rule triple_post [OF open_create_triple [OF wf]]) auto
  with fc show ?thesis
    by (auto simp: triple_def lock_acquire_def)
qed

section \<open>Releasing\<close>

definition unlocked_by :: "nat \<Rightarrow> (nat \<Rightarrow> nat option) \<Rightarrow> nat \<Rightarrow> nat option" where
  "unlocked_by fd fl = (\<lambda>i. if fl i = Some fd then None else fl i)"

text \<open>Before the descriptor is closed, and after.\<close>

definition lock_closing :: "'z proc_scheme \<Rightarrow> nat \<Rightarrow> 'z proc_scheme \<Rightarrow> bool" where
  "lock_closing w0 fd w \<longleftrightarrow>
     lock_frame w0 w \<and> wf_os w \<and> disk w = disk w0 \<and> lk_fd w = lk_fd w0 \<and> fds w = fds w0 \<and>
     (\<forall>j. flocks w j = flocks w0 j \<or> (flocks w0 j = Some fd \<and> flocks w j = None))"

definition lock_freed :: "'z proc_scheme \<Rightarrow> nat \<Rightarrow> 'z proc_scheme \<Rightarrow> bool" where
  "lock_freed w0 fd w \<longleftrightarrow>
     lock_frame w0 w \<and> wf_os w \<and> disk w = disk w0 \<and> fds w = (fds w0)(fd := None) \<and>
     flocks w = unlocked_by fd (flocks w0)"

lemma lock_closing_step [simp]:
  "lock_closing w0 fd w \<Longrightarrow> lock_closing w0 fd (w\<lparr>calls := Suc (calls w)\<rparr>)"
  "lock_closing w0 fd w \<Longrightarrow> lock_closing w0 fd (w\<lparr>disk_trace := ds\<rparr>)"
  "lock_freed w0 fd w \<Longrightarrow> lock_freed w0 fd (w\<lparr>calls := Suc (calls w)\<rparr>)"
  "lock_freed w0 fd w \<Longrightarrow> lock_freed w0 fd (w\<lparr>disk_trace := ds\<rparr>)"
  by (simp_all add: lock_closing_def lock_freed_def)

lemma closing_injected:
  "lock_closing w0 fd w \<Longrightarrow> faults w (calls w) = Some e \<Longrightarrow> injected w0 e"
  "lock_freed w0 fd w \<Longrightarrow> faults w (calls w) = Some e \<Longrightarrow> injected w0 e"
  by (auto simp: lock_closing_def lock_freed_def lock_frame_def injected_def)

lemma lock_closing_unlock:
  assumes c: "lock_closing w0 fd w" and f: "flocks w i = Some fd"
  shows "lock_closing w0 fd (w\<lparr>flocks := (flocks w)(i := None)\<rparr>)"
proof -
  let ?w = "w\<lparr>flocks := (flocks w)(i := None)\<rparr>"
  from c have w: "wf_os w" "lock_frame w0 w"
    and fl: "\<forall>j. flocks w j = flocks w0 j \<or> (flocks w0 j = Some fd \<and> flocks w j = None)"
    by (simp_all add: lock_closing_def)
  have "wf_os ?w" using w(1) by (auto simp: wf_os_def)
  moreover have "lock_frame w0 ?w" using w(2) by (simp add: lock_frame_def)
  moreover have "flocks w0 i = Some fd" using fl [rule_format, of i] f by auto
  ultimately show ?thesis using c fl by (simp add: lock_closing_def)
qed

lemma funlock_triple:
  fixes w0 :: "'z proc_scheme"
  assumes "fds w0 fd = Some (FileFd i)"
  shows "triple (lock_closing w0 fd) (sys_funlock fd) (\<lambda>_. lock_closing w0 fd)
    (\<lambda>e w. lock_closing w0 fd w \<and> injected w0 e)"
  unfolding sys_funlock_def
proof (rule triple_syscall)
  fix w e assume "lock_closing w0 fd w" "faults w (calls w) = Some e"
  then show "lock_closing w0 fd (w\<lparr>calls := Suc (calls w)\<rparr>) \<and> injected w0 e"
    by (simp add: closing_injected)
next
  fix w :: "'z proc_scheme" and r w2
  define w1 where "w1 = w\<lparr>calls := Suc (calls w)\<rparr>"
  assume "lock_closing w0 fd w"
  then have c: "lock_closing w0 fd w1" by (simp add: w1_def)
  then have "fds w1 fd = Some (FileFd i)" using assms by (simp add: lock_closing_def)
  moreover assume "on_inode fd (\<lambda>i w. (Inr (),
      if flocks w i = Some fd then w\<lparr>flocks := (flocks w)(i := None)\<rparr> else w))
      (w\<lparr>calls := Suc (calls w)\<rparr>) = (r, w2)"
  ultimately have "r = Inr ()"
    "w2 = (if flocks w1 i = Some fd then w1\<lparr>flocks := (flocks w1)(i := None)\<rparr> else w1)"
    unfolding w1_def [symmetric] on_inode_def by auto
  with c lock_closing_unlock [OF c, of i]
  show "case r of Inl e \<Rightarrow> lock_closing w0 fd (w2\<lparr>disk_trace := disk_trace w2 @ [disk w2]\<rparr>) \<and> injected w0 e
    | Inr u \<Rightarrow> lock_closing w0 fd (w2\<lparr>disk_trace := disk_trace w2 @ [disk w2]\<rparr>)"
    by (simp del: fun_upd_apply)
qed

lemma lock_closing_release:
  assumes c: "lock_closing w0 fd w"
  shows "lock_freed w0 fd (release_fd fd w) \<and> lk_fd (release_fd fd w) = lk_fd w0"
proof -
  from c have w: "wf_os w" "lock_frame w0 w" "disk w = disk w0" "lk_fd w = lk_fd w0" "fds w = fds w0"
    and fl: "\<forall>j. flocks w j = flocks w0 j \<or> (flocks w0 j = Some fd \<and> flocks w j = None)"
    by (simp_all add: lock_closing_def)
  have "wf_os (release_fd fd w)" using w(1) by (auto simp: wf_os_def release_fd_def)
  moreover have "lock_frame w0 (release_fd fd w)" using w(2) by (simp add: lock_frame_def release_fd_def)
  moreover have "flocks (release_fd fd w) = unlocked_by fd (flocks w0)"
  proof
    fix j show "flocks (release_fd fd w) j = unlocked_by fd (flocks w0) j"
      using fl [rule_format, of j] by (auto simp: release_fd_def unlocked_by_def)
  qed
  ultimately show ?thesis using w by (simp add: lock_freed_def) (simp add: release_fd_def)
qed

lemma wf_lk_fd: "wf_os (w\<lparr>lk_fd := x\<rparr>) = wf_os w"
  by (simp add: wf_os_def)

lemma frame_lk_fd: "lock_frame w0 (w\<lparr>lk_fd := x\<rparr>) = lock_frame w0 w"
  by (simp add: lock_frame_def)

lemma close_lock_triple:
  fixes w0 :: "'z proc_scheme"
  assumes "fds w0 fd = Some (FileFd i)"
  shows "triple (lock_closing w0 fd) (pbind (sys_close fd) (\<lambda>_. set_lock_fd None))
    (\<lambda>_ w. lock_freed w0 fd w \<and> lk_fd w = None)
    (\<lambda>e w. lock_freed w0 fd w \<and> lk_fd w = lk_fd w0 \<and> injected w0 e)"
proof (rule triple_bind [where Q = "\<lambda>_ w. lock_freed w0 fd w \<and> lk_fd w = lk_fd w0"])
  show "triple (lock_closing w0 fd) (sys_close fd) (\<lambda>_ w. lock_freed w0 fd w \<and> lk_fd w = lk_fd w0)
      (\<lambda>e w. lock_freed w0 fd w \<and> lk_fd w = lk_fd w0 \<and> injected w0 e)"
  proof (rule triple_upd)
    fix w assume c: "lock_closing w0 fd w"
    then have "fds w fd = Some (FileFd i)" using assms by (simp add: lock_closing_def)
    with lock_closing_release [OF c]
    show "sys_close fd w = syscall (\<lambda>w. (Inr (), w)) (release_fd fd w) \<and>
        lock_freed w0 fd (release_fd fd w) \<and> lk_fd (release_fd fd w) = lk_fd w0"
      by (simp add: sys_close_def)
  next
    show "triple (\<lambda>w. lock_freed w0 fd w \<and> lk_fd w = lk_fd w0) (syscall (\<lambda>w. (Inr (), w)))
      (\<lambda>_ w. lock_freed w0 fd w \<and> lk_fd w = lk_fd w0)
      (\<lambda>e w. lock_freed w0 fd w \<and> lk_fd w = lk_fd w0 \<and> injected w0 e)"
      by (rule triple_syscall) (auto simp: closing_injected)
  qed
next
  have "lock_freed w0 fd w \<Longrightarrow> lock_freed w0 fd (w\<lparr>lk_fd := None\<rparr>)" for w
    by (simp add: lock_freed_def wf_lk_fd frame_lk_fd)
  then show "triple (\<lambda>w. lock_freed w0 fd w \<and> lk_fd w = lk_fd w0) (set_lock_fd None)
    (\<lambda>_ w. lock_freed w0 fd w \<and> lk_fd w = None)
    (\<lambda>e w. lock_freed w0 fd w \<and> lk_fd w = lk_fd w0 \<and> injected w0 e)" for x :: unit
    by (simp add: triple_def set_lock_fd_def)
qed

lemma lock_release_triple:
  fixes w0 :: "'z proc_scheme"
  assumes wf: "wf_os w0" and h: "lk_fd w0 = Some fd" and fd: "fds w0 fd = Some (FileFd i)"
  shows "triple (\<lambda>w. w = w0) lock_release (\<lambda>_ w. lock_freed w0 fd w \<and> lk_fd w = None)
    (\<lambda>e w. lock_freed w0 fd w \<and> (lk_fd w = None \<or> lk_fd w = lk_fd w0) \<and> injected w0 e)"
    (is "triple _ _ ?Q ?E")
proof -
  have c: "lock_closing w0 fd w0" using wf by (simp add: lock_closing_def)
  have close: "triple (lock_closing w0 fd) (pbind (sys_close fd) (\<lambda>_. set_lock_fd None)) ?Q ?E"
    by (rule triple_post [OF close_lock_triple [OF fd]]) auto
  have "triple (lock_closing w0 fd) (if has_fcntl w0 then sys_funlock fd else ret ())
      (\<lambda>_. lock_closing w0 fd) (\<lambda>e w. lock_closing w0 fd w \<and> injected w0 e)"
    using funlock_triple [OF fd] by (auto intro: triple_ret)
  then have "triple (lock_closing w0 fd)
      (with_finally (if has_fcntl w0 then sys_funlock fd else ret ())
        (pbind (sys_close fd) (\<lambda>_. set_lock_fd None))) ?Q ?E"
  proof (rule triple_finally [OF _ close])
    fix e
    show "triple (\<lambda>w. lock_closing w0 fd w \<and> injected w0 e)
      (pbind (sys_close fd) (\<lambda>_. set_lock_fd None)) (\<lambda>_. ?E e) ?E"
    proof (cases "injected w0 e")
      case True
      then show ?thesis by (intro triple_conseq [OF close]) auto
    qed (simp add: triple_def)
  qed
  with c h show ?thesis by (auto simp: triple_def lock_release_def)
qed

end
