(* ===== verification/SampleSystem.thy ===== *)
theory SampleSystem
  imports StorageProperties
begin

text \<open>
  A concrete machine for the witnesses: one file \<open>/v\<close>, no open descriptor, no lock, and an oracle
  that fails the calls a witness asks for.
\<close>

definition sample_os :: os where
  "sample_os =
     \<lparr>tape = (\<lambda>i. of_nat i), tpos = 0, heap = (\<lambda>a. []), hnext = 0,
      disk = \<lparr>d_names = [lit ''/v'' \<mapsto> 0], d_durable = [lit ''/v'' \<mapsto> 0],
        d_inodes = (\<lambda>i. \<lparr>i_data = [1], i_mode = 384, i_synced = True\<rparr>)\<rparr>,
      disk_trace = [], inode_next = 1, fds = (\<lambda>f. None), fd_next = 0, wbuf = (\<lambda>f. []),
      flocks = (\<lambda>i. None), faults = (\<lambda>c. None), partial = (\<lambda>c. 0), calls = 0,
      tmp_names = (\<lambda>n. lit ''a''), tmp_next = 0, tmp_mode = 384, clock = (\<lambda>n. 1700000000 + n),
      ticks = 0, cwd = lit ''/'', has_fchmod = True, has_fcntl = True\<rparr>"

definition failing :: "nat \<Rightarrow> os" where
  "failing c = sample_os\<lparr>faults := (\<lambda>n. None)(c := Some (OSError 5))\<rparr>"

lemma sample_wf: "wf_os sample_os" "wf_os (failing c)"
  by (auto simp: wf_os_def sample_os_def failing_def)

lemma abspath_v: "abspath [47] [47, 118] = [47, 118]"
  by (simp add: abspath_def leading_def dotdot_def)

lemma dirname_v: "dirname [47, 118] = [47]"
  by (simp add: dirname_def)

lemma tmp_path_a: "tmp_path [47] (lit ''a'') = lit ''/.vault-a.tmp''"
  by (simp add: tmp_path_def path_join_def lit_def)

lemma abspath_tmp: "abspath [47] (lit ''/.vault-a.tmp'') = lit ''/.vault-a.tmp''"
  by (simp add: abspath_def leading_def lit_def dotdot_def)

lemma lit_v: "lit ''/v'' = [47, 118]" "lit ''/'' = [47]"
  by (simp_all add: lit_def)

lemma sample_resolve:
  "resolve sample_os (lit ''/v'') = lit ''/v''" "resolve (failing c) (lit ''/v'') = lit ''/v''"
  by (simp_all add: resolve_def sample_os_def failing_def lit_v abspath_v)

lemma sample_clear: "tmp_clear sample_os (lit ''/v'')" "tmp_clear (failing c) (lit ''/v'')"
  unfolding tmp_clear_def sample_resolve
  by (simp_all add: resolve_def sample_os_def failing_def lit_v abspath_v dirname_v tmp_path_a
      abspath_tmp, simp_all add: lit_def)

lemma sample_quiet: "quiet sample_os"
  by (simp add: quiet_def sample_os_def)

lemma sample_free: "tmp_free sample_os (lit ''/v'')"
  unfolding tmp_free_def sample_resolve
  by (simp add: resolve_def sample_os_def lit_v dirname_v tmp_path_a abspath_tmp, simp add: lit_def)

lemma sample_settled: "settled sample_os (lit ''/v'')"
  by (simp add: settled_def sample_os_def)

lemma sample_visible: "visible (disk sample_os) (lit ''/v'') = Some [1]"
  "visible (disk (failing c)) (lit ''/v'') = Some [1]"
  by (simp_all add: visible_def sample_os_def failing_def)

section \<open>Two failing runs\<close>

text \<open>
  The calls of \<open>write_atomic\<close> on the sample machine: the creation of the temporary file (0),
  \<open>fchmod\<close> (1), the write (2) and the flush (3) of its data, \<open>fsync\<close> (4), \<open>close\<close> (5), the rename (6),
  and the opening (7), syncing (8) and closing (9) of the directory.
\<close>

lemmas os_exec =
  pbind_def handle_def with_finally_def syscall_def Let_def alloc_fd_def create_inode_def on_inode_def
  set_inode_def release_fd_def push_def

lemmas storage_exec =
  target_dir_def next_tmp_name_def sys_open_excl_def
  fchmod_if_any_def sys_fchmod_def fill_file_def fh_write_def fh_flush_def fh_close_def sys_push_def
  sys_fsync_def sys_close_def sys_replace_def fsync_directory_def sys_open_dir_def remove_tmp_def
  sys_unlink_def not_found_def VAULT_FILE_MODE_def failing_def sample_os_def resolve_def

lemma mkstemp_first: "mkstemp d = mkstemp_loop (Suc 9999) d"
  by (simp add: mkstemp_def TMP_MAX_def)

lemma sample_paths:
  "path_join (lit ''/'') (lit ''.vault-'' @ lit ''a'' @ lit ''.tmp'') = lit ''/.vault-a.tmp''"
  "abspath (lit ''/'') (lit ''/.vault-a.tmp'') = lit ''/.vault-a.tmp''"
  "abspath (lit ''/'') (lit ''/v'') = lit ''/v''" "dirname (lit ''/v'') = lit ''/''"
  "lit ''/.vault-a.tmp'' \<noteq> lit ''/v''" "lit ''/v'' \<noteq> lit ''/.vault-a.tmp''"
  using abspath_tmp abspath_v dirname_v by (simp_all add: path_join_def lit_def)

text \<open>When \<open>fchmod\<close> fails, \<open>write_atomic\<close> removes the temporary file and keeps the old vault, but
  never closes the descriptor \<open>mkstemp\<close> returned: it stays open after the call has raised.\<close>

theorem fchmod_failure_leaks_descriptor:
  "\<exists>w'. write_atomic (lit ''/v'') [7] (failing 1) = Some (Inl (OSError 5), w') \<and>
     visible (disk w') (lit ''/v'') = Some [1] \<and>
     d_names (disk w') (lit ''/.vault-a.tmp'') = None \<and>
     fds (failing 1) 0 = None \<and> fds w' 0 = Some (FileFd 1)"
  unfolding write_atomic_def mkstemp_first mkstemp_loop.simps
  by (simp add: storage_exec os_exec sample_paths visible_def)

text \<open>When closing the directory fails after the rename, \<open>write_atomic\<close> raises although the new
  file is in place: an exception does not mean that the old vault is still there.\<close>

theorem raises_after_replace:
  "\<exists>w'. write_atomic (lit ''/v'') [7] (failing 9) = Some (Inl (OSError 5), w') \<and>
     visible (disk w') (lit ''/v'') = Some [7]"
  unfolding write_atomic_def mkstemp_first mkstemp_loop.simps
  by (simp add: storage_exec os_exec sample_paths visible_def)

section \<open>Witnesses of the storage properties\<close>

theorem write_atomic_old_or_new_witness:
  "\<exists>r w' ds. write_atomic (lit ''/v'') [7] (failing 3) = Some (r, w') \<and>
     disk_trace w' = disk_trace (failing 3) @ ds \<and>
     (\<forall>d \<in> set (disk w' # ds). visible d (lit ''/v'') \<in> {Some [1], Some [7]})"
  using write_atomic_old_or_new [OF sample_wf(2) sample_clear(2), of "[7]" 3]
  unfolding sample_resolve sample_visible .

theorem write_atomic_survives_power_loss_witness:
  "\<exists>r w' ds. write_atomic (lit ''/v'') [7] sample_os = Some (r, w') \<and>
     disk_trace w' = disk_trace sample_os @ ds \<and>
     (\<forall>d \<in> set (disk w' # ds). {c. may_survive d (lit ''/v'') c} \<subseteq> {Some [1], Some [7]})"
proof -
  have "settled sample_os (resolve sample_os (lit ''/v''))"
    using sample_settled by (simp add: sample_resolve)
  from write_atomic_survives_power_loss [OF sample_wf(1) sample_clear(1) this, of "[7]"]
  show ?thesis unfolding sample_resolve sample_visible by fastforce
qed

theorem write_atomic_succeeds_witness:
  "\<exists>w'. write_atomic (lit ''/v'') [7] sample_os = Some (Inr (), w') \<and>
     visible (disk w') (lit ''/v'') = Some [7]"
  using write_atomic_succeeds [OF sample_wf(1) sample_clear(1) sample_quiet sample_free, of "[7]"]
  unfolding sample_resolve .

theorem write_atomic_success_witness:
  "\<exists>u w' i. write_atomic (lit ''/v'') [7] sample_os = Some (Inr u, w') \<and>
     d_names (disk w') (lit ''/v'') = Some i \<and>
     d_inodes (disk w') i = \<lparr>i_data = [7], i_mode = 384, i_synced = True\<rparr>"
proof -
  obtain w' where w': "write_atomic (lit ''/v'') [7] sample_os = Some (Inr (), w')"
    using write_atomic_quiet [OF sample_wf(1) sample_clear(1) sample_quiet sample_free] by blast
  have "has_fchmod sample_os" by (simp add: sample_os_def)
  from write_atomic_success [OF sample_wf(1) sample_clear(1) this w'] w'
  show ?thesis unfolding sample_resolve by blast
qed

theorem write_atomic_failure_tidy_witness:
  "\<exists>w'. write_atomic (lit ''/v'') [7] (failing 1) = Some (Inl (OSError 5), w') \<and>
     d_names (disk w') (lit ''/.vault-a.tmp'') = None"
proof -
  have "\<exists>w'. write_atomic (lit ''/v'') [7] (failing 1) = Some (Inl (OSError 5), w') \<and>
      nfaults (failing 1) w' < 2"
    unfolding write_atomic_def mkstemp_first mkstemp_loop.simps
    by (simp add: storage_exec os_exec sample_paths nfaults_def)
  then obtain w' where w': "write_atomic (lit ''/v'') [7] (failing 1) = Some (Inl (OSError 5), w')"
    and n: "nfaults (failing 1) w' < 2" by blast
  from write_atomic_failure_tidy [OF sample_wf(2) sample_clear(2) w' n] sample_paths(5)
  have "d_names (disk w') (lit ''/.vault-a.tmp'') = d_names (disk (failing 1)) (lit ''/.vault-a.tmp'')"
    unfolding sample_resolve by blast
  with w' show ?thesis using sample_paths(5) by (simp add: failing_def sample_os_def)
qed

end
