(* ===== verification/LockProperties.thy ===== *)
theory LockProperties
  imports Locking SampleSystem
begin

text \<open>
  What the lock promises: at most one holder, the second process is told so, and releasing frees
  the lock whatever fails on the way. The contract is a locale (\<open>mutex\<close>); its lemmas are about any
  body run under the lock the way the repository runs it.
\<close>

section \<open>The outcomes of the two operations\<close>

lemma lock_acquire_outcome:
  fixes w0 :: "'z proc_scheme"
  assumes "wf_os w0" and "has_fcntl w0"
  obtains (normal) w where "lock_acquire w0 = Some (Inr (), w)" and "lock_taken w0 w"
  | (raised) e w where "lock_acquire w0 = Some (Inl e, w)" and "lock_refused w0 w"
      and "e = locked_error (lk_path w0) \<or> injected w0 e" and "contended w0 \<or> (\<exists>x. injected w0 x)"
proof -
  from lock_acquire_triple [OF assms] refl [of w0] show thesis
    by (cases rule: tripleD) (auto intro: normal raised)
qed

lemma lock_release_outcome:
  fixes w0 :: "'z proc_scheme"
  assumes "wf_os w0" and "lk_fd w0 = Some fd" and "fds w0 fd = Some (FileFd i)"
  obtains r w where "lock_release w0 = Some (r, w)" and "lock_freed w0 fd w"
    and "r = Inr () \<and> lk_fd w = None \<or> (\<exists>e. r = Inl e \<and> injected w0 e)"
proof -
  from lock_release_triple [OF assms] refl [of w0] show thesis
    by (cases rule: tripleD) (auto intro: that)
qed

lemma lock_taken_holds:
  assumes "lock_taken w0 w"
  shows "\<exists>fd. lk_fd w = Some fd \<and> holds w (lk_path w0) fd" and "\<not> locked w0 (lk_path w0)"
    and "lock_frame w0 w" and "wf_os w"
proof -
  from assms obtain i fd w1 where g: "lock_got w0 i fd w1" and w: "w = w1\<lparr>lk_fd := Some fd\<rparr>"
    and i: "\<forall>j. d_names (disk w0) (resolve w0 (lk_path w0)) = Some j \<longrightarrow> j = i"
    by (auto simp: lock_taken_def)
  then have f: "lock_frame w0 w" by (simp add: lock_got_def frame_lk_fd)
  from g w f show "\<exists>fd. lk_fd w = Some fd \<and> holds w (lk_path w0) fd"
    using lock_frame_resolve [OF f, of "lk_path w0"] by (auto simp: lock_got_def holds_def)
  from g i show "\<not> locked w0 (lk_path w0)" by (auto simp: lock_got_def locked_def)
  from f show "lock_frame w0 w" .
  from g w show "wf_os w" by (simp add: lock_got_def wf_lk_fd)
qed

text \<open>Locks are held by open descriptors of the inode.\<close>

definition lock_ok :: "'z os_scheme \<Rightarrow> bool" where
  "lock_ok w \<longleftrightarrow>
     wf_os w \<and> has_fcntl w \<and>
     (\<forall>i h. flocks w i = Some h \<longrightarrow> i < inode_next w \<and> fds w h = Some (FileFd i))"

lemma lock_ok_frame: "lock_ok w0 \<Longrightarrow> frame w0 w \<Longrightarrow> wf_os w \<Longrightarrow> lock_ok w"
  using wf_flock_lt [of w0] by (fastforce simp: lock_ok_def frame_def)

lemma locked_frame:
  "frame w0 w \<Longrightarrow> d_names (disk w) (resolve w0 p) = d_names (disk w0) (resolve w0 p) \<Longrightarrow>
     locked w p = locked w0 p"
  using frame_resolve [of w0 w p] by (simp add: locked_def frame_def)

lemma lock_ok_taken:
  assumes ok: "lock_ok w0" and t: "lock_taken w0 w"
  shows "lock_ok w"
proof -
  from t obtain i fd w1 where g: "lock_got w0 i fd w1" and w: "w = w1\<lparr>lk_fd := Some fd\<rparr>"
    by (auto simp: lock_taken_def)
  then have fl: "flocks w = (flocks w0)(i := Some fd)" "fds w fd = Some (FileFd i)"
      "fd_next w0 \<le> fd" "\<forall>f. f \<noteq> fd \<longrightarrow> fds w f = fds w0 f" "wf_os w" "lock_frame w0 w"
    by (simp_all add: lock_got_def wf_lk_fd frame_lk_fd)
  have old: "j < inode_next w \<and> fds w h = Some (FileFd j)" if "flocks w0 j = Some h" for j h
  proof -
    from ok have "wf_os w0" by (simp add: lock_ok_def)
    from wf_flock_lt [OF this that] fl(3,4) have "fds w h = fds w0 h" by simp
    moreover from that ok have "j < inode_next w0" "fds w0 h = Some (FileFd j)" by (auto simp: lock_ok_def)
    moreover have "inode_next w0 \<le> inode_next w" using fl(6) by (simp add: lock_frame_def)
    ultimately show ?thesis by simp
  qed
  have "i < inode_next w" using fl(2,5) by (auto simp: wf_os_def)
  with fl(1,2) old have "\<forall>j h. flocks w j = Some h \<longrightarrow> j < inode_next w \<and> fds w h = Some (FileFd j)"
    by simp
  moreover have "has_fcntl w" using ok fl(6) by (simp add: lock_ok_def lock_frame_def)
  ultimately show ?thesis using fl(5) by (simp add: lock_ok_def)
qed

lemma lock_ok_same_locks:
  assumes ok: "lock_ok w0" and f: "lock_frame w0 w" and wf: "wf_os w"
    and fl: "\<And>i h. flocks w i = Some h \<Longrightarrow> flocks w0 i = Some h \<and> fds w h = fds w0 h"
  shows "lock_ok w"
proof -
  have "i < inode_next w \<and> fds w h = Some (FileFd i)" if "flocks w i = Some h" for i h
  proof -
    from fl [OF that] ok have "i < inode_next w0" "fds w h = Some (FileFd i)" by (auto simp: lock_ok_def)
    moreover have "inode_next w0 \<le> inode_next w" using f by (simp add: lock_frame_def)
    ultimately show ?thesis by simp
  qed
  moreover have "has_fcntl w" using ok f by (simp add: lock_ok_def lock_frame_def)
  ultimately show ?thesis using wf by (simp add: lock_ok_def)
qed

lemma lock_ok_refused:
  assumes ok: "lock_ok w0" and r: "lock_refused w0 w"
  shows "lock_ok w"
proof (rule lock_ok_same_locks [OF ok])
  from ok have wf: "wf_os w0" by (simp add: lock_ok_def)
  show "lock_frame w0 w" "wf_os w" using r by (simp_all add: lock_refused_def)
  fix i h assume "flocks w i = Some h"
  with r have h: "flocks w0 i = Some h" by (simp add: lock_refused_def)
  from wf_flock_lt [OF wf this] r have "fds w h = fds w0 h" by (simp add: lock_refused_def)
  with h show "flocks w0 i = Some h \<and> fds w h = fds w0 h" by simp
qed

lemma lock_ok_freed:
  assumes ok: "lock_ok w0" and r: "lock_freed w0 fd w"
  shows "lock_ok w"
proof (rule lock_ok_same_locks [OF ok])
  show "lock_frame w0 w" "wf_os w" using r by (simp_all add: lock_freed_def)
  fix i h assume "flocks w i = Some h"
  with r show "flocks w0 i = Some h \<and> fds w h = fds w0 h"
    by (auto simp: lock_freed_def unlocked_by_def split: if_splits)
qed

text \<open>Nobody's lock state changes when a lock is refused, and no other one's when it is freed.\<close>

lemma lock_refused_locked:
  assumes ok: "lock_ok w0" and r: "lock_refused w0 w"
  shows "locked w p = locked w0 p"
proof -
  from r have f: "lock_frame w0 w" and fl: "flocks w = flocks w0" by (simp_all add: lock_refused_def)
  note res = lock_frame_resolve [OF f, of p]
  let ?n = "resolve w0 p"
  show ?thesis
  proof (cases "d_names (disk w0) ?n")
    case (Some i)
    with f have "d_names (disk w) ?n = Some i" by (simp add: lock_frame_def)
    with Some fl res show ?thesis by (simp add: locked_def)
  next
    case None
    have "flocks w0 i = None" if "d_names (disk w) ?n = Some i" for i
    proof (rule ccontr)
      assume "flocks w0 i \<noteq> None"
      with ok have "i < inode_next w0" by (auto simp: lock_ok_def)
      moreover from r that None have "inode_next w0 \<le> i" by (simp add: lock_refused_def)
      ultimately show False by simp
    qed
    with None fl res show ?thesis by (auto simp: locked_def)
  qed
qed

lemma contended_locked: "lock_ok w \<Longrightarrow> contended w \<Longrightarrow> locked w (lk_path w)"
proof -
  assume ok: "lock_ok w" and "contended w"
  then obtain i h where i: "\<forall>j. d_names (disk w) (resolve w (lk_path w)) = Some j \<longrightarrow> j = i"
    "d_names (disk w) (resolve w (lk_path w)) = None \<longrightarrow> i = inode_next w" "flocks w i = Some h"
    by (auto simp: contended_def)
  from ok i(3) have "i < inode_next w" by (auto simp: lock_ok_def)
  with i(2) obtain j where "d_names (disk w) (resolve w (lk_path w)) = Some j" by auto
  with i(1,3) show ?thesis by (auto simp: locked_def)
qed

section \<open>The contract of a lock\<close>

text \<open>
  \<open>guarded\<close> is how the repository uses the lock: acquire it, run the body, and release it if the
  body raises.
\<close>

definition guarded :: "('w, unit) prog \<Rightarrow> ('w, unit) prog \<Rightarrow> ('w, 'a) prog \<Rightarrow> ('w, 'a) prog" where
  "guarded acquire release body =
     pbind acquire (\<lambda>_. handle body (\<lambda>e. pbind release (\<lambda>_. throw e)))"

locale mutex =
  fixes acquire release :: "('w, unit) prog"
    and free mine ok :: "'w \<Rightarrow> bool"
  assumes acquire_returns: "ok w \<Longrightarrow> acquire w \<noteq> None"
    and acquired: "ok w \<Longrightarrow> acquire w = Some (Inr u, w') \<Longrightarrow> free w \<and> mine w' \<and> ok w'"
    and refused: "ok w \<Longrightarrow> acquire w = Some (Inl e, w') \<Longrightarrow> free w' = free w \<and> ok w'"
    and released: "ok w \<Longrightarrow> mine w \<Longrightarrow> \<exists>r w'. release w = Some (r, w') \<and> free w' \<and> ok w'"
begin

lemma held_is_refused: "ok w \<Longrightarrow> \<not> free w \<Longrightarrow> \<exists>e w'. acquire w = Some (Inl e, w') \<and> \<not> free w' \<and> ok w'"
proof -
  assume ok: "ok w" and nf: "\<not> free w"
  obtain r w' where a: "acquire w = Some (r, w')" using acquire_returns [OF ok] by auto
  with acquired [OF ok] refused [OF ok] nf show ?thesis by (cases r) auto
qed

lemma guarded_outcome:
  assumes ok: "ok w" and g: "guarded acquire release body w = Some (r, w')"
    and body: "\<And>w1. acquire w = Some (Inr (), w1) \<Longrightarrow> \<exists>x w2. body w1 = Some (x, w2) \<and> ok w2 \<and> mine w2"
  shows "ok w' \<and> (case r of Inr x \<Rightarrow> free w \<and> mine w' | Inl e \<Rightarrow> free w' = free w)"
proof -
  obtain a w1 where a: "acquire w = Some (a, w1)" using acquire_returns [OF ok] by auto
  show ?thesis
  proof (cases a)
    case (Inl e)
    with a g refused [OF ok, of e w1] show ?thesis by (auto simp: guarded_def pbind_def)
  next
    case (Inr u)
    with a acquired [OF ok, of u w1] have f: "free w" by simp
    from Inr a body obtain x w2 where b: "body w1 = Some (x, w2)" and m: "ok w2" "mine w2" by auto
    from released [OF m] obtain y w3 where l: "release w2 = Some (y, w3)" "free w3" "ok w3" by auto
    show ?thesis
    proof (cases x)
      case (Inl e)
      with a g b l f \<open>a = Inr u\<close> show ?thesis
        by (cases y) (auto simp: guarded_def pbind_def handle_def)
    next
      case (Inr v)
      with a g b m f \<open>a = Inr u\<close> show ?thesis by (auto simp: guarded_def pbind_def handle_def)
    qed
  qed
qed

text \<open>A \<open>with\<close> block: however it ends, the lock is as free afterwards as it was.\<close>

lemma block_outcome:
  assumes ok: "ok w" and g: "pbind acquire (\<lambda>_. with_finally body release) w = Some (r, w')"
    and body: "\<And>w1. acquire w = Some (Inr (), w1) \<Longrightarrow> \<exists>x w2. body w1 = Some (x, w2) \<and> ok w2 \<and> mine w2"
  shows "ok w' \<and> free w' = free w \<and> (\<not> free w \<longrightarrow> (\<exists>e. r = Inl e \<and> acquire w = Some (Inl e, w')))"
proof -
  obtain a w1 where a: "acquire w = Some (a, w1)" using acquire_returns [OF ok] by auto
  show ?thesis
  proof (cases a)
    case (Inl e)
    with a g refused [OF ok, of e w1] show ?thesis by (auto simp: pbind_def)
  next
    case (Inr u)
    with a acquired [OF ok, of u w1] have f: "free w" by simp
    from Inr a body obtain x w2 where b: "body w1 = Some (x, w2)" and m: "ok w2" "mine w2" by auto
    from released [OF m] obtain y w3 where l: "release w2 = Some (y, w3)" "free w3" "ok w3" by auto
    from a Inr g b l have "w' = w3" by (auto simp: pbind_def with_finally_def split: sum.splits)
    with l f show ?thesis by simp
  qed
qed

end

text \<open>The model of \<open>locking.py\<close>, where \<open>fcntl\<close> exists.\<close>

definition lock_free :: "'z proc_scheme \<Rightarrow> bool" where
  "lock_free w \<longleftrightarrow> \<not> locked w (lk_path w)"

definition lock_mine :: "'z proc_scheme \<Rightarrow> bool" where
  "lock_mine w \<longleftrightarrow> (\<exists>fd. lk_fd w = Some fd \<and> holds w (lk_path w) fd)"

lemma lock_mineE:
  assumes "lock_mine w"
  obtains fd i where "lk_fd w = Some fd" "fds w fd = Some (FileFd i)" "flocks w i = Some fd"
    "d_names (disk w) (resolve w (lk_path w)) = Some i"
  using assms by (auto simp: lock_mine_def holds_def)

lemma lock_release_mine:
  assumes ok: "lock_ok w" and m: "lock_mine w"
  obtains r w' where "lock_release w = Some (r, w')" "lock_free w'" "lock_ok w'"
    "r = Inr () \<and> lk_fd w' = None \<or> (\<exists>e. r = Inl e \<and> injected w e)" "disk w' = disk w" "lock_frame w w'"
proof -
  from m obtain fd i where f: "lk_fd w = Some fd" "fds w fd = Some (FileFd i)" "flocks w i = Some fd"
      "d_names (disk w) (resolve w (lk_path w)) = Some i" by (rule lock_mineE)
  from ok have wf: "wf_os w" by (simp add: lock_ok_def)
  from wf f(1,2) obtain r w' where r: "lock_release w = Some (r, w')" and fr: "lock_freed w fd w'"
    and o: "r = Inr () \<and> lk_fd w' = None \<or> (\<exists>e. r = Inl e \<and> injected w e)"
    by (rule lock_release_outcome)
  then have fm: "lock_frame w w'" and d: "disk w' = disk w" and fl: "flocks w' = unlocked_by fd (flocks w)"
    by (simp_all add: lock_freed_def)
  have "lk_path w' = lk_path w" using fm by (simp add: lock_frame_def)
  then have "lock_free w'" using f(3,4) d fl lock_frame_resolve [OF fm]
    by (simp add: lock_free_def locked_def unlocked_by_def)
  with r o d fm lock_ok_freed [OF ok fr] show thesis by (blast intro: that)
qed

interpretation lock: mutex lock_acquire lock_release lock_free lock_mine lock_ok
proof
  fix w :: "'z proc_scheme" assume ok: "lock_ok w"
  then have wf: "wf_os w" "has_fcntl w" by (simp_all add: lock_ok_def)
  show "lock_acquire w \<noteq> None" using wf by (rule lock_acquire_outcome) simp_all
next
  fix w :: "'z proc_scheme" and u w' assume ok: "lock_ok w" and a: "lock_acquire w = Some (Inr u, w')"
  then have wf: "wf_os w" "has_fcntl w" by (simp_all add: lock_ok_def)
  from wf a have t: "lock_taken w w'" by (cases rule: lock_acquire_outcome) simp_all
  from lock_taken_holds [OF t] lock_ok_taken [OF ok t]
  show "lock_free w \<and> lock_mine w' \<and> lock_ok w'"
    by (auto simp: lock_free_def lock_mine_def lock_frame_def)
next
  fix w :: "'z proc_scheme" and e w' assume ok: "lock_ok w" and a: "lock_acquire w = Some (Inl e, w')"
  then have wf: "wf_os w" "has_fcntl w" by (simp_all add: lock_ok_def)
  from wf a have t: "lock_refused w w'" by (cases rule: lock_acquire_outcome) simp_all
  then have "lk_path w' = lk_path w" by (simp add: lock_refused_def lock_frame_def)
  with lock_refused_locked [OF ok t] lock_ok_refused [OF ok t]
  show "lock_free w' = lock_free w \<and> lock_ok w'" by (simp add: lock_free_def)
next
  fix w :: "'z proc_scheme" assume "lock_ok w" and "lock_mine w"
  then obtain r w' where "lock_release w = Some (r, w')" "lock_free w'" "lock_ok w'"
    by (rule lock_release_mine)
  then show "\<exists>r w'. lock_release w = Some (r, w') \<and> lock_free w' \<and> lock_ok w'" by blast
qed

text \<open>A free lock is acquired unless a system call fails.\<close>

lemma quiet_acquires:
  assumes "lock_ok w" and "quiet w" and "lock_free w"
  shows "\<exists>w'. lock_acquire w = Some (Inr (), w')"
proof -
  have wf: "wf_os w" "has_fcntl w" using assms(1) by (simp_all add: lock_ok_def)
  have "\<not> injected w x" for x using assms(2) by (simp add: quiet_def injected_def)
  with wf contended_locked [OF assms(1)] assms(3) show ?thesis
    by (cases rule: lock_acquire_outcome) (auto simp: lock_free_def)
qed

section \<open>The properties\<close>

text \<open>While anybody holds the lock of a vault, another attempt to acquire it never succeeds: it
  raises \<open>VaultLockedError\<close> (or the error a failing system call reported), takes no lock, changes no
  vault and leaves the holder's lock in place.\<close>

theorem lock_excludes:
  assumes "lock_ok w" and "\<not> lock_free w"
  shows "\<exists>e w'. lock_acquire w = Some (Inl e, w') \<and> (e = locked_error (lk_path w) \<or> injected w e) \<and>
     flocks w' = flocks w \<and> lk_fd w' = lk_fd w \<and> \<not> lock_free w' \<and>
     (\<forall>p. resolve w p \<noteq> resolve w (lk_path w) \<longrightarrow> file_content p w' = file_content p w)"
proof -
  have wf: "wf_os w" "has_fcntl w" using assms(1) by (simp_all add: lock_ok_def)
  from lock.held_is_refused [OF assms] obtain e w' where a: "lock_acquire w = Some (Inl e, w')"
    and nf: "\<not> lock_free w'" by blast
  from wf a have r: "lock_refused w w'" and e: "e = locked_error (lk_path w) \<or> injected w e"
    by (cases rule: lock_acquire_outcome; simp)+
  from r have "lock_frame w w'" "flocks w' = flocks w" "lk_fd w' = lk_fd w" by (simp_all add: lock_refused_def)
  moreover have "file_content p w' = file_content p w" if "resolve w p \<noteq> resolve w (lk_path w)" for p
    using lock_frame_content [OF \<open>lock_frame w w'\<close> wf(1) that] .
  ultimately show ?thesis using a e nf by blast
qed

text \<open>A lock that was acquired is held by this process and was free before; releasing it frees it
  and keeps the disk, whichever system call fails on the way.\<close>

theorem lock_acquire_release:
  assumes "lock_ok w" and "lock_acquire w = Some (Inr u, w1)"
  shows "lock_free w \<and> lock_mine w1 \<and>
    (\<exists>r w2. lock_release w1 = Some (r, w2) \<and> lock_free w2 \<and> disk w2 = disk w1 \<and>
       (r = Inr () \<and> lk_fd w2 = None \<or> (\<exists>e. r = Inl e \<and> injected w1 e)))"
proof -
  from lock.acquired [OF assms] have l: "lock_free w" "lock_mine w1" "lock_ok w1" by auto
  from l(3,2) obtain r w2 where "lock_release w1 = Some (r, w2)" "lock_free w2" "disk w2 = disk w1"
    "r = Inr () \<and> lk_fd w2 = None \<or> (\<exists>e. r = Inl e \<and> injected w1 e)"
    by (rule lock_release_mine)
  with l show ?thesis by blast
qed

text \<open>A \<open>with\<close> block over the lock whose body keeps the lock object: the lock is as free afterwards as before,
  whatever the body raises and whichever call fails; and the body does not run while somebody else
  holds the lock.\<close>

theorem with_lock_releases:
  assumes "lock_ok w" and "with_lock body w = Some (r, w')"
    and "\<And>w1. lock_acquire w = Some (Inr (), w1) \<Longrightarrow> \<exists>x w2. body w1 = Some (x, w2) \<and> lock_ok w2 \<and> lock_mine w2"
  shows "lock_ok w' \<and> lock_free w' = lock_free w \<and>
    (\<not> lock_free w \<longrightarrow> (\<exists>e. r = Inl e \<and> lock_acquire w = Some (Inl e, w')))"
  using lock.block_outcome [OF assms(1) assms(2) [unfolded with_lock_def] assms(3)] .

section \<open>Witnesses\<close>

text \<open>The lock file of \<open>/v\<close> exists; another open file description (0) may hold its lock.\<close>

definition lock_sample :: "bool \<Rightarrow> proc" where
  "lock_sample taken =
     os.extend
       (sample_os\<lparr>disk := (disk sample_os)\<lparr>d_names := [lit ''/v'' \<mapsto> 0, lit ''/v.lock'' \<mapsto> 1]\<rparr>,
          inode_next := 2, fds := [0 \<mapsto> FileFd 1], fd_next := 1,
          flocks := (if taken then [1 \<mapsto> 0] else (\<lambda>i. None))\<rparr>)
       (proc.fields (lit ''/v.lock'') None)"

lemmas lock_sample_defs = lock_sample_def sample_os_def os.defs proc.defs

lemma lock_sample_ok: "lock_ok (lock_sample taken)"
  by (auto simp: lock_ok_def wf_os_def lock_sample_defs)

lemma resolve_lock_sample: "resolve (lock_sample taken) p = resolve sample_os p"
  by (simp add: resolve_def lock_sample_defs)

lemma abspath_lock: "abspath (lit ''/'') (lit ''/v.lock'') = lit ''/v.lock''"
  by (simp add: abspath_def leading_def lit_def dotdot_def)

lemma resolve_sample_lock: "resolve sample_os (lit ''/v.lock'') = lit ''/v.lock''"
  using abspath_lock by (simp add: resolve_def sample_os_def)

lemma lit_v_lock: "lit ''/v'' \<noteq> lit ''/v.lock''"
  by (simp add: lit_def)

lemma lock_sample_free: "lock_free (lock_sample False)" "\<not> lock_free (lock_sample True)"
  using abspath_lock lit_v_lock by (simp_all add: lock_free_def locked_def resolve_def lock_sample_defs)

theorem lock_excludes_witness:
  "\<exists>w'. lock_acquire (lock_sample True) = Some (Inl (locked_error (lit ''/v.lock'')), w') \<and>
     lk_fd w' = None \<and> \<not> lock_free w' \<and> file_content (lit ''/v'') w' = Some [1]"
proof -
  have "lk_path (lock_sample True) = lit ''/v.lock''" "lk_fd (lock_sample True) = None"
    "\<not> injected (lock_sample True) e" for e
    by (simp_all add: lock_sample_defs injected_def)
  moreover have "file_content (lit ''/v'') (lock_sample True) = Some [1]"
    using lit_v_lock sample_paths(3) by (simp add: file_content_def visible_def resolve_def lock_sample_defs)
  ultimately show ?thesis
    using lock_excludes [OF lock_sample_ok lock_sample_free(2)] lit_v_lock
    by (auto simp: resolve_lock_sample sample_resolve resolve_sample_lock)
qed

lemma lock_sample_acquires: "\<exists>w'. lock_acquire (lock_sample False) = Some (Inr (), w')"
  using abspath_lock lit_v_lock
  by (simp add: lock_acquire_def sys_open_create_def sys_flock_def set_lock_fd_def os_exec
      resolve_def lock_sample_defs)

theorem lock_acquire_release_witness:
  "\<exists>w1 r w2. lock_acquire (lock_sample False) = Some (Inr (), w1) \<and> lock_mine w1 \<and>
     lock_release w1 = Some (r, w2) \<and> lock_free w2"
proof -
  obtain w1 where w1: "lock_acquire (lock_sample False) = Some (Inr (), w1)"
    using lock_sample_acquires by blast
  from lock_acquire_release [OF lock_sample_ok this] w1 show ?thesis by blast
qed

end
