(* ===== verification/Repository.thy ===== *)
theory Repository
  imports LockProperties VaultProperties Entries
begin

text \<open>
  \<open>src/securevault/repository.py\<close>: the \<open>VaultRepository\<close> object. Its fields extend the process
  state (\<open>_lock\<close> is the pair \<open>lk_path\<close>, \<open>lk_fd\<close>), because the methods assign them in the middle of
  their work: an operation whose write fails has already changed the entries in memory and the
  counter of the unlocked vault. \<open>c\<close> stands for the two cryptographic primitives, \<open>rp\<close> for Python's
  \<open>repr\<close> (see \<open>Entries\<close>).
\<close>

record session = proc +
  r_path :: pystr
  r_unlocked :: unlocked_vault
  r_entries :: "entry list"
  r_closed :: bool

definition gets :: "('w \<Rightarrow> 'a) \<Rightarrow> ('w, 'a) prog" where
  "gets f w = Some (Inr (f w), w)"

definition modify :: "('w \<Rightarrow> 'w) \<Rightarrow> ('w, unit) prog" where
  "modify f w = Some (Inr (), f w)"

lemma pbind_gets [simp]: "pbind (gets f) g w = g (f w) w"
  by (simp add: gets_def pbind_def)

lemma pbind_modify [simp]: "pbind (modify f) g w = g () (f w)"
  by (simp add: modify_def pbind_def)

section \<open>The list of entries\<close>

fun find_entry :: "pystr \<Rightarrow> entry list \<Rightarrow> entry option" where
  "find_entry i [] = None"
| "find_entry i (e # es) = (if e_id e = i then Some e else find_entry i es)"

definition id_in_use :: "entry list \<Rightarrow> entry \<Rightarrow> bool" where
  "id_in_use es e = list_ex (\<lambda>x. e_id x = e_id e) es"

text \<open>\<open>entries.index(x)\<close>, and the assignment \<open>entries[i] = y\<close>.\<close>

fun entry_index :: "entry \<Rightarrow> entry list \<Rightarrow> nat result" where
  "entry_index x [] = Inl (ValueError (lit ''list.index(x): x not in list''))"
| "entry_index x (e # es) = (if e = x then Inr 0 else rbind (entry_index x es) (\<lambda>i. Inr (Suc i)))"

fun entry_remove :: "entry \<Rightarrow> entry list \<Rightarrow> entry list result" where
  "entry_remove x [] = Inl (ValueError (lit ''list.remove(x): x not in list''))"
| "entry_remove x (e # es) = (if e = x then Inr es else rbind (entry_remove x es) (\<lambda>es'. Inr (e # es')))"

section \<open>Creating and opening\<close>

definition repo_init ::
  "(jvalue \<Rightarrow> pystr) \<Rightarrow> pystr \<Rightarrow> unlocked_vault \<Rightarrow> ('z session_scheme, unit) prog" where
  "repo_init rp path u =
     pbind (vault_read u) (\<lambda>b.
     pbind (lift (deserialize_entries rp b)) (\<lambda>es.
     modify (\<lambda>w. w\<lparr>r_path := path, r_unlocked := u, r_entries := es, r_closed := False\<rparr>)))"

text \<open>
  \<open>create\<close>: the existence check, then, under the lock, everything else. The body that runs under the
  lock does not look again whether the file exists.
\<close>

definition create_body ::
  "crypto \<Rightarrow> (jvalue \<Rightarrow> pystr) \<Rightarrow> pystr \<Rightarrow> bytes \<Rightarrow> argon2_parameters option \<Rightarrow>
     ('z session_scheme, unit) prog" where
  "create_body c rp path master_password params =
     pbind (lift (serialize_entries rp [])) (\<lambda>b.
     pbind (vault_create c master_password b params) (\<lambda>data.
     pbind (write_atomic path data) (\<lambda>_.
     pbind (vault_open c master_password data) (\<lambda>u.
     repo_init rp path u))))"

definition create_locked ::
  "crypto \<Rightarrow> (jvalue \<Rightarrow> pystr) \<Rightarrow> pystr \<Rightarrow> bytes \<Rightarrow> argon2_parameters option \<Rightarrow>
     ('z session_scheme, unit) prog" where
  "create_locked c rp path master_password params =
     pbind (lock_init path) (\<lambda>_.
     guarded lock_acquire lock_release (create_body c rp path master_password params))"

definition repo_create ::
  "crypto \<Rightarrow> (jvalue \<Rightarrow> pystr) \<Rightarrow> pystr \<Rightarrow> bytes \<Rightarrow> argon2_parameters option \<Rightarrow>
     ('z session_scheme, unit) prog" where
  "repo_create c rp path master_password params =
     pbind (path_exists path) (\<lambda>ex.
     if ex then throw (FileExistsError (path @ lit '' already exists''))
     else create_locked c rp path master_password params)"

definition open_body ::
  "crypto \<Rightarrow> (jvalue \<Rightarrow> pystr) \<Rightarrow> pystr \<Rightarrow> bytes \<Rightarrow> ('z session_scheme, unit) prog" where
  "open_body c rp path master_password =
     pbind (storage_read path) (\<lambda>data.
     pbind (vault_open c master_password data) (\<lambda>u.
     repo_init rp path u))"

definition repo_open ::
  "crypto \<Rightarrow> (jvalue \<Rightarrow> pystr) \<Rightarrow> pystr \<Rightarrow> bytes \<Rightarrow> ('z session_scheme, unit) prog" where
  "repo_open c rp path master_password =
     pbind (lock_init path) (\<lambda>_.
     guarded lock_acquire lock_release (open_body c rp path master_password))"

section \<open>Queries\<close>

definition repo_list :: "('z session_scheme, entry list) prog" where
  "repo_list = gets r_entries"

definition repo_get :: "pystr \<Rightarrow> ('z session_scheme, entry) prog" where
  "repo_get entry_id =
     pbind (gets r_entries) (\<lambda>es.
     case find_entry entry_id es of
       Some e \<Rightarrow> ret e
     | None \<Rightarrow> throw (EntryNotFoundError entry_id))"

section \<open>Mutations\<close>

definition repo_persist :: "crypto \<Rightarrow> (jvalue \<Rightarrow> pystr) \<Rightarrow> ('z session_scheme, unit) prog" where
  "repo_persist c rp =
     pbind (gets r_entries) (\<lambda>es.
     pbind (lift (serialize_entries rp es)) (\<lambda>b.
     pbind (gets r_unlocked) (\<lambda>u.
     pbind (vault_save c u b) (\<lambda>(data, u').
     pbind (modify (\<lambda>w. w\<lparr>r_unlocked := u'\<rparr>)) (\<lambda>_.
     pbind (gets r_path) (\<lambda>path.
     write_atomic path data))))))"

text \<open>The loop that draws identifiers until one is unused.\<close>

partial_function (option) fresh_entry ::
  "entry list \<Rightarrow> entry \<Rightarrow> 'z machine_scheme \<Rightarrow> (entry result \<times> 'z machine_scheme) option" where
  "fresh_entry es e w =
     (if id_in_use es e
      then Option.bind (new_entry_id w) (\<lambda>(r, w').
             case r of Inl x \<Rightarrow> Some (Inl x, w') | Inr i \<Rightarrow> fresh_entry es (e\<lparr>e_id := i\<rparr>) w')
      else Some (Inr e, w))"

definition now_iso :: "('z session_scheme, pystr) prog" where
  "now_iso = pbind read_clock (\<lambda>t. ret (utc_isoformat t))"

definition repo_add ::
  "crypto \<Rightarrow> (jvalue \<Rightarrow> pystr) \<Rightarrow> pystr \<Rightarrow> pystr \<Rightarrow> pystr \<Rightarrow> pystr \<Rightarrow> ('z session_scheme, entry) prog" where
  "repo_add c rp service username password notes =
     pbind new_entry_id (\<lambda>i.
     pbind now_iso (\<lambda>created.
     pbind now_iso (\<lambda>updated.
     pbind (gets r_entries) (\<lambda>es.
     pbind (fresh_entry es
              \<lparr>e_id = i, e_service = service, e_username = username, e_password = password,
               e_notes = notes, e_created = created, e_updated = updated\<rparr>) (\<lambda>e.
     pbind (modify (\<lambda>w. w\<lparr>r_entries := r_entries w @ [e]\<rparr>)) (\<lambda>_.
     pbind (repo_persist c rp) (\<lambda>_.
     ret e)))))))"

text \<open>\<open>None\<close> leaves the field as it is.\<close>

definition updated_entry ::
  "entry \<Rightarrow> pystr option \<Rightarrow> pystr option \<Rightarrow> pystr option \<Rightarrow> pystr option \<Rightarrow> pystr \<Rightarrow> entry" where
  "updated_entry e service username password notes now =
     e\<lparr>e_service := (case service of None \<Rightarrow> e_service e | Some s \<Rightarrow> s),
       e_username := (case username of None \<Rightarrow> e_username e | Some s \<Rightarrow> s),
       e_password := (case password of None \<Rightarrow> e_password e | Some s \<Rightarrow> s),
       e_notes := (case notes of None \<Rightarrow> e_notes e | Some s \<Rightarrow> s),
       e_updated := now\<rparr>"

definition repo_update ::
  "crypto \<Rightarrow> (jvalue \<Rightarrow> pystr) \<Rightarrow> pystr \<Rightarrow> pystr option \<Rightarrow> pystr option \<Rightarrow> pystr option \<Rightarrow>
     pystr option \<Rightarrow> ('z session_scheme, entry) prog" where
  "repo_update c rp entry_id service username password notes =
     pbind (repo_get entry_id) (\<lambda>current.
     pbind now_iso (\<lambda>now.
     let updated = updated_entry current service username password notes now in
     pbind (gets r_entries) (\<lambda>es.
     pbind (lift (entry_index current es)) (\<lambda>k.
     pbind (modify (\<lambda>w. w\<lparr>r_entries := es[k := updated]\<rparr>)) (\<lambda>_.
     pbind (repo_persist c rp) (\<lambda>_.
     ret updated))))))"

definition repo_delete ::
  "crypto \<Rightarrow> (jvalue \<Rightarrow> pystr) \<Rightarrow> pystr \<Rightarrow> ('z session_scheme, unit) prog" where
  "repo_delete c rp entry_id =
     pbind (repo_get entry_id) (\<lambda>e.
     pbind (gets r_entries) (\<lambda>es.
     pbind (lift (entry_remove e es)) (\<lambda>es'.
     pbind (modify (\<lambda>w. w\<lparr>r_entries := es'\<rparr>)) (\<lambda>_.
     repo_persist c rp))))"

definition repo_change_password ::
  "crypto \<Rightarrow> bytes \<Rightarrow> argon2_parameters option \<Rightarrow> ('z session_scheme, unit) prog" where
  "repo_change_password c new_password params =
     pbind (gets r_unlocked) (\<lambda>u.
     pbind (vault_change_password c u new_password params) (\<lambda>(data, u').
     pbind (modify (\<lambda>w. w\<lparr>r_unlocked := u'\<rparr>)) (\<lambda>_.
     pbind (gets r_path) (\<lambda>path.
     write_atomic path data))))"

section \<open>Lifecycle\<close>

definition repo_close :: "('z session_scheme, unit) prog" where
  "repo_close =
     pbind (gets r_closed) (\<lambda>closed.
     if closed then ret ()
     else
       pbind (gets r_unlocked) (\<lambda>u.
       pbind (vault_close u) (\<lambda>u'.
       pbind (modify (\<lambda>w. w\<lparr>r_unlocked := u', r_entries := []\<rparr>)) (\<lambda>_.
       pbind lock_release (\<lambda>_.
       modify (\<lambda>w. w\<lparr>r_closed := True\<rparr>))))))"

end
