(* ===== verification/EntryStore.thy ===== *)
theory EntryStore
  imports Repository EntryProperties
begin

text \<open>
  The list of entries as a keyed store: the contract (\<open>keyed_store\<close>), the list operations that
  implement it, and the fact that the code's searches by identifier and by equality (\<open>index\<close>,
  \<open>remove\<close>) are these operations.
\<close>

section \<open>The contract\<close>

text \<open>
  A store of items under keys: adding under a new key, replacing under a key in use, and deleting
  act on the map from keys to items and on nothing else.
\<close>

locale keyed_store =
  fixes lookup :: "'k \<Rightarrow> 's \<Rightarrow> 'e option"
    and key :: "'e \<Rightarrow> 'k"
    and insert_new :: "'e \<Rightarrow> 's \<Rightarrow> 's"
    and replace_at :: "'k \<Rightarrow> 'e \<Rightarrow> 's \<Rightarrow> 's"
    and drop_at :: "'k \<Rightarrow> 's \<Rightarrow> 's"
    and invar :: "'s \<Rightarrow> bool"
  assumes lookup_key: "lookup k s = Some e \<Longrightarrow> key e = k"
    and lookup_insert: "lookup (key e) s = None \<Longrightarrow>
      lookup k (insert_new e s) = (if k = key e then Some e else lookup k s)"
    and lookup_replace: "lookup k s \<noteq> None \<Longrightarrow> key e = k \<Longrightarrow>
      lookup k' (replace_at k e s) = (if k' = k then Some e else lookup k' s)"
    and lookup_drop: "invar s \<Longrightarrow> lookup k' (drop_at k s) = (if k' = k then None else lookup k' s)"
    and invar_insert: "invar s \<Longrightarrow> lookup (key e) s = None \<Longrightarrow> invar (insert_new e s)"
    and invar_replace: "invar s \<Longrightarrow> key e = k \<Longrightarrow> invar (replace_at k e s)"
    and invar_drop: "invar s \<Longrightarrow> invar (drop_at k s)"
begin

lemma insert_then_drop:
  "invar s \<Longrightarrow> lookup (key e) s = None \<Longrightarrow> lookup k (drop_at (key e) (insert_new e s)) = lookup k s"
  by (auto simp: lookup_drop invar_insert lookup_insert)

lemma last_replace_wins:
  "lookup k s \<noteq> None \<Longrightarrow> key e = k \<Longrightarrow> key e' = k \<Longrightarrow>
     lookup k' (replace_at k e' (replace_at k e s)) = lookup k' (replace_at k e' s)"
  by (simp add: lookup_replace)

end

section \<open>Lists of entries\<close>

definition append_entry :: "entry \<Rightarrow> entry list \<Rightarrow> entry list" where
  "append_entry e es = es @ [e]"

fun replace_first :: "pystr \<Rightarrow> entry \<Rightarrow> entry list \<Rightarrow> entry list" where
  "replace_first i y [] = []"
| "replace_first i y (e # es) = (if e_id e = i then y # es else e # replace_first i y es)"

fun drop_first :: "pystr \<Rightarrow> entry list \<Rightarrow> entry list" where
  "drop_first i [] = []"
| "drop_first i (e # es) = (if e_id e = i then es else e # drop_first i es)"

definition distinct_ids :: "entry list \<Rightarrow> bool" where
  "distinct_ids es \<longleftrightarrow> distinct (map e_id es)"

lemma find_entry_None_iff: "find_entry i es = None \<longleftrightarrow> i \<notin> e_id ` set es"
  by (induction es) auto

lemma find_entry_id: "find_entry i es = Some e \<Longrightarrow> e_id e = i"
  by (induction es) (auto split: if_splits)

lemma find_entry_in: "find_entry i es = Some e \<Longrightarrow> e \<in> set es"
  by (induction es) (auto split: if_splits)

lemma id_in_use_iff: "id_in_use es e \<longleftrightarrow> find_entry (e_id e) es \<noteq> None"
  by (induction es) (auto simp: id_in_use_def)

lemma find_entry_append: "find_entry i (es @ [e]) =
    (case find_entry i es of Some x \<Rightarrow> Some x | None \<Rightarrow> if e_id e = i then Some e else None)"
  by (induction es) auto

lemma find_replace_first:
  "find_entry k es \<noteq> None \<Longrightarrow> e_id y = k \<Longrightarrow>
     find_entry i (replace_first k y es) = (if i = k then Some y else find_entry i es)"
  by (induction es) auto

lemma find_drop_first:
  "distinct_ids es \<Longrightarrow> find_entry i (drop_first k es) = (if i = k then None else find_entry i es)"
  by (induction es) (auto simp: distinct_ids_def find_entry_None_iff)

lemma ids_replace_first: "e_id y = k \<Longrightarrow> map e_id (replace_first k y es) = map e_id es"
  by (induction es) auto

lemma set_drop_first: "set (drop_first k es) \<subseteq> set es"
  by (induction es) auto

lemma set_replace_first: "set (replace_first k y es) \<subseteq> insert y (set es)"
  by (induction es) auto

lemma distinct_drop_first: "distinct_ids es \<Longrightarrow> distinct_ids (drop_first k es)"
  using set_drop_first by (induction es) (fastforce simp: distinct_ids_def)+

interpretation entry_store: keyed_store
  find_entry e_id append_entry replace_first drop_first distinct_ids
proof
  show "find_entry k s = Some e \<Longrightarrow> e_id e = k" for k s e by (rule find_entry_id)
  show "find_entry (e_id e) s = None \<Longrightarrow>
      find_entry k (append_entry e s) = (if k = e_id e then Some e else find_entry k s)" for e s k
    by (auto simp: append_entry_def find_entry_append split: option.splits)
  show "find_entry k s \<noteq> None \<Longrightarrow> e_id e = k \<Longrightarrow>
      find_entry k' (replace_first k e s) = (if k' = k then Some e else find_entry k' s)" for k s e k'
    by (rule find_replace_first)
  show "distinct_ids s \<Longrightarrow>
      find_entry k' (drop_first k s) = (if k' = k then None else find_entry k' s)" for s k' k
    by (rule find_drop_first)
  show "distinct_ids s \<Longrightarrow> find_entry (e_id e) s = None \<Longrightarrow> distinct_ids (append_entry e s)" for s e
    by (simp add: append_entry_def distinct_ids_def find_entry_None_iff)
  show "distinct_ids s \<Longrightarrow> e_id e = k \<Longrightarrow> distinct_ids (replace_first k e s)" for s e k
    by (simp add: distinct_ids_def ids_replace_first)
  show "distinct_ids s \<Longrightarrow> distinct_ids (drop_first k s)" for s k
    by (rule distinct_drop_first)
qed

text \<open>The code looks for the entry it found by identifier again, by equality; it finds the same one.\<close>

lemma entry_index_found:
  "find_entry i es = Some x \<Longrightarrow> \<exists>k. entry_index x es = Inr k \<and> es[k := y] = replace_first i y es"
proof (induction es)
  case (Cons e es)
  show ?case
  proof (cases "e_id e = i")
    case True
    with Cons.prems show ?thesis by auto
  next
    case False
    with Cons.prems have f: "find_entry i es = Some x" by simp
    with False have "e \<noteq> x" using find_entry_id by blast
    with Cons.IH [OF f] False show ?thesis by auto
  qed
qed simp

lemma entry_remove_found:
  "find_entry i es = Some x \<Longrightarrow> entry_remove x es = Inr (drop_first i es)"
proof (induction es)
  case (Cons e es)
  show ?case
  proof (cases "e_id e = i")
    case False
    with Cons.prems have f: "find_entry i es = Some x" by simp
    with False have "e \<noteq> x" using find_entry_id by blast
    with Cons.IH [OF f] False show ?thesis by auto
  qed (use Cons.prems in auto)
qed simp

section \<open>The size of the body\<close>

text \<open>
  An upper bound of the length of the JSON text, from the lengths of the fields: a character takes at
  most 12 characters (two escapes), an entry 94 more for its keys and punctuation.
\<close>

definition entry_chars :: "entry \<Rightarrow> nat" where
  "entry_chars e =
     length (e_id e) + length (e_service e) + length (e_username e) + length (e_password e) +
     length (e_notes e) + length (e_created e) + length (e_updated e)"

definition body_bound :: "entry list \<Rightarrow> nat" where
  "body_bound es = 40 + sum_list (map (\<lambda>e. 94 + 12 * entry_chars e) es)"

lemma length_esc_char: "length (esc_char c) \<le> 12"
  by (simp add: esc_char_def uescape_def)

lemma length_json_quote: "length (json_quote s) \<le> 12 * length s + 2"
proof -
  have "length (esc_chars s) \<le> 12 * length s"
    unfolding esc_chars_def using length_esc_char by (induction s) (auto intro: add_mono)
  then show ?thesis by (simp add: json_quote_def)
qed

lemma length_key: "list_all (\<lambda>c. 93 \<le> (of_char c :: nat) \<and> (of_char c :: nat) \<le> 126) k \<Longrightarrow>
  length (json_quote (lit k)) = length k + 2"
proof -
  assume k: "list_all (\<lambda>c. 93 \<le> (of_char c :: nat) \<and> (of_char c :: nat) \<le> 126) k"
  have "esc_chars (lit k) = lit k" using k
    by (induction k) (auto simp: esc_chars_def lit_def esc_char_def)
  then show ?thesis by (simp add: json_quote_def)
qed

lemma length_dump_entry: "length (json_dumps rp (JObject (to_dict e))) \<le> 93 + 12 * entry_chars e"
  using length_json_quote [of "e_id e"] length_json_quote [of "e_service e"]
    length_json_quote [of "e_username e"] length_json_quote [of "e_password e"]
    length_json_quote [of "e_notes e"] length_json_quote [of "e_created e"]
    length_json_quote [of "e_updated e"]
  by (simp add: to_dict_def length_key entry_chars_def)

lemma length_dump_entries:
  "length (json_dump_elements rp (map (\<lambda>e. JObject (to_dict e)) es))
     \<le> sum_list (map (\<lambda>e. 94 + 12 * entry_chars e) es)"
proof (induction es rule: induct_list012)
  case (2 e)
  show ?case using length_dump_entry [of rp e] by (simp del: json_dumps.simps)
next
  case (3 e f es)
  show ?case using length_dump_entry [of rp e] 3(2) by (simp del: json_dumps.simps)
qed simp

lemma length_payload: "length (json_dumps rp (payload es)) \<le> body_bound es"
  using length_dump_entries [of rp es]
  by (simp add: payload_def SCHEMA_VERSION_def body_bound_def length_key show_int_def show_nat.simps)

section \<open>Drawing a fresh identifier\<close>

lemma fresh_entry_step:
  "fresh_entry es e w =
     (if id_in_use es e
      then fresh_entry es (e\<lparr>e_id := bytes_hex (tape_read (tape w) (tpos w) 4)\<rparr>) (w\<lparr>tpos := tpos w + 16\<rparr>)
      else Some (Inr e, w))"
  by (subst fresh_entry.simps) (simp add: new_entry_id_eq)

text \<open>The texts identifiers have: eight plain characters.\<close>

definition id_text :: "pystr \<Rightarrow> bool" where
  "id_text i \<longleftrightarrow> plain_str i \<and> length i = 8"

lemma drawn_id_text: "id_text (bytes_hex (tape_read t n 4))"
  by (simp add: id_text_def bytes_hex_plain length_bytes_hex)

lemma fresh_entry_result:
  fixes w :: "'a machine_scheme"
  assumes "fresh_entry es e w = Some y" and "id_text (e_id e)"
  shows "\<exists>i n. y = (Inr (e\<lparr>e_id := i\<rparr>), w\<lparr>tpos := n\<rparr>) \<and> find_entry i es = None \<and> id_text i"
proof -
  let ?P = "\<lambda>es e w y. id_text (e_id e) \<longrightarrow>
      (\<exists>i n. y = (Inr (e\<lparr>e_id := i\<rparr>), w\<lparr>tpos := n\<rparr>) \<and> find_entry i es = None \<and> id_text i)"
  have "?P es e w y"
  proof (rule fresh_entry.raw_induct [where P = ?P, OF _ assms(1)])
    fix f es e and w :: "'a machine_scheme" and y
    assume IH: "\<And>es e w y. f es e w = Some y \<Longrightarrow> ?P es e w y"
      and b: "(if id_in_use es e
        then Option.bind (new_entry_id w) (\<lambda>(r, w').
             case r of Inl x \<Rightarrow> Some (Inl x, w') | Inr i \<Rightarrow> f es (e\<lparr>e_id := i\<rparr>) w')
        else Some (Inr e, w)) = Some y"
    show "?P es e w y"
    proof (cases "id_in_use es e")
      case False
      with b have "y = (Inr (e\<lparr>e_id := e_id e\<rparr>), w\<lparr>tpos := tpos w\<rparr>)" by simp
      with False show ?thesis
        by (intro impI exI [of _ "e_id e"] exI [of _ "tpos w"]) (simp add: id_in_use_iff)
    next
      case True
      let ?i = "bytes_hex (tape_read (tape w) (tpos w) 4)"
      from True b have "f es (e\<lparr>e_id := ?i\<rparr>) (w\<lparr>tpos := tpos w + 16\<rparr>) = Some y"
        by (simp add: new_entry_id_eq)
      from IH [OF this] drawn_id_text show ?thesis by auto
    qed
  qed
  with assms(2) show ?thesis by blast
qed

text \<open>The loop ends as soon as the random source yields an unused identifier.\<close>

definition drawn_id :: "'z machine_scheme \<Rightarrow> nat \<Rightarrow> pystr" where
  "drawn_id w k = bytes_hex (tape_read (tape w) (tpos w + 16 * k) 4)"

lemma fresh_entry_returns:
  "find_entry (drawn_id w k) es = None \<Longrightarrow> fresh_entry es e w \<noteq> None"
proof (induction k arbitrary: e w)
  case 0
  then show ?case
    by (subst fresh_entry_step, subst fresh_entry_step) (simp add: id_in_use_iff drawn_id_def)
next
  case (Suc k)
  then have "find_entry (drawn_id (w\<lparr>tpos := tpos w + 16\<rparr>) k) es = None"
    by (simp add: drawn_id_def add.assoc)
  from Suc.IH [OF this] show ?case by (subst fresh_entry_step) simp
qed

end
