(* ===== verification/RepositoryProofs.thy ===== *)
theory RepositoryProofs
  imports EntryStore
begin

text \<open>
  The invariant of an open repository (\<open>live\<close>) and what its operations do to it. \<open>at_home\<close> is the
  part about the lock and the files, \<open>unlocked_ok\<close> the part about the unlocked vault in memory,
  \<open>vault_holds\<close> says what is on disk. An operation that raises keeps \<open>live\<close> of what is in memory.
\<close>

section \<open>The invariant\<close>

definition entries_ok :: "entry list \<Rightarrow> bool" where
  "entries_ok es \<longleftrightarrow> list_all entry_ok es \<and> distinct_ids es"

definition at_home :: "'z session_scheme \<Rightarrow> bool" where
  "at_home w \<longleftrightarrow>
     \<not> r_closed w \<and> lock_ok w \<and> lock_mine w \<and> lk_path w = r_path w @ lit ''.lock'' \<and>
     store_ready (r_path w) w \<and> lock_clear w (r_path w)"

definition unlocked_ok ::
  "crypto \<Rightarrow> bytes \<Rightarrow> entry list \<Rightarrow> unlocked_vault \<Rightarrow> 'z machine_scheme \<Rightarrow> bool" where
  "unlocked_ok c pw es u w \<longleftrightarrow>
     (\<exists>d b. session_ok c pw d b u w \<and> (\<forall>rp. deserialize_entries rp b = Inr es))"

definition live :: "crypto \<Rightarrow> bytes \<Rightarrow> 'z session_scheme \<Rightarrow> bool" where
  "live c pw w \<longleftrightarrow>
     at_home w \<and> entries_ok (r_entries w) \<and> unlocked_ok c pw (r_entries w) (r_unlocked w) w"

text \<open>A file that opens under \<open>pw\<close> to the entries \<open>es\<close>.\<close>

definition file_holds :: "crypto \<Rightarrow> bytes \<Rightarrow> entry list \<Rightarrow> bytes \<Rightarrow> bool" where
  "file_holds c pw es data \<longleftrightarrow>
     (\<exists>f d b. data = file_bytes f \<and> sealed c pw f d b \<and> (\<forall>rp. deserialize_entries rp b = Inr es))"

definition vault_holds :: "crypto \<Rightarrow> bytes \<Rightarrow> entry list \<Rightarrow> pystr \<Rightarrow> 'z os_scheme \<Rightarrow> bool" where
  "vault_holds c pw es path w \<longleftrightarrow> (\<exists>data. file_content path w = Some data \<and> file_holds c pw es data)"

text \<open>The disk after a write that may have failed: the new vault, or on a failure perhaps the old one; and
  at no moment on the way would a power loss have left anything else.\<close>

definition saved ::
  "crypto \<Rightarrow> bytes \<Rightarrow> entry list \<Rightarrow> pystr \<Rightarrow> 'z os_scheme \<Rightarrow> 'a result \<Rightarrow> 'z os_scheme \<Rightarrow> bool" where
  "saved c pw es path w r w' \<longleftrightarrow>
     (vault_holds c pw es path w' \<or> (\<exists>e. r = Inl e) \<and> file_content path w' = file_content path w) \<and>
     endures path (file_holds c pw es) w w'"

lemma saved_start:
  assumes "diskless w w1" and "saved c pw es path w1 r w'"
  shows "saved c pw es path w r w'"
proof -
  have "file_content path w1 = file_content path w"
    using assms(1) by (simp add: diskless_def file_content_def resolve_def)
  with assms diskless_start [OF assms(1)] show ?thesis by (auto simp: saved_def)
qed

definition body_fits :: "(jvalue \<Rightarrow> pystr) \<Rightarrow> entry list \<Rightarrow> bool" where
  "body_fits rp es \<longleftrightarrow> length (json_dumps rp (payload es)) \<le> MAX_PLAINTEXT"

text \<open>The fields of the object and of the process the operations never assign.\<close>

definition same_object :: "'z session_scheme \<Rightarrow> 'z session_scheme \<Rightarrow> bool" where
  "same_object w w' \<longleftrightarrow>
     r_path w' = r_path w \<and> r_closed w' = r_closed w \<and> lk_path w' = lk_path w \<and> lk_fd w' = lk_fd w \<and>
     cwd w' = cwd w \<and> tape w' = tape w \<and> faults w' = faults w \<and> session.more w' = session.more w"

lemma same_object_refl [simp]: "same_object w w"
  by (simp add: same_object_def)

lemma same_object_trans: "same_object w w1 \<Longrightarrow> same_object w1 w2 \<Longrightarrow> same_object w w2"
  by (simp add: same_object_def)

section \<open>Frames\<close>

lemma os_more_fields:
  fixes w w' :: "'z session_scheme"
  assumes "os.more w' = os.more w"
  shows "r_path w' = r_path w" "r_unlocked w' = r_unlocked w" "r_entries w' = r_entries w"
    "r_closed w' = r_closed w" "lk_path w' = lk_path w" "lk_fd w' = lk_fd w"
    "session.more w' = session.more w"
  using assms by (cases w; cases w'; simp)+

lemma write_atomic_names:
  assumes "store_ready path w" and "write_atomic path data w = Some (r, w')"
    and "n \<noteq> resolve w path" and "d_names (disk w) n = Some i"
  shows "d_names (disk w') n = Some i"
proof -
  from assms(1) have "wf_os w" "tmp_clear w path" by (simp_all add: store_ready_def)
  then show ?thesis
  proof (cases rule: write_atomic_runs [where data = data])
    case (normal w'')
    with assms show ?thesis by (simp add: renamed_def)
  next
    case (raised e w'')
    then consider "undone w (resolve w path) data w''" | "renamed w (resolve w path) data w''"
      | "left_tmp w (resolve w path) data w''" by (auto simp: write_failed_def)
    then show ?thesis
    proof cases
      case 3
      then obtain T where T: "d_names (disk w) T = None"
        "\<forall>m. m \<noteq> T \<longrightarrow> d_names (disk w'') m = d_names (disk w) m"
        unfolding left_tmp_def at_stage_def tmp_stage_def by blast
      with assms(4) have "n \<noteq> T" by auto
      with T(2) assms(2,4) raised(1) show ?thesis by simp
    qed (use assms raised(1) in \<open>simp_all add: undone_def renamed_def\<close>)
  qed
qed

lemma lock_mine_frame:
  assumes ok: "lock_ok w" and m: "lock_mine w" and f: "frame w w'"
    and lk: "lk_path w' = lk_path w" "lk_fd w' = lk_fd w"
    and n: "\<And>i. d_names (disk w) (resolve w (lk_path w)) = Some i \<Longrightarrow>
      d_names (disk w') (resolve w (lk_path w)) = Some i"
  shows "lock_mine w'"
proof -
  from m obtain fd i where h: "lk_fd w = Some fd" "fds w fd = Some (FileFd i)" "flocks w i = Some fd"
      "d_names (disk w) (resolve w (lk_path w)) = Some i" by (rule lock_mineE)
  from ok have "wf_os w" by (simp add: lock_ok_def)
  from wf_fd_lt [OF this h(2)] f have "fds w' fd = fds w fd" "flocks w' = flocks w"
    by (simp_all add: frame_def)
  with h n [OF h(4)] lk frame_resolve [OF f] show ?thesis by (auto simp: lock_mine_def holds_def)
qed

lemma write_atomic_home:
  assumes h: "at_home w" and r: "write_atomic (r_path w) data w = Some (r, w')"
  shows "at_home w'" and "frame w w'" and "same_object w w'"
    and "r_entries w' = r_entries w" and "r_unlocked w' = r_unlocked w"
    and "case r of Inr u \<Rightarrow> file_content (r_path w) w' = Some data
       | Inl e \<Rightarrow> file_content (r_path w) w' = file_content (r_path w) w \<or>
           file_content (r_path w) w' = Some data"
proof -
  from h have sr: "store_ready (r_path w) w" by (simp add: at_home_def)
  from write_atomic_content [OF this r] have f: "frame w w'" and wf: "wf_os w'"
    and sr': "store_ready (r_path w) w'"
    and c: "case r of Inr u \<Rightarrow> file_content (r_path w) w' = Some data
       | Inl e \<Rightarrow> file_content (r_path w) w' = file_content (r_path w) w \<or>
           file_content (r_path w) w' = Some data" by simp_all
  have "os.more w' = os.more w" using f by (simp add: frame_def)
  note m = os_more_fields [OF this]
  show "frame w w'" by (rule f)
  show "r_entries w' = r_entries w" "r_unlocked w' = r_unlocked w" by (rule m)+
  show "case r of Inr u \<Rightarrow> file_content (r_path w) w' = Some data
       | Inl e \<Rightarrow> file_content (r_path w) w' = file_content (r_path w) w \<or>
           file_content (r_path w) w' = Some data" by (rule c)
  show "same_object w w'" using m f by (simp add: same_object_def frame_def)
  from h have "lock_ok w" "lock_mine w" "lk_path w = r_path w @ lit ''.lock''"
      "resolve w (lk_path w) \<noteq> resolve w (r_path w)" "\<not> r_closed w"
    by (simp_all add: at_home_def lock_clear_def)
  moreover from this write_atomic_names [OF sr r] have "lock_mine w'"
    by (intro lock_mine_frame [OF _ _ f m(5,6)]) blast+
  ultimately show "at_home w'"
    using m sr' lock_ok_frame [OF _ f wf] frame_resolve [OF f] by (simp add: at_home_def lock_clear_def)
qed

section \<open>Steps in memory\<close>

lemma os_updates [simp]:
  fixes w :: "'z os_scheme"
  shows "wf_os (w\<lparr>tpos := n\<rparr>) = wf_os w" "wf_os (w\<lparr>heap := h\<rparr>) = wf_os w"
    "wf_os (w\<lparr>hnext := n\<rparr>) = wf_os w" "wf_os (w\<lparr>ticks := n\<rparr>) = wf_os w"
    "resolve (w\<lparr>tpos := n\<rparr>) p = resolve w p" "resolve (w\<lparr>heap := h\<rparr>) p = resolve w p"
    "resolve (w\<lparr>hnext := n\<rparr>) p = resolve w p" "resolve (w\<lparr>ticks := n\<rparr>) p = resolve w p"
  by (simp_all add: wf_os_def resolve_def)

lemma session_updates [simp]:
  fixes w :: "'z session_scheme"
  shows "wf_os (w\<lparr>r_entries := es\<rparr>) = wf_os w" "wf_os (w\<lparr>r_unlocked := u\<rparr>) = wf_os w"
    "resolve (w\<lparr>r_entries := es\<rparr>) p = resolve w p" "resolve (w\<lparr>r_unlocked := u\<rparr>) p = resolve w p"
  by (simp_all add: wf_os_def resolve_def)

lemmas home_defs = at_home_def lock_ok_def lock_mine_def holds_def store_ready_def tmp_clear_def lock_clear_def

lemma at_home_updates [simp]:
  fixes w :: "'z session_scheme"
  shows "at_home (w\<lparr>tpos := n\<rparr>) = at_home w" "at_home (w\<lparr>heap := h\<rparr>) = at_home w"
    "at_home (w\<lparr>hnext := n\<rparr>) = at_home w" "at_home (w\<lparr>ticks := n\<rparr>) = at_home w"
    "at_home (w\<lparr>r_entries := es\<rparr>) = at_home w" "at_home (w\<lparr>r_unlocked := u\<rparr>) = at_home w"
  by (simp_all add: home_defs)

lemma file_content_updates [simp]:
  fixes w :: "'z session_scheme"
  shows "file_content p (w\<lparr>tpos := n\<rparr>) = file_content p w" "file_content p (w\<lparr>heap := h\<rparr>) = file_content p w"
    "file_content p (w\<lparr>hnext := n\<rparr>) = file_content p w" "file_content p (w\<lparr>ticks := n\<rparr>) = file_content p w"
    "file_content p (w\<lparr>r_entries := es\<rparr>) = file_content p w"
    "file_content p (w\<lparr>r_unlocked := u\<rparr>) = file_content p w"
  by (simp_all add: file_content_def)

lemma same_object_updates [simp]:
  fixes w :: "'z session_scheme"
  shows "same_object w (w\<lparr>tpos := n\<rparr>)" "same_object w (w\<lparr>ticks := n\<rparr>)"
    "same_object w (w\<lparr>r_entries := es\<rparr>)" "same_object w (w\<lparr>r_unlocked := u\<rparr>)"
  by (simp_all add: same_object_def)

lemma diskless_updates [simp]:
  fixes w :: "'z session_scheme"
  shows "diskless w (w\<lparr>tpos := n\<rparr>)" "diskless w (w\<lparr>ticks := n\<rparr>)" "diskless w (w\<lparr>r_entries := es\<rparr>)"
    "diskless w (w\<lparr>ticks := t, tpos := n, r_entries := es\<rparr>)" "diskless w (w\<lparr>ticks := t, r_entries := es\<rparr>)"
    "diskless w (w\<lparr>tpos := n, r_unlocked := u\<rparr>)"
  by (simp_all add: diskless_def)

lemma session_ok_cong:
  "heap w' = heap w \<Longrightarrow> hnext w' = hnext w \<Longrightarrow> session_ok c pw d pt u w' = session_ok c pw d pt u w"
  by (simp add: session_ok_def)

lemma unlocked_ok_cong:
  "heap w' = heap w \<Longrightarrow> hnext w' = hnext w \<Longrightarrow> unlocked_ok c pw es u w' = unlocked_ok c pw es u w"
  using session_ok_cong [of w' w] by (simp add: unlocked_ok_def)

lemma deserialize_payload:
  "list_all entry_ok es \<Longrightarrow> deserialize_entries rp' (map of_nat (json_dumps rp (payload es))) = Inr es"
  by (rule deserialize_serialize [OF _ serialize_entries_ok])

section \<open>Saving\<close>

text \<open>
  What an operation that ends with a write leaves, whether it raised or not: the new entries and the
  new password in memory, with the counter one higher, and on disk the new vault or, if it raised,
  perhaps the old one.
\<close>

definition stored ::
  "crypto \<Rightarrow> bytes \<Rightarrow> entry list \<Rightarrow> 'z session_scheme \<Rightarrow> 'a result \<Rightarrow> 'z session_scheme \<Rightarrow> bool" where
  "stored c pw es w r w' \<longleftrightarrow>
     live c pw w' \<and> r_entries w' = es \<and> same_object w w' \<and>
     uv_counter (r_unlocked w') = uv_counter (r_unlocked w) + 1 \<and> saved c pw es (r_path w) w r w' \<and>
     (quiet w \<and> tmp_free w (r_path w) \<longrightarrow> (\<exists>x. r = Inr x))"

lemma stored_bind:
  "stored c pw es w r w' \<Longrightarrow> m w1 = Some (r, w') \<Longrightarrow>
     \<exists>r'. pbind m (\<lambda>_. ret x) w1 = Some (r', w') \<and> stored c pw es w r' w' \<and>
       (\<forall>y. r' = Inr y \<longrightarrow> y = x)"
  by (cases r) (auto simp: pbind_def stored_def saved_def)

text \<open>Writing a file that matches what is in memory.\<close>

lemma write_stored:
  fixes w :: "'z session_scheme"
  assumes h: "at_home w" and es: "entries_ok (r_entries w)"
    and u: "unlocked_ok c pw (r_entries w) (r_unlocked w) w"
    and f: "file_holds c pw (r_entries w) data"
  shows "\<exists>r w'. write_atomic (r_path w) data w = Some (r, w') \<and> live c pw w' \<and>
    r_entries w' = r_entries w \<and> r_unlocked w' = r_unlocked w \<and> same_object w w' \<and>
    saved c pw (r_entries w) (r_path w) w r w' \<and>
    (quiet w \<and> tmp_free w (r_path w) \<longrightarrow> (\<exists>x. r = Inr x))"
proof -
  from h have sr: "store_ready (r_path w) w" by (simp add: at_home_def)
  from write_atomic_returns [OF this, of data] obtain r w' where
    wr: "write_atomic (r_path w) data w = Some (r, w')" by auto
  have nofault: "\<exists>x. r = Inr x" if "quiet w" "tmp_free w (r_path w)"
    using write_atomic_quiet [OF _ _ that, of data] sr wr by (auto simp: store_ready_def)
  note wh = write_atomic_home [OF h wr]
  from wh(2) have "heap w' = heap w" "hnext w' = hnext w" by (simp_all add: frame_def)
  from unlocked_ok_cong [OF this] u wh(1,4,5) es have "live c pw w'" by (simp add: live_def)
  moreover have "saved c pw (r_entries w) (r_path w) w r w'"
    using wh(6) f endures_mono [OF write_atomic_endures [OF sr wr], of "file_holds c pw (r_entries w)"]
    by (cases r) (auto simp: saved_def vault_holds_def)
  ultimately show ?thesis using wr wh(3,4,5) nofault by blast
qed

lemma quiet_updates [simp]:
  fixes w :: "'z session_scheme"
  shows "quiet (w\<lparr>tpos := n\<rparr>) = quiet w" "quiet (w\<lparr>heap := h\<rparr>) = quiet w" "quiet (w\<lparr>hnext := m\<rparr>) = quiet w"
    "quiet (w\<lparr>ticks := n\<rparr>) = quiet w" "quiet (w\<lparr>r_entries := es\<rparr>) = quiet w"
    "quiet (w\<lparr>r_unlocked := u\<rparr>) = quiet w"
    "tmp_free (w\<lparr>tpos := n\<rparr>) p = tmp_free w p" "tmp_free (w\<lparr>heap := h\<rparr>) p = tmp_free w p"
    "tmp_free (w\<lparr>hnext := m\<rparr>) p = tmp_free w p" "tmp_free (w\<lparr>ticks := n\<rparr>) p = tmp_free w p"
    "tmp_free (w\<lparr>r_entries := es\<rparr>) p = tmp_free w p" "tmp_free (w\<lparr>r_unlocked := u\<rparr>) p = tmp_free w p"
  by (simp_all add: quiet_def tmp_free_def)

lemma repo_persist_ok:
  fixes w :: "'z session_scheme"
  assumes c: "crypto_ok c" and h: "at_home w" and es: "entries_ok (r_entries w)"
    and s: "session_ok c pw d b0 (r_unlocked w) w" and fits: "body_fits rp (r_entries w)"
    and n: "uv_counter (r_unlocked w) + 1 < 2 ^ 64"
  shows "\<exists>r w'. repo_persist c rp w = Some (r, w') \<and> stored c pw (r_entries w) w r w'"
proof -
  define es where "es = r_entries w"
  define b where "b = (map of_nat (json_dumps rp (payload es)) :: bytes)"
  have ser: "serialize_entries rp es = Inr b" by (simp add: b_def serialize_entries_ok)
  have des: "deserialize_entries rp' b = Inr es" for rp'
    using assms(3) by (simp add: b_def deserialize_payload entries_ok_def es_def)
  have "length b \<le> MAX_PLAINTEXT" using fits by (simp add: b_def es_def body_fits_def)
  from vault_save_ok [OF c s this n] obtain f u' where
      so: "session_ok c pw d b u' (after_save (r_unlocked w) b w)"
    and se: "sealed c pw f d b" and cnt: "uv_counter u' = uv_counter (r_unlocked w) + 1"
    and run: "vault_save c (r_unlocked w) b w = Some (Inr (file_bytes f, u'), after_save (r_unlocked w) b w)"
    by auto
  define w1 where "w1 = (after_save (r_unlocked w) b w)\<lparr>r_unlocked := u'\<rparr>"
  have w1: "r_entries w1 = es" "r_unlocked w1 = u'" "r_path w1 = r_path w" "at_home w1" "same_object w w1"
      "quiet w1 = quiet w" "tmp_free w1 p = tmp_free w p" "diskless w w1" for p
    using h by (simp_all add: w1_def after_save_def es_def same_object_def diskless_def)
  have "heap w1 = heap (after_save (r_unlocked w) b w)" "hnext w1 = hnext (after_save (r_unlocked w) b w)"
    by (simp_all add: w1_def)
  from session_ok_cong [OF this] so have "session_ok c pw d b u' w1" by simp
  with des have "unlocked_ok c pw (r_entries w1) (r_unlocked w1) w1"
    unfolding unlocked_ok_def w1(1,2) by blast
  moreover have "entries_ok (r_entries w1)" using assms(3) by (simp add: w1(1) es_def)
  moreover have "file_holds c pw (r_entries w1) (file_bytes f)"
    unfolding file_holds_def w1(1) using se des by blast
  ultimately obtain r w' where wr: "write_atomic (r_path w1) (file_bytes f) w1 = Some (r, w')"
    and l: "live c pw w'" "r_entries w' = r_entries w1" "r_unlocked w' = r_unlocked w1"
      "same_object w1 w'" "saved c pw (r_entries w1) (r_path w1) w1 r w'"
      "quiet w1 \<and> tmp_free w1 (r_path w1) \<longrightarrow> (\<exists>x. r = Inr x)"
    using write_stored [OF w1(4)] by blast
  have "repo_persist c rp w = Some (r, w')"
    using run wr ser by (simp add: repo_persist_def pbind_def [of "vault_save c u b" for u b] w1_def es_def
        pbind_gets pbind_modify)
  moreover have "stored c pw es w r w'"
    unfolding stored_def
    using l w1(1-7) cnt same_object_trans [OF w1(5) l(4)] saved_start [OF w1(8), of c pw _ _ r w'] by simp
  ultimately show ?thesis by (auto simp: es_def)
qed

text \<open>A step in memory followed by \<open>_persist\<close>.\<close>

definition mem_step :: "'z session_scheme \<Rightarrow> 'z session_scheme \<Rightarrow> bool" where
  "mem_step w w1 \<longleftrightarrow>
     same_object w w1 \<and> at_home w1 \<and> heap w1 = heap w \<and> hnext w1 = hnext w \<and>
     r_unlocked w1 = r_unlocked w \<and> diskless w w1 \<and>
     quiet w1 = quiet w \<and> tmp_free w1 (r_path w) = tmp_free w (r_path w)"

lemma persist_after:
  fixes w :: "'z session_scheme"
  assumes c: "crypto_ok c" and l: "live c pw w" and m: "mem_step w w1"
    and es: "entries_ok (r_entries w1)" and room: "body_bound (r_entries w1) \<le> MAX_PLAINTEXT"
    and n: "uv_counter (r_unlocked w) + 1 < 2 ^ 64"
  shows "\<exists>r w'. repo_persist c rp w1 = Some (r, w') \<and> stored c pw (r_entries w1) w r w'"
proof -
  from m have m': "same_object w w1" "at_home w1" "heap w1 = heap w" "hnext w1 = hnext w"
    "r_unlocked w1 = r_unlocked w" "diskless w w1"
    "quiet w1 = quiet w" "tmp_free w1 (r_path w) = tmp_free w (r_path w)"
    by (simp_all add: mem_step_def)
  from l obtain d b where "session_ok c pw d b (r_unlocked w) w"
    by (auto simp: live_def unlocked_ok_def)
  then have s: "session_ok c pw d b (r_unlocked w1) w1"
    using session_ok_cong [OF m'(3,4)] m'(5) by simp
  have "body_fits rp (r_entries w1)" using length_payload room by (simp add: body_fits_def le_trans [OF length_payload])
  from repo_persist_ok [OF c m'(2) es s this] n m'(5) obtain r w' where
    p: "repo_persist c rp w1 = Some (r, w')" "stored c pw (r_entries w1) w1 r w'" by auto
  have "r_path w1 = r_path w" using m'(1) by (simp add: same_object_def)
  with p(2) m'(5,7,8) same_object_trans [OF m'(1)] saved_start [OF m'(6), of c pw _ _ r w'] have "stored c pw (r_entries w1) w r w'"
    by (simp add: stored_def)
  with p(1) show ?thesis by blast
qed

section \<open>The operations\<close>

lemma now_iso_eq:
  fixes w :: "'z session_scheme"
  shows "now_iso w = Some (Inr (utc_isoformat (clock w (ticks w))), w\<lparr>ticks := Suc (ticks w)\<rparr>)"
  by (simp add: now_iso_def read_clock_def pbind_def)

lemma repo_get_eq:
  "repo_get i w = (case find_entry i (r_entries w) of
     Some e \<Rightarrow> Some (Inr e, w) | None \<Rightarrow> Some (Inl (EntryNotFoundError i), w))"
  by (simp add: repo_get_def split: option.split)

text \<open>The new entry's fields.\<close>

definition is_new_entry ::
  "'z session_scheme \<Rightarrow> pystr \<Rightarrow> pystr \<Rightarrow> pystr \<Rightarrow> pystr \<Rightarrow> entry \<Rightarrow> bool" where
  "is_new_entry w service username password notes e \<longleftrightarrow>
     e_service e = service \<and> e_username e = username \<and> e_password e = password \<and> e_notes e = notes \<and>
     e_created e = utc_isoformat (clock w (ticks w)) \<and>
     e_updated e = utc_isoformat (clock w (Suc (ticks w))) \<and>
     length (e_id e) = 8 \<and> find_entry (e_id e) (r_entries w) = None"

lemma repo_add_ok:
  fixes w :: "'z session_scheme"
  assumes c: "crypto_ok c" and l: "live c pw w"
    and plain: "plain_str s" "plain_str u" "plain_str p" "plain_str nt"
    and room: "body_bound (r_entries w) + 12 * (length s + length u + length p + length nt) + 790 \<le> MAX_PLAINTEXT"
    and n: "uv_counter (r_unlocked w) + 1 < 2 ^ 64"
    and fresh: "find_entry (drawn_id w (Suc k)) (r_entries w) = None"
  shows "\<exists>e r w'. repo_add c rp s u p nt w = Some (r, w') \<and> is_new_entry w s u p nt e \<and>
    stored c pw (append_entry e (r_entries w)) w r w' \<and> (\<forall>x. r = Inr x \<longrightarrow> x = e)"
proof -
  let ?c = "utc_isoformat (clock w (ticks w))" and ?t = "utc_isoformat (clock w (Suc (ticks w)))"
  define e0 where "e0 = \<lparr>e_id = drawn_id w 0, e_service = s, e_username = u, e_password = p,
      e_notes = nt, e_created = ?c, e_updated = ?t\<rparr>"
  define w1 where "w1 = w\<lparr>tpos := tpos w + 16, ticks := Suc (Suc (ticks w))\<rparr>"
  have "drawn_id w1 k = drawn_id w (Suc k)" by (simp add: drawn_id_def w1_def algebra_simps)
  with fresh fresh_entry_returns [of w1 k "r_entries w" e0] obtain y where
    y: "fresh_entry (r_entries w) e0 w1 = Some y" by auto
  have "id_text (e_id e0)" by (simp add: e0_def drawn_id_def drawn_id_text)
  from fresh_entry_result [OF y this] obtain i m where
    yi: "y = (Inr (e0\<lparr>e_id := i\<rparr>), w1\<lparr>tpos := m\<rparr>)" "find_entry i (r_entries w) = None" "id_text i"
    by blast
  define e where "e = e0\<lparr>e_id := i\<rparr>"
  define w2 where "w2 = (w1\<lparr>tpos := m\<rparr>)\<lparr>r_entries := append_entry e (r_entries w)\<rparr>"
  have new: "is_new_entry w s u p nt e"
    using yi(2,3) by (simp add: is_new_entry_def e_def e0_def id_text_def)
  have ok: "entries_ok (r_entries w2)"
    using l yi(2,3) plain utc_isoformat_plain(1) entry_store.invar_insert [of "r_entries w" e]
    by (simp add: w2_def append_entry_def e_def e0_def live_def entries_ok_def entry_ok_def id_text_def)
  have "mem_step w w2"
    using l by (simp add: mem_step_def w2_def w1_def live_def same_object_def)
  moreover have "body_bound (r_entries w2) \<le> MAX_PLAINTEXT"
    using room yi(3) utc_isoformat_plain(2)
    by (simp add: w2_def append_entry_def body_bound_def entry_chars_def e_def e0_def id_text_def)
  ultimately obtain r w' where p: "repo_persist c rp w2 = Some (r, w')" "stored c pw (r_entries w2) w r w'"
    using persist_after [OF c l _ ok _ n] by blast
  from stored_bind [where m = "repo_persist c rp" and x = e, OF p(2,1)] obtain r' where
    r': "stored c pw (r_entries w2) w r' w'" "\<forall>y. r' = Inr y \<longrightarrow> y = e"
      "pbind (repo_persist c rp) (\<lambda>_. ret e) w2 = Some (r', w')"
    by blast
  have "new_entry_id w = Some (Inr (drawn_id w 0), w\<lparr>tpos := tpos w + 16\<rparr>)"
    by (simp add: new_entry_id_eq drawn_id_def)
  then have "repo_add c rp s u p nt w =
      pbind (fresh_entry (r_entries w) e0) (\<lambda>e.
      pbind (modify (\<lambda>w. w\<lparr>r_entries := r_entries w @ [e]\<rparr>)) (\<lambda>_.
      pbind (repo_persist c rp) (\<lambda>_. ret e))) w1"
    by (simp add: repo_add_def pbind_Inr [of new_entry_id] pbind_Inr [OF now_iso_eq] e0_def w1_def)
  also have "\<dots> = Some (r', w')"
    using r'(3)
    by (subst pbind_Inr [where m = "fresh_entry (r_entries w) e0", OF y [unfolded yi(1)]])
       (simp add: w2_def w1_def e_def append_entry_def)
  finally have "repo_add c rp s u p nt w = Some (r', w')" .
  with new r' show ?thesis by (auto simp: w2_def)
qed

text \<open>An entry as it is after \<open>update_entry\<close>.\<close>

lemma updated_entry_simps [simp]:
  "e_id (updated_entry e s u p nt t) = e_id e"
  "e_created (updated_entry e s u p nt t) = e_created e" "e_updated (updated_entry e s u p nt t) = t"
  by (simp_all add: updated_entry_def)

lemma updated_entry_fields:
  "e_service (updated_entry e s u p nt t) = (case s of None \<Rightarrow> e_service e | Some v \<Rightarrow> v)"
  "e_username (updated_entry e s u p nt t) = (case u of None \<Rightarrow> e_username e | Some v \<Rightarrow> v)"
  "e_password (updated_entry e s u p nt t) = (case p of None \<Rightarrow> e_password e | Some v \<Rightarrow> v)"
  "e_notes (updated_entry e s u p nt t) = (case nt of None \<Rightarrow> e_notes e | Some v \<Rightarrow> v)"
  by (simp_all add: updated_entry_def)

definition plain_opt :: "pystr option \<Rightarrow> bool" where
  "plain_opt x \<longleftrightarrow> (case x of None \<Rightarrow> True | Some s \<Rightarrow> plain_str s)"

lemma updated_entry_ok:
  "entry_ok e \<Longrightarrow> plain_opt s \<Longrightarrow> plain_opt u \<Longrightarrow> plain_opt p \<Longrightarrow> plain_opt nt \<Longrightarrow> plain_str t \<Longrightarrow>
     entry_ok (updated_entry e s u p nt t)"
  by (simp add: entry_ok_def updated_entry_def plain_opt_def split: option.splits)

lemma entries_ok_replace:
  "entries_ok es \<Longrightarrow> entry_ok y \<Longrightarrow> e_id y = i \<Longrightarrow> entries_ok (replace_first i y es)"
  using set_replace_first [of i y es] entry_store.invar_replace [of es y i]
  by (auto simp: entries_ok_def list_all_iff)

lemma entries_ok_drop: "entries_ok es \<Longrightarrow> entries_ok (drop_first i es)"
  using set_drop_first [of i es] entry_store.invar_drop [of es i]
  by (auto simp: entries_ok_def list_all_iff)

lemma mem_step_entries:
  "live c pw w \<Longrightarrow> mem_step w (w\<lparr>ticks := t, r_entries := es\<rparr>)"
  "live c pw w \<Longrightarrow> mem_step w (w\<lparr>r_entries := es\<rparr>)"
  by (simp_all add: mem_step_def live_def same_object_def)

lemma repo_update_ok:
  fixes w :: "'z session_scheme"
  assumes c: "crypto_ok c" and l: "live c pw w" and e: "find_entry i (r_entries w) = Some e"
    and plain: "plain_opt s" "plain_opt u" "plain_opt p" "plain_opt nt"
    and y: "y = updated_entry e s u p nt (utc_isoformat (clock w (ticks w)))"
    and room: "body_bound (replace_first i y (r_entries w)) \<le> MAX_PLAINTEXT"
    and n: "uv_counter (r_unlocked w) + 1 < 2 ^ 64"
  shows "\<exists>r w'. repo_update c rp i s u p nt w = Some (r, w') \<and>
    stored c pw (replace_first i y (r_entries w)) w r w' \<and> (\<forall>x. r = Inr x \<longrightarrow> x = y)"
proof -
  define es where "es = replace_first i y (r_entries w)"
  define w2 where "w2 = w\<lparr>ticks := Suc (ticks w), r_entries := es\<rparr>"
  from entry_index_found [OF e] obtain k where
    k: "entry_index e (r_entries w) = Inr k" "(r_entries w)[k := y] = es" unfolding es_def by blast
  have "entry_ok e" using l find_entry_in [OF e] by (auto simp: live_def entries_ok_def list_all_iff)
  from updated_entry_ok [OF this plain utc_isoformat_plain(1)] have "entry_ok y" by (simp add: y)
  moreover have "e_id y = i" using find_entry_id [OF e] by (simp add: y)
  ultimately have ok: "entries_ok (r_entries w2)"
    using l entries_ok_replace by (simp add: w2_def es_def live_def)
  have "mem_step w w2" using mem_step_entries(1) [OF l] by (simp add: w2_def)
  moreover have "body_bound (r_entries w2) \<le> MAX_PLAINTEXT" using room by (simp add: w2_def es_def)
  ultimately obtain r w' where p: "repo_persist c rp w2 = Some (r, w')" "stored c pw (r_entries w2) w r w'"
    using persist_after [OF c l _ ok _ n] by blast
  from stored_bind [where m = "repo_persist c rp" and x = y, OF p(2,1)] obtain r' where
    r': "stored c pw (r_entries w2) w r' w'" "\<forall>x. r' = Inr x \<longrightarrow> x = y"
      "pbind (repo_persist c rp) (\<lambda>_. ret y) w2 = Some (r', w')"
    by blast
  have "repo_get i w = Some (Inr e, w)" using e by (simp add: repo_get_eq)
  then have "repo_update c rp i s u p nt w = pbind (repo_persist c rp) (\<lambda>_. ret y) w2"
    using k by (simp add: repo_update_def pbind_Inr [of "repo_get i"] pbind_Inr [OF now_iso_eq] Let_def
        w2_def flip: y)
  with r' show ?thesis by (auto simp: w2_def es_def)
qed

lemma repo_delete_ok:
  fixes w :: "'z session_scheme"
  assumes c: "crypto_ok c" and l: "live c pw w" and e: "find_entry i (r_entries w) = Some e"
    and room: "body_bound (drop_first i (r_entries w)) \<le> MAX_PLAINTEXT"
    and n: "uv_counter (r_unlocked w) + 1 < 2 ^ 64"
  shows "\<exists>r w'. repo_delete c rp i w = Some (r, w') \<and> stored c pw (drop_first i (r_entries w)) w r w'"
proof -
  define w2 where "w2 = w\<lparr>r_entries := drop_first i (r_entries w)\<rparr>"
  have ok: "entries_ok (r_entries w2)" using l entries_ok_drop by (simp add: w2_def live_def)
  have "mem_step w w2" using mem_step_entries(2) [OF l] by (simp add: w2_def)
  moreover have "body_bound (r_entries w2) \<le> MAX_PLAINTEXT" using room by (simp add: w2_def)
  ultimately obtain r w' where p: "repo_persist c rp w2 = Some (r, w')" "stored c pw (r_entries w2) w r w'"
    using persist_after [OF c l _ ok _ n] by blast
  have "repo_get i w = Some (Inr e, w)" using e by (simp add: repo_get_eq)
  then have "repo_delete c rp i w = repo_persist c rp w2"
    using entry_remove_found [OF e] by (simp add: repo_delete_def pbind_Inr [of "repo_get i"] w2_def)
  with p show ?thesis by (auto simp: w2_def)
qed

lemma repo_missing:
  assumes "find_entry i (r_entries w) = None"
  shows "repo_get i w = Some (Inl (EntryNotFoundError i), w)"
    and "repo_update c rp i s u p nt w = Some (Inl (EntryNotFoundError i), w)"
    and "repo_delete c rp i w = Some (Inl (EntryNotFoundError i), w)"
proof -
  show g: "repo_get i w = Some (Inl (EntryNotFoundError i), w)" using assms by (simp add: repo_get_eq)
  then show "repo_update c rp i s u p nt w = Some (Inl (EntryNotFoundError i), w)"
    "repo_delete c rp i w = Some (Inl (EntryNotFoundError i), w)"
    by (simp_all add: repo_update_def repo_delete_def pbind_Inl [where m = "repo_get i", OF g])
qed

text \<open>
  Changing the password: the entries stay, and what is in memory is under the new password even if
  the write failed.
\<close>

lemma repo_change_password_ok:
  fixes w :: "'z session_scheme"
  assumes c: "crypto_ok c" and l: "live c pw w"
    and q: "case params of None \<Rightarrow> True | Some q \<Rightarrow> params_ok q"
    and n: "uv_counter (r_unlocked w) + 1 < 2 ^ 64"
  shows "\<exists>r w'. repo_change_password c pw' params w = Some (r, w') \<and> stored c pw' (r_entries w) w r w'"
proof -
  from l obtain d b where s: "session_ok c pw d b (r_unlocked w) w"
    and des: "\<forall>rp. deserialize_entries rp b = Inr (r_entries w)"
    by (auto simp: live_def unlocked_ok_def)
  have "params_ok (case params of None \<Rightarrow> uv_params (r_unlocked w) | Some q \<Rightarrow> q)"
    using q s by (cases params) (simp_all add: session_ok_def)
  from vault_change_password_ok [OF c s this n, of pw'] obtain f u' where
      se: "sealed c pw' f d b" and cnt: "uv_counter u' = uv_counter (r_unlocked w) + 1"
    and so: "session_ok c pw' d b u' (w\<lparr>tpos := 40 + tpos w\<rparr>)"
    and run: "vault_change_password c (r_unlocked w) pw' params w
      = Some (Inr (file_bytes f, u'), w\<lparr>tpos := 40 + tpos w\<rparr>)"
    by auto
  define w1 where "w1 = w\<lparr>tpos := 40 + tpos w, r_unlocked := u'\<rparr>"
  have w1: "r_entries w1 = r_entries w" "r_unlocked w1 = u'" "r_path w1 = r_path w" "at_home w1"
      "same_object w w1" "quiet w1 = quiet w" "tmp_free w1 p = tmp_free w p" "diskless w w1" for p
    using l by (simp_all add: w1_def live_def same_object_def)
  have "heap w1 = heap (w\<lparr>tpos := 40 + tpos w\<rparr>)" "hnext w1 = hnext (w\<lparr>tpos := 40 + tpos w\<rparr>)"
    by (simp_all add: w1_def)
  from session_ok_cong [OF this] so des have "unlocked_ok c pw' (r_entries w1) (r_unlocked w1) w1"
    unfolding unlocked_ok_def w1(1,2) by blast
  moreover have "entries_ok (r_entries w1)" using l by (simp add: w1(1) live_def)
  moreover have "file_holds c pw' (r_entries w1) (file_bytes f)"
    unfolding file_holds_def w1(1) using se des by blast
  ultimately obtain r w' where wr: "write_atomic (r_path w1) (file_bytes f) w1 = Some (r, w')"
    and m: "live c pw' w'" "r_entries w' = r_entries w1" "r_unlocked w' = r_unlocked w1"
      "same_object w1 w'" "saved c pw' (r_entries w1) (r_path w1) w1 r w'"
      "quiet w1 \<and> tmp_free w1 (r_path w1) \<longrightarrow> (\<exists>x. r = Inr x)"
    using write_stored [OF w1(4)] by blast
  have "repo_change_password c pw' params w = Some (r, w')"
    using run wr by (simp add: repo_change_password_def pbind_Inr [of "vault_change_password c u pw' params" for u] w1_def)
  moreover have "stored c pw' (r_entries w) w r w'"
    unfolding stored_def
    using m w1(1-7) cnt same_object_trans [OF w1(5) m(4)] saved_start [OF w1(8), of c pw' _ _ r w'] by simp
  ultimately show ?thesis by blast
qed

end
