(* ===== verification/RepositoryLifecycle.thy ===== *)
theory RepositoryLifecycle
  imports RepositoryProofs
begin

text \<open>
  Creating, opening and closing a repository: when they succeed the invariant \<open>live\<close> starts or ends,
  and when they raise the lock is as it was before.
\<close>

section \<open>Programs of the memory layer\<close>

text \<open>Programs that change only the random position, the buffers and the fields of the object.\<close>

definition mem_only :: "'z session_scheme \<Rightarrow> 'z session_scheme \<Rightarrow> bool" where
  "mem_only w w' \<longleftrightarrow> (\<exists>n h m. w' = w\<lparr>tpos := n, heap := h, hnext := m\<rparr>)"

lemma mem_only_refl [simp]: "mem_only w w"
  unfolding mem_only_def by (intro exI [of _ "tpos w"] exI [of _ "heap w"] exI [of _ "hnext w"]) simp

lemma mem_only_trans: "mem_only w w1 \<Longrightarrow> mem_only w1 w2 \<Longrightarrow> mem_only w w2"
  unfolding mem_only_def by (elim exE) (simp, blast)

lemma mem_only_updates [simp]:
  "mem_only w (w\<lparr>tpos := n\<rparr>)" "mem_only w (w\<lparr>heap := h, hnext := m\<rparr>)" "mem_only w (memset_zero a w)"
proof -
  show "mem_only w (w\<lparr>tpos := n\<rparr>)" unfolding mem_only_def
    by (intro exI [of _ n] exI [of _ "heap w"] exI [of _ "hnext w"]) simp
  show "mem_only w (w\<lparr>heap := h, hnext := m\<rparr>)" unfolding mem_only_def
    by (intro exI [of _ "tpos w"] exI [of _ h] exI [of _ m]) simp
  show "mem_only w (memset_zero a w)" unfolding mem_only_def memset_zero_def
    by (intro exI [of _ "tpos w"] exI exI [of _ "hnext w"]) simp
qed

text \<open>A program that always returns and is \<open>mem_only\<close>.\<close>

definition in_memory :: "('z session_scheme, 'a) prog \<Rightarrow> bool" where
  "in_memory m \<longleftrightarrow> (\<forall>w. \<exists>r w'. m w = Some (r, w') \<and> mem_only w w')"

lemma in_memory_lift: "in_memory (lift r)"
  by (simp add: in_memory_def)

lemma in_memory_ret: "in_memory (ret x)"
  by (simp add: in_memory_def)

lemma in_memory_throw: "in_memory (throw e)"
  by (simp add: in_memory_def)

lemma in_memory_bind: "in_memory m \<Longrightarrow> (\<And>x. in_memory (f x)) \<Longrightarrow> in_memory (pbind m f)"
  unfolding in_memory_def
proof
  fix w assume m: "\<forall>w. \<exists>r w'. m w = Some (r, w') \<and> mem_only w w'"
    and f: "\<And>x. \<forall>w. \<exists>r w'. f x w = Some (r, w') \<and> mem_only w w'"
  from m obtain r w1 where 1: "m w = Some (r, w1)" "mem_only w w1" by blast
  show "\<exists>r w'. pbind m f w = Some (r, w') \<and> mem_only w w'"
  proof (cases r)
    case (Inr x)
    from f [of x] obtain r' w2 where "f x w1 = Some (r', w2)" "mem_only w1 w2" by blast
    with 1 Inr mem_only_trans show ?thesis by (auto simp: pbind_def)
  qed (use 1 in \<open>simp add: pbind_def\<close>)
qed

lemma in_memory_finally:
  "in_memory m \<Longrightarrow> in_memory f \<Longrightarrow> in_memory (with_finally m f)"
  unfolding in_memory_def
proof
  fix w assume m: "\<forall>w. \<exists>r w'. m w = Some (r, w') \<and> mem_only w w'"
    and f: "\<forall>w. \<exists>r w'. f w = Some (r, w') \<and> mem_only w w'"
  from m obtain r w1 where 1: "m w = Some (r, w1)" "mem_only w w1" by blast
  from f obtain r' w2 where 2: "f w1 = Some (r', w2)" "mem_only w1 w2" by blast
  show "\<exists>r w'. with_finally m f w = Some (r, w') \<and> mem_only w w'"
    using 1 2 mem_only_trans by (cases r') (auto simp: with_finally_def)
qed

lemma in_memory_prims:
  "in_memory (urandom n)" "in_memory (new_bytearray b)" "in_memory (read_buffer a)"
  "in_memory (wipe (ByteArray a))"
  by (simp_all add: in_memory_def urandom_def new_bytearray_def read_buffer_def wipe_ByteArray)

lemma in_memory_encrypt: "in_memory (aead_encrypt c k p a)"
  unfolding aead_encrypt_def
  by (auto intro!: in_memory_bind in_memory_prims in_memory_lift in_memory_ret in_memory_throw)

lemma in_memory_vault_open: "in_memory (vault_open c pw data)"
  unfolding vault_open_def
  by (intro in_memory_bind in_memory_prims in_memory_lift in_memory_ret)

lemma in_memory_vault_create: "in_memory (vault_create c pw pt p)"
  unfolding vault_create_def Let_def
  by (intro in_memory_bind in_memory_finally in_memory_prims in_memory_encrypt in_memory_lift)

section \<open>The lock is kept by the bodies\<close>

text \<open>The files are as the program expects them; and the lock is held.\<close>

definition outside :: "pystr \<Rightarrow> 'z proc_scheme \<Rightarrow> bool" where
  "outside path w \<longleftrightarrow> lock_ok w \<and> store_ready path w \<and> lock_clear w path"

definition lock_at :: "pystr \<Rightarrow> 'z proc_scheme \<Rightarrow> bool" where
  "lock_at path w \<longleftrightarrow> outside path w \<and> lk_path w = path @ lit ''.lock''"

definition inside :: "pystr \<Rightarrow> 'z proc_scheme \<Rightarrow> bool" where
  "inside path w \<longleftrightarrow> outside path w \<and> lock_mine w \<and> lk_path w = path @ lit ''.lock''"

lemma inside_iff: "inside path w \<longleftrightarrow> lock_at path w \<and> lock_mine w"
  by (auto simp: inside_def lock_at_def)

lemma at_home_inside: "at_home w \<longleftrightarrow> \<not> r_closed w \<and> inside (r_path w) w"
  by (auto simp: at_home_def inside_def outside_def)

lemma inside_updates [simp]:
  fixes w :: "'z session_scheme"
  shows "inside path (w\<lparr>tpos := n\<rparr>) = inside path w" "inside path (w\<lparr>heap := h\<rparr>) = inside path w"
    "inside path (w\<lparr>hnext := m\<rparr>) = inside path w"
    "inside path (w\<lparr>r_path := p\<rparr>) = inside path w" "inside path (w\<lparr>r_unlocked := u\<rparr>) = inside path w"
    "inside path (w\<lparr>r_entries := es\<rparr>) = inside path w" "inside path (w\<lparr>r_closed := b\<rparr>) = inside path w"
  by (simp_all add: inside_def outside_def home_defs wf_os_def resolve_def)

lemma inside_mem_only: "mem_only w w' \<Longrightarrow> inside path w' = inside path w"
  by (auto simp: mem_only_def)

lemma keeps_in_memory: "in_memory m \<Longrightarrow> keeps (inside path) m"
  unfolding keeps_def
proof (rule tripleI)
  fix w :: "'a session_scheme" assume "in_memory m" and w: "inside path w"
  then obtain r w' where "m w = Some (r, w')" "mem_only w w'" unfolding in_memory_def by blast
  with inside_mem_only w show "case m w of None \<Rightarrow> False
      | Some (Inl e, w') \<Rightarrow> inside path w' | Some (Inr x, w') \<Rightarrow> inside path w'"
    by (cases r) auto
qed

lemma inside_frame:
  fixes w :: "'z session_scheme"
  assumes i: "inside path w" and f: "frame w w'" and wf: "wf_os w'" and sr: "store_ready path w'"
    and n: "\<And>i. d_names (disk w) (resolve w (lk_path w)) = Some i \<Longrightarrow>
      d_names (disk w') (resolve w (lk_path w)) = Some i"
  shows "inside path w'"
proof -
  have "os.more w' = os.more w" using f by (simp add: frame_def)
  note m = os_more_fields(5,6) [OF this]
  from i have "lock_ok w" "lock_mine w" by (simp_all add: inside_def outside_def)
  with lock_mine_frame [OF this f m n] lock_ok_frame [OF _ f wf] i m sr frame_resolve [OF f]
  show ?thesis by (simp add: inside_def outside_def lock_clear_def)
qed

lemma keeps_write_atomic: "keeps (inside path :: 'a session_scheme \<Rightarrow> bool) (write_atomic path data)"
  unfolding keeps_def
proof (rule tripleI)
  fix w :: "'a session_scheme" assume i: "inside path w"
  then have sr: "store_ready path w" and lk: "resolve w (lk_path w) \<noteq> resolve w path"
    by (simp_all add: inside_def outside_def lock_clear_def)
  from write_atomic_returns [OF sr, of data] obtain r w' where
    wr: "write_atomic path data w = Some (r, w')" by auto
  from write_atomic_content [OF sr wr] inside_frame [OF i, of w'] write_atomic_names [OF sr wr lk]
  have "inside path w'" by blast
  with wr show "case write_atomic path data w of None \<Rightarrow> False
      | Some (Inl e, w') \<Rightarrow> inside path w' | Some (Inr x, w') \<Rightarrow> inside path w'"
    by (cases r) auto
qed

lemma storage_read_returns: "wf_os w \<Longrightarrow> storage_read path w \<noteq> None"
  using storage_read_triple [of w path] by (cases "storage_read path w") (auto simp: triple_def)

lemma keeps_storage_read: "keeps (inside path :: 'a session_scheme \<Rightarrow> bool) (storage_read path)"
  unfolding keeps_def
proof (rule tripleI)
  fix w :: "'a session_scheme" assume i: "inside path w"
  then have sr: "store_ready path w" by (simp add: inside_def outside_def)
  then have "wf_os w" by (simp add: store_ready_def)
  from storage_read_returns [OF this, of path] obtain r w' where
    rd: "storage_read path w = Some (r, w')" by auto
  from storage_read_content [OF sr rd] inside_frame [OF i, of w'] have "inside path w'" by simp
  with rd show "case storage_read path w of None \<Rightarrow> False
      | Some (Inl e, w') \<Rightarrow> inside path w' | Some (Inr x, w') \<Rightarrow> inside path w'"
    by (cases r) auto
qed

lemma keeps_repo_init: "keeps (inside path) (repo_init rp path u)"
proof -
  have v: "in_memory (vault_read u)" unfolding vault_read_def
    by (intro in_memory_bind in_memory_lift in_memory_prims)
  have "keeps (inside path)
      (modify (\<lambda>w. w\<lparr>r_path := path, r_unlocked := u, r_entries := es, r_closed := False\<rparr>))" for es
    by (simp add: keeps_def triple_def modify_def)
  then show ?thesis unfolding repo_init_def
    by (intro keeps_bind [OF keeps_in_memory [OF v]] keeps_bind [OF keeps_in_memory [OF in_memory_lift]])
qed

lemma keeps_open_body: "keeps (inside path) (open_body c rp path pw)"
  unfolding open_body_def
  by (intro keeps_bind keeps_storage_read keeps_in_memory in_memory_vault_open keeps_repo_init)

lemma keeps_create_body: "keeps (inside path) (create_body c rp path pw params)"
  unfolding create_body_def
  by (intro keeps_bind keeps_write_atomic keeps_in_memory in_memory_lift in_memory_vault_open
      in_memory_vault_create keeps_repo_init)

section \<open>The lock around a body\<close>

lemma outside_lock_frame: "outside path w \<Longrightarrow> lock_frame w w' \<Longrightarrow> lock_ok w' \<Longrightarrow> outside path w'"
  using lock_frame_resolve [of w w']
  by (simp add: outside_def store_ready_def tmp_clear_def lock_clear_def lock_ok_def lock_frame_def)

interpretation vault_lock: mutex lock_acquire lock_release lock_free lock_mine "lock_at path" for path
proof
  fix w :: "'a proc_scheme" assume "lock_at path w"
  then have "lock_ok w" by (simp add: lock_at_def outside_def)
  then show "lock_acquire w \<noteq> None" by (rule lock.acquire_returns)
next
  fix w :: "'a proc_scheme" and u w' assume at: "lock_at path w" and a: "lock_acquire w = Some (Inr u, w')"
  then have ok: "lock_ok w" by (simp add: lock_at_def outside_def)
  then have wf: "wf_os w" "has_fcntl w" by (simp_all add: lock_ok_def)
  from wf a have "lock_taken w w'" by (cases rule: lock_acquire_outcome) simp_all
  from lock_taken_holds(3) [OF this] lock.acquired [OF ok a] at outside_lock_frame [of path w w']
  show "lock_free w \<and> lock_mine w' \<and> lock_at path w'" by (simp add: lock_at_def lock_frame_def)
next
  fix w :: "'a proc_scheme" and e w' assume at: "lock_at path w" and a: "lock_acquire w = Some (Inl e, w')"
  then have ok: "lock_ok w" by (simp add: lock_at_def outside_def)
  then have wf: "wf_os w" "has_fcntl w" by (simp_all add: lock_ok_def)
  from wf a have "lock_refused w w'" by (cases rule: lock_acquire_outcome) simp_all
  then have "lock_frame w w'" by (simp add: lock_refused_def)
  with lock.refused [OF ok a] at outside_lock_frame [of path w w']
  show "lock_free w' = lock_free w \<and> lock_at path w'" by (simp add: lock_at_def lock_frame_def)
next
  fix w :: "'a proc_scheme" assume at: "lock_at path w" and m: "lock_mine w"
  then have ok: "lock_ok w" by (simp add: lock_at_def outside_def)
  from ok m obtain r w' where "lock_release w = Some (r, w')" "lock_free w'" "lock_ok w'" "lock_frame w w'"
    by (rule lock_release_mine)
  with at outside_lock_frame [of path w w']
  show "\<exists>r w'. lock_release w = Some (r, w') \<and> lock_free w' \<and> lock_at path w'"
    by (auto simp: lock_at_def lock_frame_def)
qed

definition with_lock_path :: "pystr \<Rightarrow> 'z proc_scheme \<Rightarrow> 'z proc_scheme" where
  "with_lock_path path w = w\<lparr>lk_path := path @ lit ''.lock'', lk_fd := None\<rparr>"

lemma pbind_lock_init [simp]: "pbind (lock_init path) f w = f () (with_lock_path path w)"
  by (simp add: pbind_def lock_init_def with_lock_path_def)

lemma lock_at_with [simp]: "lock_at path (with_lock_path path w) = outside path w"
  by (simp add: lock_at_def with_lock_path_def outside_def lock_ok_def store_ready_def tmp_clear_def
      lock_clear_def wf_os_def resolve_def)

lemma lock_free_with [simp]:
  "lock_free (with_lock_path path w) = (\<not> locked w (path @ lit ''.lock''))"
  by (simp add: lock_free_def with_lock_path_def locked_def resolve_def)

lemma with_lock_path_simps [simp]:
  "file_content p (with_lock_path path w) = file_content p w" "wf_os (with_lock_path path w) = wf_os w"
  "heap (with_lock_path path w) = heap w" "hnext (with_lock_path path w) = hnext w"
  "tape (with_lock_path path w) = tape w" "tpos (with_lock_path path w) = tpos w"
  "quiet (with_lock_path path w) = quiet w" "clock (with_lock_path path w) = clock w"
  "disk (with_lock_path path w) = disk w" "resolve (with_lock_path path w) p = resolve w p"
  by (simp_all add: with_lock_path_def file_content_def wf_os_def quiet_def resolve_def)

text \<open>
  Creating and opening always return; if they raise, the lock is free exactly if it was free before,
  and if they succeed it was free and is now held.
\<close>

lemma guarded_lock:
  assumes at: "lock_at path w" and k: "keeps (inside path) body"
  shows "\<exists>r w'. guarded lock_acquire lock_release body w = Some (r, w') \<and> lock_at path w' \<and>
    (case r of Inr x \<Rightarrow> lock_free w \<and> lock_mine w' | Inl e \<Rightarrow> lock_free w' = lock_free w)"
proof -
  have body: "\<exists>x w2. body w1 = Some (x, w2) \<and> lock_at path w2 \<and> lock_mine w2"
    if "lock_acquire w = Some (Inr (), w1)" for w1
  proof -
    from vault_lock.acquired [OF at that] have "inside path w1" by (simp add: inside_iff)
    with k show ?thesis unfolding keeps_def by (cases rule: tripleD) (auto simp: inside_iff)
  qed
  have "guarded lock_acquire lock_release body w \<noteq> None"
  proof (cases "lock_acquire w")
    case None
    with vault_lock.acquire_returns [OF at] show ?thesis by simp
  next
    case (Some a)
    obtain r w1 where a: "a = (r, w1)" by fastforce
    show ?thesis
    proof (cases r)
      case (Inr u)
      with Some a body [of w1] obtain x w2 where b: "body w1 = Some (x, w2)" "lock_at path w2" "lock_mine w2"
        by auto
      from vault_lock.released [OF b(2,3)] obtain y w3 where "lock_release w2 = Some (y, w3)" by blast
      with b(1) Some a Inr show ?thesis
        by (cases x; cases y) (simp_all add: guarded_def pbind_def handle_def)
    qed (use Some a in \<open>simp add: guarded_def pbind_def\<close>)
  qed
  then obtain r w' where g: "guarded lock_acquire lock_release body w = Some (r, w')" by auto
  from vault_lock.guarded_outcome [OF at g body] g show ?thesis by blast
qed

lemma guarded_normal:
  assumes "guarded a l body w = Some (Inr x, w')"
  obtains w1 where "a w = Some (Inr (), w1)" and "body w1 = Some (Inr x, w')"
  using assms
  by (auto simp: guarded_def pbind_def handle_def split: option.splits sum.splits)

lemma guarded_run:
  "a w = Some (Inr u, w1) \<Longrightarrow> body w1 = Some (Inr x, w') \<Longrightarrow> guarded a l body w = Some (Inr x, w')"
  by (simp add: guarded_def pbind_def handle_def)

section \<open>Success\<close>

text \<open>From a decrypted file to an open repository.\<close>

lemma init_live:
  fixes w :: "'z session_scheme"
  assumes c: "crypto_ok c" and i: "inside path w" and es: "entries_ok es" and f: "file_holds c pw es data"
  shows "\<exists>w'. pbind (vault_open c pw data) (\<lambda>u. repo_init rp path u) w = Some (Inr (), w') \<and>
    live c pw w' \<and> r_entries w' = es \<and> r_path w' = path \<and> file_content path w' = file_content path w \<and>
    quiet w' = quiet w"
proof -
  from f obtain g d b where g: "data = file_bytes g" and s: "sealed c pw g d b"
    and des: "\<forall>rp. deserialize_entries rp b = Inr es" by (auto simp: file_holds_def)
  let ?u = "opened g (hnext w)" and ?w = "after_open d b w"
  define w' where "w' = ?w\<lparr>r_path := path, r_unlocked := ?u, r_entries := es, r_closed := False\<rparr>"
  have so: "session_ok c pw d b ?u ?w" using opened_session_ok [OF s] .
  have "repo_init rp path ?u ?w = Some (Inr (), w')"
    using des by (simp add: repo_init_def pbind_Inr [where m = "vault_read ?u", OF vault_read_session [OF so]] modify_def w'_def)
  then have run: "pbind (vault_open c pw data) (\<lambda>u. repo_init rp path u) w = Some (Inr (), w')"
    by (simp add: g pbind_Inr [where m = "vault_open c pw (file_bytes g)", OF vault_open_sealed [OF c s]])
  have "heap w' = heap ?w" "hnext w' = hnext ?w" by (simp_all add: w'_def)
  from session_ok_cong [OF this] so des have "unlocked_ok c pw es ?u w'"
    unfolding unlocked_ok_def by blast
  moreover have "inside path w'" using i by (simp add: w'_def after_open_def)
  ultimately have "live c pw w'" using es by (simp add: live_def at_home_inside w'_def)
  moreover have "file_content path w' = file_content path w"
    by (simp add: w'_def after_open_def file_content_def resolve_def)
  moreover have "quiet w' = quiet w" by (simp add: w'_def after_open_def quiet_def)
  ultimately show ?thesis using run by (auto simp: w'_def)
qed

lemma open_body_live:
  fixes w :: "'z session_scheme"
  assumes c: "crypto_ok c" and i: "inside path w" and es: "entries_ok es"
    and v: "vault_holds c pw es path w" and r: "storage_read path w = Some (Inr data, w1)"
  shows "\<exists>w'. open_body c rp path pw w = Some (Inr (), w') \<and> live c pw w' \<and> r_entries w' = es \<and>
    r_path w' = path \<and> file_content path w' = file_content path w"
proof -
  from i have sr: "store_ready path w" by (simp add: inside_def outside_def)
  from storage_read_content [OF sr r] have fc: "file_content path w = Some data"
    and fr: "frame w w1" "disk w1 = disk w" by auto
  from v fc have f: "file_holds c pw es data" by (auto simp: vault_holds_def)
  from keeps_storage_read [of path] i have "inside path w1"
    unfolding keeps_def by (cases rule: tripleD) (use r in auto)
  from init_live [OF c this es f, of rp] fr frame_resolve [OF fr(1)]
  show ?thesis by (simp add: open_body_def pbind_Inr [where m = "storage_read path", OF r] file_content_def) blast
qed

lemma storage_read_quiet:
  assumes "wf_os w" and "quiet w" and "file_content path w = Some data"
  shows "\<exists>w'. storage_read path w = Some (Inr data, w')"
proof -
  have n: "\<not> read_done w (Suc 0) w'" for w' using quiet_faulted [OF assms(2)] by (simp add: read_done_def)
  from storage_read_triple [OF assms(1), of path] refl [of w]
  show ?thesis
    by (cases rule: tripleD) (use assms(3) n in \<open>auto simp: file_content_def visible_def\<close>)
qed

lemma vault_holds_frame:
  "file_content path w' = file_content path w \<Longrightarrow> vault_holds c pw es path w' = vault_holds c pw es path w"
  by (simp add: vault_holds_def)

lemma acquire_keeps_content:
  assumes at: "lock_at path w" and a: "lock_acquire w = Some (Inr u, w')"
  shows "inside path w'" and "file_content path w' = file_content path w" and "quiet w \<Longrightarrow> quiet w'"
    and "lock_free w"
proof -
  from vault_lock.acquired [OF at a] show "inside path w'" "lock_free w" by (simp_all add: inside_iff)
  from at have wf: "wf_os w" "has_fcntl w" and ne: "resolve w path \<noteq> resolve w (lk_path w)"
    by (auto simp: lock_at_def outside_def lock_ok_def lock_clear_def)
  from wf a have "lock_taken w w'" by (cases rule: lock_acquire_outcome) simp_all
  note f = lock_taken_holds(3) [OF this]
  show "file_content path w' = file_content path w" using lock_frame_content [OF f wf(1) ne] .
  show "quiet w \<Longrightarrow> quiet w'" using f by (simp add: quiet_def lock_frame_def)
qed

lemma repo_open_live:
  fixes w :: "'z session_scheme"
  assumes c: "crypto_ok c" and o: "outside path w" and es: "entries_ok es"
    and v: "vault_holds c pw es path w" and r: "repo_open c rp path pw w = Some (Inr u, w')"
  shows "live c pw w' \<and> r_entries w' = es \<and> r_path w' = path \<and> file_content path w' = file_content path w"
proof -
  let ?w = "with_lock_path path w"
  from r have "guarded lock_acquire lock_release (open_body c rp path pw) ?w = Some (Inr u, w')"
    by (simp add: repo_open_def)
  then obtain w1 where a: "lock_acquire ?w = Some (Inr (), w1)" and b: "open_body c rp path pw w1 = Some (Inr u, w')"
    by (rule guarded_normal)
  from o have at: "lock_at path ?w" by simp
  note ac = acquire_keeps_content [OF at a]
  from v have v1: "vault_holds c pw es path w1" using ac(2) by (simp add: vault_holds_def)
  from b obtain data w2 where "storage_read path w1 = Some (Inr data, w2)"
    by (auto simp: open_body_def result_simps)
  from open_body_live [OF c ac(1) es v1 this, of rp] b ac(2) show ?thesis by auto
qed

lemma repo_open_quiet:
  fixes w :: "'z session_scheme"
  assumes c: "crypto_ok c" and o: "outside path w" and es: "entries_ok es"
    and v: "vault_holds c pw es path w" and q: "quiet w" and free: "\<not> locked w (path @ lit ''.lock'')"
  shows "\<exists>w'. repo_open c rp path pw w = Some (Inr (), w')"
proof -
  let ?w = "with_lock_path path w"
  from o have at: "lock_at path ?w" by simp
  then have "lock_ok ?w" by (simp add: lock_at_def outside_def)
  from quiet_acquires [OF this] q free obtain w1 where a: "lock_acquire ?w = Some (Inr (), w1)" by auto
  note ac = acquire_keeps_content [OF at a]
  from v have v1: "vault_holds c pw es path w1" using ac(2) by (simp add: vault_holds_def)
  then obtain data where "file_content path w1 = Some data" by (auto simp: vault_holds_def)
  moreover have "wf_os w1" using ac(1) by (simp add: inside_def outside_def lock_ok_def)
  ultimately obtain w2 where "storage_read path w1 = Some (Inr data, w2)"
    using storage_read_quiet ac(3) q by fastforce
  from open_body_live [OF c ac(1) es v1 this, of rp] obtain w3 where
    "open_body c rp path pw w1 = Some (Inr (), w3)" by blast
  from guarded_run [where a = lock_acquire and body = "open_body c rp path pw", OF a this]
  show ?thesis by (auto simp: repo_open_def)
qed

section \<open>Creating\<close>

lemma create_body_ok:
  fixes w :: "'z session_scheme"
  assumes c: "crypto_ok c" and i: "inside path w" and p: "params_ok (params_or_default params)"
  shows "\<exists>r w'. create_body c rp path pw params w = Some (r, w') \<and> inside path w' \<and>
    (case r of
       Inr u \<Rightarrow> live c pw w' \<and> r_entries w' = [] \<and> r_path w' = path \<and> vault_holds c pw [] path w'
     | Inl e \<Rightarrow> file_content path w' = file_content path w \<or> vault_holds c pw [] path w')"
proof -
  define b where "b = (map of_nat (json_dumps rp (payload [])) :: bytes)"
  have ser: "serialize_entries rp [] = Inr b" by (simp add: b_def serialize_entries_ok)
  have des: "\<forall>rp. deserialize_entries rp b = Inr []" by (simp add: b_def deserialize_payload)
  have "length b \<le> 40" using length_payload [of rp "[]"] by (simp add: b_def body_bound_def)
  then have "length b \<le> MAX_PLAINTEXT" by (simp add: MAX_PLAINTEXT_def)
  from vault_create_ok [OF c p this, of pw w] obtain f d w1 where s: "sealed c pw f d b"
    and cr: "vault_create c pw b params w = Some (Inr (file_bytes f), w1)"
    and w1: "w1 = w\<lparr>tpos := tpos w + 72, heap := (heap w)(hnext w := replicate 32 0), hnext := Suc (hnext w)\<rparr>"
    by blast
  have fh: "file_holds c pw [] (file_bytes f)" unfolding file_holds_def using s des by blast
  have i1: "inside path w1" using i by (simp add: w1)
  then have sr: "store_ready path w1" by (simp add: inside_def outside_def)
  from write_atomic_returns [OF sr, of "file_bytes f"] obtain r w2 where
    wr: "write_atomic path (file_bytes f) w1 = Some (r, w2)" by auto
  from keeps_write_atomic [of path "file_bytes f"] i1 have i2: "inside path w2"
    unfolding keeps_def by (cases rule: tripleD) (use wr in auto)
  note wc = write_atomic_content [OF sr wr]
  have body: "create_body c rp path pw params w = pbind (write_atomic path (file_bytes f)) (\<lambda>_.
      pbind (vault_open c pw (file_bytes f)) (\<lambda>u. repo_init rp path u)) w1"
    by (simp add: create_body_def ser pbind_Inr [where m = "vault_create c pw b params", OF cr])
  show ?thesis
  proof (cases r)
    case (Inl e)
    have "file_content path w1 = file_content path w" by (simp add: w1)
    with Inl wc fh have "file_content path w2 = file_content path w \<or> vault_holds c pw [] path w2"
      by (auto simp: vault_holds_def)
    with Inl body wr i2 show ?thesis by (simp add: pbind_def)
  next
    case (Inr u)
    have "entries_ok []" by (simp add: entries_ok_def distinct_ids_def)
    from init_live [OF c i2 this fh, of rp] obtain w3 where
      run: "pbind (vault_open c pw (file_bytes f)) (\<lambda>u. repo_init rp path u) w2 = Some (Inr (), w3)"
      and l: "live c pw w3" "r_entries w3 = []" "r_path w3 = path" "file_content path w3 = file_content path w2"
      by blast
    have "vault_holds c pw [] path w3" using wc Inr fh l(4) by (auto simp: vault_holds_def)
    moreover have "inside path w3" using l(1,3) by (auto simp: live_def at_home_inside)
    moreover have "create_body c rp path pw params w = Some (Inr (), w3)"
      unfolding body using run by (simp add: pbind_Inr [where m = "write_atomic path (file_bytes f)", OF wr [unfolded Inr]])
    ultimately show ?thesis using l by (intro exI [of _ "Inr ()"] exI [of _ w3]) simp
  qed
qed

lemma create_locked_ok:
  fixes w :: "'z session_scheme"
  assumes c: "crypto_ok c" and o: "outside path w" and p: "params_ok (params_or_default params)"
    and r: "create_locked c rp path pw params w = Some (Inr u, w')"
  shows "live c pw w' \<and> r_entries w' = [] \<and> r_path w' = path \<and> vault_holds c pw [] path w'"
proof -
  let ?w = "with_lock_path path w"
  from r have "guarded lock_acquire lock_release (create_body c rp path pw params) ?w = Some (Inr u, w')"
    by (simp add: create_locked_def)
  then obtain w1 where a: "lock_acquire ?w = Some (Inr (), w1)"
    and b: "create_body c rp path pw params w1 = Some (Inr u, w')" by (rule guarded_normal)
  from o have at: "lock_at path ?w" by simp
  from create_body_ok [OF c acquire_keeps_content(1) [OF at a] p, of rp pw] b show ?thesis by auto
qed

section \<open>Closing\<close>

lemma live_parts:
  assumes "live c pw w"
  obtains d b where "session_ok c pw d b (r_unlocked w) w" and "inside (r_path w) w" and "\<not> r_closed w"
  using assms by (auto simp: live_def unlocked_ok_def at_home_inside)

lemma repo_close_ok:
  fixes w :: "'z session_scheme"
  assumes l: "live c pw w"
  shows "\<exists>r w'. repo_close w = Some (r, w') \<and> lock_at (r_path w) w' \<and> lock_free w' \<and>
    r_entries w' = [] \<and> disk w' = disk w \<and> cwd w' = cwd w \<and> (quiet w \<longrightarrow> quiet w') \<and>
    zeroed (heap w' (uv_dek (r_unlocked w))) \<and> zeroed (heap w' (uv_plaintext (r_unlocked w))) \<and>
    (r = Inr () \<and> r_closed w' \<and> lk_fd w' = None \<or> (\<exists>e. r = Inl e \<and> injected w e))"
proof -
  let ?u = "r_unlocked w"
  from l obtain d b where s: "session_ok c pw d b ?u w" and i: "inside (r_path w) w" and nc: "\<not> r_closed w"
    by (rule live_parts)
  define w1 where "w1 = memset_zero (uv_plaintext ?u) (memset_zero (uv_dek ?u) w)"
  have cl: "vault_close ?u w = Some (Inr (?u\<lparr>uv_closed := True\<rparr>), w1)"
    using s by (simp add: vault_close_def session_ok_def w1_def)
  define w2 where "w2 = w1\<lparr>r_unlocked := ?u\<lparr>uv_closed := True\<rparr>, r_entries := []\<rparr>"
  have mo: "mem_only w w1" unfolding w1_def
    by (rule mem_only_trans [OF mem_only_updates(3) mem_only_updates(3)])
  have i2: "inside (r_path w) w2" using i inside_mem_only [OF mo] by (simp add: w2_def)
  then have at: "lock_at (r_path w) w2" and ok: "lock_ok w2" and m: "lock_mine w2"
    by (simp_all add: inside_iff lock_at_def outside_def)
  have eq: "disk w2 = disk w" "cwd w2 = cwd w" "calls w2 = calls w" "faults w2 = faults w"
      "r_entries w2 = []" "quiet w2 = quiet w"
    by (simp_all add: w2_def w1_def memset_zero_def quiet_def)
  have z: "zeroed (heap w2 (uv_dek ?u))" "zeroed (heap w2 (uv_plaintext ?u))"
    by (simp_all add: w2_def w1_def)
  from ok m obtain r w3 where rel: "lock_release w2 = Some (r, w3)" and fr: "lock_free w3" "lock_ok w3"
    and o: "r = Inr () \<and> lk_fd w3 = None \<or> (\<exists>e. r = Inl e \<and> injected w2 e)"
    and d: "disk w3 = disk w2" "lock_frame w2 w3" by (rule lock_release_mine)
  have at3: "lock_at (r_path w) w3" using outside_lock_frame [OF _ d(2) fr(2), of "r_path w"] at d(2)
    by (simp add: lock_at_def lock_frame_def)
  have keep: "heap w3 = heap w2" "cwd w3 = cwd w2" "r_entries w3 = []" "quiet w2 \<Longrightarrow> quiet w3"
  proof -
    have "proc.more w3 = proc.more w2" "heap w3 = heap w2" "cwd w3 = cwd w2"
      using d(2) by (simp_all add: lock_frame_def)
    then show "heap w3 = heap w2" "cwd w3 = cwd w2" "r_entries w3 = []"
      using eq(5) by (cases w3; cases w2; simp)+
    show "quiet w2 \<Longrightarrow> quiet w3" using d(2) by (simp add: quiet_def lock_frame_def)
  qed
  have run: "repo_close w = pbind lock_release (\<lambda>_. modify (\<lambda>w. w\<lparr>r_closed := True\<rparr>)) w2"
    using nc by (simp add: repo_close_def pbind_Inr [where m = "vault_close ?u", OF cl] w2_def)
  show ?thesis
  proof (cases r)
    case (Inl e)
    with o have "injected w e" using eq by (simp add: injected_def)
    with Inl run rel at3 fr(1) d(1) keep eq z show ?thesis by (simp add: pbind_def)
  next
    case (Inr u)
    define w4 where "w4 = w3\<lparr>r_closed := True\<rparr>"
    have "lock_at (r_path w) w4" "lock_free w4"
      using at3 fr(1) by (simp_all add: w4_def lock_at_def outside_def home_defs wf_os_def resolve_def
          lock_free_def locked_def)
    moreover have "repo_close w = Some (Inr (), w4)"
      using Inr run rel by (simp add: pbind_def modify_def w4_def)
    moreover have "quiet w4 = quiet w3" by (simp add: w4_def quiet_def)
    ultimately show ?thesis using o Inr d(1) keep eq z by (simp add: w4_def)
  qed
qed

section \<open>The other names of the directory\<close>

lemma write_atomic_others:
  assumes "store_ready path w" and "write_atomic path data w = Some (Inr u, w')" and "n \<noteq> resolve w path"
  shows "d_names (disk w') n = d_names (disk w) n"
proof -
  from assms(1) have "wf_os w" "tmp_clear w path" by (simp_all add: store_ready_def)
  then show ?thesis
    by (cases rule: write_atomic_runs [where data = data]) (use assms(2,3) in \<open>simp_all add: renamed_def\<close>)
qed

lemma in_memory_same:
  "in_memory m \<Longrightarrow> m w = Some (r, w') \<Longrightarrow>
     disk w' = disk w \<and> cwd w' = cwd w \<and> tape w' = tape w \<and> faults w' = faults w \<and>
     tmp_names w' = tmp_names w"
  unfolding in_memory_def mem_only_def by (drule spec [of _ w]) auto

lemma repo_init_same:
  "repo_init rp path u w = Some (Inr x, w') \<Longrightarrow>
     disk w' = disk w \<and> cwd w' = cwd w \<and> tape w' = tape w \<and> faults w' = faults w \<and>
     tmp_names w' = tmp_names w \<and> r_unlocked w' = u"
proof -
  assume r: "repo_init rp path u w = Some (Inr x, w')"
  have v: "in_memory (vault_read u)" unfolding vault_read_def
    by (intro in_memory_bind in_memory_lift in_memory_prims)
  from r obtain b w1 es where 1: "vault_read u w = Some (Inr b, w1)"
    and w': "w' = w1\<lparr>r_path := path, r_unlocked := u, r_entries := es, r_closed := False\<rparr>"
    by (auto simp: repo_init_def result_simps modify_def)
  from in_memory_same [OF v 1] w' show ?thesis by simp
qed

text \<open>What else a successful \<open>create\<close> leaves alone, and the counter it starts with.\<close>

lemma create_body_facts:
  fixes w :: "'z session_scheme"
  assumes c: "crypto_ok c" and i: "inside path w" and p: "params_ok (params_or_default params)"
    and r: "create_body c rp path pw params w = Some (Inr u, w')"
  shows "tape w' = tape w \<and> faults w' = faults w \<and> cwd w' = cwd w \<and> tmp_names w' = tmp_names w \<and>
    uv_counter (r_unlocked w') = 0 \<and>
    (\<forall>n. n \<noteq> resolve w path \<longrightarrow> d_names (disk w') n = d_names (disk w) n)"
proof -
  define b where "b = (map of_nat (json_dumps rp (payload [])) :: bytes)"
  have ser: "serialize_entries rp [] = Inr b" by (simp add: b_def serialize_entries_ok)
  from r obtain data w1 w2 v w3 where cr: "vault_create c pw b params w = Some (Inr data, w1)"
    and wr: "write_atomic path data w1 = Some (Inr (), w2)"
    and op: "vault_open c pw data w2 = Some (Inr v, w3)" and ini: "repo_init rp path v w3 = Some (Inr u, w')"
    by (auto simp: create_body_def result_simps ser)
  have "length b \<le> 40" using length_payload [of rp "[]"] by (simp add: b_def body_bound_def)
  then have "length b \<le> MAX_PLAINTEXT" by (simp add: MAX_PLAINTEXT_def)
  from vault_create_ok [OF c p this, of pw w] cr obtain f d where s: "sealed c pw f d b"
    and data: "data = file_bytes f" and cnt: "pv_counter f = 0" by auto
  from vault_open_sealed [OF c s, of w2] op data have v: "v = opened f (hnext w2)" by simp
  have mo: "mem_only w w1"
    using in_memory_vault_create cr unfolding in_memory_def by (metis option.inject prod.inject)
  with i have "inside path w1" by (simp add: inside_mem_only)
  then have sr: "store_ready path w1" by (simp add: inside_def outside_def)
  from write_atomic_content [OF sr wr] have "frame w1 w2" by simp
  then have fr: "tape w2 = tape w1" "faults w2 = faults w1" "cwd w2 = cwd w1" "tmp_names w2 = tmp_names w1"
    by (simp_all add: frame_def)
  note s1 = in_memory_same [OF in_memory_vault_create cr] and s3 = in_memory_same [OF in_memory_vault_open op]
    and s4 = repo_init_same [OF ini]
  have "d_names (disk w') n = d_names (disk w) n" if "n \<noteq> resolve w path" for n
    using write_atomic_others [OF sr wr, of n] that s1 s3 s4 by (simp add: resolve_def)
  with fr s1 s3 s4 v cnt show ?thesis by (simp add: opened_def)
qed

end
