(* ===== verification/RepositorySpec.thy ===== *)
theory RepositorySpec
  imports RepositoryLifecycle
begin

text \<open>
  The contract of the repository: an abstract vault is a password and a list of entries
  (\<open>vault_spec\<close>), and any sequence of operations of the code, of which any may fail at any system
  call, follows it in memory, with a file on disk that is never older than the last operation that
  returned.
\<close>

section \<open>Operations\<close>

datatype repo_op =
    AddEntry pystr pystr pystr pystr
  | UpdateEntry pystr "pystr option" "pystr option" "pystr option" "pystr option"
  | DeleteEntry pystr
  | ChangeMaster bytes "argon2_parameters option"

fun repo_do :: "crypto \<Rightarrow> (jvalue \<Rightarrow> pystr) \<Rightarrow> repo_op \<Rightarrow> ('z session_scheme, unit) prog" where
  "repo_do c rp (AddEntry s u p n) = pbind (repo_add c rp s u p n) (\<lambda>e. ret ())"
| "repo_do c rp (UpdateEntry i s u p n) = pbind (repo_update c rp i s u p n) (\<lambda>e. ret ())"
| "repo_do c rp (DeleteEntry i) = repo_delete c rp i"
| "repo_do c rp (ChangeMaster pw q) = repo_change_password c pw q"

text \<open>One after the other, going on after an exception; the outcomes in order.\<close>

fun repo_run ::
  "crypto \<Rightarrow> (jvalue \<Rightarrow> pystr) \<Rightarrow> repo_op list \<Rightarrow> 'z session_scheme \<Rightarrow>
     (unit result list \<times> 'z session_scheme) option" where
  "repo_run c rp [] w = Some ([], w)"
| "repo_run c rp (x # xs) w =
     (case repo_do c rp x w of
        None \<Rightarrow> None
      | Some (r, w1) \<Rightarrow>
          (case repo_run c rp xs w1 of None \<Rightarrow> None | Some (rs, w2) \<Rightarrow> Some (r # rs, w2)))"

section \<open>The abstract vault\<close>

inductive vault_spec :: "bytes \<times> entry list \<Rightarrow> repo_op \<Rightarrow> bytes \<times> entry list \<Rightarrow> bool" where
  spec_add: "e_service e = s \<Longrightarrow> e_username e = u \<Longrightarrow> e_password e = p \<Longrightarrow> e_notes e = n \<Longrightarrow>
    find_entry (e_id e) es = None \<Longrightarrow>
    vault_spec (pw, es) (AddEntry s u p n) (pw, append_entry e es)"
| spec_update: "find_entry i es = Some e \<Longrightarrow>
    e_id y = i \<Longrightarrow> e_created y = e_created e \<Longrightarrow>
    e_service y = (case s of None \<Rightarrow> e_service e | Some v \<Rightarrow> v) \<Longrightarrow>
    e_username y = (case u of None \<Rightarrow> e_username e | Some v \<Rightarrow> v) \<Longrightarrow>
    e_password y = (case p of None \<Rightarrow> e_password e | Some v \<Rightarrow> v) \<Longrightarrow>
    e_notes y = (case n of None \<Rightarrow> e_notes e | Some v \<Rightarrow> v) \<Longrightarrow>
    vault_spec (pw, es) (UpdateEntry i s u p n) (pw, replace_first i y es)"
| spec_delete: "find_entry i es = Some e \<Longrightarrow>
    vault_spec (pw, es) (DeleteEntry i) (pw, drop_first i es)"
| spec_update_missing: "find_entry i es = None \<Longrightarrow> vault_spec (pw, es) (UpdateEntry i s u p n) (pw, es)"
| spec_delete_missing: "find_entry i es = None \<Longrightarrow> vault_spec (pw, es) (DeleteEntry i) (pw, es)"
| spec_change: "vault_spec (pw, es) (ChangeMaster pw' q) (pw', es)"

inductive_cases vault_spec_addE: "vault_spec st (AddEntry s u p n) st'"
inductive_cases vault_spec_updateE: "vault_spec st (UpdateEntry i s u p n) st'"
inductive_cases vault_spec_deleteE: "vault_spec st (DeleteEntry i) st'"
inductive_simps vault_spec_change: "vault_spec st (ChangeMaster pw q) st'"

lemma spec_updated:
  "find_entry i es = Some e \<Longrightarrow>
     vault_spec (pw, es) (UpdateEntry i s u p n) (pw, replace_first i (updated_entry e s u p n t) es)"
  by (rule spec_update) (auto simp: updated_entry_fields dest: find_entry_id)

text \<open>The states of a run, the first one included.\<close>

inductive spec_run :: "bytes \<times> entry list \<Rightarrow> repo_op list \<Rightarrow> (bytes \<times> entry list) list \<Rightarrow> bool" where
  spec_run_Nil: "spec_run st [] [st]"
| spec_run_Cons: "vault_spec st x st1 \<Longrightarrow> spec_run st1 xs sts \<Longrightarrow> spec_run st (x # xs) (st # sts)"

lemma spec_run_length: "spec_run st xs sts \<Longrightarrow> length sts = Suc (length xs)"
  by (induction rule: spec_run.induct) simp_all

lemma spec_run_hd: "spec_run st xs sts \<Longrightarrow> \<exists>sts'. sts = st # sts'"
  by (erule spec_run.cases) simp_all

section \<open>The inputs\<close>

fun op_plain :: "repo_op \<Rightarrow> bool" where
  "op_plain (AddEntry s u p n) \<longleftrightarrow> plain_str s \<and> plain_str u \<and> plain_str p \<and> plain_str n"
| "op_plain (UpdateEntry i s u p n) \<longleftrightarrow> plain_opt s \<and> plain_opt u \<and> plain_opt p \<and> plain_opt n"
| "op_plain (DeleteEntry i) \<longleftrightarrow> True"
| "op_plain (ChangeMaster pw q) \<longleftrightarrow> (case q of None \<Rightarrow> True | Some p \<Rightarrow> params_ok p)"

definition opt_length :: "pystr option \<Rightarrow> nat" where
  "opt_length x = (case x of None \<Rightarrow> 0 | Some s \<Rightarrow> length s)"

text \<open>How much an operation can add to the size of the body.\<close>

fun op_growth :: "repo_op \<Rightarrow> nat" where
  "op_growth (AddEntry s u p n) = 12 * (length s + length u + length p + length n) + 790"
| "op_growth (UpdateEntry i s u p n) =
     12 * (opt_length s + opt_length u + opt_length p + opt_length n) + 300"
| "op_growth x = 0"

text \<open>
  The random source yields an identifier outside any set of at most \<open>N\<close>, from any position on: a
  hypothesis of the termination of the loop that draws identifiers.
\<close>

definition source_varied :: "(nat \<Rightarrow> byte) \<Rightarrow> nat \<Rightarrow> bool" where
  "source_varied t N \<longleftrightarrow>
     (\<forall>n S. finite S \<and> card S \<le> N \<longrightarrow> (\<exists>k. bytes_hex (tape_read t (n + 16 * k) 4) \<notin> S))"

lemma source_varied_mono: "source_varied t N \<Longrightarrow> M \<le> N \<Longrightarrow> source_varied t M"
  by (auto simp: source_varied_def)

lemma source_varied_fresh:
  assumes "source_varied (tape w) N" and "length es \<le> N"
  shows "\<exists>k. find_entry (drawn_id w (Suc k)) es = None"
proof -
  have "card (e_id ` set es) \<le> N" using card_image_le [of "set es" e_id] card_length [of es] assms(2) by simp
  with assms(1) have "\<exists>k. bytes_hex (tape_read (tape w) ((tpos w + 16) + 16 * k) 4) \<notin> e_id ` set es"
    unfolding source_varied_def by blast
  then show ?thesis by (simp add: find_entry_None_iff drawn_id_def add.assoc)
qed

lemma body_bound_simps [simp]:
  "body_bound (append_entry e es) = body_bound es + 94 + 12 * entry_chars e"
  "body_bound (e # es) = body_bound es + 94 + 12 * entry_chars e"
  by (simp_all add: body_bound_def append_entry_def)

lemma body_bound_drop: "body_bound (drop_first i es) \<le> body_bound es"
  by (induction es) auto

lemma body_bound_replace:
  "find_entry i es = Some e \<Longrightarrow> entry_chars y \<le> entry_chars e + m \<Longrightarrow>
     body_bound (replace_first i y es) \<le> body_bound es + 12 * m"
  by (induction es) (auto split: if_splits)

lemma updated_chars:
  "length t = 25 \<Longrightarrow> entry_chars (updated_entry e s u p n t)
     \<le> entry_chars e + (opt_length s + opt_length u + opt_length p + opt_length n + 25)"
  by (simp add: entry_chars_def updated_entry_def opt_length_def split: option.split)

lemma length_drop_first: "length (drop_first i es) \<le> length es"
  by (induction es) auto

lemma length_replace_first [simp]: "length (replace_first i y es) = length es"
  by (induction es) auto

section \<open>One operation\<close>

text \<open>
  What one operation does: an abstract step in memory; and on disk the new vault or, after an
  exception, perhaps the old one.
\<close>

definition op_done ::
  "crypto \<Rightarrow> bytes \<times> entry list \<Rightarrow> repo_op \<Rightarrow> 'z session_scheme \<Rightarrow> unit result \<Rightarrow> bytes \<times> entry list \<Rightarrow>
     'z session_scheme \<Rightarrow> bool" where
  "op_done c st x w r st' w' \<longleftrightarrow>
     vault_spec st x st' \<and> live c (fst st') w' \<and> r_entries w' = snd st' \<and> same_object w w' \<and>
     uv_counter (r_unlocked w') \<le> uv_counter (r_unlocked w) + 1 \<and>
     saved c (fst st') (snd st') (r_path w) w r w' \<and>
     body_bound (snd st') \<le> body_bound (snd st) + op_growth x \<and> length (snd st') \<le> Suc (length (snd st)) \<and>
     (quiet w \<and> tmp_free w (r_path w) \<longrightarrow>
        r = Inr () \<or> (\<exists>i. r = Inl (EntryNotFoundError i) \<and> find_entry i (snd st) = None \<and> st' = st))"

lemma stored_done:
  assumes "stored c pw es w r w'" and "vault_spec st x (pw, es)" and "r' = map_sum id (\<lambda>_. ()) r"
    and "body_bound es \<le> body_bound (snd st) + op_growth x" and "length es \<le> Suc (length (snd st))"
  shows "op_done c st x w r' (pw, es) w'"
  using assms by (cases r) (auto simp: op_done_def stored_def saved_def)

lemma pbind_unit:
  "m w = Some (r, w') \<Longrightarrow> pbind m (\<lambda>_. ret ()) w = Some (map_sum id (\<lambda>_. ()) r, w')"
  by (cases r) (simp_all add: pbind_def)

lemma missing_done:
  assumes "live c pw w" and "vault_spec (pw, r_entries w) x (pw, r_entries w)"
    and "find_entry i (r_entries w) = None"
  shows "op_done c (pw, r_entries w) x w (Inl (EntryNotFoundError i)) (pw, r_entries w) w"
  using assms by (simp add: op_done_def saved_def endures_refl)

lemma repo_do_done:
  fixes w :: "'z session_scheme"
  assumes c: "crypto_ok c" and l: "live c pw w" and x: "op_plain x"
    and room: "body_bound (r_entries w) + op_growth x \<le> MAX_PLAINTEXT"
    and n: "uv_counter (r_unlocked w) + 1 < 2 ^ 64"
    and src: "source_varied (tape w) N" "length (r_entries w) \<le> N"
  shows "\<exists>r st' w'. repo_do c rp x w = Some (r, w') \<and> op_done c (pw, r_entries w) x w r st' w'"
proof (cases x)
  case (AddEntry s u p nt)
  from source_varied_fresh [OF src] obtain k where "find_entry (drawn_id w (Suc k)) (r_entries w) = None" by blast
  from repo_add_ok [OF c l _ _ _ _ _ n this, of s u p nt rp] x room AddEntry obtain e r w' where
    a: "repo_add c rp s u p nt w = Some (r, w')" "is_new_entry w s u p nt e"
      "stored c pw (append_entry e (r_entries w)) w r w'" by auto
  have "vault_spec (pw, r_entries w) x (pw, append_entry e (r_entries w))"
    using a(2) AddEntry by (simp add: spec_add is_new_entry_def)
  moreover have "body_bound (append_entry e (r_entries w)) \<le> body_bound (r_entries w) + op_growth x"
    using a(2) AddEntry utc_isoformat_plain(2) by (simp add: entry_chars_def is_new_entry_def)
  ultimately have "op_done c (pw, r_entries w) x w (map_sum id (\<lambda>_. ()) r) (pw, append_entry e (r_entries w)) w'"
    by (intro stored_done [OF a(3)]) (simp_all add: append_entry_def)
  with pbind_unit [where m = "repo_add c rp s u p nt", OF a(1)] AddEntry show ?thesis by auto
next
  case (UpdateEntry i s u p nt)
  show ?thesis
  proof (cases "find_entry i (r_entries w)")
    case None
    from repo_missing(2) [OF None, of c rp s u p nt]
      missing_done [OF l _ None, of x] spec_update_missing [OF None, of pw s u p nt] UpdateEntry
    show ?thesis by (auto simp: pbind_def)
  next
    case (Some e)
    define y where "y = updated_entry e s u p nt (utc_isoformat (clock w (ticks w)))"
    have b: "body_bound (replace_first i y (r_entries w)) \<le> body_bound (r_entries w) + op_growth x"
      using body_bound_replace [OF Some updated_chars [OF utc_isoformat_plain(2)],
          of s u p nt "clock w (ticks w)"] UpdateEntry
      by (simp add: y_def)
    from repo_update_ok [OF c l Some _ _ _ _ y_def _ n, of rp] x room b UpdateEntry obtain r w' where
      a: "repo_update c rp i s u p nt w = Some (r, w')" "stored c pw (replace_first i y (r_entries w)) w r w'"
      by auto
    have "vault_spec (pw, r_entries w) x (pw, replace_first i y (r_entries w))"
      using UpdateEntry Some by (simp add: y_def spec_updated)
    with b have "op_done c (pw, r_entries w) x w (map_sum id (\<lambda>_. ()) r) (pw, replace_first i y (r_entries w)) w'"
      by (intro stored_done [OF a(2)]) simp_all
    with pbind_unit [where m = "repo_update c rp i s u p nt", OF a(1)] UpdateEntry show ?thesis by auto
  qed
next
  case (DeleteEntry i)
  show ?thesis
  proof (cases "find_entry i (r_entries w)")
    case None
    from repo_missing(3) [OF None, of c rp] missing_done [OF l _ None, of x]
      spec_delete_missing [OF None, of pw] DeleteEntry
    show ?thesis by auto
  next
    case (Some e)
    from repo_delete_ok [OF c l Some _ n, of rp] body_bound_drop [of i "r_entries w"] room DeleteEntry
    obtain r w' where a: "repo_delete c rp i w = Some (r, w')"
        "stored c pw (drop_first i (r_entries w)) w r w'" by auto
    have "op_done c (pw, r_entries w) x w (map_sum id (\<lambda>_. ()) r) (pw, drop_first i (r_entries w)) w'"
      using Some DeleteEntry body_bound_drop length_drop_first
      by (intro stored_done [OF a(2)]) (auto simp: spec_delete intro: le_SucI)
    then have "op_done c (pw, r_entries w) x w r (pw, drop_first i (r_entries w)) w'" by (cases r) simp_all
    with a(1) DeleteEntry show ?thesis by auto
  qed
next
  case (ChangeMaster pw' q)
  from repo_change_password_ok [OF c l _ n, of q pw'] x ChangeMaster obtain r w' where
    a: "repo_change_password c pw' q w = Some (r, w')" "stored c pw' (r_entries w) w r w'" by auto
  have "op_done c (pw, r_entries w) x w (map_sum id (\<lambda>_. ()) r) (pw', r_entries w) w'"
    using ChangeMaster by (intro stored_done [OF a(2)]) (simp_all add: spec_change)
  then have "op_done c (pw, r_entries w) x w r (pw', r_entries w) w'" by (cases r) simp_all
  with a(1) ChangeMaster show ?thesis by auto
qed

section \<open>A run\<close>

definition succeeded :: "unit result list \<Rightarrow> nat \<Rightarrow> bool" where
  "succeeded rs k \<longleftrightarrow> k < length rs \<and> rs ! k = Inr ()"

text \<open>
  Where the file stands after a run: as before the run, if no operation returned, or as in one of the
  states of the run that is not older than any operation that returned.
\<close>

definition disk_follows ::
  "crypto \<Rightarrow> pystr \<Rightarrow> 'z os_scheme \<Rightarrow> unit result list \<Rightarrow> (bytes \<times> entry list) list \<Rightarrow> 'z os_scheme \<Rightarrow> bool" where
  "disk_follows c path w rs sts w' \<longleftrightarrow>
     (\<forall>k. \<not> succeeded rs k) \<and> file_content path w' = file_content path w \<or>
     (\<exists>j < length sts. vault_holds c (fst (sts ! j)) (snd (sts ! j)) path w' \<and>
        (\<forall>k. succeeded rs k \<longrightarrow> k < j))"

lemma disk_follows_Cons:
  assumes s: "saved c (fst st1) (snd st1) path w r w1" and f: "disk_follows c path w1 rs sts w2"
    and h: "sts = st1 # sts'"
  shows "disk_follows c path w (r # rs) (st # sts) w2"
proof -
  have suc: "succeeded (r # rs) k \<longleftrightarrow> (if k = 0 then r = Inr () else succeeded rs (k - 1))" for k
    by (cases k) (simp_all add: succeeded_def)
  from f consider (same) "\<forall>k. \<not> succeeded rs k" "file_content path w2 = file_content path w1"
    | (later) j where "j < length sts" "vault_holds c (fst (sts ! j)) (snd (sts ! j)) path w2"
      "\<forall>k. succeeded rs k \<longrightarrow> k < j"
    by (auto simp: disk_follows_def)
  then show ?thesis
  proof cases
    case later
    then have "\<forall>k. succeeded (r # rs) k \<longrightarrow> k < Suc j" by (auto simp: suc)
    with later show ?thesis unfolding disk_follows_def by (intro disjI2 exI [of _ "Suc j"]) simp
  next
    case same
    from s consider "vault_holds c (fst st1) (snd st1) path w1" | "r \<noteq> Inr ()" "file_content path w1 = file_content path w"
      by (auto simp: saved_def)
    then show ?thesis
    proof cases
      case 1
      with same(2) have "vault_holds c (fst st1) (snd st1) path w2" by (simp add: vault_holds_def)
      moreover have "\<forall>k. succeeded (r # rs) k \<longrightarrow> k < 1" using same(1) by (auto simp: suc split: if_splits)
      ultimately show ?thesis unfolding disk_follows_def
        by (intro disjI2 exI [of _ 1]) (simp add: h)
    next
      case 2
      with same suc show ?thesis by (auto simp: disk_follows_def split: if_splits)
    qed
  qed
qed

lemma repo_run_done:
  assumes c: "crypto_ok c"
  shows "live c pw w \<Longrightarrow> list_all op_plain xs \<Longrightarrow>
    body_bound (r_entries w) + sum_list (map op_growth xs) \<le> MAX_PLAINTEXT \<Longrightarrow>
    uv_counter (r_unlocked w) + int (length xs) < 2 ^ 64 \<Longrightarrow>
    source_varied (tape w) (length (r_entries w) + length xs) \<Longrightarrow>
    \<exists>rs w' sts. repo_run c rp xs w = Some (rs, w') \<and> length rs = length xs \<and>
      spec_run (pw, r_entries w) xs sts \<and>
      live c (fst (last sts)) w' \<and> r_entries w' = snd (last sts) \<and> same_object w w' \<and>
      disk_follows c (r_path w) w rs sts w'"
proof (induction xs arbitrary: pw w)
  case Nil
  then show ?case
    by (intro exI [of _ "[]"] exI [of _ w] exI [of _ "[(pw, r_entries w)]"])
       (auto simp: spec_run_Nil disk_follows_def succeeded_def)
next
  case (Cons x xs)
  from Cons.prems have x: "op_plain x" "list_all op_plain xs"
    and room: "body_bound (r_entries w) + op_growth x \<le> MAX_PLAINTEXT"
    and n: "uv_counter (r_unlocked w) + 1 < 2 ^ 64" by simp_all
  from repo_do_done [OF c Cons.prems(1) x(1) room n Cons.prems(5), of rp] obtain r st1 w1 where
    do: "repo_do c rp x w = Some (r, w1)" and d: "op_done c (pw, r_entries w) x w r st1 w1" by auto
  from d have sp: "vault_spec (pw, r_entries w) x st1" and l: "live c (fst st1) w1" and e: "r_entries w1 = snd st1"
    and so: "same_object w w1" and cnt: "uv_counter (r_unlocked w1) \<le> uv_counter (r_unlocked w) + 1"
    and sv: "saved c (fst st1) (snd st1) (r_path w) w r w1"
    and b: "body_bound (snd st1) \<le> body_bound (r_entries w) + op_growth x"
      "length (snd st1) \<le> Suc (length (r_entries w))"
    by (simp_all add: op_done_def)
  have "source_varied (tape w1) (length (r_entries w1) + length xs)"
    using source_varied_mono [OF Cons.prems(5)] so b(2) e by (simp add: same_object_def)
  moreover have "body_bound (r_entries w1) + sum_list (map op_growth xs) \<le> MAX_PLAINTEXT"
    using Cons.prems(3) b(1) e by simp
  moreover have "uv_counter (r_unlocked w1) + int (length xs) < 2 ^ 64" using Cons.prems(4) cnt by simp
  ultimately obtain rs w2 sts where run: "repo_run c rp xs w1 = Some (rs, w2)" "length rs = length xs"
      "spec_run st1 xs sts"
    and l2: "live c (fst (last sts)) w2" "r_entries w2 = snd (last sts)" "same_object w1 w2"
    and df: "disk_follows c (r_path w1) w1 rs sts w2"
    using Cons.IH [OF l x(2)] e by force
  have p: "r_path w1 = r_path w" using so by (simp add: same_object_def)
  from spec_run_hd [OF run(3)] obtain sts' where h: "sts = st1 # sts'" by blast
  have "disk_follows c (r_path w) w (r # rs) ((pw, r_entries w) # sts) w2"
    by (rule disk_follows_Cons [OF sv _ h]) (use df p in simp)
  moreover have "repo_run c rp (x # xs) w = Some (r # rs, w2)" using do run(1) by simp
  moreover have "spec_run (pw, r_entries w) (x # xs) ((pw, r_entries w) # sts)"
    using sp run(3) by (rule spec_run_Cons)
  ultimately show ?case
    using l2 run(2) h same_object_trans [OF so l2(3)]
    by (intro exI [of _ "r # rs"] exI [of _ w2] exI [of _ "(pw, r_entries w) # sts"]) simp
qed

end
