(* ===== verification/RepositoryProperties.thy ===== *)
theory RepositoryProperties
  imports RepositorySpec
begin

text \<open>
  The properties of the repository, and a concrete machine on which their hypotheses hold.
\<close>

section \<open>Creating without faults\<close>

text \<open>The lock file is not named like the temporary file the next write will use.\<close>

definition lock_not_tmp :: "'z os_scheme \<Rightarrow> pystr \<Rightarrow> bool" where
  "lock_not_tmp w path \<longleftrightarrow>
     resolve w (tmp_path (dirname (resolve w path)) (tmp_names w (tmp_next w))) \<noteq>
       resolve w (path @ lit ''.lock'')"

lemma create_body_quiet:
  fixes w :: "'z session_scheme"
  assumes c: "crypto_ok c" and i: "inside path w" and p: "params_ok (params_or_default params)"
    and q: "quiet w" and t: "tmp_free w path"
  shows "\<exists>w'. create_body c rp path pw params w = Some (Inr (), w')"
proof -
  define b where "b = (map of_nat (json_dumps rp (payload [])) :: bytes)"
  have ser: "serialize_entries rp [] = Inr b" by (simp add: b_def serialize_entries_ok)
  have des: "\<forall>rp. deserialize_entries rp b = Inr []" by (simp add: b_def deserialize_payload)
  have "length b \<le> 40" using length_payload [of rp "[]"] by (simp add: b_def body_bound_def)
  then have "length b \<le> MAX_PLAINTEXT" by (simp add: MAX_PLAINTEXT_def)
  from vault_create_ok [OF c p this, of pw w] obtain f d w1 where s: "sealed c pw f d b"
    and cr: "vault_create c pw b params w = Some (Inr (file_bytes f), w1)"
    and w1: "w1 = w\<lparr>tpos := tpos w + 72, heap := (heap w)(hnext w := replicate 32 0), hnext := Suc (hnext w)\<rparr>"
    by blast
  have i1: "inside path w1" using i by (simp add: w1)
  then have sr: "wf_os w1" "tmp_clear w1 path" by (simp_all add: inside_def outside_def store_ready_def)
  have "quiet w1" "tmp_free w1 path" using q t by (simp_all add: w1 quiet_def tmp_free_def)
  from write_atomic_quiet [OF sr this] obtain w2 where
    wr: "write_atomic path (file_bytes f) w1 = Some (Inr (), w2)" by blast
  from keeps_write_atomic [of path "file_bytes f"] i1 have i2: "inside path w2"
    unfolding keeps_def by (cases rule: tripleD) (use wr in auto)
  have fh: "file_holds c pw [] (file_bytes f)" unfolding file_holds_def using s des by blast
  have "entries_ok []" by (simp add: entries_ok_def distinct_ids_def)
  from init_live [OF c i2 this fh, of rp] obtain w3 where
    run: "pbind (vault_open c pw (file_bytes f)) (\<lambda>u. repo_init rp path u) w2 = Some (Inr (), w3)" by blast
  then have "create_body c rp path pw params w = Some (Inr (), w3)"
    by (simp add: create_body_def ser pbind_Inr [where m = "vault_create c pw b params", OF cr]
        pbind_Inr [where m = "write_atomic path (file_bytes f)", OF wr])
  then show ?thesis by blast
qed

lemma acquire_keeps_tmp:
  assumes at: "lock_at path w" and a: "lock_acquire w = Some (Inr u, w')"
    and t: "tmp_free w path" and l: "lock_not_tmp w path"
  shows "tmp_free w' path"
proof -
  from at have wf: "wf_os w" "has_fcntl w" and lk: "lk_path w = path @ lit ''.lock''"
    by (auto simp: lock_at_def outside_def lock_ok_def)
  from wf a have "lock_taken w w'" by (cases rule: lock_acquire_outcome) simp_all
  note f = lock_taken_holds(3) [OF this]
  from f have "tmp_names w' = tmp_names w" "tmp_next w' = tmp_next w"
    "\<forall>n. n \<noteq> resolve w (lk_path w) \<longrightarrow> d_names (disk w') n = d_names (disk w) n"
    by (simp_all add: lock_frame_def)
  with t l lk show ?thesis by (simp add: tmp_free_def lock_not_tmp_def lock_frame_resolve [OF f])
qed

lemma create_locked_quiet:
  fixes w :: "'z session_scheme"
  assumes c: "crypto_ok c" and o: "outside path w" and p: "params_ok (params_or_default params)"
    and q: "quiet w" and free: "\<not> locked w (path @ lit ''.lock'')"
    and t: "tmp_free w path" and l: "lock_not_tmp w path"
  shows "\<exists>w'. create_locked c rp path pw params w = Some (Inr (), w')"
proof -
  let ?w = "with_lock_path path w"
  from o have at: "lock_at path ?w" by simp
  then have "lock_ok ?w" by (simp add: lock_at_def outside_def)
  from quiet_acquires [OF this] q free obtain w1 where a: "lock_acquire ?w = Some (Inr (), w1)" by auto
  note ac = acquire_keeps_content [OF at a]
  have "tmp_free ?w path" "lock_not_tmp ?w path"
    using t l by (simp_all add: tmp_free_def lock_not_tmp_def) (simp_all add: with_lock_path_def)
  from create_body_quiet [OF c ac(1) p ac(3) acquire_keeps_tmp [OF at a this], of rp pw] q
  obtain w2 where "create_body c rp path pw params w1 = Some (Inr (), w2)" by auto
  from guarded_run [where a = lock_acquire and body = "create_body c rp path pw params", OF a this]
  show ?thesis by (auto simp: create_locked_def)
qed

section \<open>The properties\<close>

text \<open>C1: Any sequence of additions, updates, deletions and password changes, of which any may fail at
  any system call with any exception, follows the abstract vault in memory; and the file on disk
  is at the end a complete vault of one of the states of the run, under the password of that
  state, no older than the last operation that returned normally.\<close>

theorem repo_run_refines:
  fixes w :: "'z session_scheme"
  assumes "crypto_ok c" and "live c pw w" and "vault_holds c pw (r_entries w) (r_path w) w"
    and "list_all op_plain xs"
    and "body_bound (r_entries w) + sum_list (map op_growth xs) \<le> MAX_PLAINTEXT"
    and "uv_counter (r_unlocked w) + int (length xs) < 2 ^ 64"
    and "source_varied (tape w) (length (r_entries w) + length xs)"
  shows "\<exists>rs w' sts. repo_run c rp xs w = Some (rs, w') \<and> spec_run (pw, r_entries w) xs sts \<and>
    live c (fst (last sts)) w' \<and> r_entries w' = snd (last sts) \<and>
    (\<exists>j < length sts. vault_holds c (fst (sts ! j)) (snd (sts ! j)) (r_path w) w' \<and>
       (\<forall>k. succeeded rs k \<longrightarrow> k < j))"
proof -
  from repo_run_done [OF assms(1,2,4-7), of rp] obtain rs w' sts where
    run: "repo_run c rp xs w = Some (rs, w')" "spec_run (pw, r_entries w) xs sts"
      "live c (fst (last sts)) w'" "r_entries w' = snd (last sts)"
    and df: "disk_follows c (r_path w) w rs sts w'" by blast
  from spec_run_hd [OF run(2)] obtain sts' where h: "sts = (pw, r_entries w) # sts'" by blast
  have "\<exists>j < length sts. vault_holds c (fst (sts ! j)) (snd (sts ! j)) (r_path w) w' \<and>
       (\<forall>k. succeeded rs k \<longrightarrow> k < j)"
    using df unfolding disk_follows_def
  proof
    assume "(\<forall>k. \<not> succeeded rs k) \<and> file_content (r_path w) w' = file_content (r_path w) w"
    with assms(3) h show ?thesis by (intro exI [of _ 0]) (auto simp: vault_holds_def)
  qed
  with run show ?thesis by blast
qed

text \<open>C15: Closing a repository and opening the file again with the same password gives exactly the
  entries it had, if no system call fails: nothing that was saved is lost.\<close>

theorem reopen_after_close:
  fixes w :: "'z session_scheme"
  assumes "crypto_ok c" and "live c pw w" and "vault_holds c pw (r_entries w) (r_path w) w" and "quiet w"
  shows "\<exists>w1 w2. repo_close w = Some (Inr (), w1) \<and> repo_list w1 = Some (Inr [], w1) \<and>
    repo_open c rp (r_path w) pw w1 = Some (Inr (), w2) \<and> repo_list w2 = Some (Inr (r_entries w), w2) \<and>
    live c pw w2"
proof -
  have ni: "\<not> injected w e" for e using assms(4) by (simp add: quiet_def injected_def)
  from repo_close_ok [OF assms(2)] ni obtain w1 where cl: "repo_close w = Some (Inr (), w1)"
    and at: "lock_at (r_path w) w1" "lock_free w1" and e: "r_entries w1 = []" "disk w1 = disk w" "cwd w1 = cwd w"
    and q: "quiet w1" using assms(4) by auto
  from at have o: "outside (r_path w) w1" "\<not> locked w1 (r_path w @ lit ''.lock'')"
    by (simp_all add: lock_at_def lock_free_def)
  have es: "entries_ok (r_entries w)" using assms(2) by (simp add: live_def)
  have v: "vault_holds c pw (r_entries w) (r_path w) w1"
    using assms(3) e(2,3) by (simp add: vault_holds_def file_content_def resolve_def)
  from repo_open_quiet [OF assms(1) o(1) es v q o(2), of rp] obtain w2 where
    op: "repo_open c rp (r_path w) pw w1 = Some (Inr (), w2)" by blast
  from repo_open_live [OF assms(1) o(1) es v op] op cl e(1) show ?thesis
    by (auto simp: repo_list_def gets_def)
qed

lemma opening_locks:
  fixes w :: "'z session_scheme"
  assumes "outside path w" and "m \<in> {repo_open c rp path pw, create_locked c rp path pw params}"
  shows "\<exists>r w'. m w = Some (r, w') \<and>
    (case r of
       Inr u \<Rightarrow> \<not> locked w (path @ lit ''.lock'') \<and> lock_mine w'
     | Inl e \<Rightarrow> locked w' (path @ lit ''.lock'') = locked w (path @ lit ''.lock''))"
proof -
  have at: "lock_at path (with_lock_path path w)" using assms(1) by simp
  consider "m = repo_open c rp path pw" | "m = create_locked c rp path pw params" using assms(2) by blast
  then have "\<exists>body. keeps (inside path) body \<and> m w = guarded lock_acquire lock_release body (with_lock_path path w)"
  proof cases
    case 1
    with keeps_open_body [of path c rp pw] show ?thesis
      by (intro exI [of _ "open_body c rp path pw"]) (simp add: repo_open_def)
  next
    case 2
    with keeps_create_body [of path c rp pw params] show ?thesis
      by (intro exI [of _ "create_body c rp path pw params"]) (simp add: create_locked_def)
  qed
  then obtain body where k: "keeps (inside path) body"
    and m: "m w = guarded lock_acquire lock_release body (with_lock_path path w)" by blast
  from guarded_lock [OF at k] obtain r w' where
    r: "guarded lock_acquire lock_release body (with_lock_path path w) = Some (r, w')" "lock_at path w'"
      "case r of Inr x \<Rightarrow> lock_free (with_lock_path path w) \<and> lock_mine w'
        | Inl e \<Rightarrow> lock_free w' = lock_free (with_lock_path path w)" by blast
  from r(2) have "lock_free w' = (\<not> locked w' (path @ lit ''.lock''))"
    by (simp add: lock_at_def lock_free_def)
  with m r(1,3) show ?thesis by (cases r) auto
qed

text \<open>The existence check of \<open>create\<close> comes before the lock.\<close>

lemma exists_before_lock:
  assumes "outside path w"
  obtains q w1 where "path_exists path w = Some (q, w1)" and "outside path w1" and "locked w1 k = locked w k"
proof -
  have "\<exists>q v. path_exists path w = Some (q, v)"
    by (cases "faults w (calls w)") (auto simp: path_exists_def handle_def syscall_def Let_def)
  then obtain q v where q: "path_exists path w = Some (q, v)" by blast
  then have "v = w\<lparr>calls := calls v, disk_trace := disk_trace v\<rparr>"
    unfolding path_exists_def handle_def syscall_def Let_def by (auto split: option.splits if_splits)
  moreover have "outside path (w\<lparr>calls := n, disk_trace := d\<rparr>) = outside path w"
    "locked (w\<lparr>calls := n, disk_trace := d\<rparr>) k = locked w k" for n d
    by (simp_all add: outside_def home_defs wf_os_def resolve_def locked_def)
  ultimately have "outside path v" "locked v k = locked w k" using assms by metis+
  with q show thesis by (rule that)
qed

text \<open>C16: \<open>open\<close> and \<open>create\<close> always return; when they succeed the lock was free and is now held by
  this process, and when they raise, whatever the reason (a wrong password, a corrupt file, a file
  that exists already, any failing system call, even while releasing), the lock is as free as it was
  before. The same holds of the part of \<open>create\<close> after its existence check, taken alone.\<close>

theorem failed_open_releases_lock:
  fixes w :: "'z session_scheme"
  assumes "outside path w"
    and "m \<in> {repo_open c rp path pw, repo_create c rp path pw params, create_locked c rp path pw params}"
  shows "\<exists>r w'. m w = Some (r, w') \<and>
    (case r of
       Inr u \<Rightarrow> \<not> locked w (path @ lit ''.lock'') \<and> lock_mine w'
     | Inl e \<Rightarrow> locked w' (path @ lit ''.lock'') = locked w (path @ lit ''.lock''))"
proof (cases "m = repo_create c rp path pw params")
  case False
  with assms(2) show ?thesis by (intro opening_locks [OF assms(1)]) blast
next
  case True
  obtain q w1 where q: "path_exists path w = Some (q, w1)" "outside path w1"
      "locked w1 (path @ lit ''.lock'') = locked w (path @ lit ''.lock'')"
    using assms(1) by (rule exists_before_lock)
  show ?thesis
  proof (cases "q = Inr False")
    case False
    with q have "\<exists>e. m w = Some (Inl e, w1)" by (cases q) (auto simp: True repo_create_def pbind_def)
    with q(3) show ?thesis by auto
  next
    case free: True
    with q(1) have "m w = create_locked c rp path pw params w1" by (simp add: True repo_create_def pbind_def)
    moreover from opening_locks [OF q(2), of "create_locked c rp path pw params" c rp pw params] obtain r w' where
      r: "create_locked c rp path pw params w1 = Some (r, w')" "case r of
          Inr u \<Rightarrow> \<not> locked w1 (path @ lit ''.lock'') \<and> lock_mine w'
        | Inl e \<Rightarrow> locked w' (path @ lit ''.lock'') = locked w1 (path @ lit ''.lock'')" by blast
    ultimately show ?thesis using q(3) by (cases r) auto
  qed
qed

text \<open>Closing wipes the data key and the plaintext in memory and frees the lock, whichever system
  call fails; it forgets the entries and leaves the disk alone, and only the failure of a system
  call makes it raise.\<close>

theorem close_wipes_and_releases:
  fixes w :: "'z session_scheme"
  assumes "live c pw w"
  shows "\<exists>r w'. repo_close w = Some (r, w') \<and> \<not> locked w' (r_path w @ lit ''.lock'') \<and> r_entries w' = [] \<and>
    disk w' = disk w \<and>
    zeroed (heap w' (uv_dek (r_unlocked w))) \<and> zeroed (heap w' (uv_plaintext (r_unlocked w))) \<and>
    (r = Inr () \<and> r_closed w' \<or> (\<exists>e. r = Inl e \<and> injected w e))"
  using repo_close_ok [OF assms] by (auto simp: lock_at_def lock_free_def)

text \<open>\<open>add_entry\<close> always returns or raises; the new entry has the given fields, a creation and an
  update time from the clock and an identifier no entry has; it goes to the end of the list in
  memory, and when the call returns normally it is in the file.\<close>

theorem add_entry_appends:
  fixes w :: "'z session_scheme"
  assumes "crypto_ok c" and "live c pw w"
    and "plain_str s" and "plain_str u" and "plain_str p" and "plain_str n"
    and "body_bound (r_entries w) + 12 * (length s + length u + length p + length n) + 790 \<le> MAX_PLAINTEXT"
    and "uv_counter (r_unlocked w) + 1 < 2 ^ 64"
    and "source_varied (tape w) (length (r_entries w))"
  shows "\<exists>e r w'. repo_add c rp s u p n w = Some (r, w') \<and> is_new_entry w s u p n e \<and>
    live c pw w' \<and> r_entries w' = r_entries w @ [e] \<and>
    (r = Inr e \<and> vault_holds c pw (r_entries w @ [e]) (r_path w) w' \<or>
     (\<exists>x. r = Inl x) \<and> (file_content (r_path w) w' = file_content (r_path w) w \<or>
        vault_holds c pw (r_entries w @ [e]) (r_path w) w'))"
proof -
  from source_varied_fresh [OF assms(9)] obtain k where "find_entry (drawn_id w (Suc k)) (r_entries w) = None"
    by blast
  from repo_add_ok [OF assms(1-8) this, of rp] obtain e r w' where
    a: "repo_add c rp s u p n w = Some (r, w')" "is_new_entry w s u p n e"
      "stored c pw (append_entry e (r_entries w)) w r w'" "\<forall>x. r = Inr x \<longrightarrow> x = e" by blast
  then show ?thesis
    by (cases r) (auto simp: stored_def saved_def append_entry_def)
qed

text \<open>An identifier no entry has is refused by every operation that takes one with
  \<open>EntryNotFoundError\<close>, and nothing changes: no system call is made.\<close>

theorem missing_entry_refused:
  assumes "i \<notin> e_id ` set (r_entries w)"
  shows "repo_get i w = Some (Inl (EntryNotFoundError i), w) \<and>
    repo_update c rp i s u p n w = Some (Inl (EntryNotFoundError i), w) \<and>
    repo_delete c rp i w = Some (Inl (EntryNotFoundError i), w)"
proof -
  have "find_entry i (r_entries w) = None" using assms by (simp add: find_entry_None_iff)
  from repo_missing [OF this] show ?thesis by blast
qed

text \<open>C17: If no system call fails and the first temporary name is free, every operation on an open
  repository returns normally, except that an unknown identifier is reported with
  \<open>EntryNotFoundError\<close>; and then the file holds what the abstract operation gives.\<close>

theorem operation_succeeds:
  fixes w :: "'z session_scheme"
  assumes "crypto_ok c" and "live c pw w" and "op_plain x"
    and "body_bound (r_entries w) + op_growth x \<le> MAX_PLAINTEXT"
    and "uv_counter (r_unlocked w) + 1 < 2 ^ 64" and "source_varied (tape w) (length (r_entries w))"
    and "quiet w" and "tmp_free w (r_path w)"
  shows "\<exists>r st w'. repo_do c rp x w = Some (r, w') \<and> vault_spec (pw, r_entries w) x st \<and> live c (fst st) w' \<and>
    r_entries w' = snd st \<and>
    (r = Inr () \<and> vault_holds c (fst st) (snd st) (r_path w) w' \<or>
     (\<exists>i. r = Inl (EntryNotFoundError i) \<and> i \<notin> e_id ` set (r_entries w) \<and> st = (pw, r_entries w)))"
proof -
  from repo_do_done [OF assms(1-6) order_refl, of rp] obtain r st w' where
    r: "repo_do c rp x w = Some (r, w')" and d: "op_done c (pw, r_entries w) x w r st w'" by blast
  from d assms(7,8) have "r = Inr () \<or> (\<exists>i. r = Inl (EntryNotFoundError i) \<and>
      find_entry i (r_entries w) = None \<and> st = (pw, r_entries w))" by (auto simp: op_done_def)
  with d have "r = Inr () \<and> vault_holds c (fst st) (snd st) (r_path w) w' \<or>
     (\<exists>i. r = Inl (EntryNotFoundError i) \<and> i \<notin> e_id ` set (r_entries w) \<and> st = (pw, r_entries w))"
    by (elim disjE) (simp_all add: op_done_def saved_def find_entry_None_iff)
  moreover have "vault_spec (pw, r_entries w) x st" "live c (fst st) w'" "r_entries w' = snd st"
    using d by (simp_all add: op_done_def)
  ultimately show ?thesis using r by (intro exI [of _ r] exI [of _ st] exI [of _ w']) simp
qed

text \<open>C39: A password change whose write failed still takes effect: the next operation that returns
  normally writes the vault under the new password, although the change was reported to have
  failed.\<close>

theorem failed_password_change_takes_effect:
  fixes w :: "'z session_scheme"
  assumes "crypto_ok c" and "live c pw w" and "op_plain (ChangeMaster pw' q)" and "op_plain x"
    and "\<And>y z. x \<noteq> ChangeMaster y z"
    and "body_bound (r_entries w) + op_growth x \<le> MAX_PLAINTEXT"
    and "uv_counter (r_unlocked w) + 2 < 2 ^ 64" and "source_varied (tape w) (length (r_entries w))"
    and "repo_do c rp (ChangeMaster pw' q) w = Some (Inl e, w1)"
    and "repo_do c rp x w1 = Some (Inr (), w2)"
  shows "\<exists>es. vault_holds c pw' es (r_path w) w2 \<and> r_entries w2 = es"
proof -
  have n: "uv_counter (r_unlocked w) + 1 < 2 ^ 64" using assms(7) by simp
  have "body_bound (r_entries w) + op_growth (ChangeMaster pw' q) \<le> MAX_PLAINTEXT" using assms(6) by simp
  from repo_do_done [OF assms(1,2,3) this n assms(8), of rp] assms(9) obtain st1 where
    d: "op_done c (pw, r_entries w) (ChangeMaster pw' q) w (Inl e) st1 w1" by auto
  then have st1: "st1 = (pw', r_entries w)" "live c pw' w1" "r_entries w1 = r_entries w"
    and so: "same_object w w1" and cnt: "uv_counter (r_unlocked w1) \<le> uv_counter (r_unlocked w) + 1"
    by (auto simp: op_done_def vault_spec_change)
  from so assms(8) st1(3) have src: "source_varied (tape w1) (length (r_entries w1))"
    by (simp add: same_object_def)
  have "uv_counter (r_unlocked w1) + 1 < 2 ^ 64" using cnt assms(7) by simp
  from repo_do_done [OF assms(1) st1(2) assms(4) _ this src, of rp] assms(6,10) st1(3) obtain st2 where
    d2: "op_done c (pw', r_entries w1) x w1 (Inr ()) st2 w2" by auto
  have "fst st2 = pw'" using d2 assms(5) unfolding op_done_def
    by (cases x) (auto elim: vault_spec_addE vault_spec_updateE vault_spec_deleteE)
  with d2 so show ?thesis by (auto simp: op_done_def saved_def same_object_def)
qed

text \<open>The part of \<open>create\<close> that runs under the lock never looks whether the file exists: if another
  process created a vault between the existence check and the lock, it is replaced by an empty
  one and the call returns normally.\<close>

theorem create_race_overwrites:
  fixes w :: "'z session_scheme"
  assumes "crypto_ok c" and "outside path w" and "params_ok (params_or_default params)" and "quiet w"
    and "\<not> locked w (path @ lit ''.lock'')" and "tmp_free w path" and "lock_not_tmp w path"
    and "file_content path w = Some other_vault"
  shows "\<exists>w'. create_locked c rp path pw params w = Some (Inr (), w') \<and> vault_holds c pw [] path w' \<and>
    repo_list w' = Some (Inr [], w')"
proof -
  from create_locked_quiet [OF assms(1-7), of rp pw] obtain w' where
    "create_locked c rp path pw params w = Some (Inr (), w')" by blast
  with create_locked_ok [OF assms(1-3) this] show ?thesis by (auto simp: repo_list_def gets_def)
qed

end
