(* ===== verification/RepositorySample.thy ===== *)
theory RepositorySample
  imports RepositoryProperties
begin

text \<open>A concrete session, created on a machine without files, and the witnesses of the repository's properties.\<close>

section \<open>A sample session\<close>

text \<open>The sample machine without any file, and a repository object not opened yet.\<close>

definition no_vault :: unlocked_vault where
  "no_vault = opened (sample_fields 0) 0"

definition sample_session :: "session" where
  "sample_session =
     proc.extend
       (os.extend (sample_os\<lparr>disk := (disk sample_os)\<lparr>d_names := (\<lambda>n. None), d_durable := (\<lambda>n. None)\<rparr>\<rparr>)
         (proc.fields [] None))
       (session.fields [] no_vault [] True)"

lemmas sample_session_defs = sample_session_def sample_os_def os.defs proc.defs session.defs

lemma sample_session_simps:
  "cwd sample_session = lit ''/''" "tape sample_session = (\<lambda>i. of_nat i)" "flocks sample_session = (\<lambda>i. None)"
  "d_names (disk sample_session) n = None" "tmp_names sample_session m = lit ''a''"
  "faults sample_session = (\<lambda>c. None)"
  by (simp_all add: sample_session_defs)

lemma resolve_session:
  "resolve sample_session (lit ''/v'') = lit ''/v''"
  "resolve sample_session (lit ''/v'' @ lit ''.lock'') = lit ''/v.lock''"
  "resolve sample_session (tmp_path (lit ''/'') (lit ''a'')) = lit ''/.vault-a.tmp''"
  using abspath_lock sample_paths(3) abspath_tmp
  by (simp_all add: resolve_def sample_session_simps tmp_path_a lit_v flip: lit_def, simp_all add: lit_def)

lemma sample_outside: "outside (lit ''/v'') sample_session"
proof -
  have "wf_os sample_session" by (simp add: wf_os_def sample_session_defs)
  then show ?thesis
    by (simp add: outside_def lock_ok_def store_ready_def tmp_clear_def lock_clear_def resolve_session
        sample_session_simps sample_paths)
       (simp add: sample_session_defs lit_def)
qed

lemma sample_session_quiet: "quiet sample_session"
  by (simp add: quiet_def sample_session_simps)

lemma sample_session_free:
  "\<not> locked sample_session p" "tmp_free sample_session p" "lock_not_tmp sample_session (lit ''/v'')"
  by (simp_all add: locked_def tmp_free_def lock_not_tmp_def sample_session_simps resolve_session sample_paths)

lemma sample_created:
  obtains w where "create_locked sample_crypto rp (lit ''/v'') sample_password None sample_session = Some (Inr (), w)"
    and "live sample_crypto sample_password w" and "r_entries w = []" and "r_path w = lit ''/v''"
    and "vault_holds sample_crypto sample_password [] (lit ''/v'') w" and "quiet w"
    and "uv_counter (r_unlocked w) = 0" and "tape w = (\<lambda>i. of_nat i)"
    and "d_names (disk w) (lit ''/.vault-a.tmp'') = None" and "tmp_names w = (\<lambda>n. lit ''a'')"
    and "cwd w = lit ''/''"
proof -
  let ?p = "lit ''/v''" and ?w = "with_lock_path (lit ''/v'') sample_session"
  from create_locked_quiet [OF sample_crypto_ok sample_outside sample_params_ok sample_session_quiet
      sample_session_free, of rp sample_password] obtain w where
    w: "create_locked sample_crypto rp ?p sample_password None sample_session = Some (Inr (), w)"
    by blast
  from w have "guarded lock_acquire lock_release (create_body sample_crypto rp ?p sample_password None) ?w = Some (Inr (), w)"
    by (simp add: create_locked_def)
  then obtain w1 where a: "lock_acquire ?w = Some (Inr (), w1)"
    and b: "create_body sample_crypto rp ?p sample_password None w1 = Some (Inr (), w)" by (rule guarded_normal)
  have at: "lock_at ?p ?w" using sample_outside by simp
  note i1 = acquire_keeps_content(1) [OF at a]
  from at have wf: "wf_os ?w" "has_fcntl ?w" by (simp_all add: lock_at_def outside_def lock_ok_def)
  from wf a have "lock_taken ?w w1" by (cases rule: lock_acquire_outcome) simp_all
  note f = lock_taken_holds(3) [OF this]
  have lp: "lk_path ?w = ?p @ lit ''.lock''" by (simp add: with_lock_path_def)
  have rs: "resolve ?w (lk_path ?w) = lit ''/v.lock''" "resolve w1 ?p = ?p"
    using lock_frame_resolve [OF f] by (simp_all add: lp resolve_session)
  have names: "d_names (disk w1) (lit ''/.vault-a.tmp'') = None"
    using f rs(1) by (simp add: lock_frame_def sample_session_simps lit_def)
  have same: "tape w1 = (\<lambda>i. of_nat i)" "faults w1 = (\<lambda>c. None)" "tmp_names w1 = (\<lambda>n. lit ''a'')" "cwd w1 = lit ''/''"
    using f by (simp_all add: lock_frame_def with_lock_path_def sample_session_simps fun_eq_iff)
  note facts = create_body_facts [OF sample_crypto_ok i1 sample_params_ok b]
  from create_locked_ok [OF sample_crypto_ok sample_outside sample_params_ok w] facts names same rs(2) w
  show thesis by (intro that [of w]) (simp_all add: quiet_def sample_paths(5))
qed

section \<open>The identifiers of the sample source\<close>

lemma sample_positions:
  fixes a b n :: nat
  assumes "a \<le> b" and "b < 4" and "(n + 16 * a) mod 256 = (n + 16 * b) mod 256"
  shows "a = b"
proof (rule ccontr)
  assume "a \<noteq> b"
  with assms(1) have "0 < (n + 16 * b) - (n + 16 * a)" by simp
  moreover have "256 dvd (n + 16 * b) - (n + 16 * a)"
    using assms(1,3) mod_eq_dvd_iff_nat [of "n + 16 * a" "n + 16 * b" 256] by simp
  ultimately have "256 \<le> (n + 16 * b) - (n + 16 * a)" by (simp add: dvd_imp_le)
  with assms(2) show False by simp
qed

lemma sample_source: "source_varied (\<lambda>i. of_nat i) 3"
  unfolding source_varied_def
proof (intro allI impI)
  fix n :: nat and S :: "pystr set" assume S: "finite S \<and> card S \<le> 3"
  let ?t = "\<lambda>i. of_nat i :: byte" and ?f = "\<lambda>k. bytes_hex (tape_read (\<lambda>i. of_nat i) (n + 16 * k) 4)"
  have inj: "inj_on ?f {0..<4 :: nat}"
  proof (rule inj_onI)
    fix j k assume jk: "j \<in> {0..<4 :: nat}" "k \<in> {0..<4}" and "?f j = ?f k"
    from bytes_hex_inj [OF this(3)] have "hd (tape_read ?t (n + 16 * j) 4) = hd (tape_read ?t (n + 16 * k) 4)" by simp
    then have "(of_nat (n + 16 * j) :: byte) = of_nat (n + 16 * k)" by (simp add: tape_read_def hd_map upt_rec)
    then have "(n + 16 * j) mod 256 = (n + 16 * k) mod 256"
      unfolding word_of_nat_eq_iff take_bit_eq_mod by simp
    with jk sample_positions [of j k n] sample_positions [of k j n] show "j = k"
      by (cases "j \<le> k") simp_all
  qed
  show "\<exists>k. ?f k \<notin> S"
  proof (rule ccontr)
    assume "\<not> (\<exists>k. ?f k \<notin> S)"
    then have "?f ` {0..<4} \<subseteq> S" by blast
    from card_mono [OF _ this] card_image [OF inj] S show False by simp
  qed
qed

section \<open>Witnesses\<close>

definition sample_run :: "repo_op list" where
  "sample_run = [AddEntry (lit ''mail'') (lit ''ann'') (lit ''pw'') [], DeleteEntry (lit ''none''),
     ChangeMaster (blit ''new'') None]"

lemma plain_lits [simp]: "plain_str (lit ''mail'')" "plain_str (lit ''ann'')" "plain_str (lit ''pw'')"
  by (rule plain_str_lit_ascii, simp)+

lemma sample_run_ok: "list_all op_plain sample_run" "length sample_run = 3"
  "sum_list (map op_growth sample_run) = 898"
  by (simp_all add: sample_run_def)

lemma body_bound_Nil [simp]: "body_bound [] = 40"
  by (simp add: body_bound_def)

theorem repo_run_refines_witness:
  "\<exists>(w :: session) rs w' sts. live sample_crypto sample_password w \<and> r_entries w = [] \<and>
     repo_run sample_crypto (\<lambda>v. []) sample_run w = Some (rs, w') \<and>
     spec_run (sample_password, []) sample_run sts \<and> live sample_crypto (fst (last sts)) w' \<and>
     r_entries w' = snd (last sts)"
proof -
  obtain w :: session where w: "live sample_crypto sample_password w" "r_entries w = []" "r_path w = lit ''/v''"
    "vault_holds sample_crypto sample_password [] (lit ''/v'') w"
    "uv_counter (r_unlocked w) = 0" "tape w = (\<lambda>i. of_nat i)"
    by (rule sample_created [of "\<lambda>v. []"]) blast
  have v: "vault_holds sample_crypto sample_password (r_entries w) (r_path w) w" using w by simp
  have "body_bound (r_entries w) + sum_list (map op_growth sample_run) \<le> MAX_PLAINTEXT"
    using w(2) by (simp add: sample_run_ok MAX_PLAINTEXT_def)
  moreover have "uv_counter (r_unlocked w) + int (length sample_run) < 2 ^ 64"
    using w(5) by (simp add: sample_run_ok)
  moreover have "source_varied (tape w) (length (r_entries w) + length sample_run)"
    using w(2,6) sample_source by (simp add: sample_run_ok)
  ultimately show ?thesis
    using repo_run_refines [OF sample_crypto_ok w(1) v sample_run_ok(1), of "\<lambda>v. []"] w(1,2) by metis
qed

theorem reopen_after_close_witness:
  "\<exists>(w :: session) w1 w2. live sample_crypto sample_password w \<and> repo_close w = Some (Inr (), w1) \<and>
     repo_open sample_crypto (\<lambda>v. []) (lit ''/v'') sample_password w1 = Some (Inr (), w2) \<and>
     repo_list w2 = Some (Inr [], w2)"
proof -
  obtain w :: session where w: "live sample_crypto sample_password w" "r_entries w = []" "r_path w = lit ''/v''"
    "vault_holds sample_crypto sample_password [] (lit ''/v'') w" "quiet w" by (rule sample_created [of "\<lambda>v. []"]) blast
  have v: "vault_holds sample_crypto sample_password (r_entries w) (r_path w) w" using w by simp
  from reopen_after_close [OF sample_crypto_ok w(1) v w(5), of "\<lambda>v. []"] w(1,2,3) show ?thesis by auto
qed

theorem failed_open_releases_lock_witness:
  "\<exists>r w'. repo_create sample_crypto (\<lambda>v. []) (lit ''/v'') [] None sample_session = Some (r, w') \<and>
     (case r of
        Inr u \<Rightarrow> \<not> locked sample_session (lit ''/v'' @ lit ''.lock'') \<and> lock_mine w'
      | Inl e \<Rightarrow> locked w' (lit ''/v'' @ lit ''.lock'') = locked sample_session (lit ''/v'' @ lit ''.lock''))"
  by (rule failed_open_releases_lock [OF sample_outside]) (rule insertI2, rule insertI1)

theorem close_wipes_and_releases_witness:
  "\<exists>(w :: session) r w'. live sample_crypto sample_password w \<and> repo_close w = Some (r, w') \<and>
     zeroed (heap w' (uv_dek (r_unlocked w)))"
proof -
  obtain w :: session where w: "live sample_crypto sample_password w" by (rule sample_created [of "\<lambda>v. []"]) blast
  from close_wipes_and_releases [OF w] w show ?thesis by blast
qed

theorem add_entry_appends_witness:
  "\<exists>(w :: session) e r w'. repo_add sample_crypto (\<lambda>v. []) (lit ''mail'') (lit ''ann'') (lit ''pw'') [] w = Some (r, w') \<and>
     r_entries w = [] \<and> r_entries w' = [e] \<and> e_service e = lit ''mail''"
proof -
  obtain w :: session where w: "live sample_crypto sample_password w" "r_entries w = []"
    "uv_counter (r_unlocked w) = 0" "tape w = (\<lambda>i. of_nat i)" by (rule sample_created [of "\<lambda>v. []"]) blast
  have "source_varied (tape w) (length (r_entries w))"
    using w(2,4) source_varied_mono [OF sample_source] by simp
  from add_entry_appends [OF sample_crypto_ok w(1), of "lit ''mail''" "lit ''ann''" "lit ''pw''" "[]", OF _ _ _ _ _ _ this,
      of "\<lambda>v. []"] w(2,3)
  show ?thesis by (auto simp: MAX_PLAINTEXT_def is_new_entry_def)
qed

theorem missing_entry_refused_witness:
  "repo_get (lit ''x'') sample_session = Some (Inl (EntryNotFoundError (lit ''x'')), sample_session)"
  using missing_entry_refused [of "lit ''x''" sample_session] by (simp add: sample_session_defs)


lemma sample_free_path: "r_path w = lit ''/v'' \<Longrightarrow> cwd w = lit ''/'' \<Longrightarrow> tmp_names w = (\<lambda>n. lit ''a'') \<Longrightarrow>
    d_names (disk w) (lit ''/.vault-a.tmp'') = None \<Longrightarrow> tmp_free w (r_path w)"
  by (simp add: tmp_free_def resolve_def sample_paths tmp_path_def)

theorem operation_succeeds_witness:
  "\<exists>(w :: session) r st w'. live sample_crypto sample_password w \<and> quiet w \<and>
     repo_do sample_crypto (\<lambda>v. []) (AddEntry (lit ''mail'') (lit ''ann'') (lit ''pw'') []) w = Some (r, w') \<and>
     r = Inr () \<and> vault_holds sample_crypto (fst st) (snd st) (r_path w) w'"
proof -
  let ?x = "AddEntry (lit ''mail'') (lit ''ann'') (lit ''pw'') []"
  obtain w :: session where w: "live sample_crypto sample_password w" "r_entries w = []" "r_path w = lit ''/v''"
    "uv_counter (r_unlocked w) = 0" "tape w = (\<lambda>i. of_nat i)" "quiet w"
    "d_names (disk w) (lit ''/.vault-a.tmp'') = None" "tmp_names w = (\<lambda>n. lit ''a'')" "cwd w = lit ''/''"
    by (rule sample_created [of "\<lambda>v. []"]) blast
  have room: "body_bound (r_entries w) + op_growth ?x \<le> MAX_PLAINTEXT"
    using w(2) by (simp add: MAX_PLAINTEXT_def)
  have "source_varied (tape w) (length (r_entries w))"
    using w(2,5) source_varied_mono [OF sample_source] by simp
  from operation_succeeds [OF sample_crypto_ok w(1) _ room _ this w(6) sample_free_path [OF w(3,9,8,7)], of "\<lambda>v. []"]
  obtain r st w' where o: "repo_do sample_crypto (\<lambda>v. []) ?x w = Some (r, w')"
    "vault_spec (sample_password, r_entries w) ?x st"
    "r = Inr () \<and> vault_holds sample_crypto (fst st) (snd st) (r_path w) w' \<or>
     (\<exists>i. r = Inl (EntryNotFoundError i) \<and> i \<notin> e_id ` set (r_entries w) \<and> st = (sample_password, r_entries w))"
    using w(4) by auto
  from o(2) have "st \<noteq> (sample_password, r_entries w)" by (auto elim!: vault_spec_addE simp: append_entry_def)
  with o w(1,6) show ?thesis by blast
qed

lemma mkstemp_refused:
  "faults w (calls w) = Some (OSError n) \<Longrightarrow>
     mkstemp d w = Some (Inl (OSError n), w\<lparr>tmp_next := Suc (tmp_next w), calls := Suc (calls w)\<rparr>)"
  unfolding mkstemp_first mkstemp_loop.simps
  by (simp add: next_tmp_name_def sys_open_excl_def pbind_def handle_def syscall_def Let_def)

lemma first_call_refused:
  "faults w (calls w) = Some (OSError n) \<Longrightarrow>
     write_atomic path data w = Some (Inl (OSError n), w\<lparr>tmp_next := Suc (tmp_next w), calls := Suc (calls w)\<rparr>)"
  by (simp add: write_atomic_def target_dir_def pbind_def mkstemp_refused)

lemma live_faults [simp]: "live c pw (w\<lparr>faults := f\<rparr>) = live c pw w"
  by (simp add: live_def at_home_def unlocked_ok_def session_ok_def lock_ok_def lock_mine_def store_ready_def
      wf_os_def tmp_clear_def lock_clear_def resolve_def holds_def)

theorem create_race_overwrites_witness:
  "\<exists>w'. create_locked sample_crypto (\<lambda>v. []) (lit ''/v'') sample_password None (sample_session\<lparr>disk := disk sample_os\<rparr>) =
       Some (Inr (), w') \<and>
     file_content (lit ''/v'') (sample_session\<lparr>disk := disk sample_os\<rparr>) = Some [1] \<and>
     vault_holds sample_crypto sample_password [] (lit ''/v'') w'"
proof -
  let ?p = "lit ''/v''" and ?w = "sample_session\<lparr>disk := disk sample_os\<rparr>"
  have r: "resolve ?w = resolve sample_session" by (simp add: resolve_def fun_eq_iff)
  have "wf_os ?w" by (auto simp: wf_os_def sample_session_defs)
  then have o: "outside ?p ?w"
    by (simp add: outside_def lock_ok_def store_ready_def tmp_clear_def lock_clear_def r resolve_session
        sample_session_simps sample_paths)
       (simp add: sample_session_defs lit_def)
  have q: "quiet ?w" "\<not> locked ?w q" "lock_not_tmp ?w ?p" for q
    using sample_session_quiet sample_session_free(3)
    by (simp_all add: quiet_def locked_def lock_not_tmp_def r sample_session_simps)
  have t: "tmp_free ?w ?p"
    by (simp add: tmp_free_def r resolve_session sample_session_simps sample_paths)
       (simp add: sample_os_def lit_def)
  have f: "file_content ?p ?w = Some [1]"
    by (simp add: file_content_def r resolve_session visible_def) (simp add: sample_os_def)
  from create_race_overwrites [OF sample_crypto_ok o sample_params_ok q(1,2) t q(3) f, of "\<lambda>v. []" sample_password] f
  show ?thesis by blast
qed


lemma sample_adds:
  fixes w :: session
  assumes "live sample_crypto pw w" and "r_entries w = []" and "uv_counter (r_unlocked w) \<le> 1"
    and "tape w = (\<lambda>i. of_nat i)" and "quiet w" and "tmp_free w (r_path w)"
  shows "\<exists>w'. repo_do sample_crypto rp (AddEntry (lit ''mail'') (lit ''ann'') (lit ''pw'') []) w = Some (Inr (), w')"
proof -
  let ?x = "AddEntry (lit ''mail'') (lit ''ann'') (lit ''pw'') []"
  have room: "body_bound (r_entries w) + op_growth ?x \<le> MAX_PLAINTEXT"
    using assms(2) by (simp add: MAX_PLAINTEXT_def)
  have src: "source_varied (tape w) (length (r_entries w))"
    using assms(2,4) source_varied_mono [OF sample_source] by simp
  from repo_do_done [OF sample_crypto_ok assms(1) _ room _ src order_refl, of rp] assms(3) obtain r st w' where
    o: "repo_do sample_crypto rp ?x w = Some (r, w')" "op_done sample_crypto (pw, r_entries w) ?x w r st w'" by auto
  from o(2) have "vault_spec (pw, r_entries w) ?x st" by (simp add: op_done_def)
  then have "st \<noteq> (pw, r_entries w)" by (auto elim!: vault_spec_addE simp: append_entry_def)
  with o assms(5,6) show ?thesis by (auto simp: op_done_def)
qed

lemma sample_change_refused:
  fixes w :: session
  assumes "live sample_crypto sample_password w" and "uv_counter (r_unlocked w) = 0"
    and "faults w = (\<lambda>n. None)(calls w := Some (OSError 5))"
  shows "\<exists>w1. repo_do sample_crypto rp (ChangeMaster (blit ''new'') None) w = Some (Inl (OSError 5), w1) \<and>
    quiet w1 \<and> disk w1 = disk w \<and> tmp_names w1 = tmp_names w"
proof -
  from assms(1) obtain d b where s: "session_ok sample_crypto sample_password d b (r_unlocked w) w"
    by (auto simp: live_def unlocked_ok_def)
  then have "params_ok (case None of None \<Rightarrow> uv_params (r_unlocked w) | Some q \<Rightarrow> q)" by (simp add: session_ok_def)
  from vault_change_password_ok [OF sample_crypto_ok s this, of "blit ''new''"] assms(2) obtain f u' where
    run: "vault_change_password sample_crypto (r_unlocked w) (blit ''new'') None w
      = Some (Inr (file_bytes f, u'), w\<lparr>tpos := 40 + tpos w\<rparr>)" by auto
  have "faults (w\<lparr>tpos := 40 + tpos w, r_unlocked := u'\<rparr>) (calls (w\<lparr>tpos := 40 + tpos w, r_unlocked := u'\<rparr>)) = Some (OSError 5)"
    by (simp add: assms(3))
  from first_call_refused [OF this] show ?thesis
    by (simp add: repo_change_password_def pbind_def run gets_def modify_def quiet_def assms(3))
qed

theorem failed_password_change_takes_effect_witness:
  "\<exists>(w :: session) w1 w2 es. live sample_crypto sample_password w \<and>
     repo_do sample_crypto (\<lambda>v. []) (ChangeMaster (blit ''new'') None) w = Some (Inl (OSError 5), w1) \<and>
     repo_do sample_crypto (\<lambda>v. []) (AddEntry (lit ''mail'') (lit ''ann'') (lit ''pw'') []) w1 = Some (Inr (), w2) \<and>
     vault_holds sample_crypto (blit ''new'') es (r_path w) w2"
proof -
  let ?x = "AddEntry (lit ''mail'') (lit ''ann'') (lit ''pw'') []" and ?y = "ChangeMaster (blit ''new'') None"
  obtain v :: session where v: "live sample_crypto sample_password v" "r_entries v = []" "r_path v = lit ''/v''"
    "uv_counter (r_unlocked v) = 0" "tape v = (\<lambda>i. of_nat i)"
    "d_names (disk v) (lit ''/.vault-a.tmp'') = None" "tmp_names v = (\<lambda>n. lit ''a'')" "cwd v = lit ''/''"
    by (rule sample_created [of "\<lambda>v. []"]) blast
  define w where "w = v\<lparr>faults := (\<lambda>n. None)(calls v := Some (OSError 5))\<rparr>"
  have w: "live sample_crypto sample_password w" "r_entries w = []" "r_path w = lit ''/v''"
    "uv_counter (r_unlocked w) = 0" "tape w = (\<lambda>i. of_nat i)" "disk w = disk v" "tmp_names w = (\<lambda>n. lit ''a'')"
    "cwd w = lit ''/''" "faults w = (\<lambda>n. None)(calls w := Some (OSError 5))"
    using v by (simp_all add: w_def)
  from sample_change_refused [OF w(1,4,9)] obtain w1 where
    c: "repo_do sample_crypto (\<lambda>v. []) ?y w = Some (Inl (OSError 5), w1)" "quiet w1" "disk w1 = disk w"
      "tmp_names w1 = tmp_names w" by blast
  have src: "source_varied (tape w) (length (r_entries w))"
    using w(2,5) source_varied_mono [OF sample_source] by simp
  have room: "body_bound (r_entries w) + op_growth x \<le> MAX_PLAINTEXT" if "x \<in> {?x, ?y}" for x
    using that w(2) by (auto simp: MAX_PLAINTEXT_def)
  from repo_do_done [OF sample_crypto_ok w(1) _ room [of ?y] _ src order_refl, of "\<lambda>v. []"] c(1) w(4) obtain st where
    "op_done sample_crypto (sample_password, r_entries w) ?y w (Inl (OSError 5)) st w1" by auto
  then have l: "live sample_crypto (blit ''new'') w1" "r_entries w1 = []" "same_object w w1" "uv_counter (r_unlocked w1) \<le> 1"
    using w(2,4) by (auto simp: op_done_def vault_spec_change)
  then have t: "tape w1 = (\<lambda>i. of_nat i)" "tmp_free w1 (r_path w1)"
    using w(3,5,6,7,8) v(6) c(3,4) sample_free_path [of w1] by (simp_all add: same_object_def)
  from sample_adds [OF l(1,2,4) t(1) c(2) t(2)] obtain w2 where
    a: "repo_do sample_crypto (\<lambda>v. []) ?x w1 = Some (Inr (), w2)" by blast
  from failed_password_change_takes_effect [OF sample_crypto_ok w(1) _ _ _ room [of ?x] _ src c(1) a] w(4)
  have "\<exists>es. vault_holds sample_crypto (blit ''new'') es (r_path w) w2 \<and> r_entries w2 = es" by simp
  with w(1) c(1) a show ?thesis by blast
qed

end
