(* ===== verification/Clipboard.thy ===== *)
theory Clipboard
  imports Errors
begin

text \<open>
  \<open>src/securevault/clipboard.py\<close>: copying a secret to the system clipboard and clearing it after a
  wait. The library \<open>pyperclip\<close> is a pair of parameters (its \<open>copy\<close> and \<open>paste\<close>), wrapped by the
  model of \<open>PyperclipBackend\<close>; \<open>time.sleep\<close> and the notification are programs that may end with
  any exception. \<open>clipboard_ok\<close> states what a backend promises about the contents of the clipboard.
\<close>

section \<open>The module\<close>

definition DEFAULT_TIMEOUT_SECONDS :: int where "DEFAULT_TIMEOUT_SECONDS = 20"

record 'w clipboard_backend =
  cb_copy :: "pystr \<Rightarrow> ('w, unit) prog"
  cb_paste :: "('w, pystr) prog"

definition unavailable :: "exn \<Rightarrow> ('w, 'a) prog" where
  "unavailable e = (case e of PyperclipException m \<Rightarrow> throw (ClipboardUnavailableError m) | _ \<Rightarrow> throw e)"

definition pyperclip_backend ::
  "(pystr \<Rightarrow> ('w, unit) prog) \<Rightarrow> ('w, pystr) prog \<Rightarrow> 'w clipboard_backend" where
  "pyperclip_backend pc_copy pc_paste =
     \<lparr>cb_copy = (\<lambda>text. handle (pc_copy text) unavailable), cb_paste = handle pc_paste unavailable\<rparr>"

record clipboard_session_result =
  cleared :: bool
  interrupted :: bool

definition clear_if_unchanged :: "pystr \<Rightarrow> 'w clipboard_backend \<Rightarrow> ('w, bool) prog" where
  "clear_if_unchanged expected backend =
     pbind (cb_paste backend) (\<lambda>t.
     if t \<noteq> expected then ret False else pbind (cb_copy backend []) (\<lambda>_. ret True))"

text \<open>\<open>try: m finally: y = f\<close>: the value computed in the \<open>finally\<close> block is used afterwards.\<close>

definition finally_value :: "('w, 'a) prog \<Rightarrow> ('w, 'b) prog \<Rightarrow> ('w, 'a \<times> 'b) prog" where
  "finally_value m f w =
     (case m w of
        None \<Rightarrow> None
      | Some (r, w') \<Rightarrow>
          (case f w' of
             None \<Rightarrow> None
           | Some (Inl e, w'') \<Rightarrow> Some (Inl e, w'')
           | Some (Inr y, w'') \<Rightarrow> Some (rbind r (\<lambda>x. Inr (x, y)), w'')))"

fun is_interrupt :: "exn \<Rightarrow> bool" where
  "is_interrupt KeyboardInterrupt = True"
| "is_interrupt (SystemExit n) = True"
| "is_interrupt e = False"

definition interruptible :: "('w, unit) prog \<Rightarrow> ('w, bool) prog" where
  "interruptible m =
     handle (pbind m (\<lambda>_. ret False)) (\<lambda>e. if is_interrupt e then ret True else throw e)"

definition copy_and_autoclear ::
  "pystr \<Rightarrow> int \<Rightarrow> 'w clipboard_backend \<Rightarrow> (int \<Rightarrow> ('w, unit) prog) \<Rightarrow> ('w, unit) prog option \<Rightarrow>
     ('w, clipboard_session_result) prog" where
  "copy_and_autoclear secret timeout backend sleep on_copied =
     pbind (cb_copy backend secret) (\<lambda>_.
     pbind (case on_copied of None \<Rightarrow> ret () | Some f \<Rightarrow> f) (\<lambda>_.
     pbind (finally_value (interruptible (sleep timeout)) (clear_if_unchanged secret backend)) (\<lambda>(i, c).
     ret \<lparr>cleared = c, interrupted = i\<rparr>)))"

section \<open>What a backend promises\<close>

text \<open>Copying sets the contents or fails without effect; pasting reads them and changes nothing.\<close>

definition clipboard_ok :: "('w \<Rightarrow> pystr) \<Rightarrow> 'w clipboard_backend \<Rightarrow> bool" where
  "clipboard_ok content b \<longleftrightarrow>
     (\<forall>t w. \<exists>r w'. cb_copy b t w = Some (r, w') \<and>
        content w' = (case r of Inr u \<Rightarrow> t | Inl e \<Rightarrow> content w)) \<and>
     (\<forall>w. \<exists>r w'. cb_paste b w = Some (r, w') \<and> content w' = content w \<and>
        (case r of Inr t \<Rightarrow> t = content w | Inl e \<Rightarrow> True))"

lemma clipboard_copyE:
  assumes "clipboard_ok content b"
  obtains r w' where "cb_copy b t w = Some (r, w')" and "content w' = (case r of Inr u \<Rightarrow> t | Inl e \<Rightarrow> content w)"
  using assms unfolding clipboard_ok_def by blast

lemma clipboard_pasteE:
  assumes "clipboard_ok content b"
  obtains (read) w' where "cb_paste b w = Some (Inr (content w), w')" and "content w' = content w"
  | (failed) e w' where "cb_paste b w = Some (Inl e, w')" and "content w' = content w"
proof -
  from assms obtain r w' where r: "cb_paste b w = Some (r, w')" "content w' = content w"
    "case r of Inr t \<Rightarrow> t = content w | Inl e \<Rightarrow> True" unfolding clipboard_ok_def by blast
  with read failed show thesis by (cases r) auto
qed

lemma handle_unavailable:
  assumes "m w = Some (r, w')"
  shows "\<exists>r'. handle m unavailable w = Some (r', w') \<and>
    (case r of Inr x \<Rightarrow> r' = Inr x | Inl e \<Rightarrow> \<exists>e'. r' = Inl e')"
proof (cases r)
  case (Inl e)
  with assms show ?thesis by (cases e) (simp_all add: handle_def unavailable_def)
qed (use assms in \<open>simp add: handle_def\<close>)

text \<open>The wrapper keeps the promises of the library: only the exception changes.\<close>

lemma pyperclip_ok:
  assumes "clipboard_ok content \<lparr>cb_copy = pc_copy, cb_paste = pc_paste\<rparr>"
  shows "clipboard_ok content (pyperclip_backend pc_copy pc_paste)"
  unfolding clipboard_ok_def pyperclip_backend_def clipboard_backend.simps
proof (intro conjI allI)
  fix t w
  from assms obtain r w' where "pc_copy t w = Some (r, w')" "content w' = (case r of Inr u \<Rightarrow> t | Inl e \<Rightarrow> content w)"
    by (rule clipboard_copyE) simp
  with handle_unavailable [of "pc_copy t" w r w'] show "\<exists>r w'. handle (pc_copy t) unavailable w = Some (r, w') \<and>
      content w' = (case r of Inr u \<Rightarrow> t | Inl e \<Rightarrow> content w)" by (cases r) auto
next
  fix w
  from assms obtain r w' where "pc_paste w = Some (r, w')" "content w' = content w"
    "case r of Inr t \<Rightarrow> t = content w | Inl e \<Rightarrow> True"
    unfolding clipboard_ok_def clipboard_backend.simps by blast
  with handle_unavailable [of pc_paste w r w'] show "\<exists>r w'. handle pc_paste unavailable w = Some (r, w') \<and>
      content w' = content w \<and> (case r of Inr t \<Rightarrow> t = content w | Inl e \<Rightarrow> True)" by (cases r) auto
qed

end
