(* ===== verification/ClipboardProperties.thy ===== *)
theory ClipboardProperties
  imports Clipboard
begin

text \<open>
  The properties of the clipboard session, and a clipboard on which their hypotheses hold: a machine
  whose state is the contents of the clipboard.
\<close>

lemma clear_if_unchanged_reads:
  "cb_paste b w = Some (Inr t, w') \<Longrightarrow>
     clear_if_unchanged secret b w =
       (if t = secret then pbind (cb_copy b []) (\<lambda>_. ret True) w' else Some (Inr False, w'))"
  by (simp add: clear_if_unchanged_def pbind_Inr)

lemma interruptible_run:
  "sleep w = Some (r, w') \<Longrightarrow> interruptible sleep w =
     Some (case r of Inr u \<Rightarrow> Inr False | Inl e \<Rightarrow> if is_interrupt e then Inr True else Inl e, w')"
  by (cases r) (auto simp: interruptible_def handle_def pbind_def)

lemma autoclear_run:
  assumes "cb_copy b secret w = Some (Inr (), w1)"
    and "(case on_copied of None \<Rightarrow> ret () | Some f \<Rightarrow> f) w1 = Some (Inr (), w2)"
    and "sleep timeout w2 = Some (r, w3)" and "clear_if_unchanged secret b w3 = Some (Inr c, w4)"
  shows "copy_and_autoclear secret timeout b sleep on_copied w =
    Some (case r of Inr u \<Rightarrow> Inr \<lparr>cleared = c, interrupted = False\<rparr>
       | Inl e \<Rightarrow> if is_interrupt e then Inr \<lparr>cleared = c, interrupted = True\<rparr> else Inl e, w4)"
  using assms interruptible_run [where sleep = "sleep timeout", OF assms(3)]
  by (cases r) (auto simp: copy_and_autoclear_def pbind_Inr finally_value_def pbind_def)

text \<open>Once the secret is on the clipboard and announced, it is gone when the call ends, however
  the wait ends (time, Ctrl-C, a signal, any other exception): the clipboard is cleared if it still
  holds the secret and left alone if the user copied something else; an interrupted wait is
  reported, any other exception goes on.\<close>

theorem autoclear_clears:
  assumes "clipboard_ok content b" and "cb_copy b secret w = Some (Inr (), w1)"
    and "(case on_copied of None \<Rightarrow> ret () | Some f \<Rightarrow> f) w1 = Some (Inr (), w2)"
    and "sleep timeout w2 = Some (r, w3)"
    and "cb_paste b w3 = Some (Inr t, w4)" and "cb_copy b [] w4 = Some (Inr (), w5)"
  shows "\<exists>w'. copy_and_autoclear secret timeout b sleep on_copied w =
      Some (case r of Inr u \<Rightarrow> Inr \<lparr>cleared = (content w3 = secret), interrupted = False\<rparr>
        | Inl e \<Rightarrow> if is_interrupt e then Inr \<lparr>cleared = (content w3 = secret), interrupted = True\<rparr> else Inl e, w') \<and>
    content w' = (if content w3 = secret then [] else content w3)"
proof -
  from assms(1) have t: "t = content w3" and c4: "content w4 = content w3"
    by (cases rule: clipboard_pasteE [of content b w3]; use assms(5) in simp)+
  from assms(1) have c5: "content w5 = []"
    by (rule clipboard_copyE [of content b "[]" w4]) (use assms(6) in simp)
  show ?thesis
  proof (cases "content w3 = secret")
    case True
    have "clear_if_unchanged secret b w3 = Some (Inr True, w5)"
      using clear_if_unchanged_reads [OF assms(5)] t True assms(6) by (simp add: pbind_Inr)
    from autoclear_run [where sleep = sleep and timeout = timeout, OF assms(2-4) this] c5 True show ?thesis by (cases r) auto
  next
    case False
    have "clear_if_unchanged secret b w3 = Some (Inr False, w4)"
      using clear_if_unchanged_reads [OF assms(5)] t False by simp
    from autoclear_run [where sleep = sleep and timeout = timeout, OF assms(2-4) this] c4 False show ?thesis by (cases r) auto
  qed
qed

text \<open>If the first copy fails nothing else happens: no announcement, no wait, and the clipboard
  is as it was. But an exception of the announcement itself is raised before the wait's
  \<open>finally\<close> is in force, and leaves the secret on the clipboard.\<close>

theorem autoclear_before_the_wait:
  assumes "clipboard_ok content b"
  shows "\<exists>r w1. cb_copy b secret w = Some (r, w1) \<and>
    (case r of
       Inl e \<Rightarrow> copy_and_autoclear secret timeout b sleep (Some announce) w = Some (Inl e, w1) \<and> content w1 = content w
     | Inr u \<Rightarrow> content w1 = secret \<and>
         (case announce w1 of
            Some (Inl e, w2) \<Rightarrow> copy_and_autoclear secret timeout b sleep (Some announce) w = Some (Inl e, w2)
          | _ \<Rightarrow> True))"
proof -
  from assms obtain r w1 where r: "cb_copy b secret w = Some (r, w1)"
    "content w1 = (case r of Inr u \<Rightarrow> secret | Inl e \<Rightarrow> content w)" by (rule clipboard_copyE)
  then show ?thesis
    by (intro exI [of _ r] exI [of _ w1])
       (auto simp: copy_and_autoclear_def pbind_def split: sum.splits option.splits)
qed

section \<open>Witnesses\<close>

definition sample_clipboard :: "pystr clipboard_backend" where
  "sample_clipboard = pyperclip_backend (\<lambda>t w. Some (Inr (), t)) (\<lambda>w. Some (Inr w, w))"

lemma sample_clipboard_ok: "clipboard_ok (\<lambda>w. w) sample_clipboard"
  unfolding sample_clipboard_def by (rule pyperclip_ok) (simp add: clipboard_ok_def)

lemma sample_clipboard_run:
  "cb_copy sample_clipboard t w = Some (Inr (), t)" "cb_paste sample_clipboard w = Some (Inr w, w)"
  by (simp_all add: sample_clipboard_def pyperclip_backend_def handle_def)

text \<open>Ctrl-C during the wait.\<close>

theorem autoclear_clears_witness:
  "copy_and_autoclear (lit ''pw'') 20 sample_clipboard (\<lambda>s. throw KeyboardInterrupt) None (lit ''old'') =
     Some (Inr \<lparr>cleared = True, interrupted = True\<rparr>, [])"
proof -
  have "(case None of None \<Rightarrow> ret () | Some f \<Rightarrow> f) (lit ''pw'') = Some (Inr (), lit ''pw'')" by simp
  from autoclear_clears [where sleep = "\<lambda>s. throw KeyboardInterrupt" and timeout = 20 and r = "Inl KeyboardInterrupt"
        and w = "lit ''old''", OF sample_clipboard_ok sample_clipboard_run(1) this _ sample_clipboard_run(2,1)]
  show ?thesis by simp
qed

theorem autoclear_before_the_wait_witness:
  "copy_and_autoclear (lit ''pw'') 20 sample_clipboard (\<lambda>s. ret ()) (Some (throw (OSError 32))) (lit ''old'') =
     Some (Inl (OSError 32), lit ''pw'')"
  using autoclear_before_the_wait [OF sample_clipboard_ok, of "lit ''pw''" "lit ''old''" 20 "\<lambda>s. ret ()" "throw (OSError 32)"]
  by (simp add: sample_clipboard_run)

end
