(* ===== verification/PasswordGen.thy ===== *)
theory PasswordGen
  imports Runtime Complex_Main
begin

text \<open>
  \<open>src/securevault/passwordgen.py\<close>: the policy, the generator and the entropy estimate. The standard
  library's \<open>secrets.choice\<close> and \<open>SystemRandom.shuffle\<close> are modelled down to the octets they draw:
  a number below \<open>n\<close> is drawn by reading blocks of \<open>n.bit_length()\<close> bits until one is below \<open>n\<close>, and the
  shuffle is the exchange loop of \<open>random.Random.shuffle\<close>. The loop has no bound, so drawing is a
  \<open>partial_function\<close>; that it ends is proved for every random source that is \<open>fair\<close>.
\<close>

section \<open>The policy\<close>

definition UPPER :: pystr where "UPPER = lit ''ABCDEFGHIJKLMNOPQRSTUVWXYZ''"
definition LOWER :: pystr where "LOWER = lit ''abcdefghijklmnopqrstuvwxyz''"
definition DIGITS :: pystr where "DIGITS = lit ''0123456789''"
definition SYMBOLS :: pystr where "SYMBOLS = lit ''!@#$%^&*()-_=+[]{};:,.<>?/''"
definition AMBIGUOUS :: "nat set" where "AMBIGUOUS = set (lit ''Il1O0'')"

definition MIN_LENGTH :: int where "MIN_LENGTH = 8"
definition MAX_LENGTH :: int where "MAX_LENGTH = 256"
definition DEFAULT_LENGTH :: int where "DEFAULT_LENGTH = 20"

record password_policy =
  pol_length :: int
  use_upper :: bool
  use_lower :: bool
  use_digits :: bool
  use_symbols :: bool
  exclude_ambiguous :: bool

definition default_policy :: password_policy where
  "default_policy =
     \<lparr>pol_length = DEFAULT_LENGTH, use_upper = True, use_lower = True, use_digits = True,
      use_symbols = True, exclude_ambiguous = False\<rparr>"

definition selected_pools :: "password_policy \<Rightarrow> pystr list" where
  "selected_pools p =
     (if use_upper p then [UPPER] else []) @ (if use_lower p then [LOWER] else []) @
     (if use_digits p then [DIGITS] else []) @ (if use_symbols p then [SYMBOLS] else [])"

definition strip_ambiguous :: "pystr list \<Rightarrow> pystr list" where
  "strip_ambiguous ps = filter (\<lambda>pool. pool \<noteq> []) (map (filter (\<lambda>c. c \<notin> AMBIGUOUS)) ps)"

definition pools :: "password_policy \<Rightarrow> pystr list result" where
  "pools p =
     (let selected = selected_pools p in
      if selected = [] then Inl (ValueError (lit ''at least one character category must be enabled''))
      else
        (let selected' = (if exclude_ambiguous p then strip_ambiguous selected else selected) in
         if selected' = []
         then Inl (ValueError (lit ''excluding ambiguous characters removed every selected character category''))
         else Inr selected'))"

definition validate_policy :: "password_policy \<Rightarrow> unit result" where
  "validate_policy p =
     (if \<not> (MIN_LENGTH \<le> pol_length p \<and> pol_length p \<le> MAX_LENGTH)
      then Inl (ValueError (lit ''length must be between '' @ show_int MIN_LENGTH @ lit '' and '' @ show_int MAX_LENGTH))
      else rbind (pools p) (\<lambda>ps.
        if pol_length p < int (length ps)
        then Inl (ValueError (lit ''length '' @ show_int (pol_length p) @
               lit '' is too short to include at least one character from each of the '' @
               show_nat (length ps) @ lit '' selected categories''))
        else Inr ()))"

section \<open>Random numbers\<close>

text \<open>\<open>int.bit_length\<close>, \<open>int.from_bytes(b, "big")\<close> and \<open>SystemRandom.getrandbits(k)\<close>.\<close>

fun bit_length :: "nat \<Rightarrow> nat" where
  "bit_length n = (if n = 0 then 0 else Suc (bit_length (n div 2)))"

declare bit_length.simps [simp del]

definition num_bytes :: "nat \<Rightarrow> nat" where
  "num_bytes k = (k + 7) div 8"

definition be_value :: "bytes \<Rightarrow> nat" where
  "be_value b = foldl (\<lambda>n x. 256 * n + unat x) 0 b"

definition block_value :: "nat \<Rightarrow> bytes \<Rightarrow> nat" where
  "block_value k b = be_value b div 2 ^ (8 * num_bytes k - k)"

definition getrandbits :: "nat \<Rightarrow> ('z machine_scheme, nat) prog" where
  "getrandbits k = pbind (urandom (num_bytes k)) (\<lambda>b. ret (block_value k b))"

text \<open>\<open>_randbelow_with_getrandbits\<close>, \<open>SystemRandom.choice\<close> and \<open>SystemRandom.shuffle\<close>.\<close>

partial_function (option) randbelow ::
  "nat \<Rightarrow> 'z machine_scheme \<Rightarrow> (nat result \<times> 'z machine_scheme) option" where
  "randbelow n w =
     Option.bind (getrandbits (bit_length n) w) (\<lambda>(r, w').
       case r of
         Inl e \<Rightarrow> Some (Inl e, w')
       | Inr v \<Rightarrow> if v < n then Some (Inr v, w') else randbelow n w')"

definition secrets_choice :: "'a list \<Rightarrow> ('z machine_scheme, 'a) prog" where
  "secrets_choice xs =
     (if xs = [] then throw IndexError else pbind (randbelow (length xs)) (\<lambda>i. ret (xs ! i)))"

definition exchange :: "nat \<Rightarrow> nat \<Rightarrow> 'a list \<Rightarrow> 'a list" where
  "exchange i j xs = xs[i := xs ! j, j := xs ! i]"

fun shuffle_down :: "nat \<Rightarrow> 'a list \<Rightarrow> ('z machine_scheme, 'a list) prog" where
  "shuffle_down 0 xs = ret xs"
| "shuffle_down (Suc i) xs =
     pbind (randbelow (Suc i + 1)) (\<lambda>j. shuffle_down i (exchange (Suc i) j xs))"

definition shuffle_list :: "'a list \<Rightarrow> ('z machine_scheme, 'a list) prog" where
  "shuffle_list xs = shuffle_down (length xs - 1) xs"

section \<open>The generator\<close>

fun choose_each :: "'a list list \<Rightarrow> ('z machine_scheme, 'a list) prog" where
  "choose_each [] = ret []"
| "choose_each (p # ps) =
     pbind (secrets_choice p) (\<lambda>c. pbind (choose_each ps) (\<lambda>cs. ret (c # cs)))"

definition generate_password :: "password_policy option \<Rightarrow> ('z machine_scheme, pystr) prog" where
  "generate_password policy =
     (let p = (case policy of None \<Rightarrow> default_policy | Some p \<Rightarrow> p) in
      pbind (lift (validate_policy p)) (\<lambda>_.
      pbind (lift (pools p)) (\<lambda>ps.
      pbind (choose_each ps) (\<lambda>chars.
      pbind (choose_each (replicate (nat (pol_length p - int (length chars))) (concat ps))) (\<lambda>fill.
      shuffle_list (chars @ fill))))))"

section \<open>The entropy estimate\<close>

text \<open>The size of the apparent pool, and \<open>len(password) * log2(pool)\<close> as a real number.\<close>

definition entropy_pool :: "pystr \<Rightarrow> nat" where
  "entropy_pool password =
     (if list_ex (\<lambda>c. c \<in> set UPPER) password then length UPPER else 0) +
     (if list_ex (\<lambda>c. c \<in> set LOWER) password then length LOWER else 0) +
     (if list_ex (\<lambda>c. c \<in> set DIGITS) password then length DIGITS else 0) +
     (if list_ex (\<lambda>c. c \<notin> set UPPER \<and> c \<notin> set LOWER \<and> c \<notin> set DIGITS) password
      then length SYMBOLS else 0)"

definition estimate_entropy_bits :: "pystr \<Rightarrow> real" where
  "estimate_entropy_bits password =
     (if password = [] then 0
      else if entropy_pool password = 0 then 0
      else real (length password) * log 2 (real (entropy_pool password)))"

end
