(* ===== verification/PasswordProofs.thy ===== *)
theory PasswordProofs
  imports PasswordGen ByteStruct "HOL-Library.Multiset"
begin

text \<open>
  Lemmas on the password generator: what a draw returns and when it ends, how many blocks of octets
  give each number, and the exchange loop as a bijection between the indices drawn and the
  orders of the list.
\<close>

section \<open>The pools\<close>

lemmas pool_defs = UPPER_def LOWER_def DIGITS_def SYMBOLS_def

lemma pool_lengths [simp]: "length UPPER = 26" "length LOWER = 26" "length DIGITS = 10" "length SYMBOLS = 26"
  by (simp_all add: pool_defs)

lemma pool_not_Nil [simp]: "UPPER \<noteq> []" "LOWER \<noteq> []" "DIGITS \<noteq> []" "SYMBOLS \<noteq> []"
  using pool_lengths by (auto simp del: pool_lengths)

lemma selected_short: "length (selected_pools p) \<le> 4" "length (concat (selected_pools p)) \<le> 88"
  by (simp_all add: selected_pools_def)

lemma selected_not_Nil: "list_all (\<lambda>pool. pool \<noteq> []) (selected_pools p)"
  by (simp add: selected_pools_def)

lemma strip_not_Nil: "list_all (\<lambda>pool. pool \<noteq> []) (strip_ambiguous ps)"
  by (simp add: strip_ambiguous_def list_all_iff)

lemma strip_short: "length (strip_ambiguous ps) \<le> length ps" "length (concat (strip_ambiguous ps)) \<le> length (concat ps)"
proof -
  show "length (strip_ambiguous ps) \<le> length ps"
    using length_filter_le [of "\<lambda>pool. pool \<noteq> []" "map (filter (\<lambda>c. c \<notin> AMBIGUOUS)) ps"]
    by (simp add: strip_ambiguous_def del: length_filter_le)
  show "length (concat (strip_ambiguous ps)) \<le> length (concat ps)"
    by (induction ps) (auto simp: strip_ambiguous_def intro: add_mono)
qed

lemma pools_Inr:
  assumes "pools p = Inr ps"
  shows "ps = (if exclude_ambiguous p then strip_ambiguous (selected_pools p) else selected_pools p)"
    and "ps \<noteq> []" and "length ps \<le> 4" and "length (concat ps) \<le> 88" and "\<forall>pool \<in> set ps. pool \<noteq> []"
proof -
  show eq: "ps = (if exclude_ambiguous p then strip_ambiguous (selected_pools p) else selected_pools p)" and "ps \<noteq> []"
    using assms by (auto simp: pools_def Let_def split: if_splits)
  show "length ps \<le> 4" "length (concat ps) \<le> 88"
    using eq selected_short [of p] strip_short [of "selected_pools p"] by auto
  show "\<forall>pool \<in> set ps. pool \<noteq> []"
    using strip_not_Nil [of "selected_pools p"] selected_not_Nil [of p] by (simp add: eq list_all_iff)
qed

lemma pool_length: "pool \<in> set ps \<Longrightarrow> length pool \<le> length (concat ps)"
  by (induction ps) auto

section \<open>Blocks of random octets\<close>

lemma be_value_le: "be_value b = le_val (rev b)"
proof -
  have "foldl (\<lambda>n x. 256 * n + unat x) 0 (rev c) = le_val c" for c :: bytes
    by (induction c) simp_all
  from this [of "rev b"] show ?thesis by (simp add: be_value_def)
qed

lemma be_value_bij: "bij_betw be_value {b. length b = m} {..<256 ^ m}"
proof (rule bij_betw_byWitness [where f' = "\<lambda>n. rev (le_bytes m n)"])
  show "\<forall>b \<in> {b. length b = m}. rev (le_bytes m (be_value b)) = b"
    using le_bytes_le_val [of "rev b" for b] by (auto simp: be_value_le)
  show "\<forall>n \<in> {..<256 ^ m}. be_value (rev (le_bytes m n)) = n"
    by (simp add: be_value_le le_val_le_bytes)
  show "be_value ` {b. length b = m} \<subseteq> {..<256 ^ m}"
    using le_val_bound by (auto simp: be_value_le) (metis length_rev)
  show "(\<lambda>n. rev (le_bytes m n)) ` {..<256 ^ m} \<subseteq> {b. length b = m}" by auto
qed

lemma bit_length_0 [simp]: "bit_length 0 = 0"
  by (simp add: bit_length.simps)

lemma bit_length_bound: "n < 2 ^ bit_length n"
proof (induction n rule: bit_length.induct)
  case (1 n)
  show ?case
  proof (cases "n = 0")
    case False
    with 1 have "n div 2 < 2 ^ bit_length (n div 2)" by simp
    then have "n < 2 * 2 ^ bit_length (n div 2)" by simp
    with False show ?thesis by (simp add: bit_length.simps [of n])
  qed simp
qed

lemma num_bytes_bits: "k \<le> 8 * num_bytes k"
  by (simp add: num_bytes_def)

lemma fibre_iff:
  fixes j s v :: nat
  shows "v div 2 ^ s = j \<longleftrightarrow> v \<in> {j * 2 ^ s..<Suc j * 2 ^ s}"
proof -
  have p: "(0 :: nat) < 2 ^ s" by simp
  show ?thesis
    unfolding atLeastLessThan_iff less_eq_div_iff_mult_less_eq [OF p, symmetric]
      div_less_iff_less_mult [OF p, symmetric] by linarith
qed

text \<open>Every value of \<open>k\<close> bits comes from equally many blocks.\<close>

lemma card_block_value:
  assumes "j < 2 ^ k"
  shows "card {b. length b = num_bytes k \<and> block_value k b = j} = 2 ^ (8 * num_bytes k - k)"
proof -
  let ?m = "num_bytes k" and ?s = "8 * num_bytes k - k"
  define I :: "nat set" where "I = {j * 2 ^ ?s..<Suc j * 2 ^ ?s}"
  have iff: "block_value k b = j \<longleftrightarrow> be_value b \<in> I" for b
    by (simp only: block_value_def I_def fibre_iff)
  have "(256 :: nat) ^ ?m = (2 ^ 8) ^ ?m" by simp
  also have "\<dots> = 2 ^ (k + ?s)" using num_bytes_bits [of k] by (simp only: power_mult le_add_diff_inverse)
  finally have pw: "(256 :: nat) ^ ?m = 2 ^ k * 2 ^ ?s" by (simp only: power_add)
  have le: "Suc j * 2 ^ ?s \<le> 2 ^ k * 2 ^ ?s" using assms by (intro mult_le_mono1) (rule Suc_leI)
  have "v < 256 ^ ?m" if "v \<in> I" for v
    using that unfolding pw I_def atLeastLessThan_iff by (rule order_less_le_trans [OF conjunct2 le])
  then have sub: "I \<subseteq> be_value ` {b. length b = ?m}"
    unfolding bij_betw_imp_surj_on [OF be_value_bij] by (intro subsetI) (simp only: lessThan_iff)
  have im: "be_value ` {b. length b = ?m \<and> be_value b \<in> I} = I" using sub by blast
  have "inj_on be_value {b. length b = ?m \<and> be_value b \<in> I}"
    using bij_betw_imp_inj_on [OF be_value_bij] by (rule inj_on_subset) blast
  from card_image [OF this] have "card {b. length b = ?m \<and> be_value b \<in> I} = card I" unfolding im by (rule sym)
  also have "card I = 2 ^ ?s" by (simp only: I_def card_atLeastLessThan mult_Suc diff_add_inverse2)
  finally show ?thesis unfolding iff .
qed

section \<open>Numbers below a bound\<close>

text \<open>The \<open>i\<close>-th block a draw below \<open>n\<close> reads from position \<open>p\<close> of the source, as a number.\<close>

definition block_at :: "(nat \<Rightarrow> byte) \<Rightarrow> nat \<Rightarrow> nat \<Rightarrow> nat \<Rightarrow> nat" where
  "block_at t n p i =
     block_value (bit_length n) (tape_read t (p + i * num_bytes (bit_length n)) (num_bytes (bit_length n)))"

lemma randbelow_step:
  "randbelow n w =
     (let w' = w\<lparr>tpos := tpos w + num_bytes (bit_length n)\<rparr> in
      if block_at (tape w) n (tpos w) 0 < n then Some (Inr (block_at (tape w) n (tpos w) 0), w')
      else randbelow n w')"
  by (subst randbelow.simps) (simp add: getrandbits_def pbind_urandom block_at_def Let_def)

text \<open>The draw returns the first block that is below the bound.\<close>

lemma randbelow_first:
  assumes "block_at (tape w) n (tpos w) i < n" and "\<forall>k < i. \<not> block_at (tape w) n (tpos w) k < n"
  shows "randbelow n w =
    Some (Inr (block_at (tape w) n (tpos w) i), w\<lparr>tpos := tpos w + Suc i * num_bytes (bit_length n)\<rparr>)"
  using assms
proof (induction i arbitrary: w)
  case 0
  then show ?case by (subst randbelow_step) (simp add: Let_def)
next
  case (Suc i)
  let ?m = "num_bytes (bit_length n)" and ?w = "w\<lparr>tpos := tpos w + num_bytes (bit_length n)\<rparr>"
  have sh: "block_at (tape ?w) n (tpos ?w) k = block_at (tape w) n (tpos w) (Suc k)" for k
    by (simp add: block_at_def algebra_simps)
  have "\<not> block_at (tape w) n (tpos w) 0 < n" using Suc.prems(2) by blast
  then have "randbelow n w = randbelow n ?w" by (subst randbelow_step) (simp add: Let_def)
  also have "\<dots> = Some (Inr (block_at (tape ?w) n (tpos ?w) i), ?w\<lparr>tpos := tpos ?w + Suc i * ?m\<rparr>)"
    using Suc.prems by (intro Suc.IH) (simp_all only: sh Suc_less_eq, blast)
  finally show ?case unfolding sh by (simp add: algebra_simps)
qed

text \<open>A source in which no draw the generator makes waits for ever.\<close>

definition fair_source :: "(nat \<Rightarrow> byte) \<Rightarrow> bool" where
  "fair_source t \<longleftrightarrow> (\<forall>n p. 0 < n \<and> n \<le> 256 \<longrightarrow> (\<exists>i. block_at t n p i < n))"

definition reads_on :: "'z machine_scheme \<Rightarrow> 'z machine_scheme \<Rightarrow> bool" where
  "reads_on w w' \<longleftrightarrow> (\<exists>q \<ge> tpos w. w' = w\<lparr>tpos := q\<rparr>)"

lemma reads_onI: "tpos w \<le> q \<Longrightarrow> reads_on w (w\<lparr>tpos := q\<rparr>)"
  unfolding reads_on_def by blast

lemma reads_on_refl [simp]: "reads_on w w"
  using reads_onI [of w "tpos w"] by simp

lemma reads_on_trans: "reads_on w w1 \<Longrightarrow> reads_on w1 w2 \<Longrightarrow> reads_on w w2"
  by (auto simp: reads_on_def intro!: reads_onI [unfolded reads_on_def])

lemma reads_on_tape: "reads_on w w' \<Longrightarrow> tape w' = tape w"
  by (auto simp: reads_on_def)

lemma randbelow_fair:
  assumes "fair_source (tape w)" and "0 < n" and "n \<le> 256"
  obtains j w' where "randbelow n w = Some (Inr j, w')" and "j < n" and "reads_on w w'"
proof -
  from assms have "\<exists>i. block_at (tape w) n (tpos w) i < n" by (simp add: fair_source_def)
  from exists_least_iff [THEN iffD1, OF this] obtain i where
    "block_at (tape w) n (tpos w) i < n" "\<forall>k < i. \<not> block_at (tape w) n (tpos w) k < n" by blast
  from randbelow_first [OF this] this(1) show thesis
    by (rule that) (rule reads_onI, simp)
qed

section \<open>Choosing\<close>

lemma secrets_choice_fair:
  assumes "fair_source (tape w)" and "xs \<noteq> []" and "length xs \<le> 256"
  obtains x w' where "secrets_choice xs w = Some (Inr x, w')" and "x \<in> set xs" and "reads_on w w'"
proof -
  from assms randbelow_fair [of w "length xs"] obtain j w' where
    "randbelow (length xs) w = Some (Inr j, w')" "j < length xs" "reads_on w w'" by auto
  with assms(2) show thesis
    by (intro that) (auto simp: secrets_choice_def pbind_def)
qed

lemma choose_each_fair:
  assumes "fair_source (tape w)" and "\<forall>p \<in> set ps. p \<noteq> [] \<and> length p \<le> 256"
  shows "\<exists>cs w'. choose_each ps w = Some (Inr cs, w') \<and> list_all2 (\<lambda>c p. c \<in> set p) cs ps \<and> reads_on w w'"
  using assms
proof (induction ps arbitrary: w)
  case Nil
  show ?case by (intro exI [of _ "[]"] exI [of _ w]) simp
next
  case (Cons p ps)
  from Cons.prems secrets_choice_fair [of w p] obtain c w1 where
    c: "secrets_choice p w = Some (Inr c, w1)" "c \<in> set p" "reads_on w w1" by auto
  from Cons.prems have "fair_source (tape w1)" "\<forall>p \<in> set ps. p \<noteq> [] \<and> length p \<le> 256"
    by (simp_all add: reads_on_tape [OF c(3)])
  from Cons.IH [OF this] obtain cs w2 where
    "choose_each ps w1 = Some (Inr cs, w2)" "list_all2 (\<lambda>c p. c \<in> set p) cs ps" "reads_on w1 w2" by blast
  with c reads_on_trans show ?case
    by (intro exI [of _ "c # cs"] exI [of _ w2]) (auto simp: pbind_def)
qed

section \<open>The shuffle\<close>

text \<open>The exchanges as a function of the indices drawn, and the indices drawn for given bounds.\<close>

fun exchanges :: "nat \<Rightarrow> nat list \<Rightarrow> 'a list \<Rightarrow> 'a list" where
  "exchanges (Suc i) (j # js) xs = exchanges i js (exchange (Suc i) j xs)"
| "exchanges i js xs = xs"

fun draws :: "nat list \<Rightarrow> ('z machine_scheme, nat list) prog" where
  "draws [] = ret []"
| "draws (n # ns) = pbind (randbelow n) (\<lambda>j. pbind (draws ns) (\<lambda>js. ret (j # js)))"

fun indices :: "nat \<Rightarrow> nat list set" where
  "indices 0 = {[]}"
| "indices (Suc i) = (\<lambda>(j, js). j # js) ` ({..Suc i} \<times> indices i)"

lemma shuffle_down_draws:
  "shuffle_down i xs w = pbind (draws (rev [2..<i + 2])) (\<lambda>js. ret (exchanges i js xs)) w"
proof (induction i arbitrary: xs w)
  case (Suc i)
  have "rev [2..<Suc i + 2] = (i + 2) # rev [2..<i + 2]" by simp
  then show ?case
    by (simp add: Suc.IH pbind_assoc del: upt_Suc) (simp add: pbind_def Suc.IH split: option.splits sum.splits)
qed simp

lemma draws_fair:
  assumes "fair_source (tape w)" and "i \<le> 255"
  shows "\<exists>js w'. draws (rev [2..<i + 2]) w = Some (Inr js, w') \<and> js \<in> indices i \<and> reads_on w w'"
  using assms
proof (induction i arbitrary: w)
  case 0
  then show ?case by simp
next
  case (Suc i)
  have eq: "rev [2..<Suc i + 2] = (i + 2) # rev [2..<i + 2]" by simp
  from Suc.prems randbelow_fair [of w "i + 2"] obtain j w1 where
    j: "randbelow (i + 2) w = Some (Inr j, w1)" "j < i + 2" "reads_on w w1" by auto
  from Suc.prems have "fair_source (tape w1)" "i \<le> 255" by (simp_all add: reads_on_tape [OF j(3)])
  from Suc.IH [OF this] obtain js w2 where
    "draws (rev [2..<i + 2]) w1 = Some (Inr js, w2)" "js \<in> indices i" "reads_on w1 w2" by blast
  with j reads_on_trans show ?case unfolding eq
    by (intro exI [of _ "j # js"] exI [of _ w2]) (auto simp: pbind_def)
qed

lemma exchange_simps [simp]:
  "length (exchange i j xs) = length xs"
  by (simp add: exchange_def)

lemma mset_exchange: "i < length xs \<Longrightarrow> j < length xs \<Longrightarrow> mset (exchange i j xs) = mset xs"
  by (simp add: exchange_def mset_swap)

lemma mset_exchanges: "js \<in> indices i \<Longrightarrow> i < length xs \<Longrightarrow> mset (exchanges i js xs) = mset xs"
proof (induction i arbitrary: js xs)
  case (Suc i)
  then obtain j js' where "js = j # js'" "j \<le> Suc i" "js' \<in> indices i" by auto
  with Suc show ?case by (simp add: mset_exchange)
qed simp

end
