(* ===== verification/Steps.thy ===== *)
theory Steps
  imports RepositoryLifecycle RepositorySpec PasswordProofs
begin

text \<open>
  Partial frames: relations between the states before and after a program, whether it returns or
  raises, with no claim that it ends. One locale gives the rules of the combinators for any
  reflexive and transitive relation; it is interpreted on the three the commands need: only the
  memory changes, the environment (devices, clock, options) stays, and an open repository stays
  open under its lock.
\<close>

definition follows :: "('w \<Rightarrow> 'w \<Rightarrow> bool) \<Rightarrow> ('w, 'a) prog \<Rightarrow> bool" where
  "follows R m \<longleftrightarrow> (\<forall>w r w'. m w = Some (r, w') \<longrightarrow> R w w')"

lemma followsD: "follows R m \<Longrightarrow> m w = Some (r, w') \<Longrightarrow> R w w'"
  unfolding follows_def by blast

lemma followsI: "(\<And>w r w'. m w = Some (r, w') \<Longrightarrow> R w w') \<Longrightarrow> follows R m"
  unfolding follows_def by blast

lemma follows_mono: "follows R m \<Longrightarrow> (\<And>w w'. R w w' \<Longrightarrow> S w w') \<Longrightarrow> follows S m"
  unfolding follows_def by blast

lemma follows_if: "(b \<Longrightarrow> follows R m) \<Longrightarrow> (\<not> b \<Longrightarrow> follows R n) \<Longrightarrow> follows R (if b then m else n)"
  by simp

locale stepwise =
  fixes R :: "'w \<Rightarrow> 'w \<Rightarrow> bool"
  assumes refl: "R w w" and trans: "R w w1 \<Longrightarrow> R w1 w2 \<Longrightarrow> R w w2"
begin

lemma pure: "follows R (ret x)" "follows R (throw e)" "follows R (lift r)" "follows R (gets f)"
  by (simp_all add: follows_def refl gets_def)

lemma bind: "follows R m \<Longrightarrow> (\<And>x. follows R (f x)) \<Longrightarrow> follows R (pbind m f)"
  unfolding follows_def pbind_def by (auto split: option.splits sum.splits dest: trans) (blast intro: trans)+

lemma catch: "follows R m \<Longrightarrow> (\<And>e. follows R (h e)) \<Longrightarrow> follows R (handle m h)"
  unfolding follows_def handle_def by (auto split: option.splits sum.splits) (blast intro: trans)+

lemma ensure: "follows R m \<Longrightarrow> follows R f \<Longrightarrow> follows R (with_finally m f)"
  unfolding follows_def with_finally_def by (auto split: option.splits sum.splits) (blast intro: trans)+

end

interpretation memory: stepwise mem_only
  by unfold_locales (simp, rule mem_only_trans)

lemma follows_in_memory: "in_memory m \<Longrightarrow> follows mem_only m"
  unfolding in_memory_def follows_def by (metis option.inject prod.inject)

section \<open>Random numbers only move the reading position\<close>

lemma reads_on_mem_only: "reads_on w w' \<Longrightarrow> mem_only w w'"
  by (auto simp: reads_on_def)

interpretation reading: stepwise reads_on
  by unfold_locales (simp, rule reads_on_trans)

lemma randbelow_reads: "follows reads_on (randbelow n)"
proof (rule followsI)
  fix w w' :: "'a machine_scheme" and r
  assume r: "randbelow n w = Some (r, w')"
  have "reads_on w (snd (r, w'))"
  proof (rule randbelow.raw_induct [where P = "\<lambda>n w y. reads_on w (snd y)", OF _ r])
    fix f n and w :: "'a machine_scheme" and y
    assume IH: "\<And>n w y. f n w = Some y \<Longrightarrow> reads_on w (snd y)"
      and b: "Option.bind (getrandbits (bit_length n) w) (\<lambda>(r, w').
         case r of Inl e \<Rightarrow> Some (Inl e, w') | Inr v \<Rightarrow> if v < n then Some (Inr v, w') else f n w') = Some y"
    define w1 where "w1 = w\<lparr>tpos := tpos w + num_bytes (bit_length n)\<rparr>"
    have r1: "reads_on w w1" by (simp add: w1_def reads_onI)
    have "getrandbits (bit_length n) w = Some (Inr (block_at (tape w) n (tpos w) 0), w1)"
      by (simp add: getrandbits_def block_at_def w1_def)
    with b have "(if block_at (tape w) n (tpos w) 0 < n then Some (Inr (block_at (tape w) n (tpos w) 0), w1)
        else f n w1) = Some y" by simp
    then show "reads_on w (snd y)" using r1 IH [of n w1 y] reads_on_trans by (auto split: if_splits)
  qed
  then show "reads_on w w'" by simp
qed

lemma secrets_choice_reads: "follows reads_on (secrets_choice xs)"
  unfolding secrets_choice_def by (auto intro!: reading.bind reading.pure randbelow_reads)

lemma choose_each_reads: "follows reads_on (choose_each ps)"
proof (induction ps)
  case Nil
  show ?case unfolding choose_each.simps by (rule reading.pure)
next
  case (Cons p ps)
  then show ?case unfolding choose_each.simps by (intro reading.bind reading.pure secrets_choice_reads)
qed

lemma shuffle_down_reads: "follows reads_on (shuffle_down i xs)"
proof (induction i arbitrary: xs)
  case 0
  show ?case unfolding shuffle_down.simps by (rule reading.pure)
next
  case (Suc i)
  then show ?case unfolding shuffle_down.simps by (intro reading.bind randbelow_reads)
qed

lemma generate_password_reads: "follows reads_on (generate_password p)"
  unfolding generate_password_def shuffle_list_def Let_def
  by (intro reading.bind reading.pure choose_each_reads shuffle_down_reads)

lemma generate_password_memory: "follows mem_only (generate_password p)"
  using generate_password_reads by (rule follows_mono) (rule reads_on_mem_only)

section \<open>An open repository\<close>

definition holding :: "pystr \<Rightarrow> 'z session_scheme \<Rightarrow> bool" where
  "holding path w \<longleftrightarrow> inside path w \<and> \<not> r_closed w \<and> r_path w = path"

definition stays_open :: "pystr \<Rightarrow> 'z session_scheme \<Rightarrow> 'z session_scheme \<Rightarrow> bool" where
  "stays_open path w w' \<longleftrightarrow> (holding path w \<longrightarrow> holding path w')"

interpretation opened: stepwise "stays_open path" for path
  by unfold_locales (simp_all add: stays_open_def)

lemma holding_mem_only: "mem_only w w' \<Longrightarrow> holding path w' = holding path w"
  by (auto simp: holding_def inside_mem_only) (auto simp: mem_only_def)

lemma opened_memory: "follows mem_only m \<Longrightarrow> follows (stays_open path) m"
  by (erule follows_mono) (simp add: stays_open_def holding_mem_only)

lemma opened_write: "follows (stays_open path) (write_atomic path data)"
proof (rule followsI)
  fix w w' :: "'a session_scheme" and r assume wr: "write_atomic path data w = Some (r, w')"
  show "stays_open path w w'" unfolding stays_open_def
  proof
    assume h: "holding path w"
    then have i: "inside path w" and sr: "store_ready path w" by (simp_all add: holding_def inside_def outside_def)
    from keeps_write_atomic [of path data] i have "inside path w'"
      unfolding keeps_def by (cases rule: tripleD) (use wr in auto)
    moreover have "os.more w' = os.more w" using write_atomic_content [OF sr wr] by (auto simp: frame_def)
    moreover from this have "r_closed w' = r_closed w" "r_path w' = r_path w" by (cases w; cases w'; simp)+
    ultimately show "holding path w'" using h by (simp add: holding_def)
  qed
qed

lemma opened_write_path: "follows (stays_open path) (pbind (gets r_path) (\<lambda>p. write_atomic p data))"
  using opened_write [of path data] by (auto simp: follows_def stays_open_def holding_def)

lemma opened_modify:
  "follows (stays_open path) (modify (\<lambda>w. w\<lparr>r_unlocked := u\<rparr>))"
  "follows (stays_open path) (modify (\<lambda>w. w\<lparr>r_entries := f w\<rparr>))"
  by (simp_all add: follows_def modify_def stays_open_def holding_def)

lemma in_memory_vault_save: "in_memory (vault_save c u b)"
  unfolding vault_save_def Let_def
  by (intro in_memory_bind in_memory_prims in_memory_encrypt in_memory_lift in_memory_ret)

lemma in_memory_change_password: "in_memory (vault_change_password c u pw p)"
  unfolding vault_change_password_def Let_def
  by (intro in_memory_bind in_memory_prims in_memory_encrypt in_memory_lift in_memory_ret)

lemma opened_persist: "follows (stays_open path) (repo_persist c rp)"
  unfolding repo_persist_def split_beta
  by (intro opened.bind opened.pure opened_memory [OF follows_in_memory [OF in_memory_vault_save]]
      opened_modify opened_write_path)

lemma holding_ticks: "holding path (w\<lparr>ticks := t\<rparr>) = holding path w"
  by (simp add: holding_def inside_def outside_def home_defs wf_os_def resolve_def)

lemma opened_clock: "follows (stays_open path) now_iso"
  by (simp add: follows_def now_iso_def read_clock_def pbind_def stays_open_def holding_ticks)

lemma fresh_entry_memory: "follows mem_only (fresh_entry es e)"
proof (rule followsI)
  fix w w' :: "'a session_scheme" and r
  assume r: "fresh_entry es e w = Some (r, w')"
  have "mem_only w (snd (r, w'))"
  proof (rule fresh_entry.raw_induct [where P = "\<lambda>es e w y. mem_only w (snd y)", OF _ r])
    fix f es e and w :: "'a session_scheme" and y
    assume IH: "\<And>es e w y. f es e w = Some y \<Longrightarrow> mem_only w (snd y)"
      and b: "(if id_in_use es e
        then Option.bind (new_entry_id w) (\<lambda>(r, w').
             case r of Inl x \<Rightarrow> Some (Inl x, w') | Inr i \<Rightarrow> f es (e\<lparr>e_id := i\<rparr>) w')
        else Some (Inr e, w)) = Some y"
    show "mem_only w (snd y)"
    proof (cases "id_in_use es e")
      case True
      with b have "f es (e\<lparr>e_id := bytes_hex (tape_read (tape w) (tpos w) 4)\<rparr>) (w\<lparr>tpos := tpos w + 16\<rparr>) = Some y"
        by (simp add: new_entry_id_eq)
      from mem_only_trans [OF mem_only_updates(1) IH [OF this]] show ?thesis .
    next
      case False
      with b show ?thesis by (metis mem_only_refl option.inject snd_conv)
    qed
  qed
  then show "mem_only w w'" by simp
qed

lemma opened_add: "follows (stays_open path) (repo_add c rp s u p n)"
proof -
  have i: "follows mem_only new_entry_id" by (simp add: follows_def new_entry_id_eq)
  show ?thesis unfolding repo_add_def
    by (intro opened.bind opened.pure opened_memory [OF i] opened_memory [OF fresh_entry_memory]
        opened_clock opened_modify opened_persist)
qed

lemma opened_get: "follows (stays_open path) (repo_get i)"
  unfolding repo_get_def by (intro opened.bind opened.pure) (simp add: opened.pure split: option.split)

lemma opened_update: "follows (stays_open path) (repo_update c rp i s u p n)"
  unfolding repo_update_def Let_def
  by (intro opened.bind opened.pure opened_get opened_clock opened_modify opened_persist)

lemma opened_delete: "follows (stays_open path) (repo_delete c rp i)"
  unfolding repo_delete_def by (intro opened.bind opened.pure opened_get opened_modify opened_persist)

lemma opened_change_password: "follows (stays_open path) (repo_change_password c pw p)"
  unfolding repo_change_password_def split_beta
  by (intro opened.bind opened.pure opened_memory [OF follows_in_memory [OF in_memory_change_password]]
      opened_modify opened_write_path)

end
