(* ===== verification/Opening.thy ===== *)
theory Opening
  imports Steps
begin

text \<open>
  What opening, creating and closing leave behind, however they end: the lock, the repository object
  and the content of the file. Opening only reads, and is refused while somebody holds the lock.
\<close>

section \<open>The lock\<close>

lemma locked_result:
  assumes "outside path w" and "keeps (inside path) body"
    and "\<And>w1 w'. body w1 = Some (Inr (), w') \<Longrightarrow> \<not> r_closed w' \<and> r_path w' = path"
    and "pbind (lock_init path) (\<lambda>_. guarded lock_acquire lock_release body) w = Some (r, w')"
  shows "outside path w' \<and>
    (case r of Inr u \<Rightarrow> holding path w' \<and> \<not> locked w (path @ lit ''.lock'')
      | Inl e \<Rightarrow> locked w' (path @ lit ''.lock'') = locked w (path @ lit ''.lock''))"
proof -
  have at: "lock_at path (with_lock_path path w)" using assms(1) by simp
  from assms(4) have g: "guarded lock_acquire lock_release body (with_lock_path path w) = Some (r, w')" by simp
  from guarded_lock [OF at assms(2)] g have o: "lock_at path w'"
    "case r of Inr x \<Rightarrow> lock_free (with_lock_path path w) \<and> lock_mine w'
      | Inl e \<Rightarrow> lock_free w' = lock_free (with_lock_path path w)" by auto
  show ?thesis
  proof (cases r)
    case (Inl e)
    with o show ?thesis by (simp add: lock_at_def lock_free_def [of w'])
  next
    case (Inr u)
    with g obtain w1 where "body w1 = Some (Inr (), w')" by (auto elim: guarded_normal)
    from assms(3) [OF this] o Inr show ?thesis by (simp add: lock_at_def holding_def inside_iff)
  qed
qed

lemma repo_init_fields: "repo_init rp path u w = Some (Inr x, w') \<Longrightarrow> \<not> r_closed w' \<and> r_path w' = path"
  by (auto simp: repo_init_def modify_def result_simps)

lemma repo_open_result:
  assumes "outside path w" and "repo_open c rp path pw w = Some (r, w')"
  shows "outside path w' \<and>
    (case r of Inr u \<Rightarrow> holding path w' \<and> \<not> locked w (path @ lit ''.lock'')
      | Inl e \<Rightarrow> locked w' (path @ lit ''.lock'') = locked w (path @ lit ''.lock''))"
  by (rule locked_result [OF assms(1) keeps_open_body _ assms(2) [unfolded repo_open_def]])
     (auto simp: open_body_def result_simps dest: repo_init_fields)

lemma create_locked_result:
  assumes "outside path w" and "create_locked c rp path pw params w = Some (r, w')"
  shows "outside path w' \<and>
    (case r of Inr u \<Rightarrow> holding path w' \<and> \<not> locked w (path @ lit ''.lock'')
      | Inl e \<Rightarrow> locked w' (path @ lit ''.lock'') = locked w (path @ lit ''.lock''))"
  by (rule locked_result [OF assms(1) keeps_create_body _ assms(2) [unfolded create_locked_def]])
     (auto simp: create_body_def result_simps dest: repo_init_fields)

lemma live_outside: "live c pw w \<Longrightarrow> outside (r_path w) w"
  by (simp add: live_def at_home_inside inside_def)

section \<open>Opening reads\<close>

definition reads_only :: "pystr \<Rightarrow> 'z session_scheme \<Rightarrow> 'z session_scheme \<Rightarrow> bool" where
  "reads_only path w w' \<longleftrightarrow> (inside path w \<longrightarrow> inside path w' \<and> file_content path w' = file_content path w)"

interpretation reads: stepwise "reads_only path" for path
  by unfold_locales (simp_all add: reads_only_def)

lemma reads_memory: "in_memory m \<Longrightarrow> follows (reads_only path) m"
proof (rule follows_mono [OF follows_in_memory])
  fix w w' :: "'a session_scheme" assume "mem_only w w'"
  with inside_mem_only [OF this, of path] show "reads_only path w w'" by (auto simp: reads_only_def mem_only_def)
qed

lemma reads_storage: "follows (reads_only path) (storage_read path)"
proof (rule followsI)
  fix w w' :: "'a session_scheme" and r assume rd: "storage_read path w = Some (r, w')"
  show "reads_only path w w'" unfolding reads_only_def
  proof
    assume i: "inside path w"
    then have sr: "store_ready path w" by (simp add: inside_def outside_def)
    from storage_read_content [OF sr rd] have f: "frame w w'" "disk w' = disk w" by simp_all
    from keeps_storage_read [of path] i have "inside path w'"
      unfolding keeps_def by (cases rule: tripleD) (use rd in auto)
    with f frame_resolve [OF f(1)] show "inside path w' \<and> file_content path w' = file_content path w"
      by (simp add: file_content_def)
  qed
qed

lemma reads_init: "follows (reads_only path) (repo_init rp path u)"
proof -
  have v: "in_memory (vault_read u)" unfolding vault_read_def by (intro in_memory_bind in_memory_lift in_memory_prims)
  have "follows (reads_only path) (modify (\<lambda>w. w\<lparr>r_path := path, r_unlocked := u, r_entries := es, r_closed := False\<rparr>))" for es
    by (simp add: follows_def modify_def reads_only_def file_content_def resolve_def)
  then show ?thesis unfolding repo_init_def by (intro reads.bind reads.pure reads_memory [OF v])
qed

lemma reads_open_body: "follows (reads_only path) (open_body c rp path pw)"
  unfolding open_body_def by (intro reads.bind reads_storage reads_memory in_memory_vault_open reads_init)

lemma release_keeps_content:
  assumes "inside path w" and "lock_release w = Some (r, w')"
  shows "file_content path w' = file_content path w"
proof -
  from assms(1) have "lock_ok w" "lock_mine w" by (simp_all add: inside_def outside_def)
  then obtain q v where "lock_release w = Some (q, v)" "disk v = disk w" "lock_frame w v" by (rule lock_release_mine)
  with assms(2) show ?thesis by (simp add: file_content_def lock_frame_resolve)
qed

lemma refused_keeps_content:
  assumes "lock_at path w" and "lock_acquire w = Some (Inl e, w')"
  shows "file_content path w' = file_content path w"
proof -
  from assms(1) have wf: "wf_os w" "has_fcntl w" and ne: "resolve w path \<noteq> resolve w (lk_path w)"
    by (auto simp: lock_at_def outside_def lock_ok_def lock_clear_def)
  from wf assms(2) have "lock_refused w w'" by (cases rule: lock_acquire_outcome) simp_all
  then have "lock_frame w w'" by (simp add: lock_refused_def)
  from lock_frame_content [OF this wf(1) ne] show ?thesis .
qed

text \<open>What holds of the content before the lock is taken, and after a body that runs inside it, holds at the end:
  neither taking, refusing nor giving up the lock touches the file.\<close>

lemma guarded_content:
  assumes o: "outside path w" and init: "Q (file_content path w)"
    and body: "\<And>w1 q w2. inside path w1 \<Longrightarrow> file_content path w1 = file_content path w \<Longrightarrow> b w1 = Some (q, w2) \<Longrightarrow>
      inside path w2 \<and> Q (file_content path w2)"
    and g: "guarded lock_acquire lock_release b (with_lock_path path w) = Some (r, w')"
  shows "Q (file_content path w')"
proof -
  let ?w = "with_lock_path path w"
  from o have at: "lock_at path ?w" by simp
  from g obtain q w1 where a: "lock_acquire ?w = Some (q, w1)" by (auto simp: guarded_def pbind_def split: option.splits)
  have fc: "file_content path w1 = file_content path w"
    using refused_keeps_content [OF at] acquire_keeps_content(2) [OF at] a by (cases q) auto
  show ?thesis
  proof (cases q)
    case (Inl e)
    with g a fc init show ?thesis by (simp add: guarded_def pbind_def)
  next
    case (Inr u)
    with acquire_keeps_content(1) [OF at] a have i: "inside path w1" by simp
    from g a Inr obtain q' w2 where b: "b w1 = Some (q', w2)"
      by (auto simp: guarded_def pbind_def handle_def split: option.splits)
    note i2 = body [OF i fc b]
    show ?thesis
    proof (cases q')
      case (Inr v)
      with g a b \<open>q = Inr u\<close> i2 show ?thesis by (simp add: guarded_def pbind_def handle_def)
    next
      case (Inl e)
      with g a b \<open>q = Inr u\<close> obtain y where "lock_release w2 = Some (y, w')"
        by (auto simp: guarded_def pbind_def handle_def split: option.splits sum.splits)
      from release_keeps_content [OF conjunct1 [OF i2] this] i2 show ?thesis by simp
    qed
  qed
qed

text \<open>However opening ends, the content of the vault is as it was.\<close>

lemma repo_open_content:
  assumes o: "outside path w" and r: "repo_open c rp path pw w = Some (r, w')"
  shows "file_content path w' = file_content path w"
proof (rule guarded_content [OF o, where Q = "\<lambda>d. d = file_content path w"])
  show "guarded lock_acquire lock_release (open_body c rp path pw) (with_lock_path path w) = Some (r, w')"
    using r by (simp add: repo_open_def)
next
  fix w1 q w2
  assume "inside path w1" "file_content path w1 = file_content path w" "open_body c rp path pw w1 = Some (q, w2)"
  with followsD [OF reads_open_body] show "inside path w2 \<and> file_content path w2 = file_content path w"
    by (force simp: reads_only_def)
qed simp

text \<open>However creating ends, the content is as it was or that of an empty vault under the given password.\<close>

lemma create_locked_content:
  assumes c: "crypto_ok c" and p: "params_ok (params_or_default params)" and o: "outside path w"
    and r: "create_locked c rp path pw params w = Some (r, w')"
  shows "file_content path w' = file_content path w \<or> vault_holds c pw [] path w'"
  unfolding vault_holds_def
proof (rule guarded_content [OF o, where Q = "\<lambda>d. d = file_content path w \<or>
    (\<exists>data. d = Some data \<and> file_holds c pw [] data)"])
  show "guarded lock_acquire lock_release (create_body c rp path pw params) (with_lock_path path w) = Some (r, w')"
    using r by (simp add: create_locked_def)
next
  fix w1 q w2
  assume i: "inside path w1" and fc: "file_content path w1 = file_content path w"
    and b: "create_body c rp path pw params w1 = Some (q, w2)"
  from create_body_ok [OF c i p, of rp pw] b fc
  show "inside path w2 \<and> (file_content path w2 = file_content path w \<or>
      (\<exists>data. file_content path w2 = Some data \<and> file_holds c pw [] data))"
    by (auto simp: vault_holds_def split: sum.splits)
qed simp

text \<open>While somebody holds the lock, opening ends with its refusal, and the holder's lock stands.\<close>

lemma repo_open_held:
  assumes o: "outside path w" and l: "locked w (path @ lit ''.lock'')" and r: "repo_open c rp path pw w = Some (r, w')"
  shows "(\<exists>e. r = Inl e) \<and> lock_refused (with_lock_path path w) w'"
proof -
  let ?w = "with_lock_path path w"
  from o have at: "lock_at path ?w" by simp
  then have wf: "wf_os ?w" "has_fcntl ?w" by (auto simp: lock_at_def outside_def lock_ok_def)
  have "\<not> lock_free ?w" using l by simp
  from vault_lock.held_is_refused [OF at this] obtain e w1 where a: "lock_acquire ?w = Some (Inl e, w1)" by blast
  with wf have "lock_refused ?w w1" by (cases rule: lock_acquire_outcome) simp_all
  moreover from r have "guarded lock_acquire lock_release (open_body c rp path pw) ?w = Some (r, w')"
    by (simp add: repo_open_def)
  ultimately show ?thesis using a by (auto simp: guarded_def pbind_def)
qed

lemma repo_open_returns:
  assumes "outside path w"
  shows "\<exists>r w'. repo_open c rp path pw w = Some (r, w')"
proof -
  from assms have "lock_at path (with_lock_path path w)" by simp
  from guarded_lock [OF this keeps_open_body, of c rp pw] show ?thesis by (auto simp: repo_open_def)
qed

lemma repo_open_refusal:
  assumes o: "outside path w" and l: "locked w (path @ lit ''.lock'')" and r: "repo_open c rp path pw w = Some (Inl e, w')"
  shows "e = locked_error (path @ lit ''.lock'') \<or> injected w e"
proof -
  let ?w = "with_lock_path path w"
  from o have at: "lock_at path ?w" by simp
  then have wf: "wf_os ?w" "has_fcntl ?w" and p: "lk_path ?w = path @ lit ''.lock''"
    by (auto simp: lock_at_def outside_def lock_ok_def)
  have "\<not> lock_free ?w" using l by simp
  from vault_lock.held_is_refused [OF at this] obtain e' w1 where a: "lock_acquire ?w = Some (Inl e', w1)" by blast
  with wf have "e' = locked_error (lk_path ?w) \<or> injected ?w e'" by (cases rule: lock_acquire_outcome) simp_all
  moreover from r have "guarded lock_acquire lock_release (open_body c rp path pw) ?w = Some (Inl e, w')"
    by (simp add: repo_open_def)
  ultimately show ?thesis using a p by (auto simp: guarded_def pbind_def injected_def with_lock_path_def)
qed

end
