(* ===== verification/Environment.thy ===== *)
theory Environment
  imports Steps
begin

text \<open>
  What no operation of the program changes, whatever it is given and however it ends: the random
  source, the fault oracle, the working directory, the names \<open>mkstemp\<close> will try, the clock and the
  fields of the state that lie above the repository (the terminal and what the user sees).
\<close>

definition env :: "'z session_scheme \<Rightarrow> 'z session_scheme \<Rightarrow> bool" where
  "env w w' \<longleftrightarrow>
     session.more w' = session.more w \<and> tape w' = tape w \<and> faults w' = faults w \<and> cwd w' = cwd w \<and>
     tmp_names w' = tmp_names w \<and> clock w' = clock w \<and> has_fcntl w' = has_fcntl w \<and>
     has_fchmod w' = has_fchmod w \<and> calls w \<le> calls w'"

interpretation environment: stepwise env
  by unfold_locales (auto simp: env_def)

named_theorems env_intros \<open>operations that keep the environment\<close>

lemmas env_combinators = environment.pure environment.bind environment.catch environment.ensure follows_if

lemma env_quiet: "env w w' \<Longrightarrow> quiet w \<Longrightarrow> quiet w'"
  by (simp add: env_def quiet_def)

lemma env_memory: "follows mem_only m \<Longrightarrow> follows env m"
  by (erule follows_mono) (auto simp: mem_only_def env_def)

lemma env_in_memory: "in_memory m \<Longrightarrow> follows env m"
  by (rule env_memory) (rule follows_in_memory)

lemma env_syscall: "(\<And>w r w'. f w = (r, w') \<Longrightarrow> env w w') \<Longrightarrow> follows env (syscall f)"
  unfolding follows_def syscall_def Let_def
  by (auto simp: env_def split: option.splits prod.splits) fastforce+

lemma env_updates: "env w (release_fd fd w)" "env w (w\<lparr>wbuf := b\<rparr>)"
  by (simp_all add: env_def release_fd_def)

lemma env_open_calls [env_intros]:
  "follows env (sys_open_read p)" "follows env (sys_open_create p)" "follows env (sys_open_excl p)"
  "follows env (sys_open_dir p)"
  unfolding sys_open_read_def sys_open_create_def sys_open_excl_def sys_open_dir_def
  by (rule env_syscall, auto simp: env_def alloc_fd_def create_inode_def split: option.splits)+

lemma env_fd_calls [env_intros]:
  "follows env (sys_read fd)" "follows env (sys_fchmod fd m)" "follows env (sys_fsync fd)"
  "follows env (sys_flock fd)" "follows env (sys_funlock fd)" "follows env (sys_replace p q)" "follows env (sys_unlink p)"
  unfolding sys_read_def sys_fchmod_def sys_fsync_def sys_flock_def sys_funlock_def sys_replace_def sys_unlink_def
  by (rule env_syscall, auto simp: env_def on_inode_def set_inode_def split: option.splits descriptor.splits if_splits)+

lemma env_close [env_intros]: "follows env (sys_close fd :: ('z session_scheme, unit) prog)"
proof (rule followsI)
  fix w w' :: "'z session_scheme" and r assume c: "sys_close fd w = Some (r, w')"
  have s: "follows env (syscall (\<lambda>w. (q, w)))" for q :: "unit result"
    by (rule env_syscall) (simp add: env_def)
  show "env w w'"
  proof (cases "fds w fd")
    case None
    with c s show ?thesis by (auto simp: sys_close_def dest: followsD)
  next
    case (Some d)
    with c have "syscall (\<lambda>w. (Inr (), w)) (release_fd fd w) = Some (r, w')" by (simp add: sys_close_def)
    from followsD [OF s this] env_updates(1) environment.trans show ?thesis by blast
  qed
qed

lemma env_small [env_intros]:
  "follows env (set_lock_fd f)" "follows env (lock_init p)" "follows env next_tmp_name" "follows env now_iso"
  "follows env (target_dir p)"
  by (auto simp: follows_def env_def set_lock_fd_def lock_init_def next_tmp_name_def now_iso_def read_clock_def
      target_dir_def pbind_def)

lemma env_push [env_intros]: "follows env (sys_push a fd)"
  unfolding follows_def sys_push_def Let_def
  by (auto simp: env_def push_def Let_def set_inode_def split: option.splits descriptor.splits)

lemma env_write [env_intros]: "follows env (fh_write fd d :: ('z session_scheme, unit) prog)"
    "follows env (fh_flush fd :: ('z session_scheme, unit) prog)"
proof -
  show "follows env (fh_write fd d :: ('z session_scheme, unit) prog)"
  proof (rule followsI)
    fix w w' :: "'z session_scheme" and r assume "fh_write fd d w = Some (r, w')"
    then have "sys_push (\<lambda>n k. k) fd (w\<lparr>wbuf := (wbuf w)(fd := wbuf w fd @ d)\<rparr>) = Some (r, w')" by (simp add: fh_write_def)
    from followsD [OF env_push this] env_updates(2) environment.trans show "env w w'" by blast
  qed
  show "follows env (fh_flush fd :: ('z session_scheme, unit) prog)"
    using followsD [OF env_push] by (auto simp: follows_def fh_flush_def environment.refl)
qed

section \<open>Storage, locking and the repository\<close>

lemma env_finish [env_intros]: "follows env (fill_file fd d)" "follows env (fchmod_if_any fd)" "follows env (remove_tmp p)"
    "follows env (fsync_directory p)" "follows env (storage_read p)"
proof -
  show "follows env (fill_file fd d)" unfolding fill_file_def fh_close_def
    by (intro env_combinators env_intros)
  show "follows env (fchmod_if_any fd)" using followsD [OF env_fd_calls(2)]
    by (auto simp: follows_def fchmod_if_any_def environment.refl)
  have "follows env (case e of FileNotFoundError m \<Rightarrow> ret () | _ \<Rightarrow> throw e)" for e
    by (cases e) (simp_all add: environment.pure)
  then show "follows env (remove_tmp p)" unfolding remove_tmp_def by (intro env_combinators env_intros)
  have "follows env (case r of None \<Rightarrow> ret () | Some fd \<Rightarrow>
      with_finally (handle (sys_fsync fd) (\<lambda>e. if is_os_error e then ret () else throw e)) (sys_close fd))" for r
    by (cases r) (simp_all add: env_combinators env_intros)
  then show "follows env (fsync_directory p)" unfolding fsync_directory_def by (intro env_combinators env_intros)
  show "follows env (storage_read p)" unfolding storage_read_def by (intro env_combinators env_intros)
qed

lemma env_mkstemp: "follows env (mkstemp_loop n d)"
proof (induction n)
  case 0
  show ?case unfolding mkstemp_loop.simps by (rule environment.pure)
next
  case (Suc n)
  show ?case unfolding mkstemp_loop.simps Let_def
    by (intro env_combinators env_intros) (simp add: Suc environment.pure split: exn.split)
qed

lemma env_write_atomic [env_intros]: "follows env (write_atomic p d)"
  unfolding write_atomic_def mkstemp_def split_beta by (intro env_combinators env_intros env_mkstemp)

lemma env_lock [env_intros]: "follows env (lock_acquire :: ('z session_scheme, unit) prog)"
    "follows env (lock_release :: ('z session_scheme, unit) prog)"
proof -
  have "follows env (pbind (sys_open_create p) (\<lambda>fd.
      pbind (handle (sys_flock fd) (\<lambda>e. if is_os_error e then pbind (sys_close fd) (\<lambda>_. throw (locked_error p)) else throw e))
        (\<lambda>_. set_lock_fd (Some fd))) :: ('z session_scheme, unit) prog)" for p by (intro env_combinators env_intros)
  from followsD [OF this] show "follows env (lock_acquire :: ('z session_scheme, unit) prog)"
    by (auto simp: follows_def lock_acquire_def environment.refl)
  have "follows env (with_finally (if b then sys_funlock fd else ret ()) (pbind (sys_close fd) (\<lambda>_. set_lock_fd None))
      :: ('z session_scheme, unit) prog)" for b fd
    by (intro env_combinators env_intros)
  from followsD [OF this] show "follows env (lock_release :: ('z session_scheme, unit) prog)"
    unfolding follows_def lock_release_def by (metis (no_types, lifting) environment.refl option.case_eq_if option.inject prod.inject)
qed

lemma env_modify [env_intros]:
  "follows env (modify (\<lambda>w. w\<lparr>r_unlocked := u\<rparr>))" "follows env (modify (\<lambda>w. w\<lparr>r_entries := f w\<rparr>))"
  "follows env (modify (\<lambda>w. w\<lparr>r_closed := b\<rparr>))" "follows env (modify (\<lambda>w. w\<lparr>r_unlocked := u, r_entries := es\<rparr>))"
  "follows env (modify (\<lambda>w. w\<lparr>r_path := p, r_unlocked := u, r_entries := es, r_closed := b\<rparr>))"
  by (simp_all add: follows_def modify_def env_def)

lemma in_memory_vault_rest: "in_memory (vault_read u)" "in_memory (vault_close u)"
  unfolding vault_read_def vault_close_def
  by (intro in_memory_bind in_memory_lift in_memory_prims) (auto intro!: in_memory_bind in_memory_prims in_memory_ret)

lemmas env_vault [env_intros] =
  env_in_memory [OF in_memory_vault_open] env_in_memory [OF in_memory_vault_create]
  env_in_memory [OF in_memory_vault_save] env_in_memory [OF in_memory_change_password]
  env_in_memory [OF in_memory_vault_rest(1)] env_in_memory [OF in_memory_vault_rest(2)]

lemma env_repo_lifecycle [env_intros]:
  "follows env (repo_open c rp p pw :: ('z session_scheme, unit) prog)"
  "follows env (create_locked c rp p pw ps :: ('z session_scheme, unit) prog)"
  "follows env (repo_close :: ('z session_scheme, unit) prog)"
proof -
  have ini: "follows env (repo_init rp p u :: ('z session_scheme, unit) prog)" for u unfolding repo_init_def by (intro env_combinators env_intros)
  have g: "follows env (guarded lock_acquire lock_release body)" if "follows env body" for body :: "('z session_scheme, unit) prog"
    using that unfolding guarded_def by (intro env_combinators env_intros)
  show "follows env (repo_open c rp p pw :: ('z session_scheme, unit) prog)" unfolding repo_open_def open_body_def
    by (intro env_combinators env_intros g ini)
  show "follows env (create_locked c rp p pw ps :: ('z session_scheme, unit) prog)" unfolding create_locked_def create_body_def
    by (intro env_combinators env_intros g ini)
  show "follows env (repo_close :: ('z session_scheme, unit) prog)" unfolding repo_close_def by (intro env_combinators env_intros)
qed

lemma env_repo_calls [env_intros]:
  "follows env (repo_persist c rp)" "follows env (repo_get i)" "follows env (repo_add c rp s u p n)"
  "follows env (repo_update c rp i s' u' p' n')" "follows env (repo_delete c rp i)"
  "follows env (repo_change_password c pw ps)" "follows env repo_list"
proof -
  show per: "follows env (repo_persist c rp)" unfolding repo_persist_def split_beta
    by (intro env_combinators env_intros)
  show get: "follows env (repo_get i)" for i unfolding repo_get_def
    by (intro env_combinators) (simp add: environment.pure split: option.split)
  have i: "follows mem_only new_entry_id" by (simp add: follows_def new_entry_id_eq)
  show "follows env (repo_add c rp s u p n)" unfolding repo_add_def
    by (intro env_combinators env_intros env_memory [OF i] env_memory [OF fresh_entry_memory] per)
  show "follows env (repo_update c rp i s' u' p' n')" unfolding repo_update_def Let_def
    by (intro env_combinators env_intros get per)
  show "follows env (repo_delete c rp i)" unfolding repo_delete_def
    by (intro env_combinators env_intros get per)
  show "follows env (repo_change_password c pw ps)" unfolding repo_change_password_def split_beta
    by (intro env_combinators env_intros)
  show "follows env repo_list" unfolding repo_list_def by (rule environment.pure)
qed

end
