(* ===== verification/PowerLoss.thy ===== *)
theory PowerLoss
  imports Opening Environment
begin

text \<open>
  What a power loss at any moment of an operation of the repository can leave under the name of the
  vault. Everything but the lock file and \<open>write_atomic\<close> leaves the disk alone (\<open>diskless\<close>); the lock
  file is another name; so opening and closing add nothing to what could be found before, and creating
  adds only complete empty vaults.
\<close>

section \<open>Steps that leave the disk alone\<close>

interpretation still: stepwise diskless
  by unfold_locales (rule diskless_refl, rule diskless_trans)

interpretation enduring: stepwise "endures path good" for path good
  by unfold_locales (rule endures_refl, rule endures_trans)

named_theorems still_intros \<open>operations that leave the disk alone\<close>

lemmas still_combinators = still.pure still.bind still.catch still.ensure follows_if

lemma still_endures: "follows diskless m \<Longrightarrow> follows (endures path good) m"
  by (erule follows_mono) (rule diskless_endures)

lemma still_memory: "follows mem_only m \<Longrightarrow> follows diskless m"
  by (erule follows_mono) (auto simp: mem_only_def diskless_def)

lemma still_modify [still_intros]:
  "follows diskless (modify (\<lambda>w. w\<lparr>r_path := p, r_unlocked := u, r_entries := es, r_closed := b\<rparr>))"
  "follows diskless (modify (\<lambda>w. w\<lparr>r_unlocked := u, r_entries := es\<rparr>))"
  "follows diskless (modify (\<lambda>w. w\<lparr>r_closed := b\<rparr>))"
  by (simp_all add: follows_def modify_def diskless_def)

lemma still_syscall:
  fixes f :: "'z os_scheme \<Rightarrow> 'a result \<times> 'z os_scheme"
  assumes "\<And>w r w'. f w = (r, w') \<Longrightarrow> diskless w w'"
  shows "follows diskless (syscall f)"
proof (rule followsI)
  fix w w' :: "'z os_scheme" and r assume s: "syscall f w = Some (r, w')"
  define w1 where "w1 = w\<lparr>calls := Suc (calls w)\<rparr>"
  have 1: "diskless w w1" by (simp add: w1_def diskless_def)
  show "diskless w w'"
  proof (cases "faults w (calls w)")
    case None
    obtain q w2 where f: "f w1 = (q, w2)" by fastforce
    with s None have "w' = w2\<lparr>disk_trace := disk_trace w2 @ [disk w2]\<rparr>" by (simp add: syscall_def w1_def)
    moreover from assms [OF f] have "diskless w1 w2" .
    ultimately have "diskless w1 w'" by (auto simp: diskless_def)
    with 1 show ?thesis by (rule diskless_trans)
  next
    case (Some e)
    with s 1 show ?thesis by (simp add: syscall_def w1_def)
  qed
qed

lemma still_calls [still_intros]:
  "follows diskless (sys_open_read p)" "follows diskless (sys_read fd)" "follows diskless (sys_flock fd)"
  "follows diskless (sys_funlock fd)" "follows diskless (path_exists p)"
  unfolding sys_open_read_def sys_read_def sys_flock_def sys_funlock_def path_exists_def
  by (intro still_combinators still_syscall;
      auto simp: diskless_def on_inode_def alloc_fd_def split: option.splits descriptor.splits if_splits)+

lemma still_close [still_intros]: "follows diskless (sys_close fd)"
proof (rule followsI)
  fix w w' :: "'z os_scheme" and r assume c: "sys_close fd w = Some (r, w')"
  have s: "follows diskless (syscall (\<lambda>w. (q, w)))" for q :: "unit result"
    by (rule still_syscall) (simp add: diskless_refl)
  have "diskless w (release_fd fd w)" by (simp add: release_fd_def diskless_def)
  then show "diskless w w'"
    using c followsD [OF s] diskless_trans unfolding sys_close_def by (cases "fds w fd") force+
qed

lemma still_lock [still_intros]:
  "follows diskless (lock_init path)" "follows diskless (set_lock_fd fd)" "follows diskless lock_release"
proof -
  show s: "follows diskless (lock_init path)" "follows diskless (set_lock_fd fd)" for fd
    by (simp_all add: follows_def lock_init_def set_lock_fd_def diskless_def)
  show "follows diskless lock_release"
  proof (rule followsI)
    fix w w' :: "'z proc_scheme" and r assume c: "lock_release w = Some (r, w')"
    have "follows diskless (with_finally (if h then sys_funlock fd else ret ()) (pbind (sys_close fd) (\<lambda>_. set_lock_fd None)))"
      for h fd by (intro still_combinators still_intros s)
    with c show "diskless w w'" unfolding lock_release_def
      by (auto simp: diskless_refl split: option.splits dest: followsD)
  qed
qed

lemma still_storage_read [still_intros]: "follows diskless (storage_read path)"
  unfolding storage_read_def by (intro still_combinators still_intros)

lemma still_init [still_intros]: "follows diskless (repo_init rp path u)"
  unfolding repo_init_def
  by (intro still_combinators still_intros still_memory [OF follows_in_memory [OF in_memory_vault_rest(1)]])

lemma still_open_body [still_intros]: "follows diskless (open_body c rp path pw)"
  unfolding open_body_def
  by (intro still_combinators still_intros still_memory [OF follows_in_memory [OF in_memory_vault_open]])

lemma still_repo_close [still_intros]: "follows diskless repo_close"
  unfolding repo_close_def
  by (intro still_combinators still_intros still_memory [OF follows_in_memory [OF in_memory_vault_rest(2)]])

section \<open>Taking the lock\<close>

text \<open>The lock file is created at another name, with a new inode.\<close>

lemma open_create_endures:
  fixes w :: "'z os_scheme"
  assumes wf: "wf_os w" and ne: "resolve w path \<noteq> resolve w p" and r: "sys_open_create p w = Some (r, w')"
  shows "endures path good w w'"
proof -
  let ?k = "resolve w path"
  define w1 where "w1 = w\<lparr>calls := Suc (calls w)\<rparr>"
  have s1: "diskless w w1" by (simp add: w1_def diskless_def)
  show ?thesis
  proof (cases "faults w (calls w) = None \<and> d_names (disk w) (resolve w p) = None")
    case False
    with r have "diskless w w'"
      by (cases "faults w (calls w)"; cases "d_names (disk w) (resolve w p)")
        (auto simp: sys_open_create_def syscall_def alloc_fd_def resolve_def diskless_def)
    then show ?thesis by (rule diskless_endures)
  next
    case True
    define w2 where "w2 = create_inode (resolve w p) w1"
    from True r have w': "disk w' = disk w2" "disk_trace w' = disk_trace w @ [disk w2]" "cwd w' = cwd w"
      by (auto simp: sys_open_create_def syscall_def Let_def alloc_fd_def resolve_def w2_def w1_def create_inode_def)
    have names: "d_names (disk w2) ?k = d_names (disk w) ?k" "d_durable (disk w2) = d_durable (disk w)"
      using ne by (simp_all add: w2_def w1_def create_inode_def)
    have inodes: "d_inodes (disk w2) i = d_inodes (disk w) i" if "i < inode_next w" for i
      using that by (simp add: w2_def w1_def create_inode_def)
    have "may_survive (disk w) ?k x" if "may_survive (disk w2) ?k x" for x
      using that wf inodes unfolding may_survive_def names
      by (cases "d_names (disk w) ?k"; cases "d_durable (disk w) ?k") (auto simp: wf_os_def)
    with w' show ?thesis by (simp add: endures_def)
  qed
qed

lemma lock_acquire_endures:
  assumes wf: "wf_os w" and ne: "resolve w path \<noteq> resolve w (lk_path w)" and r: "lock_acquire w = Some (r, w')"
  shows "endures path good w w'"
proof (cases "has_fcntl w")
  case False
  with r show ?thesis by (simp add: lock_acquire_def endures_refl)
next
  case True
  let ?rest = "\<lambda>fd. pbind (handle (sys_flock fd)
      (\<lambda>e. if is_os_error e then pbind (sys_close fd) (\<lambda>_. throw (locked_error (lk_path w))) else throw e))
      (\<lambda>_. set_lock_fd (Some fd))"
  have rest: "follows diskless (?rest fd)" for fd by (intro still_combinators still_intros)
  from True r have b: "pbind (sys_open_create (lk_path w)) ?rest w = Some (r, w')" by (simp add: lock_acquire_def)
  then obtain q w1 where o: "sys_open_create (lk_path w) w = Some (q, w1)" by (auto simp: pbind_def split: option.splits)
  note e = open_create_endures [OF wf ne o, of good]
  show ?thesis
  proof (cases q)
    case (Inl x)
    with b o e show ?thesis by (simp add: pbind_def)
  next
    case (Inr fd)
    with b o have "?rest fd w1 = Some (r, w')" by (simp add: pbind_def)
    from enduring.trans [OF e diskless_endures [OF followsD [OF rest this]]] show ?thesis .
  qed
qed

text \<open>What a body adds under the lock is what the guarded body adds.\<close>

lemma guarded_endures:
  assumes o: "outside path w"
    and body: "\<And>w1 q w2. inside path w1 \<Longrightarrow> b w1 = Some (q, w2) \<Longrightarrow> endures path good w1 w2"
    and g: "pbind (lock_init path) (\<lambda>_. guarded lock_acquire lock_release b) w = Some (r, w')"
  shows "endures path good w w'"
proof -
  let ?w = "with_lock_path path w"
  from g have g: "guarded lock_acquire lock_release b ?w = Some (r, w')" by simp
  from o have at: "lock_at path ?w" by simp
  then have wf: "wf_os ?w" "resolve ?w path \<noteq> resolve ?w (lk_path ?w)"
    by (auto simp: lock_at_def outside_def lock_ok_def lock_clear_def)
  have 0: "diskless w ?w" by (simp add: with_lock_path_def diskless_def)
  from g obtain q w1 where a: "lock_acquire ?w = Some (q, w1)" by (auto simp: guarded_def pbind_def split: option.splits)
  from diskless_start [OF 0 lock_acquire_endures [OF wf a]] have e1: "endures path good w w1" .
  show ?thesis
  proof (cases q)
    case (Inl e)
    with g a e1 show ?thesis by (simp add: guarded_def pbind_def)
  next
    case (Inr u)
    with acquire_keeps_content(1) [OF at] a have i: "inside path w1" by simp
    from g a Inr obtain q' w2 where b: "b w1 = Some (q', w2)"
      by (auto simp: guarded_def pbind_def handle_def split: option.splits)
    from enduring.trans [OF e1 body [OF i b]] have e2: "endures path good w w2" .
    show ?thesis
    proof (cases q')
      case (Inr v)
      with g a b \<open>q = Inr u\<close> e2 show ?thesis by (simp add: guarded_def pbind_def handle_def)
    next
      case (Inl e)
      with g a b \<open>q = Inr u\<close> obtain y where "lock_release w2 = Some (y, w')"
        by (auto simp: guarded_def pbind_def handle_def split: option.splits sum.splits)
      from enduring.trans [OF e2 diskless_endures [OF followsD [OF still_lock(3) this]]] show ?thesis .
    qed
  qed
qed

section \<open>Opening and creating\<close>

lemma repo_open_endures:
  assumes "outside path w" and "repo_open c rp path pw w = Some (r, w')"
  shows "endures path good w w'"
  using assms(1) _ assms(2) [unfolded repo_open_def]
  by (rule guarded_endures) (rule diskless_endures, erule followsD [OF still_open_body])

lemma create_body_endures:
  fixes w :: "'z session_scheme"
  assumes c: "crypto_ok c" and p: "params_ok (params_or_default params)" and i: "inside path w"
    and r: "create_body c rp path pw params w = Some (r, w')"
  shows "endures path (file_holds c pw []) w w'"
proof -
  let ?G = "file_holds c pw []"
  define b where "b = (map of_nat (json_dumps rp (payload [])) :: bytes)"
  have ser: "serialize_entries rp [] = Inr b" by (simp add: b_def serialize_entries_ok)
  have des: "\<forall>rp. deserialize_entries rp b = Inr []" by (simp add: b_def deserialize_payload)
  have "length b \<le> 40" using length_payload [of rp "[]"] by (simp add: b_def body_bound_def)
  then have "length b \<le> MAX_PLAINTEXT" by (simp add: MAX_PLAINTEXT_def)
  from vault_create_ok [OF c p this, of pw w] obtain f d w1 where s: "sealed c pw f d b"
    and cr: "vault_create c pw b params w = Some (Inr (file_bytes f), w1)" by blast
  from followsD [OF still_memory [OF follows_in_memory [OF in_memory_vault_create]] cr] have d1: "diskless w w1" .
  from followsD [OF follows_in_memory [OF in_memory_vault_create] cr] i have "inside path w1"
    using inside_mem_only by blast
  then have sr: "store_ready path w1" by (simp add: inside_def outside_def)
  have fh: "?G (file_bytes f)" unfolding file_holds_def using s des by blast
  let ?rest = "pbind (vault_open c pw (file_bytes f)) (\<lambda>u. repo_init rp path u)"
  have rest: "follows diskless ?rest"
    by (intro still_combinators still_intros still_memory [OF follows_in_memory [OF in_memory_vault_open]])
  have "create_body c rp path pw params w = pbind (write_atomic path (file_bytes f)) (\<lambda>_. ?rest) w1"
    by (simp add: create_body_def ser pbind_Inr [where m = "vault_create c pw b params", OF cr])
  with r have b: "pbind (write_atomic path (file_bytes f)) (\<lambda>_. ?rest) w1 = Some (r, w')" by simp
  then obtain q w2 where wr: "write_atomic path (file_bytes f) w1 = Some (q, w2)" by (auto simp: pbind_def split: option.splits)
  from endures_mono [OF write_atomic_endures [OF sr wr], of ?G] fh have "endures path ?G w1 w2" by simp
  with d1 have e: "endures path ?G w w2" by (rule diskless_start)
  show ?thesis
  proof (cases q)
    case (Inl x)
    with b wr e show ?thesis by (simp add: pbind_def)
  next
    case (Inr u)
    with b wr have "?rest w2 = Some (r, w')" by (simp add: pbind_def)
    from enduring.trans [OF e diskless_endures [OF followsD [OF rest this]]] show ?thesis .
  qed
qed

lemma create_locked_endures:
  assumes "crypto_ok c" and "params_ok (params_or_default params)" and "outside path w"
    and "create_locked c rp path pw params w = Some (r, w')"
  shows "endures path (file_holds c pw []) w w'"
  using assms(3) _ assms(4) [unfolded create_locked_def]
  by (rule guarded_endures) (rule create_body_endures [OF assms(1,2)])

end
