(* ===== verification/Processes.thy ===== *)
theory Processes
  imports PowerLoss
begin

text \<open>
  Several processes on one vault file. The operating system (disk, lock table, open file descriptions,
  clock, random source) is shared; the memory of a process and its \<open>VaultRepository\<close> object are its own
  (\<open>process\<close>). A step is one call of a repository method by one process, from its first system call to
  its return or exception, or the death of a process, after which the kernel has closed its lock
  descriptor. A process killed inside a call is a call whose later system calls all fail, followed by
  its death. The abstract system is a vault on disk and at most one process that works on it.
\<close>

section \<open>Processes over one operating system\<close>

record process =
  p_heap :: "nat \<Rightarrow> bytes"
  p_hnext :: nat
  p_lk_path :: pystr
  p_lk_fd :: "nat option"
  p_path :: pystr
  p_unlocked :: unlocked_vault
  p_entries :: "entry list"
  p_closed :: bool

definition run_as :: "process \<Rightarrow> 'z session_scheme \<Rightarrow> 'z session_scheme" where
  "run_as p k = k\<lparr>heap := p_heap p, hnext := p_hnext p, lk_path := p_lk_path p, lk_fd := p_lk_fd p,
     r_path := p_path p, r_unlocked := p_unlocked p, r_entries := p_entries p, r_closed := p_closed p\<rparr>"

definition process_of :: "'z session_scheme \<Rightarrow> process" where
  "process_of w = \<lparr>p_heap = heap w, p_hnext = hnext w, p_lk_path = lk_path w, p_lk_fd = lk_fd w,
     p_path = r_path w, p_unlocked = r_unlocked w, p_entries = r_entries w, p_closed = r_closed w\<rparr>"

text \<open>The processes that have a repository object, each with its own memory.\<close>

record system =
  kernel :: session
  procs :: "nat \<Rightarrow> process option"

datatype event =
    Opens nat bytes "unit result"
  | Does nat repo_op "unit result"
  | Closes nat "unit result"
  | Dies nat

definition die :: "'z session_scheme \<Rightarrow> 'z session_scheme" where
  "die w = (case lk_fd w of None \<Rightarrow> w | Some fd \<Rightarrow> release_fd fd w)"

text \<open>An operation has room in the vault, and the random source has an identifier left.\<close>

definition op_ready :: "bytes set \<Rightarrow> repo_op \<Rightarrow> 'z session_scheme \<Rightarrow> bool" where
  "op_ready P x w \<longleftrightarrow>
     op_plain x \<and> (\<forall>pw q. x = ChangeMaster pw q \<longrightarrow> pw \<in> P) \<and> body_bound (r_entries w) + op_growth x \<le> MAX_PLAINTEXT \<and>
     uv_counter (r_unlocked w) + 1 < 2 ^ 64 \<and> source_varied (tape w) (length (r_entries w))"

text \<open>
  The passwords in use are told apart by the file: none of them but \<open>pw\<close> opens it. (Any key derivation
  into 32 octets maps some passwords to the same key.)
\<close>

definition right_password :: "crypto \<Rightarrow> bytes set \<Rightarrow> pystr \<Rightarrow> bytes \<Rightarrow> 'z os_scheme \<Rightarrow> bool" where
  "right_password c P path pw w \<longleftrightarrow> (\<forall>pw' \<in> P. \<forall>es. vault_holds c pw' es path w \<longrightarrow> pw' = pw)"

inductive sys_step ::
  "crypto \<Rightarrow> (jvalue \<Rightarrow> pystr) \<Rightarrow> bytes set \<Rightarrow> pystr \<Rightarrow> system \<Rightarrow> event \<Rightarrow> system \<Rightarrow> bool" for c rp P path where
  step_open: "procs s i = None \<Longrightarrow> repo_open c rp path pw (run_as p (kernel s)) = Some (r, w) \<Longrightarrow>
    r = Inr () \<longrightarrow> right_password c P path pw (kernel s) \<Longrightarrow>
    sys_step c rp P path s (Opens i pw r)
      \<lparr>kernel = w, procs = (procs s)(i := if r = Inr () then Some (process_of w) else None)\<rparr>"
| step_do: "procs s i = Some p \<Longrightarrow> op_ready P x (run_as p (kernel s)) \<Longrightarrow>
    repo_do c rp x (run_as p (kernel s)) = Some (r, w) \<Longrightarrow>
    sys_step c rp P path s (Does i x r) \<lparr>kernel = w, procs = (procs s)(i := Some (process_of w))\<rparr>"
| step_close: "procs s i = Some p \<Longrightarrow> repo_close (run_as p (kernel s)) = Some (r, w) \<Longrightarrow>
    sys_step c rp P path s (Closes i r) \<lparr>kernel = w, procs = (procs s)(i := None)\<rparr>"
| step_die: "procs s i = Some p \<Longrightarrow>
    sys_step c rp P path s (Dies i) \<lparr>kernel = die (run_as p (kernel s)), procs = (procs s)(i := None)\<rparr>"

inductive sys_run ::
  "crypto \<Rightarrow> (jvalue \<Rightarrow> pystr) \<Rightarrow> bytes set \<Rightarrow> pystr \<Rightarrow> system \<Rightarrow> event list \<Rightarrow> system \<Rightarrow> bool" for c rp P path where
  run_Nil: "sys_run c rp P path s [] s"
| run_snoc: "sys_run c rp P path s es s1 \<Longrightarrow> sys_step c rp P path s1 e s2 \<Longrightarrow> sys_run c rp P path s (es @ [e]) s2"

section \<open>The abstract system\<close>

text \<open>A vault on disk, and perhaps one process with its own version of it.\<close>

type_synonym vault_state = "bytes \<times> entry list"
type_synonym shared_vault = "vault_state \<times> (nat \<times> vault_state) option"

inductive shared_step :: "shared_vault \<Rightarrow> event \<Rightarrow> shared_vault \<Rightarrow> bool" where
  shared_open: "shared_step (d, None) (Opens i (fst d) (Inr ())) (d, Some (i, d))"
| shared_refused: "shared_step (d, h) (Opens i pw (Inl e)) (d, h)"
| shared_do: "vault_spec m x m' \<Longrightarrow> d' = m' \<or> d' = d \<and> r \<noteq> Inr () \<Longrightarrow>
    shared_step (d, Some (i, m)) (Does i x r) (d', Some (i, m'))"
| shared_close: "shared_step (d, Some (i, m)) (Closes i r) (d, None)"
| shared_die: "shared_step (d, Some (i, m)) (Dies i) (d, None)"

inductive_cases shared_openE: "shared_step a (Opens i pw r) a'"
inductive_cases shared_doE: "shared_step a (Does i x r) a'"

inductive shared_run :: "shared_vault \<Rightarrow> event list \<Rightarrow> shared_vault \<Rightarrow> bool" where
  shared_Nil: "shared_run a [] a"
| shared_snoc: "shared_run a es a1 \<Longrightarrow> shared_step a1 e a2 \<Longrightarrow> shared_run a (es @ [e]) a2"

text \<open>The states an abstract run goes through.\<close>

inductive shared_trace :: "shared_vault \<Rightarrow> event list \<Rightarrow> shared_vault list \<Rightarrow> bool" where
  trace_Nil: "shared_trace a [] [a]"
| trace_snoc: "shared_trace a es xs \<Longrightarrow> shared_step (last xs) e a2 \<Longrightarrow> shared_trace a (es @ [e]) (xs @ [a2])"

text \<open>The versions of the vault in one of them: the one on disk and the one of the process that works on it.\<close>

definition version_of :: "shared_vault \<Rightarrow> vault_state \<Rightarrow> bool" where
  "version_of a st \<longleftrightarrow> st = fst a \<or> (\<exists>i. snd a = Some (i, st))"

text \<open>
  The simulation relation: the file holds the abstract vault; without a holder the lock is free and
  no process has a repository; the holder, and only it, has an open one with its version of the vault.
\<close>

definition related :: "crypto \<Rightarrow> bytes set \<Rightarrow> pystr \<Rightarrow> shared_vault \<Rightarrow> system \<Rightarrow> bool" where
  "related c P path a s \<longleftrightarrow>
     fst (fst a) \<in> P \<and>
     outside path (kernel s) \<and> vault_holds c (fst (fst a)) (snd (fst a)) path (kernel s) \<and> entries_ok (snd (fst a)) \<and>
     (case snd a of
        None \<Rightarrow> \<not> locked (kernel s) (path @ lit ''.lock'') \<and> procs s = Map.empty
      | Some (i, m) \<Rightarrow>
          (\<exists>p. procs s = [i \<mapsto> p] \<and> fst m \<in> P \<and> live c (fst m) (run_as p (kernel s)) \<and>
             p_path p = path \<and> p_entries p = snd m))"

end
