(* ===== verification/ProcessProofs.thy ===== *)
theory ProcessProofs
  imports Processes
begin

text \<open>
  Each step of a process keeps the simulation relation; a process that is refused the lock changes
  nothing the holder relies on.
\<close>

section \<open>The shared part\<close>

lemma run_as_fields [simp]:
  "disk (run_as p k) = disk k" "disk_trace (run_as p k) = disk_trace k" "cwd (run_as p k) = cwd k" "tape (run_as p k) = tape k" "flocks (run_as p k) = flocks k"
  "fds (run_as p k) = fds k" "fd_next (run_as p k) = fd_next k" "wbuf (run_as p k) = wbuf k"
  "inode_next (run_as p k) = inode_next k" "tmp_names (run_as p k) = tmp_names k" "has_fcntl (run_as p k) = has_fcntl k"
  "faults (run_as p k) = faults k" "calls (run_as p k) = calls k" "tmp_next (run_as p k) = tmp_next k"
  "r_path (run_as p k) = p_path p" "r_entries (run_as p k) = p_entries p" "r_unlocked (run_as p k) = p_unlocked p"
  "r_closed (run_as p k) = p_closed p" "lk_path (run_as p k) = p_lk_path p" "lk_fd (run_as p k) = p_lk_fd p"
  "heap (run_as p k) = p_heap p" "hnext (run_as p k) = p_hnext p"
  by (simp_all add: run_as_def)

lemma run_as_shared [simp]:
  "outside path (run_as p k) = outside path k" "file_content path (run_as p k) = file_content path k"
  "vault_holds c pw es path (run_as p k) = vault_holds c pw es path k" "locked (run_as p k) n = locked k n"
  "resolve (run_as p k) n = resolve k n" "quiet (run_as p k) = quiet k" "tmp_free (run_as p k) n = tmp_free k n"
  "injected (run_as p k) e = injected k e"
  by (simp_all add: outside_def home_defs wf_os_def resolve_def file_content_def vault_holds_def locked_def quiet_def tmp_free_def injected_def)

lemma run_as_endures [simp]: "endures path good (run_as p k) w = endures path good k w"
  by (simp add: endures_def)

lemma run_as_process_of [simp]: "run_as (process_of w) w = w"
  by (simp add: run_as_def process_of_def)

lemma process_of_fields [simp]: "p_path (process_of w) = r_path w" "p_entries (process_of w) = r_entries w"
  by (simp_all add: process_of_def)

section \<open>The holder while another process is refused\<close>

lemma live_refused:
  assumes l: "live c pw (run_as p k)" and p: "p_path p = path"
    and f: "lock_refused (with_lock_path path (run_as q k)) w" and o: "outside path w"
  shows "live c pw (run_as p w)"
proof -
  from l have h: "at_home (run_as p k)" and e: "entries_ok (p_entries p)" and u: "unlocked_ok c pw (p_entries p) (p_unlocked p) (run_as p k)"
    by (simp_all add: live_def)
  from h have ok: "lock_ok (run_as p k)" and m: "lock_mine (run_as p k)" by (simp_all add: at_home_def)
  from m obtain fd i where h': "p_lk_fd p = Some fd" "fds k fd = Some (FileFd i)" "flocks k i = Some fd"
      "d_names (disk k) (resolve k (p_lk_path p)) = Some i" by (rule lock_mineE) simp
  from ok have "wf_os (run_as p k)" by (simp add: lock_ok_def)
  from wf_fd_lt [OF this, of fd] h'(2) have lt: "fd < fd_next k" by simp
  from f have fr: "lock_frame (with_lock_path path (run_as q k)) w" and fl: "flocks w = flocks k" and fd: "fds w fd = fds k fd"
    using lt by (simp_all add: lock_refused_def with_lock_path_def)
  from fr have "d_names (disk w) (resolve k (p_lk_path p)) = Some i" "cwd w = cwd k"
    using h'(4) by (simp_all add: lock_frame_def with_lock_path_def)
  moreover from this(2) have "resolve w (p_lk_path p) = resolve k (p_lk_path p)" by (simp add: resolve_def)
  ultimately have "lock_mine (run_as p w)" using h' fl fd by (auto simp: lock_mine_def holds_def)
  moreover have "lock_ok (run_as p w) \<and> store_ready path (run_as p w) \<and> lock_clear (run_as p w) path"
    using o run_as_shared(1) [of path p w] by (simp add: outside_def)
  moreover have "\<not> p_closed p" "p_lk_path p = path @ lit ''.lock''" using h p by (simp_all add: at_home_def)
  ultimately have "at_home (run_as p w)" using p by (simp add: at_home_def)
  moreover have "unlocked_ok c pw (p_entries p) (p_unlocked p) (run_as p w)"
    using u unlocked_ok_cong [of "run_as p w" "run_as p k"] by simp
  ultimately show ?thesis using e by (simp add: live_def)
qed

section \<open>Each step\<close>

lemma related_open:
  assumes c: "crypto_ok c" and R: "related c P path (d, h) s" and p: "procs s i = None"
    and r: "repo_open c rp path pw (run_as q (kernel s)) = Some (r, w)"
    and pw: "r = Inr () \<longrightarrow> right_password c P path pw (kernel s)"
  shows "\<exists>a. shared_step (d, h) (Opens i pw r) a \<and>
    related c P path a \<lparr>kernel = w, procs = (procs s)(i := if r = Inr () then Some (process_of w) else None)\<rparr>"
proof -
  let ?k = "run_as q (kernel s)"
  from R have o: "outside path ?k" and v: "vault_holds c (fst d) (snd d) path ?k" and es: "entries_ok (snd d)"
    and dP: "fst d \<in> P" by (simp_all add: related_def)
  from repo_open_result [OF o r] have o': "outside path w" by simp
  from repo_open_content [OF o r] v have v': "vault_holds c (fst d) (snd d) path w" by (simp add: vault_holds_def)
  show ?thesis
  proof (cases r)
    case (Inl e)
    have same: "(procs s)(i := None) = procs s" using p by (simp add: fun_upd_idem)
    have "related c P path (d, h) \<lparr>kernel = w, procs = procs s\<rparr>"
    proof (cases h)
      case None
      with R repo_open_result [OF o r] Inl o' v' es show ?thesis by (simp add: related_def)
    next
      case (Some m)
      then obtain j m' where h: "h = Some (j, m')" by (cases m) auto
      with R obtain p' where p': "procs s = [j \<mapsto> p']" "live c (fst m') (run_as p' (kernel s))"
        "p_path p' = path" "p_entries p' = snd m'" "fst m' \<in> P" by (auto simp: related_def)
      from p'(2,3) have "locked ?k (path @ lit ''.lock'')"
        by (auto simp: live_def at_home_def lock_mine_def dest!: holds_locked)
      from repo_open_held [OF o this r] live_refused [OF p'(2,3) _ o'] have "live c (fst m') (run_as p' w)" by blast
      with p' h o' v' es dP show ?thesis by (auto simp: related_def)
    qed
    with Inl same show ?thesis by (intro exI [of _ "(d, h)"]) (simp add: shared_refused)
  next
    case (Inr u)
    then have r': "r = Inr ()" by simp
    from repo_open_result [OF o r] r' have free: "\<not> locked (kernel s) (path @ lit ''.lock'')" and h': "holding path w"
      by simp_all
    have hN: "h = None"
    proof (rule ccontr)
      assume "h \<noteq> None"
      with R obtain j m' p' where "live c (fst m') (run_as p' (kernel s))" "p_path p' = path" by (auto simp: related_def)
      with free show False by (auto simp: live_def at_home_def lock_mine_def dest!: holds_locked)
    qed
    from pw r' v dP have "fst d = pw" by (auto simp: right_password_def)
    with repo_open_live [OF c o es v, of rp "()" w] r r' have l: "live c pw w" "r_entries w = snd d" "r_path w = path" by auto
    have "procs s = Map.empty" using R hN by (simp add: related_def)
    then have "related c P path (d, Some (i, d)) \<lparr>kernel = w, procs = (procs s)(i := Some (process_of w))\<rparr>"
      using o' v' es l dP \<open>fst d = pw\<close> by (auto simp: related_def)
    with r' hN \<open>fst d = pw\<close> shared_open [of d i] show ?thesis by (intro exI [of _ "(d, Some (i, d))"]) simp
  qed
qed

lemma related_holder:
  assumes "related c P path (d, h) s" and "procs s i = Some p"
  obtains m where "h = Some (i, m)" and "procs s = [i \<mapsto> p]"
    and "live c (fst m) (run_as p (kernel s))" and "p_path p = path" and "p_entries p = snd m" and "fst m \<in> P"
proof -
  from assms obtain j m where "h = Some (j, m)" by (cases h) (auto simp: related_def)
  with assms that show thesis by (auto simp: related_def split: if_splits)
qed

lemma related_do:
  assumes c: "crypto_ok c" and R: "related c P path (d, h) s" and p: "procs s i = Some p"
    and x: "op_ready P x (run_as p (kernel s))" and r: "repo_do c rp x (run_as p (kernel s)) = Some (r, w)"
  shows "\<exists>d' m'. shared_step (d, h) (Does i x r) (d', Some (i, m')) \<and>
    related c P path (d', Some (i, m')) \<lparr>kernel = w, procs = (procs s)(i := Some (process_of w))\<rparr> \<and>
    endures path (file_holds c (fst m') (snd m')) (kernel s) w"
proof -
  from R p obtain m where m: "h = Some (i, m)" "procs s = [i \<mapsto> p]"
    "live c (fst m) (run_as p (kernel s))" "p_path p = path" "p_entries p = snd m" "fst m \<in> P" by (rule related_holder)
  let ?k = "run_as p (kernel s)"
  from x have x': "op_plain x" "body_bound (r_entries ?k) + op_growth x \<le> MAX_PLAINTEXT"
    "uv_counter (r_unlocked ?k) + 1 < 2 ^ 64" "source_varied (tape ?k) (length (r_entries ?k))"
    by (simp_all add: op_ready_def)
  from repo_do_done [OF c m(3) x' order_refl, of rp] r obtain m' where
    D: "op_done c (fst m, r_entries ?k) x ?k r m' w" by auto
  have "(fst m, r_entries ?k) = m" using m(5) by simp
  with D have sp: "vault_spec m x m'" and l: "live c (fst m') w" "r_entries w = snd m'" "same_object ?k w"
    and sv: "saved c (fst m') (snd m') path ?k r w" using m(4) by (simp_all add: op_done_def)
  have mP: "fst m' \<in> P" using sp m(6) x by (cases x) (auto simp: op_ready_def elim: vault_spec.cases)
  have rp: "r_path w = path" using l(3) m(4) by (simp add: same_object_def)
  have o: "outside path w" using live_outside [OF l(1)] rp by simp
  define d' where "d' = (if vault_holds c (fst m') (snd m') path w then m' else d)"
  have d': "d' = m' \<or> d' = d \<and> r \<noteq> Inr ()" using sv by (auto simp: d'_def saved_def)
  have v: "fst d' \<in> P \<and> vault_holds c (fst d') (snd d') path w \<and> entries_ok (snd d')"
    using sv R l mP by (auto simp: d'_def saved_def related_def live_def vault_holds_def)
  have "related c P path (d', Some (i, m')) \<lparr>kernel = w, procs = (procs s)(i := Some (process_of w))\<rparr>"
    using o v l rp m(2) mP by (auto simp: related_def)
  moreover have "endures path (file_holds c (fst m') (snd m')) (kernel s) w" using sv by (simp add: saved_def)
  ultimately show ?thesis using shared_do [OF sp d'] m(1) by blast
qed

lemma related_end:
  assumes R: "related c P path (d, Some (i, m)) s" and p: "procs s i = Some p"
    and o: "outside path w" "\<not> locked w (path @ lit ''.lock'')" and d: "disk w = disk (kernel s)" "cwd w = cwd (kernel s)"
  shows "related c P path (d, None) \<lparr>kernel = w, procs = (procs s)(i := None)\<rparr>"
proof -
  have "vault_holds c (fst d) (snd d) path w"
    using R d by (simp add: related_def vault_holds_def file_content_def resolve_def)
  with R p o show ?thesis by (auto simp: related_def split: if_splits)
qed

lemma related_close:
  assumes R: "related c P path (d, h) s" and p: "procs s i = Some p" and r: "repo_close (run_as p (kernel s)) = Some (r, w)"
  shows "\<exists>a. shared_step (d, h) (Closes i r) a \<and> related c P path a \<lparr>kernel = w, procs = (procs s)(i := None)\<rparr>"
proof -
  from R p obtain m where m: "h = Some (i, m)" "live c (fst m) (run_as p (kernel s))" "p_path p = path" by (rule related_holder)
  from repo_close_ok [OF m(2)] r m(3) have at: "lock_at path w" "lock_free w" and d: "disk w = disk (kernel s)" "cwd w = cwd (kernel s)"
    by auto
  from at have "outside path w" "\<not> locked w (path @ lit ''.lock'')" by (simp_all add: lock_at_def lock_free_def)
  from related_end [OF R [unfolded m(1)] p this d] m(1) shared_close [of d i m r] show ?thesis by blast
qed

lemma die_frees:
  assumes "live c pw w" and "r_path w = path"
  shows "outside path (die w) \<and> \<not> locked (die w) (path @ lit ''.lock'') \<and> disk (die w) = disk w \<and> cwd (die w) = cwd w"
proof -
  from assms have h: "lock_ok w" "lock_mine w" "lk_path w = path @ lit ''.lock''" "store_ready path w" "lock_clear w path"
    by (simp_all add: live_def at_home_def)
  from h(2) obtain fd i where f: "lk_fd w = Some fd" "fds w fd = Some (FileFd i)" "flocks w i = Some fd"
      "d_names (disk w) (resolve w (lk_path w)) = Some i" by (rule lock_mineE)
  have e: "die w = release_fd fd w" using f(1) by (simp add: die_def)
  have wf: "wf_os (release_fd fd w)" using h(1) by (auto simp: lock_ok_def wf_os_def release_fd_def)
  have "lock_ok (release_fd fd w)" using h(1) wf by (auto simp: lock_ok_def release_fd_def)
  moreover have "store_ready path (release_fd fd w)" "lock_clear (release_fd fd w) path"
    using h(4,5) wf by (simp_all add: store_ready_def tmp_clear_def lock_clear_def resolve_def release_fd_def)
  moreover have "\<not> locked (release_fd fd w) (path @ lit ''.lock'')"
    using f(3,4) h(3) by (simp add: locked_def release_fd_def resolve_def)
  ultimately show ?thesis unfolding e by (simp add: outside_def) (simp add: release_fd_def)
qed

lemma related_die:
  assumes R: "related c P path (d, h) s" and p: "procs s i = Some p"
  shows "\<exists>a. shared_step (d, h) (Dies i) a \<and>
    related c P path a \<lparr>kernel = die (run_as p (kernel s)), procs = (procs s)(i := None)\<rparr>"
proof -
  from R p obtain m where m: "h = Some (i, m)" "live c (fst m) (run_as p (kernel s))" "p_path p = path" by (rule related_holder)
  from die_frees [OF m(2)] m(3) have d: "outside path (die (run_as p (kernel s)))"
    "\<not> locked (die (run_as p (kernel s))) (path @ lit ''.lock'')" "disk (die (run_as p (kernel s))) = disk (kernel s)"
    "cwd (die (run_as p (kernel s))) = cwd (kernel s)" by simp_all
  from related_end [OF R [unfolded m(1)] p d] m(1) shared_die [of d i m] show ?thesis by blast
qed

lemma die_diskless: "diskless w (die w)"
  by (simp add: die_def release_fd_def diskless_def split: option.split)

text \<open>What a power loss during a step can leave: what it could leave before, or the version of the process that works.\<close>

definition version_file :: "crypto \<Rightarrow> shared_vault \<Rightarrow> bytes \<Rightarrow> bool" where
  "version_file c a b \<longleftrightarrow> (\<exists>st. version_of a st \<and> file_holds c (fst st) (snd st) b)"

lemma related_step:
  assumes c: "crypto_ok c" and R: "related c P path a s" and step: "sys_step c rp P path s e s'"
  shows "\<exists>a'. shared_step a e a' \<and> related c P path a' s' \<and> endures path (version_file c a') (kernel s) (kernel s')"
  using step
proof cases
  case (step_open i pw p r w)
  from R have "outside path (run_as p (kernel s))" by (simp add: related_def)
  from repo_open_endures [OF this step_open(4)] step_open(2) have "endures path good (kernel s) (kernel s')" for good by simp
  with related_open [OF c] R step_open show ?thesis by (cases a) blast
next
  case (step_do i p x r w)
  obtain d h where a: "a = (d, h)" by (cases a)
  from related_do [OF c R [unfolded a] step_do(3-5)] obtain d' m' where
    m: "shared_step a e (d', Some (i, m'))" "related c P path (d', Some (i, m')) s'"
      "endures path (file_holds c (fst m') (snd m')) (kernel s) (kernel s')" using step_do(1,2) a by auto
  have "version_file c (d', Some (i, m')) b" if "file_holds c (fst m') (snd m') b" for b
    using that unfolding version_file_def version_of_def by (intro exI [of _ m']) simp
  with m endures_mono [OF m(3)] show ?thesis by blast
next
  case (step_close i p r w)
  from diskless_endures [OF followsD [OF still_repo_close step_close(4)]] step_close(2)
  have "endures path good (kernel s) (kernel s')" for good by simp
  with related_close R step_close show ?thesis by (cases a) blast
next
  case (step_die i p)
  from diskless_endures [OF die_diskless [of "run_as p (kernel s)"]] step_die(2)
  have "endures path good (kernel s) (kernel s')" for good by simp
  with related_die R step_die show ?thesis by (cases a) blast
qed

lemma related_trace:
  assumes "crypto_ok c" and "sys_run c rp P path s es s'" and "related c P path a s"
  shows "\<exists>xs. shared_trace a es xs \<and> related c P path (last xs) s' \<and>
    endures path (\<lambda>b. \<exists>a' \<in> set xs. version_file c a' b) (kernel s) (kernel s')"
  using assms(2,3)
proof (induction rule: sys_run.induct)
  case (run_Nil s)
  then show ?case by (intro exI [of _ "[a]"]) (simp add: trace_Nil endures_refl)
next
  case (run_snoc s es s1 e s2)
  then obtain xs where xs: "shared_trace a es xs" "related c P path (last xs) s1"
    "endures path (\<lambda>b. \<exists>a' \<in> set xs. version_file c a' b) (kernel s) (kernel s1)" by blast
  from related_step [OF assms(1) xs(2) run_snoc.hyps(2)] obtain a2 where
    a2: "shared_step (last xs) e a2" "related c P path a2 s2" "endures path (version_file c a2) (kernel s1) (kernel s2)" by blast
  let ?good = "\<lambda>b. \<exists>a' \<in> set (xs @ [a2]). version_file c a' b"
  have "endures path ?good (kernel s) (kernel s1)" "endures path ?good (kernel s1) (kernel s2)"
    using endures_mono [OF xs(3), of ?good] endures_mono [OF a2(3), of ?good] by auto
  from endures_trans [OF this] trace_snoc [OF xs(1) a2(1)] a2(2) show ?case
    by (intro exI [of _ "xs @ [a2]"]) simp
qed

lemma related_run:
  assumes "crypto_ok c" and "sys_run c rp P path s es s'" and "related c P path a s"
  shows "\<exists>a'. shared_run a es a' \<and> related c P path a' s'"
  using assms(2,3)
proof (induction rule: sys_run.induct)
  case (run_Nil s)
  then show ?case by (blast intro: shared_Nil)
next
  case (run_snoc s es s1 e s2)
  then obtain a1 where "shared_run a es a1" "related c P path a1 s1" by blast
  with related_step [OF assms(1) _ run_snoc.hyps(2)] show ?case by (blast intro: shared_snoc)
qed

end
