(* ===== verification/ProcessProperties.thy ===== *)
theory ProcessProperties
  imports ProcessProofs
begin

text \<open>
  The properties of any number of processes on one vault file: they follow the abstract shared vault,
  one of them works on it at a time, none of their finished updates is lost, and whatever they leave
  behind can be opened again.
\<close>

text \<open>The vault is stored under \<open>pw\<close> with the entries \<open>es\<close>, and no process has opened it.\<close>

definition idle_system :: "crypto \<Rightarrow> bytes set \<Rightarrow> pystr \<Rightarrow> bytes \<Rightarrow> entry list \<Rightarrow> system \<Rightarrow> bool" where
  "idle_system c P path pw es s \<longleftrightarrow>
     procs s = Map.empty \<and> outside path (kernel s) \<and> \<not> locked (kernel s) (path @ lit ''.lock'') \<and>
     vault_holds c pw es path (kernel s) \<and> entries_ok es \<and> pw \<in> P"

lemma idle_related: "idle_system c P path pw es s = related c P path ((pw, es), None) s"
  by (auto simp: idle_system_def related_def)

lemma related_nobody: "related c P path (d, h) s \<Longrightarrow> (h = None) = (procs s = Map.empty)"
  by (cases h) (auto simp: related_def fun_eq_iff)

lemma idle_run:
  assumes "crypto_ok c" and "idle_system c P path pw es s" and "sys_run c rp P path s evs s'"
  obtains d h where "shared_run ((pw, es), None) evs (d, h)" and "related c P path (d, h) s'"
proof -
  from assms(2) have "related c P path ((pw, es), None) s" by (simp add: idle_related)
  from related_run [OF assms(1,3) this] obtain a where "shared_run ((pw, es), None) evs a" "related c P path a s'" by blast
  then show thesis by (cases a) (blast intro: that)
qed

fun is_does :: "event \<Rightarrow> bool" where
  "is_does (Does i x r) \<longleftrightarrow> True"
| "is_does e \<longleftrightarrow> False"

lemma shared_step_disk: "shared_step a e a' \<Longrightarrow> \<not> is_does e \<Longrightarrow> fst a' = fst a"
  by (cases rule: shared_step.cases) auto

lemma shared_run_disk: "shared_run a evs a' \<Longrightarrow> list_all (\<lambda>e. \<not> is_does e) evs \<Longrightarrow> fst a' = fst a"
  by (induction rule: shared_run.induct) (auto dest: shared_step_disk)

lemma holder_entries:
  assumes "related c P path (d, Some (i, m)) s" and "procs s j = Some p"
  shows "j = i \<and> p_entries p = snd m \<and> live c (fst m) (run_as p (kernel s)) \<and> p_path p = path"
  using assms by (auto simp: related_def split: if_splits)

text \<open>C2: Any interleaving of openings, operations, closings and deaths of any number of processes, with
  any failing system calls, follows the abstract shared vault: the file always holds the abstract vault,
  and a process that has it open works on its version of the holder.\<close>

theorem processes_refine_shared_vault:
  assumes "crypto_ok c" and "idle_system c P path pw es s" and "sys_run c rp P path s evs s'"
  shows "\<exists>d h. shared_run ((pw, es), None) evs (d, h) \<and> vault_holds c (fst d) (snd d) path (kernel s') \<and>
    (h = None \<longleftrightarrow> procs s' = Map.empty) \<and>
    (\<forall>i p. procs s' i = Some p \<longrightarrow>
       (\<exists>m. h = Some (i, m) \<and> p_entries p = snd m \<and> live c (fst m) (run_as p (kernel s'))))"
proof -
  from assms(1-3) obtain d h where
    r: "shared_run ((pw, es), None) evs (d, h)" "related c P path (d, h) s'" by (rule idle_run)
  note related_nobody [OF r(2)]
  moreover from r have "(\<forall>i p. procs s' i = Some p \<longrightarrow>
       (\<exists>m. h = Some (i, m) \<and> p_entries p = snd m \<and> live c (fst m) (run_as p (kernel s'))))"
    by (auto simp: related_def split: option.splits if_splits)
  ultimately show ?thesis using r by (intro exI [of _ d] exI [of _ h]) (simp add: related_def)
qed

text \<open>C13: At any time at most one process has the vault open, and while it has, every attempt of another
  one to open it is refused with \<open>VaultLockedError\<close> (or the error of a failing system call), and
  changes neither the file nor what the first one has open.\<close>

theorem one_process_at_a_time:
  assumes "crypto_ok c" and "idle_system c P path pw es s" and "sys_run c rp P path s evs s1"
    and "procs s1 i = Some p" and "sys_step c rp P path s1 (Opens j pw' r) s2"
  shows "j \<noteq> i \<and> (\<forall>k. k \<noteq> i \<longrightarrow> procs s1 k = None) \<and>
    (\<exists>e. r = Inl e \<and> (e = locked_error (path @ lit ''.lock'') \<or> injected (kernel s1) e)) \<and>
    procs s2 = procs s1 \<and> file_content path (kernel s2) = file_content path (kernel s1) \<and>
    (\<exists>pw. live c pw (run_as p (kernel s1)) \<and> live c pw (run_as p (kernel s2)))"
proof -
  from assms(1-3) obtain d h where R: "related c P path (d, h) s1" by (rule idle_run)
  from R assms(4) obtain m where m: "h = Some (i, m)" "procs s1 = [i \<mapsto> p]" "live c (fst m) (run_as p (kernel s1))" "p_path p = path"
    by (rule related_holder)
  from assms(5) obtain q w where w: "procs s1 j = None" "repo_open c rp path pw' (run_as q (kernel s1)) = Some (r, w)"
    and s2: "s2 = \<lparr>kernel = w, procs = (procs s1)(j := if r = Inr () then Some (process_of w) else None)\<rparr>"
    by (cases rule: sys_step.cases) auto
  let ?k = "run_as q (kernel s1)"
  from R have o: "outside path ?k" by (simp add: related_def)
  from m(3,4) have "locked ?k (path @ lit ''.lock'')"
    by (auto simp: live_def at_home_def lock_mine_def dest!: holds_locked)
  note h = repo_open_held [OF o this w(2)]
  from h obtain e where e: "r = Inl e" by blast
  from h have "live c (fst m) (run_as p w)"
    using live_refused [OF m(3,4)] repo_open_result [OF o w(2)] by blast
  moreover have "e = locked_error (path @ lit ''.lock'') \<or> injected (kernel s1) e"
    using repo_open_refusal [OF o _ w(2) [unfolded e]] \<open>locked ?k (path @ lit ''.lock'')\<close> by simp
  moreover have "procs s2 = procs s1" using w(1) e s2 by (simp add: fun_upd_idem)
  ultimately show ?thesis using w m repo_open_content [OF o w(2)] e s2 by auto
qed

text \<open>C7: No finished update is lost: when an operation has returned normally, the entries its process has
  in memory are the entries that any process finds that opens the vault later, as long as no further
  operation was called in between (one that fails counts as called); closing the vault, the death of
  processes and attempts to open it, successful or not, may come in between in any number.\<close>

theorem no_update_is_lost:
  assumes "crypto_ok c" and "idle_system c P path pw es s" and "sys_run c rp P path s evs s1"
    and "sys_step c rp P path s1 (Does i x (Inr ())) s2" and "sys_run c rp P path s2 evs' s3"
    and "list_all (\<lambda>e. \<not> is_does e) evs'" and "sys_step c rp P path s3 (Opens j pw' (Inr ())) s4"
  shows "\<exists>p q. procs s2 i = Some p \<and> procs s4 j = Some q \<and> p_entries q = p_entries p"
proof -
  from assms(1-3) obtain d1 h1 where R1: "related c P path (d1, h1) s1" by (rule idle_run)
  from related_step [OF assms(1) R1 assms(4)] obtain a2 where
    S2: "shared_step (d1, h1) (Does i x (Inr ())) a2" and R2: "related c P path a2 s2" by blast
  then obtain m where a2: "a2 = (m, Some (i, m))" by (auto elim: shared_doE)
  from related_run [OF assms(1,5) R2] obtain a3 where
    S3: "shared_run a2 evs' a3" and R3: "related c P path a3 s3" by blast
  from related_step [OF assms(1) R3 assms(7)] obtain a4 where
    S4: "shared_step a3 (Opens j pw' (Inr ())) a4" and R4: "related c P path a4 s4" by blast
  from shared_run_disk [OF S3 assms(6)] a2 have "fst a3 = m" by simp
  with S4 have a4: "a4 = (m, Some (j, m))" by (auto elim: shared_openE)
  from R2 a2 obtain p where "procs s2 i = Some p" "p_entries p = snd m" by (auto simp: related_def)
  moreover from R4 a4 obtain q where "procs s4 j = Some q" "p_entries q = snd m" by (auto simp: related_def)
  ultimately show ?thesis by simp
qed

text \<open>C14: Whatever happened (failing calls, deaths of processes with the vault open), once no process is
  left, the vault can be opened with the password of the abstract vault and has exactly its entries, as
  soon as system calls work again: a dead process does not leave the vault locked.\<close>

theorem vault_opens_after_any_history:
  assumes "crypto_ok c" and "idle_system c P path pw es s" and "sys_run c rp P path s evs s'"
    and "procs s' = Map.empty" and "quiet (kernel s')"
  shows "\<exists>d w. shared_run ((pw, es), None) evs (d, None) \<and>
    repo_open c rp path (fst d) (run_as p (kernel s')) = Some (Inr (), w) \<and> r_entries w = snd d"
proof -
  from assms(1-3) obtain d h where
    r: "shared_run ((pw, es), None) evs (d, h)" "related c P path (d, h) s'" by (rule idle_run)
  from related_nobody [OF r(2)] assms(4) have h: "h = None" by simp
  let ?k = "run_as p (kernel s')"
  have k: "outside path ?k" "entries_ok (snd d)" "vault_holds c (fst d) (snd d) path ?k" "quiet ?k"
      "\<not> locked ?k (path @ lit ''.lock'')"
    using r(2) h assms(5) by (simp_all add: related_def)
  from repo_open_quiet [OF assms(1) k] obtain w where o: "repo_open c rp path (fst d) ?k = Some (Inr (), w)" by blast
  from repo_open_live [OF assms(1) k(1-3) o] have "r_entries w = snd d" by simp
  with r(1) h o show ?thesis by (intro exI [of _ d] exI [of _ w]) simp
qed

text \<open>C4: A power loss at any moment of any interleaving of any number of processes that open, change, close
  and die, with any failing system calls: if the vault was safely on the disk before the first of them,
  what is found afterwards is a complete vault, holding one of the versions the abstract run went
  through; and at the end the file holds the last one.\<close>

theorem power_loss_in_any_interleaving:
  assumes "crypto_ok c" and "idle_system c P path pw es s" and "sys_run c rp P path s evs s'"
    and "settled (kernel s) (resolve (kernel s) path)"
  shows "\<exists>xs ds. shared_trace ((pw, es), None) evs xs \<and>
    vault_holds c (fst (fst (last xs))) (snd (fst (last xs))) path (kernel s') \<and>
    disk_trace (kernel s') = disk_trace (kernel s) @ ds \<and>
    (\<forall>d \<in> set (disk (kernel s') # ds). \<forall>found. may_survive d (resolve (kernel s) path) found \<longrightarrow>
       (\<exists>b a st. found = Some b \<and> a \<in> set xs \<and> version_of a st \<and> file_holds c (fst st) (snd st) b))"
proof -
  let ?k = "resolve (kernel s) path"
  from assms(2) have "related c P path ((pw, es), None) s" by (simp add: idle_related)
  from related_trace [OF assms(1,3) this] obtain xs where xs: "shared_trace ((pw, es), None) evs xs"
    "related c P path (last xs) s'" "endures path (\<lambda>b. \<exists>a' \<in> set xs. version_file c a' b) (kernel s) (kernel s')" by blast
  from xs(1) have first: "((pw, es), None) \<in> set xs" by (induction rule: shared_trace.induct) auto
  from xs(3) obtain ds where t: "disk_trace (kernel s') = disk_trace (kernel s) @ ds"
    and d: "\<forall>d \<in> set (disk (kernel s') # ds). \<forall>y. may_survive d ?k y \<longrightarrow>
      may_survive (disk (kernel s)) ?k y \<or> (\<exists>b. y = Some b \<and> (\<exists>a' \<in> set xs. version_file c a' b))"
    unfolding endures_def by blast
  from assms(2) obtain b0 where b0: "visible (disk (kernel s)) ?k = Some b0" "file_holds c pw es b0"
    by (auto simp: idle_system_def vault_holds_def file_content_def)
  have old: "\<exists>b a st. y = Some b \<and> a \<in> set xs \<and> version_of a st \<and> file_holds c (fst st) (snd st) b"
    if "may_survive (disk (kernel s)) ?k y" for y
    using settled_survive [OF assms(4) that] b0 first
    by (intro exI [of _ b0] exI [of _ "((pw, es), None)"] exI [of _ "(pw, es)"]) (simp add: version_of_def)
  have "\<forall>d \<in> set (disk (kernel s') # ds). \<forall>y. may_survive d ?k y \<longrightarrow>
       (\<exists>b a st. y = Some b \<and> a \<in> set xs \<and> version_of a st \<and> file_holds c (fst st) (snd st) b)"
    using d old unfolding version_file_def by blast
  with xs(1,2) t show ?thesis by (intro exI [of _ xs] exI [of _ ds]) (simp add: related_def)
qed

end
