(* ===== verification/Cli.thy ===== *)
theory Cli
  imports Repository PasswordGen Clipboard "HOL-Library.List_Lexorder" "HOL-Library.Product_Lexorder"
begin

text \<open>
  \<open>src/securevault/cli.py\<close>: the commands, from the arguments \<open>click\<close> has parsed to the exit of the
  process. What is not part of the repository is the record \<open>externals\<close> of parameters: \<open>click.echo\<close>
  (the flag is \<open>err\<close>) and \<open>click.confirm\<close>, \<open>pyperclip\<close>, \<open>time.sleep\<close>, Python's \<open>str.lower\<close>, \<open>repr\<close> and
  \<open>str\<close> of the library's exceptions, and the cryptographic primitives. The terminal (\<open>getpass\<close>) is a list of answers, each a line or an
  exception; the disposition of SIGTERM is a field of the state.
\<close>

text \<open>\<open>SIG_DFL\<close>, \<open>SIG_IGN\<close>, the function \<open>_on_sigterm\<close> of \<open>copy\<close>, and any other Python function.\<close>

datatype sig_handler = DefaultAction | IgnoreSignal | RaiseInterrupt | OtherHandler nat

record console = session +
  keyboard :: "(exn + pystr) list"
  sigterm :: sig_handler

record 'w externals =
  x_crypto :: crypto
  x_repr :: "jvalue \<Rightarrow> pystr"
  x_str :: "exn \<Rightarrow> pystr"
  x_lower :: "pystr \<Rightarrow> pystr"
  x_echo :: "bool \<Rightarrow> pystr \<Rightarrow> ('w, unit) prog"
  x_confirm :: "pystr \<Rightarrow> ('w, bool) prog"
  x_clip_copy :: "pystr \<Rightarrow> ('w, unit) prog"
  x_clip_paste :: "('w, pystr) prog"
  x_sleep :: "int \<Rightarrow> ('w, unit) prog"

definition getpass :: "pystr \<Rightarrow> ('z console_scheme, pystr) prog" where
  "getpass prompt w =
     (case keyboard w of
        [] \<Rightarrow> Some (Inl EOFError, w)
      | r # rs \<Rightarrow> Some (r, w\<lparr>keyboard := rs\<rparr>))"

definition set_sigterm :: "sig_handler \<Rightarrow> ('z console_scheme, sig_handler) prog" where
  "set_sigterm h w = Some (Inr (sigterm w), w\<lparr>sigterm := h\<rparr>)"

section \<open>Messages\<close>

text \<open>The message an \<open>EntryNotFoundError\<close> is built with.\<close>

definition not_found_message :: "(jvalue \<Rightarrow> pystr) \<Rightarrow> pystr \<Rightarrow> pystr" where
  "not_found_message rp entry_id = lit ''no entry with id '' @ rp (JString entry_id)"

text \<open>\<open>str(exc)\<close> of the exceptions whose text the commands print.\<close>

fun exn_str :: "'w externals \<Rightarrow> exn \<Rightarrow> pystr" where
  "exn_str x (VaultFormatError m) = m"
| "exn_str x (VaultAuthenticationError m) = m"
| "exn_str x (VaultLockedError m) = m"
| "exn_str x (ClipboardUnavailableError m) = m"
| "exn_str x (EntryNotFoundError i) = not_found_message (x_repr x) i"
| "exn_str x (ValueError m) = m"
| "exn_str x e = x_str x e"

definition fail :: "'w externals \<Rightarrow> pystr \<Rightarrow> ('w, 'a) prog" where
  "fail x message = pbind (x_echo x True (lit ''Error: '' @ message)) (\<lambda>_. throw (SystemExit 1))"

definition ljust :: "nat \<Rightarrow> pystr \<Rightarrow> pystr" where
  "ljust n s = s @ replicate (n - length s) 32"

section \<open>Passwords\<close>

definition WEAK_MASTER_PASSWORD_BITS :: real where "WEAK_MASTER_PASSWORD_BITS = 60"

definition passwords_match :: "pystr \<Rightarrow> pystr \<Rightarrow> bool result" where
  "passwords_match a b = rbind (utf8_encode a) (\<lambda>x. rbind (utf8_encode b) (\<lambda>y. Inr (x = y)))"

text \<open>\<open>{bits:.0f}\<close>; the estimate is never half way between two integers.\<close>

definition weak_warning :: "real \<Rightarrow> pystr" where
  "weak_warning bits =
     lit ''Warning: this master password looks weak (~'' @ show_int (round bits) @
     lit '' estimated bits). Argon2id raises the cost of guessing it, but cannot make a guessable password unguessable.''"

definition confirm_new_password :: "'z console_scheme externals \<Rightarrow> pystr \<Rightarrow> ('z console_scheme, unit) prog" where
  "confirm_new_password x password =
     pbind (getpass (lit ''Confirm master password: '')) (\<lambda>again.
     pbind (lift (passwords_match password again)) (\<lambda>same.
     if \<not> same then fail x (lit ''passwords did not match'')
     else
       (let bits = estimate_entropy_bits password in
        if bits < WEAK_MASTER_PASSWORD_BITS
        then pbind (x_echo x True (weak_warning bits)) (\<lambda>_.
             pbind (x_confirm x (lit ''Use it anyway?'')) (\<lambda>yes.
             if yes then ret () else fail x (lit ''aborted -- choose a stronger master password'')))
        else ret ())))"

definition read_master_password :: "'z console_scheme externals \<Rightarrow> bool \<Rightarrow> ('z console_scheme, bytes) prog" where
  "read_master_password x confirm =
     pbind (getpass (lit ''Master password: '')) (\<lambda>password.
     if password = [] then fail x (lit ''master password must not be empty'')
     else
       pbind (if confirm then confirm_new_password x password else ret ()) (\<lambda>_.
       lift (utf8_encode password)))"

record gen_kwargs =
  g_length :: int
  g_upper :: bool
  g_lower :: bool
  g_digits :: bool
  g_symbols :: bool
  g_exclude_ambiguous :: bool

definition policy_from_kwargs :: "gen_kwargs \<Rightarrow> password_policy" where
  "policy_from_kwargs k =
     \<lparr>pol_length = g_length k, use_upper = g_upper k, use_lower = g_lower k, use_digits = g_digits k,
      use_symbols = g_symbols k, exclude_ambiguous = g_exclude_ambiguous k\<rparr>"

definition generate_or_fail :: "'z console_scheme externals \<Rightarrow> password_policy \<Rightarrow> ('z console_scheme, pystr) prog" where
  "generate_or_fail x policy =
     handle (generate_password (Some policy))
       (\<lambda>e. if is_value_error e then fail x (exn_str x e) else throw e)"

definition prompt_entry_password ::
  "'z console_scheme externals \<Rightarrow> bool \<Rightarrow> password_policy \<Rightarrow> ('z console_scheme, pystr) prog" where
  "prompt_entry_password x generate policy =
     (if generate then generate_or_fail x policy
      else
        pbind (getpass (lit ''Entry password: '')) (\<lambda>first.
        pbind (getpass (lit ''Confirm entry password: '')) (\<lambda>second.
        pbind (lift (passwords_match first second)) (\<lambda>same.
        if \<not> same then fail x (lit ''passwords did not match'')
        else if first = [] then fail x (lit ''entry password must not be empty'')
        else ret first))))"

section \<open>An open repository\<close>

definition open_failed :: "'w externals \<Rightarrow> exn \<Rightarrow> ('w, 'a) prog" where
  "open_failed x e =
     (case e of
        VaultAuthenticationError m \<Rightarrow> fail x (lit ''wrong master password, or the vault is corrupt or tampered'')
      | VaultLockedError m \<Rightarrow> fail x (lit ''this vault is already open in another process'')
      | VaultFormatError m \<Rightarrow> fail x (lit ''not a valid vault file: '' @ m)
      | _ \<Rightarrow> throw e)"

definition open_repository :: "'z console_scheme externals \<Rightarrow> pystr \<Rightarrow> ('z console_scheme, unit) prog" where
  "open_repository x path =
     pbind (path_exists path) (\<lambda>ex.
     if \<not> ex then fail x (path @ lit '' does not exist -- run '' @ [39] @ lit ''securevault init '' @ path @ [39] @ lit '' first'')
     else
       pbind (getpass (lit ''Master password: '')) (\<lambda>password.
       handle
         (pbind (lift (utf8_encode password)) (\<lambda>b. repo_open (x_crypto x) (x_repr x) path b))
         (open_failed x)))"

text \<open>\<open>with _open_repository(path) as repo: body\<close>.\<close>

definition with_repository ::
  "'z console_scheme externals \<Rightarrow> pystr \<Rightarrow> ('z console_scheme, 'a) prog \<Rightarrow> ('z console_scheme, 'a) prog" where
  "with_repository x path body = pbind (open_repository x path) (\<lambda>_. with_finally body repo_close)"

text \<open>\<open>except VaultError\<close> and \<open>except EntryNotFoundError\<close> around an operation.\<close>

definition or_fail :: "'w externals \<Rightarrow> (exn \<Rightarrow> bool) \<Rightarrow> ('w, 'a) prog \<Rightarrow> ('w, 'a) prog" where
  "or_fail x catches m = handle m (\<lambda>e. if catches e then fail x (exn_str x e) else throw e)"

definition is_not_found :: "exn \<Rightarrow> bool" where
  "is_not_found e = (case e of EntryNotFoundError i \<Rightarrow> True | _ \<Rightarrow> False)"

section \<open>The commands\<close>

definition cli_init :: "'z console_scheme externals \<Rightarrow> pystr \<Rightarrow> ('z console_scheme, unit) prog" where
  "cli_init x path =
     pbind (path_exists path) (\<lambda>ex.
     if ex then fail x (path @ lit '' already exists'')
     else
       pbind (read_master_password x True) (\<lambda>password.
       pbind (or_fail x is_vault_error
                (pbind (repo_create (x_crypto x) (x_repr x) path password None) (\<lambda>_. repo_close))) (\<lambda>_.
       x_echo x False (lit ''Created vault at '' @ path))))"

definition show_hint :: "pystr \<Rightarrow> pystr \<Rightarrow> pystr" where
  "show_hint path i =
     lit ''Use '' @ [39] @ lit ''securevault get '' @ path @ lit '' '' @ i @ lit '' --show'' @ [39] @
     lit '' to view the generated password.''"

definition added_line :: "entry \<Rightarrow> pystr" where
  "added_line e =
     lit ''Added entry '' @ e_id e @ lit '' ('' @ e_service e @ lit '' / '' @ e_username e @ lit '')''"

definition cli_add ::
  "'z console_scheme externals \<Rightarrow> pystr \<Rightarrow> pystr \<Rightarrow> pystr \<Rightarrow> pystr \<Rightarrow> bool \<Rightarrow> gen_kwargs \<Rightarrow>
     ('z console_scheme, unit) prog" where
  "cli_add x path service username notes generate k =
     (let policy = policy_from_kwargs k in
      pbind (with_repository x path
        (pbind (prompt_entry_password x generate policy) (\<lambda>password.
         or_fail x is_vault_error (repo_add (x_crypto x) (x_repr x) service username password notes)))) (\<lambda>e.
      pbind (x_echo x False (added_line e)) (\<lambda>_.
      if generate then x_echo x False (show_hint path (e_id e)) else ret ())))"

definition list_line :: "entry \<Rightarrow> pystr" where
  "list_line e =
     e_id e @ lit ''  '' @ ljust 24 (e_service e) @ lit '' '' @ e_username e @
     (if e_notes e \<noteq> [] then lit '' [notes]'' else [])"

definition list_lines :: "(pystr \<Rightarrow> pystr) \<Rightarrow> entry list \<Rightarrow> pystr list" where
  "list_lines lower es =
     (if es = [] then [lit ''(no entries)'']
      else map list_line (sort_key (\<lambda>e. (lower (e_service e), lower (e_username e))) es))"

fun echo_all :: "'w externals \<Rightarrow> pystr list \<Rightarrow> ('w, unit) prog" where
  "echo_all x [] = ret ()"
| "echo_all x (t # ts) = pbind (x_echo x False t) (\<lambda>_. echo_all x ts)"

definition cli_list :: "'z console_scheme externals \<Rightarrow> pystr \<Rightarrow> ('z console_scheme, unit) prog" where
  "cli_list x path =
     pbind (with_repository x path repo_list) (\<lambda>es. echo_all x (list_lines (x_lower x) es))"

definition get_lines :: "entry \<Rightarrow> bool \<Rightarrow> pystr list" where
  "get_lines e show =
     [lit ''Service:  '' @ e_service e, lit ''Username: '' @ e_username e,
      lit ''Password: '' @ (if show then e_password e else lit ''********  (use --show to reveal)'')] @
     (if e_notes e \<noteq> [] then [lit ''Notes:    '' @ e_notes e] else []) @
     [lit ''Created:  '' @ e_created e, lit ''Updated:  '' @ e_updated e]"

definition cli_get :: "'z console_scheme externals \<Rightarrow> pystr \<Rightarrow> pystr \<Rightarrow> bool \<Rightarrow> ('z console_scheme, unit) prog" where
  "cli_get x path entry_id show =
     pbind (with_repository x path (or_fail x is_not_found (repo_get entry_id))) (\<lambda>e.
     echo_all x (get_lines e show))"

definition copied_text :: "entry \<Rightarrow> int \<Rightarrow> pystr" where
  "copied_text e timeout =
     lit ''Copied password for '' @ e_service e @ lit '' / '' @ e_username e @ lit '' to the clipboard.'' @ [10] @
     lit ''It will be cleared in '' @ show_int timeout @ lit ''s. Press Ctrl-C to clear now.''"

definition no_clipboard :: "'w externals \<Rightarrow> exn \<Rightarrow> ('w, 'a) prog" where
  "no_clipboard x e =
     (case e of
        ClipboardUnavailableError m \<Rightarrow>
          fail x (lit ''no system clipboard available (on Linux install xclip/xsel for X11, or wl-clipboard for Wayland): '' @ m)
      | _ \<Rightarrow> throw e)"

definition copy_report :: "'w externals \<Rightarrow> clipboard_session_result \<Rightarrow> ('w, unit) prog" where
  "copy_report x r =
     (if cleared r
      then x_echo x False (if \<not> interrupted r then lit ''Clipboard cleared.'' else lit ''Cleared early. Clipboard cleared.'')
      else x_echo x True (lit ''Clipboard changed since copy; left it untouched so your later copy is preserved.''))"

definition cli_copy :: "'z console_scheme externals \<Rightarrow> pystr \<Rightarrow> pystr \<Rightarrow> int \<Rightarrow> ('z console_scheme, unit) prog" where
  "cli_copy x path entry_id timeout =
     pbind (with_repository x path (or_fail x is_not_found (repo_get entry_id))) (\<lambda>e.
     pbind (set_sigterm RaiseInterrupt) (\<lambda>previous.
     pbind (with_finally
              (handle
                 (copy_and_autoclear (e_password e) timeout (pyperclip_backend (x_clip_copy x) (x_clip_paste x))
                    (x_sleep x) (Some (x_echo x False (copied_text e timeout))))
                 (no_clipboard x))
              (pbind (set_sigterm previous) (\<lambda>_. ret ()))) (copy_report x)))"

definition cli_update ::
  "'z console_scheme externals \<Rightarrow> pystr \<Rightarrow> pystr \<Rightarrow> pystr option \<Rightarrow> pystr option \<Rightarrow> pystr option \<Rightarrow>
     bool option \<Rightarrow> gen_kwargs \<Rightarrow> ('z console_scheme, unit) prog" where
  "cli_update x path entry_id service username notes generate k =
     (let policy = policy_from_kwargs k in
      pbind (with_repository x path
        (pbind (or_fail x is_not_found (repo_get entry_id)) (\<lambda>_.
         pbind (case generate of
                  None \<Rightarrow> ret None
                | Some g \<Rightarrow> pbind (prompt_entry_password x g policy) (\<lambda>p. ret (Some p))) (\<lambda>new_password.
         or_fail x is_vault_error
           (repo_update (x_crypto x) (x_repr x) entry_id service username new_password notes))))) (\<lambda>e.
      pbind (x_echo x False (lit ''Updated entry '' @ e_id e)) (\<lambda>_.
      if generate = Some True then x_echo x False (show_hint path (e_id e)) else ret ())))"

definition delete_question :: "entry \<Rightarrow> pystr" where
  "delete_question e =
     lit ''Delete '' @ e_service e @ lit '' / '' @ e_username e @ lit '' ('' @ e_id e @ lit '')?''"

text \<open>The body returns whether the entry was deleted; \<open>return\<close> inside the \<open>with\<close> still closes.\<close>

definition cli_delete :: "'z console_scheme externals \<Rightarrow> pystr \<Rightarrow> pystr \<Rightarrow> bool \<Rightarrow> ('z console_scheme, unit) prog" where
  "cli_delete x path entry_id yes =
     pbind (with_repository x path
       (pbind (or_fail x is_not_found (repo_get entry_id)) (\<lambda>e.
        pbind (if yes then ret True else x_confirm x (delete_question e)) (\<lambda>go.
        if \<not> go then pbind (x_echo x False (lit ''Aborted.'')) (\<lambda>_. ret False)
        else pbind (repo_delete (x_crypto x) (x_repr x) entry_id) (\<lambda>_. ret True))))) (\<lambda>deleted.
     if deleted then x_echo x False (lit ''Deleted entry '' @ entry_id) else ret ())"

definition cli_passwd :: "'z console_scheme externals \<Rightarrow> pystr \<Rightarrow> ('z console_scheme, unit) prog" where
  "cli_passwd x path =
     pbind (with_repository x path
       (pbind (read_master_password x True) (\<lambda>new_password.
        repo_change_password (x_crypto x) new_password None))) (\<lambda>_.
     x_echo x False (lit ''Master password changed.''))"

definition cli_generate :: "'z console_scheme externals \<Rightarrow> gen_kwargs \<Rightarrow> ('z console_scheme, unit) prog" where
  "cli_generate x k =
     handle (pbind (generate_password (Some (policy_from_kwargs k))) (x_echo x False))
       (\<lambda>e. if is_value_error e then fail x (exn_str x e) else throw e)"

section \<open>The command line\<close>

text \<open>One invocation, after \<open>click\<close> has parsed its arguments.\<close>

datatype command =
    Init pystr
  | Add pystr pystr pystr pystr bool gen_kwargs
  | ListAll pystr
  | Get pystr pystr bool
  | Copy pystr pystr int
  | Update pystr pystr "pystr option" "pystr option" "pystr option" "bool option" gen_kwargs
  | Delete pystr pystr bool
  | Passwd pystr
  | Generate gen_kwargs

fun run_command :: "'z console_scheme externals \<Rightarrow> command \<Rightarrow> ('z console_scheme, unit) prog" where
  "run_command x (Init path) = cli_init x path"
| "run_command x (Add path s u n g k) = cli_add x path s u n g k"
| "run_command x (ListAll path) = cli_list x path"
| "run_command x (Get path i show) = cli_get x path i show"
| "run_command x (Copy path i t) = cli_copy x path i t"
| "run_command x (Update path i s u n g k) = cli_update x path i s u n g k"
| "run_command x (Delete path i yes) = cli_delete x path i yes"
| "run_command x (Passwd path) = cli_passwd x path"
| "run_command x (Generate k) = cli_generate x k"

end
