(* ===== verification/CliProofs.thy ===== *)
theory CliProofs
  imports Cli Opening
begin

text \<open>
  Frames of the commands. \<open>same_session\<close>: nothing of the process, the repository object or the operating
  system changes (what the terminal, \<open>click\<close>, \<open>pyperclip\<close> and \<open>sleep\<close> may do); \<open>lock_kept\<close>: the lock
  of the vault is as free afterwards as it was before.
\<close>

definition same_session :: "'z session_scheme \<Rightarrow> 'z session_scheme \<Rightarrow> bool" where
  "same_session w w' \<longleftrightarrow> session.truncate w' = session.truncate w"

interpretation same: stepwise same_session
  by unfold_locales (simp_all add: same_session_def)

lemma truncate_fields:
  "tape (session.truncate w) = tape w" "disk (session.truncate w) = disk w" "inode_next (session.truncate w) = inode_next w"
  "fds (session.truncate w) = fds w" "fd_next (session.truncate w) = fd_next w" "wbuf (session.truncate w) = wbuf w"
  "flocks (session.truncate w) = flocks w" "faults (session.truncate w) = faults w" "calls (session.truncate w) = calls w"
  "tmp_names (session.truncate w) = tmp_names w" "cwd (session.truncate w) = cwd w" "has_fcntl (session.truncate w) = has_fcntl w"
  "lk_path (session.truncate w) = lk_path w" "lk_fd (session.truncate w) = lk_fd w" "r_path (session.truncate w) = r_path w"
  "r_entries (session.truncate w) = r_entries w" "r_closed (session.truncate w) = r_closed w"
  "heap (session.truncate w) = heap w" "r_unlocked (session.truncate w) = r_unlocked w"
  "tmp_next (session.truncate w) = tmp_next w" "hnext (session.truncate w) = hnext w"
  by (simp_all add: session.defs)

lemma truncate_predicates:
  "outside path (session.truncate w) = outside path w"
  "holding path (session.truncate w) = holding path w"
  "locked (session.truncate w) p = locked w p"
  by (simp_all add: holding_def inside_def outside_def home_defs wf_os_def resolve_def locked_def truncate_fields)

lemma same_sessionD:
  assumes "same_session w w'"
  shows "outside path w' = outside path w" "holding path w' = holding path w" "locked w' p = locked w p"
  using assms truncate_predicates unfolding same_session_def by metis+

section \<open>The lock is as it was\<close>

definition lock_kept :: "pystr \<Rightarrow> 'z session_scheme \<Rightarrow> 'z session_scheme \<Rightarrow> bool" where
  "lock_kept path w w' \<longleftrightarrow>
     (outside path w \<longrightarrow> outside path w' \<and> locked w' (path @ lit ''.lock'') = locked w (path @ lit ''.lock''))"

interpretation kept: stepwise "lock_kept path" for path
  by unfold_locales (simp_all add: lock_kept_def)

lemma same_kept: "follows same_session m \<Longrightarrow> follows (lock_kept path) m"
  by (erule follows_mono) (simp add: lock_kept_def same_sessionD)

lemma same_opened: "follows same_session m \<Longrightarrow> follows (stays_open path) m"
  by (erule follows_mono) (simp add: stays_open_def same_sessionD)

lemma memory_kept: "follows mem_only m \<Longrightarrow> follows (lock_kept path) m"
proof (erule follows_mono)
  fix w w' :: "'a session_scheme" assume "mem_only w w'"
  then obtain n h m where "w' = w\<lparr>tpos := n, heap := h, hnext := m\<rparr>" unfolding mem_only_def by blast
  then show "lock_kept path w w'"
    by (simp add: lock_kept_def outside_def home_defs wf_os_def resolve_def locked_def)
qed

lemma exists_kept: "follows (lock_kept path) (path_exists p)"
  unfolding follows_def path_exists_def handle_def syscall_def Let_def
  by (auto simp: lock_kept_def outside_def home_defs wf_os_def resolve_def locked_def split: option.splits if_splits)

section \<open>The parts of the commands\<close>

definition externals_tame :: "'z console_scheme externals \<Rightarrow> bool" where
  "externals_tame x \<longleftrightarrow>
     (\<forall>err t. follows same_session (x_echo x err t)) \<and> (\<forall>t. follows same_session (x_confirm x t)) \<and>
     (\<forall>t. follows same_session (x_clip_copy x t)) \<and> follows same_session (x_clip_paste x) \<and>
     (\<forall>t. follows same_session (x_sleep x t))"

lemma terminal_same: "follows same_session (getpass p)" "follows same_session (set_sigterm h)"
  by (auto simp: follows_def getpass_def set_sigterm_def same_session_def session.defs split: list.splits)

lemma externals_same:
  assumes "externals_tame x"
  shows "follows same_session (x_echo x err t)" "follows same_session (x_confirm x t)"
    "follows same_session (x_clip_copy x t)" "follows same_session (x_clip_paste x)" "follows same_session (x_sleep x s)"
  using assms by (simp_all add: externals_tame_def)

lemma fail_same: "externals_tame x \<Longrightarrow> follows same_session (fail x m)"
  unfolding fail_def by (intro same.bind same.pure externals_same)

lemma echo_all_same: "externals_tame x \<Longrightarrow> follows same_session (echo_all x ts)"
proof (induction ts)
  case Nil
  show ?case unfolding echo_all.simps by (rule same.pure)
next
  case (Cons t ts)
  then show ?case unfolding echo_all.simps by (intro same.bind externals_same)
qed

lemma master_password_same: "externals_tame x \<Longrightarrow> follows same_session (read_master_password x confirm)"
  unfolding read_master_password_def confirm_new_password_def Let_def
  by (auto intro!: same.bind same.pure terminal_same externals_same fail_same)

lemma or_fail_opened:
  "externals_tame x \<Longrightarrow> follows (stays_open path) m \<Longrightarrow> follows (stays_open path) (or_fail x catches m)"
  unfolding or_fail_def by (intro opened.catch follows_if opened.pure same_opened [OF fail_same])

lemma generate_opened: "externals_tame x \<Longrightarrow> follows (stays_open path) (generate_or_fail x policy)"
  unfolding generate_or_fail_def
  by (intro opened.catch follows_if opened.pure same_opened [OF fail_same] opened_memory [OF generate_password_memory])

lemma prompt_opened: "externals_tame x \<Longrightarrow> follows (stays_open path) (prompt_entry_password x g policy)"
  unfolding prompt_entry_password_def
  by (intro follows_if generate_opened opened.bind opened.pure same_opened [OF terminal_same(1)] same_opened [OF fail_same])

lemma clipboard_same:
  fixes x :: "'z console_scheme externals"
  assumes "externals_tame x"
  shows "follows same_session (copy_and_autoclear s t (pyperclip_backend (x_clip_copy x) (x_clip_paste x)) (x_sleep x)
    (Some (x_echo x False m)))"
proof -
  have un: "follows same_session (unavailable e)" for e
    unfolding unavailable_def by (cases e) (simp_all add: same.pure)
  have cb: "follows same_session (cb_copy (pyperclip_backend (x_clip_copy x) (x_clip_paste x)) q)"
      "follows same_session (cb_paste (pyperclip_backend (x_clip_copy x) (x_clip_paste x)))" for q
    unfolding pyperclip_backend_def clipboard_backend.simps using assms
    by (intro same.catch externals_same un; simp)+
  have fv: "follows same_session (finally_value m f)"
    if "follows same_session m" "follows same_session f" for m :: "('z console_scheme, bool) prog" and f :: "('z console_scheme, bool) prog"
    using that unfolding follows_def finally_value_def
    by (auto split: option.splits sum.splits) (blast intro: same.trans)+
  show ?thesis
    unfolding copy_and_autoclear_def clear_if_unchanged_def interruptible_def using assms
    by (auto intro!: same.bind same.pure same.catch fv cb externals_same)
qed

section \<open>Opening and closing\<close>

lemma repo_close_frees:
  assumes "holding path w"
  shows "\<exists>r w'. repo_close w = Some (r, w') \<and> outside path w' \<and> \<not> locked w' (path @ lit ''.lock'')"
proof -
  from assms have nc: "\<not> r_closed w" and i: "inside path w" by (simp_all add: holding_def)
  have "in_memory (vault_close (r_unlocked w) :: ('a session_scheme, unlocked_vault) prog)"
    unfolding vault_close_def by (auto intro!: in_memory_bind in_memory_prims in_memory_ret)
  then obtain r w1 where c: "vault_close (r_unlocked w) w = Some (r, w1)" and mo: "mem_only w w1"
    unfolding in_memory_def by blast
  have "\<exists>u. r = Inr u" using c by (auto simp: vault_close_def split: if_splits)
  then obtain u where u: "r = Inr u" by blast
  define w2 where "w2 = w1\<lparr>r_unlocked := u, r_entries := []\<rparr>"
  have "inside path w2" using inside_mem_only [OF mo] i by (simp add: w2_def)
  then have "lock_at path w2" "lock_mine w2" by (simp_all add: inside_iff)
  from vault_lock.released [OF this] obtain q w3 where
    l: "lock_release w2 = Some (q, w3)" "lock_free w3" "lock_at path w3" by blast
  have "repo_close w = pbind lock_release (\<lambda>_. modify (\<lambda>w. w\<lparr>r_closed := True\<rparr>)) w2"
    using nc c u by (simp add: repo_close_def pbind_Inr [where m = "vault_close (r_unlocked w)", OF c [unfolded u]] w2_def)
  moreover have "outside path w3" "\<not> locked w3 (path @ lit ''.lock'')"
    using l(2,3) by (simp_all add: lock_at_def lock_free_def)
  moreover have "outside path (w3\<lparr>r_closed := True\<rparr>) = outside path w3" "locked (w3\<lparr>r_closed := True\<rparr>) p = locked w3 p" for p
    by (simp_all add: outside_def home_defs wf_os_def resolve_def locked_def)
  ultimately show ?thesis using l(1) by (cases q) (auto simp: pbind_def modify_def)
qed

section \<open>Around a repository\<close>

text \<open>The outcome of opening: on success the lock was free and the repository is open; otherwise
  the lock is as it was.\<close>

definition open_outcome :: "pystr \<Rightarrow> 'z session_scheme \<Rightarrow> 'a result \<Rightarrow> 'z session_scheme \<Rightarrow> bool" where
  "open_outcome path w r w' \<longleftrightarrow>
     (case r of Inr u \<Rightarrow> holding path w' \<and> \<not> locked w (path @ lit ''.lock'')
      | Inl e \<Rightarrow> outside path w' \<and> locked w' (path @ lit ''.lock'') = locked w (path @ lit ''.lock''))"

lemma fail_raises: "fail x m w = Some (r, w') \<Longrightarrow> \<exists>e. r = Inl e"
  by (auto simp: fail_def pbind_def split: option.splits sum.splits)

lemma fail_no_value: "fail x m w \<noteq> Some (Inr y, w')"
  by (auto dest: fail_raises)

lemma open_failed_raises: "open_failed x e w = Some (r, w') \<Longrightarrow> \<exists>e'. r = Inl e'"
  unfolding open_failed_def by (cases e) (auto dest: fail_raises)

lemma open_failed_same: "externals_tame x \<Longrightarrow> follows same_session (open_failed x e)"
  unfolding open_failed_def by (cases e) (simp_all add: fail_same same.pure)

lemma open_outcome_kept:
  assumes "lock_kept path w w1" and "outside path w" and "outside path w1 \<Longrightarrow> open_outcome path w1 r w'"
  shows "open_outcome path w r w'"
  using assms by (auto simp: lock_kept_def open_outcome_def split: sum.splits)

lemma open_outcome_raised: "lock_kept path w w' \<Longrightarrow> outside path w \<Longrightarrow> open_outcome path w (Inl e) w'"
  by (simp add: lock_kept_def open_outcome_def)

lemma open_outcome_bind:
  assumes "follows (lock_kept path) m" and "outside path w" and "pbind m f w = Some (r, w')"
    and "\<And>y w1. outside path w1 \<Longrightarrow> f y w1 = Some (r, w') \<Longrightarrow> open_outcome path w1 r w'"
  shows "open_outcome path w r w'"
proof -
  from assms(3) obtain q w1 where m: "m w = Some (q, w1)" by (auto simp: pbind_def split: option.splits)
  from followsD [OF assms(1) m] have k: "lock_kept path w w1" .
  show ?thesis
  proof (cases q)
    case (Inl e)
    with m assms(3) have "r = Inl e" "w' = w1" by (simp_all add: pbind_def)
    with open_outcome_raised [OF k assms(2)] show ?thesis by simp
  next
    case (Inr y)
    with m assms(3) have "f y w1 = Some (r, w')" by (simp add: pbind_def)
    with assms(4) show ?thesis by (blast intro: open_outcome_kept [OF k assms(2)])
  qed
qed

lemma repo_open_outcome: "outside path w \<Longrightarrow> repo_open c rp path pw w = Some (r, w') \<Longrightarrow> open_outcome path w r w'"
  using repo_open_result [of path w c rp pw r w'] by (auto simp: open_outcome_def split: sum.splits)

lemma open_repository_outcome:
  assumes t: "externals_tame x" and o: "outside path w" and r: "open_repository x path w = Some (r, w')"
  shows "open_outcome path w r w'"
proof (rule open_outcome_bind [OF exists_kept o r [unfolded open_repository_def]])
  fix ex w1 assume o1: "outside path w1"
    and r1: "(if \<not> ex then fail x (path @ lit '' does not exist -- run '' @ [39] @ lit ''securevault init '' @ path @ [39] @ lit '' first'')
      else pbind (getpass (lit ''Master password: '')) (\<lambda>password.
        handle (pbind (lift (utf8_encode password)) (\<lambda>b. repo_open (x_crypto x) (x_repr x) path b)) (open_failed x))) w1
      = Some (r, w')"
  show "open_outcome path w1 r w'"
  proof (cases ex)
    case False
    with r1 have f: "fail x (path @ lit '' does not exist -- run '' @ [39] @ lit ''securevault init '' @ path @ [39] @ lit '' first'') w1
        = Some (r, w')" by simp
    from fail_raises [OF this] followsD [OF same_kept [OF fail_same [OF t]] f] o1 show ?thesis
      by (auto intro: open_outcome_raised)
  next
    case True
    with r1 have g: "pbind (getpass (lit ''Master password: '')) (\<lambda>password.
        handle (pbind (lift (utf8_encode password)) (\<lambda>b. repo_open (x_crypto x) (x_repr x) path b)) (open_failed x)) w1
      = Some (r, w')" by simp
    show ?thesis
    proof (rule open_outcome_bind [OF same_kept [OF terminal_same(1)] o1 g])
      fix password w2 assume o2: "outside path w2"
        and h: "handle (pbind (lift (utf8_encode password)) (\<lambda>b. repo_open (x_crypto x) (x_repr x) path b)) (open_failed x) w2
          = Some (r, w')"
      let ?m = "pbind (lift (utf8_encode password)) (\<lambda>b. repo_open (x_crypto x) (x_repr x) path b)"
      from h obtain q w3 where q: "?m w2 = Some (q, w3)" by (auto simp: handle_def split: option.splits)
      have "follows (lock_kept path) (lift (utf8_encode password))" by (rule kept.pure)
      from open_outcome_bind [where m = "lift (utf8_encode password)", OF this o2 q]
      have op: "open_outcome path w2 q w3" using repo_open_outcome by blast
      show "open_outcome path w2 r w'"
      proof (cases q)
        case (Inr u)
        with h q have "r = Inr u" "w' = w3" by (simp_all add: handle_def)
        with op Inr show ?thesis by simp
      next
        case (Inl e)
        with h q have f: "open_failed x e w3 = Some (r, w')" by (simp add: handle_def)
        from followsD [OF open_failed_same [OF t] f] have "same_session w3 w'" .
        with op Inl open_failed_raises [OF f] show ?thesis by (auto simp: open_outcome_def same_sessionD)
      qed
    qed
  qed
qed

lemma closing_kept:
  assumes "follows (stays_open path) body" and "holding path w" and "with_finally body repo_close w = Some (r, w')"
  shows "outside path w' \<and> \<not> locked w' (path @ lit ''.lock'')"
proof -
  from assms(3) obtain q w1 where b: "body w = Some (q, w1)" by (auto simp: with_finally_def split: option.splits)
  from followsD [OF assms(1) b] assms(2) have "holding path w1" by (simp add: stays_open_def)
  from repo_close_frees [OF this] obtain p w2 where
    "repo_close w1 = Some (p, w2)" "outside path w2" "\<not> locked w2 (path @ lit ''.lock'')" by blast
  with b assms(3) show ?thesis by (cases p) (auto simp: with_finally_def)
qed

lemma bracket_kept:
  assumes "\<And>w r w'. outside path w \<Longrightarrow> m w = Some (r, w') \<Longrightarrow> open_outcome path w r w'"
    and "follows (stays_open path) body"
  shows "follows (lock_kept path) (pbind m (\<lambda>_. with_finally body repo_close))"
proof (rule followsI)
  fix w r w' assume p: "pbind m (\<lambda>_. with_finally body repo_close) w = Some (r, w')"
  then obtain q w1 where m: "m w = Some (q, w1)" by (auto simp: pbind_def split: option.splits)
  show "lock_kept path w w'" unfolding lock_kept_def
  proof
    assume "outside path w"
    from assms(1) [OF this m] have o: "open_outcome path w q w1" .
    show "outside path w' \<and> locked w' (path @ lit ''.lock'') = locked w (path @ lit ''.lock'')"
    proof (cases q)
      case (Inl e)
      with m p o show ?thesis by (simp add: open_outcome_def pbind_def)
    next
      case (Inr u)
      with m p o closing_kept [OF assms(2), of w1 r w'] show ?thesis by (simp add: open_outcome_def pbind_def)
    qed
  qed
qed

lemma with_repository_kept:
  "externals_tame x \<Longrightarrow> follows (stays_open path) body \<Longrightarrow> follows (lock_kept path) (with_repository x path body)"
  unfolding with_repository_def by (rule bracket_kept) (rule open_repository_outcome)

end
