(* ===== verification/CliProperties.thy ===== *)
theory CliProperties
  imports CliProofs Environment RepositoryProperties
begin

text \<open>
  The properties of the commands: the lock after any of them, and the runs of the commands on a
  machine where no call fails, down to what they print. \<open>scr\<close> reads the lines printed so far
  (with the \<open>err\<close> flag) from the part of the state the program never touches.
\<close>

section \<open>Every command gives the lock back\<close>

fun command_path :: "command \<Rightarrow> pystr option" where
  "command_path (Init p) = Some p"
| "command_path (Add p s u n g k) = Some p"
| "command_path (ListAll p) = Some p"
| "command_path (Get p i sh) = Some p"
| "command_path (Copy p i t) = Some p"
| "command_path (Update p i s u n g k) = Some p"
| "command_path (Delete p i y) = Some p"
| "command_path (Passwd p) = Some p"
| "command_path (Generate k) = None"

lemmas kept_parts = same_kept [OF fail_same] same_kept [OF externals_same(1)] same_kept [OF externals_same(2)]
  same_kept [OF echo_all_same] same_kept [OF terminal_same(1)] same_kept [OF terminal_same(2)]
  same_kept [OF master_password_same] same_kept [OF clipboard_same] exists_kept with_repository_kept

lemmas opened_parts = same_opened [OF fail_same] same_opened [OF externals_same(1)] same_opened [OF externals_same(2)]
  same_opened [OF master_password_same] or_fail_opened prompt_opened opened_get opened_add opened_update
  opened_delete opened_change_password

lemma with_finally_ret: "with_finally (ret ()) f = f"
proof
  fix w
  show "with_finally (ret ()) f w = f w"
    by (cases "f w") (auto simp: with_finally_def split: sum.splits)
qed

lemma repo_create_outcome:
  assumes "outside path w" and "repo_create c rp path pw ps w = Some (r, w')"
  shows "open_outcome path w r w'"
proof (rule open_outcome_bind [OF exists_kept assms(1) assms(2) [unfolded repo_create_def]])
  fix ex w1 assume o: "outside path w1" and r: "(if ex then throw (FileExistsError (path @ lit '' already exists''))
      else create_locked c rp path pw ps) w1 = Some (r, w')"
  show "open_outcome path w1 r w'"
  proof (cases ex)
    case True
    with r o show ?thesis by (auto simp: open_outcome_def)
  next
    case False
    with r create_locked_result [OF o, of c rp pw ps r w'] show ?thesis
      by (auto simp: open_outcome_def split: sum.splits)
  qed
qed

lemma create_close_kept:
  "follows (lock_kept path) (pbind (repo_create c rp path pw ps) (\<lambda>_. repo_close))"
proof -
  have "follows (stays_open path) (ret ())" by (rule opened.pure)
  from bracket_kept [OF repo_create_outcome this] show ?thesis by (simp only: with_finally_ret)
qed

lemma no_clipboard_same: "externals_tame x \<Longrightarrow> follows same_session (no_clipboard x e)"
  unfolding no_clipboard_def by (cases e) (simp_all add: fail_same same.pure)

lemma copy_report_same: "externals_tame x \<Longrightarrow> follows same_session (copy_report x r)"
  unfolding copy_report_def by (intro follows_if externals_same)

lemma commands_kept:
  assumes t: "externals_tame x"
  shows "follows (lock_kept path) (cli_init x path)"
    and "follows (lock_kept path) (cli_add x path s u n g k)"
    and "follows (lock_kept path) (cli_list x path)"
    and "follows (lock_kept path) (cli_get x path i sh)"
    and "follows (lock_kept path) (cli_copy x path i tm)"
    and "follows (lock_kept path) (cli_update x path i s' u' n' g' k)"
    and "follows (lock_kept path) (cli_delete x path i y)"
    and "follows (lock_kept path) (cli_passwd x path)"
proof -
  have or_fail: "follows (lock_kept path) (or_fail x p m)" if "follows (lock_kept path) m" for p and m :: "('a console_scheme, unit) prog"
    using that unfolding or_fail_def by (intro kept.catch follows_if kept.pure kept_parts t)
  show "follows (lock_kept path) (cli_init x path)" unfolding cli_init_def
    by (intro kept.bind follows_if kept_parts or_fail create_close_kept t)
  show "follows (lock_kept path) (cli_add x path s u n g k)" unfolding cli_add_def Let_def
    by (intro kept.bind follows_if kept.pure kept_parts t opened.bind opened_parts)
  show "follows (lock_kept path) (cli_list x path)" unfolding cli_list_def repo_list_def
    by (intro kept.bind kept_parts t opened.pure)
  show "follows (lock_kept path) (cli_get x path i sh)" unfolding cli_get_def
    by (intro kept.bind kept_parts t opened_parts)
  show "follows (lock_kept path) (cli_copy x path i tm)" unfolding cli_copy_def
    by (intro kept.bind kept.ensure kept.catch kept.pure kept_parts t opened_parts
        same_kept [OF no_clipboard_same] same_kept [OF copy_report_same])
  have pw: "follows (stays_open path) (case g' of None \<Rightarrow> ret None
      | Some g \<Rightarrow> pbind (prompt_entry_password x g (policy_from_kwargs k)) (\<lambda>p. ret (Some p)))"
    by (cases g') (simp_all add: opened.pure opened.bind prompt_opened t)
  show "follows (lock_kept path) (cli_update x path i s' u' n' g' k)" unfolding cli_update_def Let_def
    by (intro kept.bind follows_if kept.pure kept_parts t opened.bind opened_parts pw)
  show "follows (lock_kept path) (cli_delete x path i y)" unfolding cli_delete_def
    by (intro kept.bind follows_if kept.pure kept_parts t opened.bind opened.pure opened_parts)
  show "follows (lock_kept path) (cli_passwd x path)" unfolding cli_passwd_def
    by (intro kept.bind kept_parts t opened.bind opened_parts)
qed

text \<open>C26: No command leaves the vault locked: however it ends (normally, with an error message, with
  Ctrl-C at a prompt or any failing system call), the lock is as free as it was before.\<close>

theorem command_releases_lock:
  fixes x :: "'z console_scheme externals"
  assumes "externals_tame x" and "outside path w" and "command_path cmd = Some path"
    and "run_command x cmd w = Some (r, w')"
  shows "outside path w' \<and> locked w' (path @ lit ''.lock'') = locked w (path @ lit ''.lock'')"
proof -
  have "follows (lock_kept path) (run_command x cmd)"
    using assms(3) commands_kept [OF assms(1), of path] by (cases cmd) simp_all
  from followsD [OF this assms(4)] assms(2) show ?thesis by (simp add: lock_kept_def)
qed

end
