(* ===== verification/PasswordProperties.thy ===== *)
theory PasswordProperties
  imports PasswordProofs
begin

text \<open>The properties of the password generator and of the entropy estimate.\<close>

lemma strip_sub: "pool \<in> set (strip_ambiguous ps) \<Longrightarrow> \<exists>q \<in> set ps. pool = filter (\<lambda>c. c \<notin> AMBIGUOUS) q"
  by (auto simp: strip_ambiguous_def)

lemma strip_covers:
  "q \<in> set ps \<Longrightarrow> filter (\<lambda>c. c \<notin> AMBIGUOUS) q \<noteq> [] \<Longrightarrow> filter (\<lambda>c. c \<notin> AMBIGUOUS) q \<in> set (strip_ambiguous ps)"
  by (auto simp: strip_ambiguous_def)

text \<open>No category consists of ambiguous characters only.\<close>

lemma unambiguous_left:
  "list_all (\<lambda>q. filter (\<lambda>c. c \<notin> AMBIGUOUS) q \<noteq> []) [UPPER, LOWER, DIGITS, SYMBOLS]"
  by (simp add: pool_defs AMBIGUOUS_def lit_def)

lemma selected_cases: "q \<in> set (selected_pools p) \<Longrightarrow> q \<in> set [UPPER, LOWER, DIGITS, SYMBOLS]"
  by (auto simp: selected_pools_def split: if_splits)

lemma selected_unambiguous: "q \<in> set (selected_pools p) \<Longrightarrow> filter (\<lambda>c. c \<notin> AMBIGUOUS) q \<noteq> []"
  using unambiguous_left selected_cases unfolding list_all_iff by blast

definition any_category :: "password_policy \<Rightarrow> bool" where
  "any_category p \<longleftrightarrow> use_upper p \<or> use_lower p \<or> use_digits p \<or> use_symbols p"

lemma selected_Nil_iff: "selected_pools p = [] \<longleftrightarrow> \<not> any_category p"
  by (auto simp: selected_pools_def any_category_def)

lemma pools_any_category:
  "any_category p \<Longrightarrow> \<exists>ps. pools p = Inr ps"
  "\<not> any_category p \<Longrightarrow> pools p = Inl (ValueError (lit ''at least one character category must be enabled''))"
proof -
  assume "any_category p"
  then obtain q where q: "q \<in> set (selected_pools p)" using selected_Nil_iff by (cases "selected_pools p") auto
  from strip_covers [OF this selected_unambiguous [OF q]] q show "\<exists>ps. pools p = Inr ps"
    by (auto simp: pools_def Let_def)
qed (simp add: pools_def selected_Nil_iff)

text \<open>Every enabled category has its pool, and every pool is a part of an enabled category.\<close>

lemma pools_represent:
  assumes "pools p = Inr ps" and "q \<in> set (selected_pools p)"
  shows "\<exists>pool \<in> set ps. set pool \<subseteq> set q"
proof (cases "exclude_ambiguous p")
  case True
  with assms strip_covers [OF assms(2) selected_unambiguous [OF assms(2)]] show ?thesis
    using pools_Inr(1) [OF assms(1)] by (intro bexI [of _ "filter (\<lambda>c. c \<notin> AMBIGUOUS) q"]) auto
next
  case False
  with assms pools_Inr(1) [OF assms(1)] show ?thesis by auto
qed

lemma pools_within:
  assumes "pools p = Inr ps" and "pool \<in> set ps"
  shows "\<exists>q \<in> set (selected_pools p). set pool \<subseteq> set q" and "exclude_ambiguous p \<Longrightarrow> set pool \<inter> AMBIGUOUS = {}"
proof -
  have st: "\<exists>q \<in> set (selected_pools p). pool = filter (\<lambda>c. c \<notin> AMBIGUOUS) q" if "exclude_ambiguous p"
    using that pools_Inr(1) [OF assms(1)] assms(2) strip_sub by simp
  then show "exclude_ambiguous p \<Longrightarrow> set pool \<inter> AMBIGUOUS = {}" by auto
  show "\<exists>q \<in> set (selected_pools p). set pool \<subseteq> set q"
  proof (cases "exclude_ambiguous p")
    case True
    then obtain q where "q \<in> set (selected_pools p)" "pool = filter (\<lambda>c. c \<notin> AMBIGUOUS) q" using st by blast
    then show ?thesis by (intro bexI [of _ q]) auto
  next
    case False
    with pools_Inr(1) [OF assms(1)] assms(2) show ?thesis by auto
  qed
qed

lemma list_all2_left: "list_all2 R xs ys \<Longrightarrow> x \<in> set xs \<Longrightarrow> \<exists>y \<in> set ys. R x y"
  by (induction rule: list_all2_induct) auto

lemma list_all2_right: "list_all2 R xs ys \<Longrightarrow> y \<in> set ys \<Longrightarrow> \<exists>x \<in> set xs. R x y"
  by (induction rule: list_all2_induct) auto

lemma validate_policy_iff:
  "validate_policy p = Inr () \<longleftrightarrow> 8 \<le> pol_length p \<and> pol_length p \<le> 256 \<and> any_category p"
proof (cases "any_category p")
  case True
  then obtain ps where ps: "pools p = Inr ps" using pools_any_category(1) by blast
  with pools_Inr(3) [OF ps] True show ?thesis
    by (auto simp: validate_policy_def MIN_LENGTH_def MAX_LENGTH_def)
next
  case False
  with pools_any_category(2) [OF this] show ?thesis by (simp add: validate_policy_def)
qed

lemma shuffle_list_fair:
  assumes "fair_source (tape w)" and "xs \<noteq> []" and "length xs \<le> 256"
  shows "\<exists>ys w'. shuffle_list xs w = Some (Inr ys, w') \<and> mset ys = mset xs \<and> reads_on w w'"
proof -
  let ?i = "length xs - 1"
  have i: "?i \<le> 255" "?i < length xs" using assms(2,3) by auto
  from draws_fair [OF assms(1) i(1)] obtain js w' where
    d: "draws (rev [2..<?i + 2]) w = Some (Inr js, w')" "js \<in> indices ?i" "reads_on w w'" by blast
  then have "shuffle_list xs w = Some (Inr (exchanges ?i js xs), w')"
    unfolding shuffle_list_def by (subst shuffle_down_draws) (simp add: pbind_def)
  with mset_exchanges [OF d(2) i(2)] d(3) show ?thesis by blast
qed

section \<open>What a password has to meet\<close>

text \<open>The categories by their code points, not by the constants of the code.\<close>

definition is_upper :: "nat \<Rightarrow> bool" where "is_upper c \<longleftrightarrow> 65 \<le> c \<and> c \<le> 90"
definition is_lower :: "nat \<Rightarrow> bool" where "is_lower c \<longleftrightarrow> 97 \<le> c \<and> c \<le> 122"
definition is_digit :: "nat \<Rightarrow> bool" where "is_digit c \<longleftrightarrow> 48 \<le> c \<and> c \<le> 57"
definition is_symbol :: "nat \<Rightarrow> bool" where "is_symbol c \<longleftrightarrow> c \<in> set (lit ''!@#$%^&*()-_=+[]{};:,.<>?/'')"
definition is_ambiguous :: "nat \<Rightarrow> bool" where "is_ambiguous c \<longleftrightarrow> c \<in> set (lit ''Il1O0'')"

lemmas kind_defs = is_upper_def is_lower_def is_digit_def is_symbol_def is_ambiguous_def

definition allowed :: "password_policy \<Rightarrow> nat \<Rightarrow> bool" where
  "allowed p c \<longleftrightarrow>
     (use_upper p \<and> is_upper c \<or> use_lower p \<and> is_lower c \<or> use_digits p \<and> is_digit c \<or> use_symbols p \<and> is_symbol c) \<and>
     \<not> (exclude_ambiguous p \<and> is_ambiguous c)"

definition meets_policy :: "password_policy \<Rightarrow> pystr \<Rightarrow> bool" where
  "meets_policy p pw \<longleftrightarrow>
     int (length pw) = pol_length p \<and> list_all (allowed p) pw \<and>
     (use_upper p \<longrightarrow> list_ex is_upper pw) \<and> (use_lower p \<longrightarrow> list_ex is_lower pw) \<and>
     (use_digits p \<longrightarrow> list_ex is_digit pw) \<and> (use_symbols p \<longrightarrow> list_ex is_symbol pw)"

lemma pools_upt: "UPPER = [65..<91]" "LOWER = [97..<123]" "DIGITS = [48..<58]"
  by (simp_all add: pool_defs lit_def)

lemma pool_kinds:
  "c \<in> set UPPER \<longleftrightarrow> is_upper c" "c \<in> set LOWER \<longleftrightarrow> is_lower c" "c \<in> set DIGITS \<longleftrightarrow> is_digit c"
  "c \<in> set SYMBOLS \<longleftrightarrow> is_symbol c" "c \<in> AMBIGUOUS \<longleftrightarrow> is_ambiguous c"
  by (simp_all only: pools_upt set_upt atLeastLessThan_iff SYMBOLS_def AMBIGUOUS_def kind_defs) auto

lemma symbol_kinds: "is_symbol c \<Longrightarrow> \<not> is_upper c \<and> \<not> is_lower c \<and> \<not> is_digit c"
  by (auto simp: kind_defs lit_def)

lemma allowed_pools:
  "allowed p c \<longleftrightarrow> (\<exists>q \<in> set (selected_pools p). c \<in> set q) \<and> \<not> (exclude_ambiguous p \<and> c \<in> AMBIGUOUS)"
  by (auto simp: allowed_def selected_pools_def pool_kinds)

lemma meets_policy_pools:
  "meets_policy p pw \<longleftrightarrow>
     int (length pw) = pol_length p \<and>
     (\<forall>c. c \<in> set pw \<longrightarrow> (\<exists>q \<in> set (selected_pools p). c \<in> set q)) \<and>
     (\<forall>q \<in> set (selected_pools p). \<exists>c \<in> set pw. c \<in> set q) \<and>
     (exclude_ambiguous p \<longrightarrow> set pw \<inter> AMBIGUOUS = {})"
proof -
  have "list_all (allowed p) pw \<longleftrightarrow> (\<forall>c. c \<in> set pw \<longrightarrow> (\<exists>q \<in> set (selected_pools p). c \<in> set q)) \<and>
      (exclude_ambiguous p \<longrightarrow> set pw \<inter> AMBIGUOUS = {})"
    unfolding list_all_iff allowed_pools by blast
  moreover have "(use_upper p \<longrightarrow> list_ex is_upper pw) \<and> (use_lower p \<longrightarrow> list_ex is_lower pw) \<and>
      (use_digits p \<longrightarrow> list_ex is_digit pw) \<and> (use_symbols p \<longrightarrow> list_ex is_symbol pw) \<longleftrightarrow>
      (\<forall>q \<in> set (selected_pools p). \<exists>c \<in> set pw. c \<in> set q)"
    by (auto simp: selected_pools_def list_ex_iff pool_kinds)
  ultimately show ?thesis unfolding meets_policy_def by blast
qed

lemma generator_runs:
  fixes w :: "'z machine_scheme"
  assumes "validate_policy p = Inr ()" and "fair_source (tape w)"
  shows "\<exists>pw w'. generate_password (Some p) w = Some (Inr pw, w') \<and> reads_on w w' \<and> meets_policy p pw"
proof -
  from assms(1) have v: "8 \<le> pol_length p" "pol_length p \<le> 256" "any_category p"
    by (simp_all add: validate_policy_iff)
  from pools_any_category(1) [OF v(3)] obtain ps where ps: "pools p = Inr ps" by blast
  note P = pools_Inr [OF ps]
  have ok: "\<forall>q \<in> set ps. q \<noteq> [] \<and> length q \<le> 256" using P(4,5) pool_length [of _ ps] by fastforce
  from choose_each_fair [OF assms(2) ok] obtain cs w1 where
    1: "choose_each ps w = Some (Inr cs, w1)" "list_all2 (\<lambda>c p. c \<in> set p) cs ps" "reads_on w w1" by blast
  from list_all2_lengthD [OF 1(2)] P(3) have len: "length cs \<le> 4" by simp
  define n where "n = nat (pol_length p - int (length cs))"
  have n: "int (length cs + n) = pol_length p" using v(1) len by (simp add: n_def)
  have ne: "concat ps \<noteq> []" using P(2,5) by (cases ps) auto
  then have "\<forall>q \<in> set (replicate n (concat ps)). q \<noteq> [] \<and> length q \<le> 256" using P(4) by auto
  from choose_each_fair [OF _ this, of w1] assms(2) obtain fs w2 where
    2: "choose_each (replicate n (concat ps)) w1 = Some (Inr fs, w2)"
      "list_all2 (\<lambda>c p. c \<in> set p) fs (replicate n (concat ps))" "reads_on w1 w2"
    by (auto simp: reads_on_tape [OF 1(3)])
  have lf: "length fs = n" using list_all2_lengthD [OF 2(2)] by simp
  have "cs @ fs \<noteq> []" "length (cs @ fs) \<le> 256" using n v lf by auto
  moreover have "fair_source (tape w2)" using assms(2) by (simp add: reads_on_tape [OF 2(3)] reads_on_tape [OF 1(3)])
  ultimately obtain pw w3 where 3: "shuffle_list (cs @ fs) w2 = Some (Inr pw, w3)" "mset pw = mset (cs @ fs)" "reads_on w2 w3"
    using shuffle_list_fair by blast
  have run: "generate_password (Some p) w = Some (Inr pw, w3)"
    using 1(1) 2(1) 3(1) assms(1) ps by (simp add: generate_password_def pbind_def n_def)
  have se: "set pw = set cs \<union> set fs" using mset_eq_setD [OF 3(2)] by simp
  have from_cs: "\<exists>q \<in> set ps. c \<in> set q" if "c \<in> set cs" for c
    using list_all2_left [OF 1(2) that] .
  have from_fs: "\<exists>q \<in> set ps. c \<in> set q" if "c \<in> set fs" for c
    using list_all2_left [OF 2(2) that] by auto
  have all: "\<exists>q \<in> set ps. c \<in> set q" if "c \<in> set pw" for c using that se from_cs from_fs by auto
  have each: "\<exists>c \<in> set pw. c \<in> set q" if "q \<in> set ps" for q
    using list_all2_right [OF 1(2) that] se by blast
  have "int (length pw) = pol_length p" using mset_eq_length [OF 3(2)] lf n by simp
  moreover have "\<forall>c. c \<in> set pw \<longrightarrow> (\<exists>q \<in> set (selected_pools p). c \<in> set q)"
    using all pools_within(1) [OF ps] by blast
  moreover have "\<forall>q \<in> set (selected_pools p). \<exists>c \<in> set pw. c \<in> set q"
    using each pools_represent [OF ps] by blast
  moreover have "exclude_ambiguous p \<longrightarrow> set pw \<inter> AMBIGUOUS = {}"
    using all pools_within(2) [OF ps] by blast
  moreover have "reads_on w w3" using 1(3) 2(3) 3(3) reads_on_trans by blast
  ultimately show ?thesis using run unfolding meets_policy_pools by blast
qed

section \<open>The properties\<close>

text \<open>C27: With a length from 8 to 256, any category and a random source that does not starve the rejection
  loop, the generator returns a password of the requested length that has only characters of the
  enabled categories (A-Z, a-z, 0-9, the symbols) and at least one of each, has no ambiguous one
  where they are excluded, and advances the random source only.\<close>

theorem generate_password_meets_policy:
  fixes w :: "'z machine_scheme"
  assumes "8 \<le> pol_length p" and "pol_length p \<le> 256"
    and "use_upper p \<or> use_lower p \<or> use_digits p \<or> use_symbols p" and "fair_source (tape w)"
  shows "\<exists>pw w'. generate_password (Some p) w = Some (Inr pw, w') \<and> reads_on w w' \<and> meets_policy p pw"
  by (rule generator_runs) (use assms in \<open>auto simp: validate_policy_iff any_category_def\<close>)

text \<open>C28: The exact policies that are accepted: a length from 8 to 256 and any category. Any other raises
  \<open>ValueError\<close> with the message of what is wrong, the length first, before any randomness is drawn.
  The two other error branches of the code (no characters left, length below the number of
  categories) are never reached.\<close>

theorem policy_accepted_iff:
  "if \<not> (8 \<le> pol_length p \<and> pol_length p \<le> 256)
   then validate_policy p = Inl (ValueError (lit ''length must be between 8 and 256'')) \<and>
     generate_password (Some p) w = Some (Inl (ValueError (lit ''length must be between 8 and 256'')), w)
   else if \<not> use_upper p \<and> \<not> use_lower p \<and> \<not> use_digits p \<and> \<not> use_symbols p
   then validate_policy p = Inl (ValueError (lit ''at least one character category must be enabled'')) \<and>
     generate_password (Some p) w = Some (Inl (ValueError (lit ''at least one character category must be enabled'')), w)
   else validate_policy p = Inr ()"
proof (cases "8 \<le> pol_length p \<and> pol_length p \<le> 256")
  case True
  with pools_any_category(2) [of p] validate_policy_iff [of p] show ?thesis
    by (auto simp: validate_policy_def MIN_LENGTH_def MAX_LENGTH_def generate_password_def any_category_def)
next
  case False
  have m: "lit ''length must be between '' @ show_int MIN_LENGTH @ lit '' and '' @ show_int MAX_LENGTH =
      lit ''length must be between 8 and 256''"
    by (simp add: MIN_LENGTH_def MAX_LENGTH_def show_int_def show_nat.simps lit_def)
  from False have "validate_policy p = Inl (ValueError (lit ''length must be between 8 and 256''))"
    unfolding m [symmetric] by (simp add: validate_policy_def MIN_LENGTH_def MAX_LENGTH_def)
  with False show ?thesis by (simp add: generate_password_def)
qed

section \<open>The entropy estimate\<close>

text \<open>The apparent pool by code points.\<close>

definition apparent_pool :: "pystr \<Rightarrow> nat" where
  "apparent_pool s =
     (if list_ex is_upper s then 26 else 0) + (if list_ex is_lower s then 26 else 0) + (if list_ex is_digit s then 10 else 0) +
     (if list_ex (\<lambda>c. \<not> is_upper c \<and> \<not> is_lower c \<and> \<not> is_digit c) s then 26 else 0)"

lemma entropy_pool_apparent: "entropy_pool s = apparent_pool s"
  by (simp add: entropy_pool_def apparent_pool_def pool_kinds)

lemma apparent_pool_pos: "pw \<noteq> [] \<Longrightarrow> 10 \<le> apparent_pool pw"
  by (cases pw) (auto simp: apparent_pool_def)

lemma apparent_pool_Nil [simp]: "apparent_pool [] = 0"
  by (simp add: apparent_pool_def)

lemma estimate_eq:
  "pw \<noteq> [] \<Longrightarrow> estimate_entropy_bits pw = log 2 (real (apparent_pool pw ^ length pw))"
  using apparent_pool_pos [of pw] by (simp add: estimate_entropy_bits_def entropy_pool_apparent log_nat_power)

lemma weak_password: "estimate_entropy_bits pw < 60 \<longleftrightarrow> apparent_pool pw ^ length pw < 2 ^ 60"
proof (cases "pw = []")
  case True
  then show ?thesis by (simp add: estimate_entropy_bits_def)
next
  case False
  have "0 < real (apparent_pool pw ^ length pw)" using apparent_pool_pos [OF False] by simp
  then have "estimate_entropy_bits pw < 60 \<longleftrightarrow> real (apparent_pool pw ^ length pw) < 2 powr real 60"
    using estimate_eq [OF False] by (simp add: log_less_iff)
  also have "\<dots> \<longleftrightarrow> real (apparent_pool pw ^ length pw) < real (2 ^ 60)" by (simp add: powr_realpow)
  finally show ?thesis by (simp only: of_nat_less_iff)
qed

lemma strong_password: "2 ^ 60 \<le> apparent_pool pw ^ length pw \<Longrightarrow> \<not> estimate_entropy_bits pw < 60"
  by (simp add: weak_password)

text \<open>The estimate as exact integer arithmetic: a password is below the threshold of 60 bits exactly
  when there are fewer than \<open>2 ^ 60\<close> strings of its length over its apparent pool; the estimate grows
  with every character, and the pool has at most 88 characters.\<close>

theorem entropy_threshold:
  "(estimate_entropy_bits pw < 60 \<longleftrightarrow> apparent_pool pw ^ length pw < 2 ^ 60) \<and>
   estimate_entropy_bits pw < estimate_entropy_bits (c # pw) \<and> apparent_pool pw \<le> 88"
proof (intro conjI)
  show "estimate_entropy_bits pw < 60 \<longleftrightarrow> apparent_pool pw ^ length pw < 2 ^ 60" by (rule weak_password)
  have le: "apparent_pool pw \<le> apparent_pool (c # pw)" by (auto simp: apparent_pool_def)
  have p: "10 \<le> apparent_pool (c # pw)" by (simp add: apparent_pool_pos)
  have "apparent_pool pw ^ length pw \<le> apparent_pool (c # pw) ^ length pw" using le by (rule power_mono) simp
  also have "\<dots> < apparent_pool (c # pw) ^ length (c # pw)" using p by simp
  finally have "real (apparent_pool pw ^ length pw) < real (apparent_pool (c # pw) ^ length (c # pw))"
    by (simp only: of_nat_less_iff)
  then show "estimate_entropy_bits pw < estimate_entropy_bits (c # pw)"
    unfolding estimate_eq [of "c # pw", OF list.distinct(2)]
    using estimate_eq [of pw] p apparent_pool_pos [of pw]
    by (cases "pw = []") (auto simp: estimate_entropy_bits_def simp del: of_nat_power power_Suc)
  show "apparent_pool pw \<le> 88" by (simp add: apparent_pool_def)
qed

section \<open>Witnesses\<close>

text \<open>A source of zeros, which no draw rejects.\<close>

definition zero_machine :: machine where
  "zero_machine = \<lparr>tape = (\<lambda>i. 0), tpos = 0, heap = (\<lambda>a. []), hnext = 0\<rparr>"

lemma be_value_zeros: "be_value (map (\<lambda>i. 0) xs) = 0"
  by (induction xs rule: rev_induct) (simp_all add: be_value_def)

lemma zero_machine_fair: "fair_source (tape zero_machine)"
  by (auto simp: fair_source_def block_at_def block_value_def tape_read_def be_value_zeros zero_machine_def)

theorem generate_password_meets_policy_witness:
  "\<exists>pw w'. generate_password (Some default_policy) zero_machine = Some (Inr pw, w') \<and> length pw = 20 \<and> list_ex is_digit pw"
proof -
  have "pol_length default_policy = 20" "use_digits default_policy" "use_upper default_policy"
    by (simp_all add: default_policy_def DEFAULT_LENGTH_def)
  with generate_password_meets_policy [of default_policy, OF _ _ _ zero_machine_fair] show ?thesis
    by (auto simp: meets_policy_def)
qed

end
