(* ===== verification/CliRuns.thy ===== *)
theory CliRuns
  imports CliProperties PasswordProperties
begin

text \<open>
  The commands on a machine where no system call fails: what they store and what they print.
  \<open>scr\<close> reads the lines printed so far, with their \<open>err\<close> flag, from the part of the state that
  belongs to \<open>click\<close>; \<open>echo_ok\<close> says that \<open>click.echo\<close> appends to it.
\<close>

section \<open>Opening and closing\<close>

definition echo_ok :: "'z console_scheme externals \<Rightarrow> ('z \<Rightarrow> (bool \<times> pystr) list) \<Rightarrow> bool" where
  "echo_ok x scr \<longleftrightarrow>
     (\<forall>err t w. \<exists>w'. x_echo x err t w = Some (Inr (), w') \<and> same_session w w' \<and> keyboard w' = keyboard w \<and>
        scr (console.more w') = scr (console.more w) @ [(err, t)])"

text \<open>A closed vault on a machine at rest: the file holds \<open>es\<close> under \<open>pw\<close> and nobody has the lock.\<close>

definition vault_at_rest ::
  "crypto \<Rightarrow> bytes \<Rightarrow> entry list \<Rightarrow> pystr \<Rightarrow> 'z session_scheme \<Rightarrow> bool" where
  "vault_at_rest c pw es path w \<longleftrightarrow>
     outside path w \<and> quiet w \<and> \<not> locked w (path @ lit ''.lock'') \<and> vault_holds c pw es path w \<and> entries_ok es"

lemma env_console:
  fixes w w' :: "'z console_scheme"
  assumes "env w w'"
  shows "keyboard w' = keyboard w" "sigterm w' = sigterm w" "console.more w' = console.more w"
  using assms by (cases w; cases w'; simp add: env_def)+

lemma env_keyboard:
  fixes w w' :: "'z console_scheme"
  shows "env w w' \<Longrightarrow> env (w\<lparr>keyboard := ks\<rparr>) (w'\<lparr>keyboard := ks\<rparr>)"
  by (cases w; cases w'; simp add: env_def)

lemma path_exists_runs:
  assumes "quiet w" and "file_content path w = Some data"
  obtains w' where "path_exists path w = Some (Inr True, w')" and "w' = w\<lparr>calls := calls w', disk_trace := disk_trace w'\<rparr>"
    and "calls w \<le> calls w'"
proof -
  from assms have "faults w (calls w) = None" "d_names (disk w) (resolve w path) \<noteq> None"
    by (auto simp: quiet_def file_content_def visible_def)
  then have "path_exists path w = Some (Inr True, w\<lparr>calls := Suc (calls w), disk_trace := disk_trace w @ [disk w]\<rparr>)"
    by (simp add: path_exists_def handle_def syscall_def resolve_def)
  then show thesis by (rule that) simp_all
qed

lemma rest_calls:
  assumes "w' = w\<lparr>calls := n, disk_trace := d\<rparr>" and "calls w \<le> n" and "vault_at_rest c pw es path w"
  shows "vault_at_rest c pw es path w'"
  using assms by (simp add: vault_at_rest_def outside_def home_defs wf_os_def resolve_def quiet_def locked_def
      vault_holds_def file_content_def)

lemma rest_keyboard:
  fixes w :: "'z console_scheme"
  shows "vault_at_rest c pw es path (w\<lparr>keyboard := ks\<rparr>) = vault_at_rest c pw es path w"
  by (simp add: vault_at_rest_def outside_def home_defs wf_os_def resolve_def quiet_def locked_def
      vault_holds_def file_content_def)

text \<open>What opening reads: the counter of the file; and what it changes on the disk: the lock file.\<close>

lemma repo_open_facts:
  assumes o: "outside path w" and r: "repo_open c rp path pw w = Some (Inr u, w')"
  shows "\<exists>data f. file_content path w = Some data \<and> parse data = Inr f \<and> uv_counter (r_unlocked w') = pv_counter f"
    and "\<forall>n. n \<noteq> resolve w (path @ lit ''.lock'') \<longrightarrow> d_names (disk w') n = d_names (disk w) n"
proof -
  let ?w = "with_lock_path path w"
  have at: "lock_at path ?w" using o by simp
  from r have "guarded lock_acquire lock_release (open_body c rp path pw) ?w = Some (Inr u, w')" by (simp add: repo_open_def)
  then obtain w1 where a: "lock_acquire ?w = Some (Inr (), w1)" and b: "open_body c rp path pw w1 = Some (Inr u, w')"
    by (rule guarded_normal)
  note ac = acquire_keeps_content [OF at a]
  from ac(1) have sr: "store_ready path w1" by (simp add: inside_def outside_def)
  from b obtain data w2 v w3 where rd: "storage_read path w1 = Some (Inr data, w2)"
    and op: "vault_open c pw data w2 = Some (Inr v, w3)" and ini: "repo_init rp path v w3 = Some (Inr u, w')"
    unfolding open_body_def by (auto simp: result_simps)
  from storage_read_content [OF sr rd] have fc: "file_content path w1 = Some data" and d2: "disk w2 = disk w1" by auto
  from op obtain f where f: "parse data = Inr f" "uv_counter v = pv_counter f"
    by (auto simp: vault_open_def result_simps)
  have m: "mem_only w2 w3" using followsD [OF follows_in_memory [OF in_memory_vault_open] op] .
  from ini obtain b' w4 es where vr: "vault_read v w3 = Some (Inr b', w4)"
    and w': "w' = w4\<lparr>r_path := path, r_unlocked := v, r_entries := es, r_closed := False\<rparr>"
    by (auto simp: repo_init_def modify_def result_simps)
  have m': "mem_only w3 w4" using followsD [OF follows_in_memory [OF in_memory_vault_rest(1)] vr] .
  have d': "disk w' = disk w1" using m m' d2 unfolding w' by (auto simp: mem_only_def)
  have cf: "file_content path w1 = file_content path w" using ac(2)
    by (simp add: file_content_def resolve_def with_lock_path_def)
  have "uv_counter (r_unlocked w') = pv_counter f" using f(2) by (simp add: w')
  with fc cf f(1) show "\<exists>data f. file_content path w = Some data \<and> parse data = Inr f \<and> uv_counter (r_unlocked w') = pv_counter f"
    by auto
  from at have wf: "wf_os ?w" "has_fcntl ?w" by (auto simp: lock_at_def outside_def lock_ok_def)
  from wf a have "lock_taken ?w w1" by (cases rule: lock_acquire_outcome) simp_all
  from lock_taken_holds(3) [OF this] show "\<forall>n. n \<noteq> resolve w (path @ lit ''.lock'') \<longrightarrow> d_names (disk w') n = d_names (disk w) n"
    unfolding d' by (simp add: lock_frame_def with_lock_path_def resolve_def)
qed

text \<open>No temporary name is in use, nor is it the name of the lock; and the file's counter is not at its end.\<close>

definition ready_to_write :: "pystr \<Rightarrow> 'z os_scheme \<Rightarrow> bool" where
  "ready_to_write path w \<longleftrightarrow>
     (\<forall>n. d_names (disk w) (resolve w (tmp_path (dirname (resolve w path)) (tmp_names w n))) = None \<and>
        resolve w (tmp_path (dirname (resolve w path)) (tmp_names w n)) \<noteq> resolve w (path @ lit ''.lock'')) \<and>
     (\<forall>data f. file_content path w = Some data \<and> parse data = Inr f \<longrightarrow> pv_counter f + 1 < 2 ^ 64)"

lemma opened_ready:
  assumes "outside path w" and "repo_open c rp path pw w = Some (Inr u, w')" and "ready_to_write path w"
  shows "tmp_free w' path \<and> uv_counter (r_unlocked w') + 1 < 2 ^ 64"
proof -
  note f = repo_open_facts [OF assms(1,2)]
  from followsD [OF env_repo_lifecycle(1) assms(2)] have "cwd w' = cwd w" "tmp_names w' = tmp_names w" by (simp_all add: env_def)
  with f assms(3) show ?thesis by (auto simp: ready_to_write_def tmp_free_def resolve_def)
qed

lemma ready_same:
  fixes w :: "'z console_scheme"
  shows "ready_to_write path (w\<lparr>keyboard := ks\<rparr>) = ready_to_write path w"
    "ready_to_write path (w\<lparr>calls := n, disk_trace := t\<rparr>) = ready_to_write path w"
  by (simp_all add: ready_to_write_def resolve_def file_content_def)

lemma open_repository_runs:
  fixes w :: "'z console_scheme"
  assumes c: "crypto_ok (x_crypto x)" and rest: "vault_at_rest (x_crypto x) pw es path w"
    and k: "keyboard w = Inr s # ks" and s: "utf8_encode s = Inr pw"
  obtains w' where "open_repository x path w = Some (Inr (), w')" and "live (x_crypto x) pw w'" and "r_entries w' = es"
    and "r_path w' = path" and "vault_holds (x_crypto x) pw es path w'" and "env (w\<lparr>keyboard := ks\<rparr>) w'" and "quiet w'"
    and "ready_to_write path w \<longrightarrow> tmp_free w' path \<and> uv_counter (r_unlocked w') + 1 < 2 ^ 64"
proof -
  from rest obtain data where "file_content path w = Some data" "quiet w"
    by (auto simp: vault_at_rest_def vault_holds_def)
  from path_exists_runs [OF this(2,1)] obtain w1 where
    ex: "path_exists path w = Some (Inr True, w1)" and w1: "w1 = w\<lparr>calls := calls w1, disk_trace := disk_trace w1\<rparr>" "calls w \<le> calls w1" .
  have "vault_at_rest (x_crypto x) pw es path w1" using rest_calls [OF w1 rest] .
  moreover define w2 where "w2 = w1\<lparr>keyboard := ks\<rparr>"
  ultimately have "vault_at_rest (x_crypto x) pw es path w2" by (simp add: rest_keyboard)
  then have r2: "outside path w2" "quiet w2" "\<not> locked w2 (path @ lit ''.lock'')" "vault_holds (x_crypto x) pw es path w2" "entries_ok es"
    by (simp_all add: vault_at_rest_def)
  have "keyboard w1 = Inr s # ks" using k by (subst w1(1)) simp
  then have gp: "getpass (lit ''Master password: '') w1 = Some (Inr s, w2)" by (simp add: getpass_def w2_def)
  from repo_open_quiet [OF c r2(1,5,4,2,3)] obtain w3 where op: "repo_open (x_crypto x) (x_repr x) path pw w2 = Some (Inr (), w3)" by blast
  from repo_open_live [OF c r2(1,5,4) op] have l: "live (x_crypto x) pw w3" "r_entries w3 = es" "r_path w3 = path"
    "file_content path w3 = file_content path w2" by auto
  from followsD [OF env_repo_lifecycle(1) op] have e: "env w2 w3" .
  have "env w w1" by (subst w1(1)) (simp add: env_def w1(2))
  then have "env (w\<lparr>keyboard := ks\<rparr>) w2" unfolding w2_def by (rule env_keyboard)
  from environment.trans [OF this e] have e3: "env (w\<lparr>keyboard := ks\<rparr>) w3" .
  have "open_repository x path w = Some (Inr (), w3)"
    using ex gp op s by (simp add: open_repository_def pbind_Inr [where m = "path_exists path", OF ex]
        pbind_Inr [where m = "getpass (lit ''Master password: '')", OF gp] handle_def)
  moreover have "tmp_free w3 path \<and> uv_counter (r_unlocked w3) + 1 < 2 ^ 64" if "ready_to_write path w"
  proof -
    have "ready_to_write path w1" using that by (subst w1(1)) (simp only: ready_same)
    then have "ready_to_write path w2" by (simp only: w2_def ready_same)
    from opened_ready [OF r2(1) op this] show ?thesis .
  qed
  ultimately show thesis using l e3 env_quiet [OF e r2(2)] r2(4)
    by (intro that [of w3]) (simp_all add: vault_holds_def)
qed

lemma closes_runs:
  assumes l: "live c pw w" and q: "quiet w" and v: "vault_holds c pw es path w" and p: "r_path w = path" and es: "entries_ok es"
  obtains w' where "repo_close w = Some (Inr (), w')" and "vault_at_rest c pw es path w'" and "env w w'"
proof -
  from repo_close_ok [OF l] q obtain w' where cl: "repo_close w = Some (Inr (), w')"
    and at: "lock_at path w'" "lock_free w'" and d: "disk w' = disk w" "cwd w' = cwd w" and q': "quiet w'"
    by (auto simp: p quiet_def injected_def)
  have "vault_holds c pw es path w'" using v d by (simp add: vault_holds_def file_content_def resolve_def)
  then have "vault_at_rest c pw es path w'"
    using at q' es by (simp add: vault_at_rest_def lock_at_def lock_free_def)
  with cl followsD [OF env_repo_lifecycle(3) cl] show thesis by (intro that)
qed

text \<open>A whole \<open>with\<close> block: the body runs on the open repository and leaves another state of the vault.\<close>

lemma with_repository_runs:
  fixes w :: "'z console_scheme"
  assumes c: "crypto_ok (x_crypto x)" and rest: "vault_at_rest (x_crypto x) pw es path w"
    and k: "keyboard w = Inr s # ks" and s: "utf8_encode s = Inr pw"
    and body: "\<And>w1. live (x_crypto x) pw w1 \<Longrightarrow> r_entries w1 = es \<Longrightarrow> r_path w1 = path \<Longrightarrow>
      vault_holds (x_crypto x) pw es path w1 \<Longrightarrow> env (w\<lparr>keyboard := ks\<rparr>) w1 \<Longrightarrow> quiet w1 \<Longrightarrow>
      (ready_to_write path w \<longrightarrow> tmp_free w1 path \<and> uv_counter (r_unlocked w1) + 1 < 2 ^ 64) \<Longrightarrow>
      \<exists>y w2. body w1 = Some (Inr y, w2) \<and> P y w2 \<and> live (x_crypto x) pw' w2 \<and> r_path w2 = path \<and> quiet w2 \<and>
        vault_holds (x_crypto x) pw' (r_entries w2) path w2"
  obtains y w2 w' where "with_repository x path body w = Some (Inr y, w')" and "P y w2" and "env w2 w'"
    and "vault_at_rest (x_crypto x) pw' (r_entries w2) path w'"
proof -
  from open_repository_runs [OF c rest k s] obtain w1 where o: "open_repository x path w = Some (Inr (), w1)"
    "live (x_crypto x) pw w1" "r_entries w1 = es" "r_path w1 = path" "vault_holds (x_crypto x) pw es path w1"
    "env (w\<lparr>keyboard := ks\<rparr>) w1" "quiet w1"
    "ready_to_write path w \<longrightarrow> tmp_free w1 path \<and> uv_counter (r_unlocked w1) + 1 < 2 ^ 64" .
  from body [OF o(2-8)] obtain y w2 where b: "body w1 = Some (Inr y, w2)" "P y w2" "live (x_crypto x) pw' w2"
    "r_path w2 = path" "quiet w2" "vault_holds (x_crypto x) pw' (r_entries w2) path w2" by blast
  have "entries_ok (r_entries w2)" using b(3) by (simp add: live_def)
  from closes_runs [OF b(3,5,6,4) this] obtain w' where cl: "repo_close w2 = Some (Inr (), w')"
    "vault_at_rest (x_crypto x) pw' (r_entries w2) path w'" "env w2 w'" .
  have "with_repository x path body w = Some (Inr y, w')"
    using o(1) b(1) cl(1) by (simp add: with_repository_def pbind_def with_finally_def)
  with b(2) cl(2,3) show thesis by (intro that)
qed

lemma echo_all_runs:
  fixes w :: "'z console_scheme"
  assumes "echo_ok x scr"
  shows "\<exists>w'. echo_all x ts w = Some (Inr (), w') \<and> same_session w w' \<and> keyboard w' = keyboard w \<and>
    scr (console.more w') = scr (console.more w) @ map (Pair False) ts"
proof (induction ts arbitrary: w)
  case Nil
  show ?case by (intro exI [of _ w]) (simp add: same.refl)
next
  case (Cons t ts)
  from assms obtain w1 where e: "x_echo x False t w = Some (Inr (), w1)" "same_session w w1" "keyboard w1 = keyboard w"
    "scr (console.more w1) = scr (console.more w) @ [(False, t)]" unfolding echo_ok_def by blast
  from Cons.IH [of w1] obtain w2 where "echo_all x ts w1 = Some (Inr (), w2)" "same_session w1 w2" "keyboard w2 = keyboard w1"
    "scr (console.more w2) = scr (console.more w1) @ map (Pair False) ts" by blast
  with e show ?case by (intro exI [of _ w2]) (auto simp: pbind_def intro: same.trans)
qed

lemma rest_truncate: "vault_at_rest c pw es path (session.truncate w) = vault_at_rest c pw es path w"
  by (simp add: vault_at_rest_def truncate_predicates quiet_def vault_holds_def file_content_def resolve_def truncate_fields)

lemma content_truncate: "file_content path (session.truncate w) = file_content path w"
  by (simp add: file_content_def resolve_def truncate_fields)

lemma ready_truncate: "ready_to_write path (session.truncate w) = ready_to_write path w"
  by (simp add: ready_to_write_def resolve_def truncate_fields content_truncate)

lemma rest_same: "same_session w w' \<Longrightarrow> vault_at_rest c pw es path w' = vault_at_rest c pw es path w"
  unfolding same_session_def by (metis rest_truncate)

section \<open>Reading commands\<close>

definition no_password :: "entry \<Rightarrow> entry" where
  "no_password e = e\<lparr>e_password := []\<rparr>"

lemma insort_map: "insort_key f (g x) (map g xs) = map g (insort_key (\<lambda>a. f (g a)) x xs)"
  by (induction xs) auto

lemma sort_map: "sort_key f (map g xs) = map g (sort_key (\<lambda>a. f (g a)) xs)"
  by (induction xs) (simp_all add: insort_map)

lemma list_lines_no_password: "list_lines lower (map no_password es) = list_lines lower es"
  by (simp add: list_lines_def sort_map no_password_def list_line_def)

lemma keyboard_more: "console.more (w\<lparr>keyboard := ks\<rparr>) = console.more w"
  by (cases w) simp

lemma list_runs:
  fixes w :: "'z console_scheme"
  assumes "crypto_ok (x_crypto x)" and "echo_ok x scr" and "vault_at_rest (x_crypto x) pw es path w"
    and "keyboard w = Inr s # ks" and "utf8_encode s = Inr pw"
  shows "\<exists>w'. cli_list x path w = Some (Inr (), w') \<and> vault_at_rest (x_crypto x) pw es path w' \<and>
    scr (console.more w') = scr (console.more w) @ map (Pair False) (list_lines (x_lower x) (map no_password es))"
proof -
  have body: "\<exists>y w2. repo_list w1 = Some (Inr y, w2) \<and>
      (y = es \<and> r_entries w2 = es \<and> console.more w2 = console.more w) \<and> live (x_crypto x) pw w2 \<and> r_path w2 = path \<and>
      quiet w2 \<and> vault_holds (x_crypto x) pw (r_entries w2) path w2"
    if "live (x_crypto x) pw w1" "r_entries w1 = es" "r_path w1 = path" "vault_holds (x_crypto x) pw es path w1"
      "env (w\<lparr>keyboard := ks\<rparr>) w1" "quiet w1" for w1
    using that env_console(3) [OF that(5)] by (simp add: repo_list_def gets_def keyboard_more)
  obtain y w2 w3 where
    r: "with_repository x path repo_list w = Some (Inr y, w3)" "y = es \<and> r_entries w2 = es \<and> console.more w2 = console.more w"
      "env w2 w3" "vault_at_rest (x_crypto x) pw (r_entries w2) path w3"
    by (rule with_repository_runs [OF assms(1,3-5), where body = repo_list and pw' = pw and
          P = "\<lambda>y w2. y = es \<and> r_entries w2 = es \<and> console.more w2 = console.more w"]) (rule body)
  from echo_all_runs [OF assms(2), of "list_lines (x_lower x) es" w3] obtain w' where
    e: "echo_all x (list_lines (x_lower x) es) w3 = Some (Inr (), w')" "same_session w3 w'"
      "scr (console.more w') = scr (console.more w3) @ map (Pair False) (list_lines (x_lower x) es)" by blast
  have "cli_list x path w = Some (Inr (), w')" using r e(1) by (simp add: cli_list_def pbind_def)
  with r e env_console(3) [OF r(3)] rest_same [OF e(2)] show ?thesis
    by (intro exI [of _ w']) (simp add: list_lines_no_password)
qed

text \<open>What is promised of the lines: those of the entries without their passwords, in the stable order of the
  service and then the user name, both in lower case.\<close>

definition listed_line :: "entry \<Rightarrow> pystr" where
  "listed_line e =
     e_id e @ [32, 32] @ e_service e @ replicate (24 - length (e_service e)) 32 @ [32] @ e_username e @
     (if e_notes e = [] then [] else lit '' [notes]'')"

definition in_order :: "(pystr \<Rightarrow> pystr) \<Rightarrow> entry list \<Rightarrow> entry list \<Rightarrow> bool" where
  "in_order lower es es' \<longleftrightarrow>
     mset es' = mset es \<and> sorted (map (\<lambda>e. (lower (e_service e), lower (e_username e))) es') \<and>
     (\<forall>s u. filter (\<lambda>e. lower (e_service e) = s \<and> lower (e_username e) = u) es' =
        filter (\<lambda>e. lower (e_service e) = s \<and> lower (e_username e) = u) es)"

lemma list_lines_ordered:
  "\<exists>es'. in_order lower es es' \<and> list_lines lower es = (if es = [] then [lit ''(no entries)''] else map listed_line es')"
proof -
  let ?k = "\<lambda>e. (lower (e_service e), lower (e_username e))"
  have "filter (\<lambda>e. lower (e_service e) = s \<and> lower (e_username e) = u) (sort_key ?k es) =
      filter (\<lambda>e. lower (e_service e) = s \<and> lower (e_username e) = u) es" for s u
    using sort_key_stable [of ?k "(s, u)" es] by simp
  then have "in_order lower es (sort_key ?k es)" by (simp add: in_order_def)
  moreover have "list_lines lower es = (if es = [] then [lit ''(no entries)''] else map listed_line (sort_key ?k es))"
    by (simp add: list_lines_def list_line_def listed_line_def ljust_def lit_def)
  ultimately show ?thesis by blast
qed

text \<open>C33: \<open>list\<close> with the right password prints one line for each entry, sorted by service and user name
  in lower case, entries with the same names in the order they are stored; the lines are those of the
  entries without their passwords; the vault is closed again, unlocked and unchanged.\<close>

theorem list_prints_no_password:
  fixes w :: "'z console_scheme"
  assumes "crypto_ok (x_crypto x)" and "echo_ok x scr" and "vault_at_rest (x_crypto x) pw es path w"
    and "keyboard w = Inr s # ks" and "utf8_encode s = Inr pw"
  shows "\<exists>es' w'. cli_list x path w = Some (Inr (), w') \<and> vault_at_rest (x_crypto x) pw es path w' \<and>
    in_order (x_lower x) (map no_password es) es' \<and>
    scr (console.more w') = scr (console.more w) @
      map (Pair False) (if es = [] then [lit ''(no entries)''] else map listed_line es')"
proof -
  from list_runs [OF assms] obtain w' where "cli_list x path w = Some (Inr (), w')" "vault_at_rest (x_crypto x) pw es path w'"
    "scr (console.more w') = scr (console.more w) @ map (Pair False) (list_lines (x_lower x) (map no_password es))" by blast
  with list_lines_ordered [of "x_lower x" "map no_password es"] show ?thesis by auto
qed

text \<open>\<open>get\<close> prints the password of an entry only with \<open>--show\<close>: without it the output is that of the
  entry without its password. The
  vault is closed again, unlocked and unchanged.\<close>

theorem get_hides_password:
  fixes w :: "'z console_scheme"
  assumes "crypto_ok (x_crypto x)" and "echo_ok x scr" and "vault_at_rest (x_crypto x) pw es path w"
    and "keyboard w = Inr s # ks" and "utf8_encode s = Inr pw"
    and "find_entry i es = Some e"
  shows "\<exists>w'. cli_get x path i show w = Some (Inr (), w') \<and> vault_at_rest (x_crypto x) pw es path w' \<and>
    scr (console.more w') = scr (console.more w) @
      map (Pair False) (get_lines (if show then e else no_password e) show)"
proof -
  let ?b = "or_fail x is_not_found (repo_get i)"
  have body: "\<exists>y w2. ?b w1 = Some (Inr y, w2) \<and>
      (y = e \<and> r_entries w2 = es \<and> console.more w2 = console.more w) \<and> live (x_crypto x) pw w2 \<and> r_path w2 = path \<and>
      quiet w2 \<and> vault_holds (x_crypto x) pw (r_entries w2) path w2"
    if "live (x_crypto x) pw w1" "r_entries w1 = es" "r_path w1 = path" "vault_holds (x_crypto x) pw es path w1"
      "env (w\<lparr>keyboard := ks\<rparr>) w1" "quiet w1" for w1
    using that env_console(3) [OF that(5)] assms(6)
    by (simp add: repo_get_def or_fail_def handle_def keyboard_more)
  obtain y w2 w3 where
    r: "with_repository x path ?b w = Some (Inr y, w3)" "y = e \<and> r_entries w2 = es \<and> console.more w2 = console.more w"
      "env w2 w3" "vault_at_rest (x_crypto x) pw (r_entries w2) path w3"
    by (rule with_repository_runs [OF assms(1,3-5), where body = ?b and pw' = pw and
          P = "\<lambda>y w2. y = e \<and> r_entries w2 = es \<and> console.more w2 = console.more w"]) (rule body)
  from echo_all_runs [OF assms(2), of "get_lines e show" w3] obtain w' where
    e: "echo_all x (get_lines e show) w3 = Some (Inr (), w')" "same_session w3 w'"
      "scr (console.more w') = scr (console.more w3) @ map (Pair False) (get_lines e show)" by blast
  have "cli_get x path i show w = Some (Inr (), w')" using r e(1) by (simp add: cli_get_def pbind_def)
  with r e env_console(3) [OF r(3)] rest_same [OF e(2)] show ?thesis
    by (intro exI [of _ w']) (simp add: get_lines_def no_password_def)
qed

section \<open>The wrong password\<close>

lemma repo_open_wrong:
  assumes c: "crypto_ok c" and rest: "vault_at_rest c pw es path w"
    and d: "file_content path w = Some data" "length data \<le> MAX_GCM" "parse data = Inr f"
    and wrong: "\<And>d. \<not> unwraps c pw' (pv_params f) (pv_salt f) (pv_kdf_header f) (pv_dek_nonce f) (pv_dek_blob f) d"
  obtains w' where "repo_open c rp path pw' w = Some (Inl (auth_error None), w')" and "vault_at_rest c pw es path w'"
    and "env w w'"
proof -
  let ?w = "with_lock_path path w"
  from rest have o: "outside path w" and q: "quiet w" and nl: "\<not> locked w (path @ lit ''.lock'')"
    and v: "vault_holds c pw es path w" and es: "entries_ok es" by (simp_all add: vault_at_rest_def)
  have at: "lock_at path ?w" using o by simp
  then have "lock_ok ?w" by (simp add: lock_at_def outside_def)
  from quiet_acquires [OF this] q nl obtain w1 where a: "lock_acquire ?w = Some (Inr (), w1)" by auto
  note ac = acquire_keeps_content [OF at a]
  have q1: "quiet w1" using ac(3) q by (simp add: quiet_def with_lock_path_def)
  have sr: "store_ready path w1" using ac(1) by (simp add: inside_def outside_def)
  then have wf: "wf_os w1" by (simp add: store_ready_def)
  have f1: "file_content path w1 = file_content path w"
    using ac(2) by (simp add: file_content_def resolve_def with_lock_path_def)
  from storage_read_quiet [OF wf q1] d(1) f1 obtain w2 where rd: "storage_read path w1 = Some (Inr data, w2)" by auto
  from storage_read_content [OF sr rd] have d2: "disk w2 = disk w1" and fr: "frame w1 w2" by auto
  from keeps_storage_read [of path] ac(1) have i2: "inside path w2"
    unfolding keeps_def by (cases rule: tripleD) (use rd in auto)
  have vo: "vault_open c pw' data w2 = Some (Inl (auth_error None), w2)"
    using c d(2,3) wrong
    by (cases rule: vault_open_cases [where pw = pw' and w = w2]) (auto simp: sealed_def)
  have b: "open_body c rp path pw' w1 = Some (Inl (auth_error None), w2)"
    by (simp add: open_body_def pbind_def rd vo)
  have q2: "quiet w2" using q1 fr by (simp add: quiet_def frame_def)
  then have "lock_ok w2" "lock_mine w2" "\<And>e. \<not> injected w2 e"
    using i2 by (simp_all add: inside_def outside_def quiet_def injected_def)
  from lock_release_mine [OF this(1,2)] this(3) obtain w3 where rel: "lock_release w2 = Some (Inr (), w3)"
    and fr3: "lock_free w3" "disk w3 = disk w2" by metis
  from vault_lock.released [of path w2] i2 rel have at3: "lock_at path w3" "lock_free w3" by (auto simp: inside_iff)
  have run: "repo_open c rp path pw' w = Some (Inl (auth_error None), w3)"
  proof -
    have "guarded lock_acquire lock_release (open_body c rp path pw') ?w = Some (Inl (auth_error None), w3)"
      by (simp add: guarded_def pbind_def a b rel handle_def)
    then show ?thesis by (simp add: repo_open_def)
  qed
  from followsD [OF env_repo_lifecycle(1) run] have e: "env w w3" .
  have "file_content path w3 = file_content path w1" using e followsD [OF env_lock(1) a] fr3(2) d2
    by (simp add: file_content_def resolve_def env_def with_lock_path_def)
  then have "vault_at_rest c pw es path w3"
    using at3 env_quiet [OF e q] v f1 es by (simp add: vault_at_rest_def lock_at_def lock_free_def vault_holds_def)
  with run e show thesis by (intro that)
qed

lemma open_repository_wrong:
  fixes w :: "'z console_scheme"
  assumes c: "crypto_ok (x_crypto x)" and e: "echo_ok x scr" and rest: "vault_at_rest (x_crypto x) pw es path w"
    and k: "keyboard w = Inr s # ks" and s: "utf8_encode s = Inr pw'"
    and d: "file_content path w = Some data" "length data \<le> MAX_GCM" "parse data = Inr f"
    and wrong: "\<And>d. \<not> unwraps (x_crypto x) pw' (pv_params f) (pv_salt f) (pv_kdf_header f) (pv_dek_nonce f) (pv_dek_blob f) d"
  shows "\<exists>w'. open_repository x path w = Some (Inl (SystemExit 1), w') \<and> vault_at_rest (x_crypto x) pw es path w' \<and>
    scr (console.more w') = scr (console.more w) @
      [(True, lit ''Error: '' @ lit ''wrong master password, or the vault is corrupt or tampered'')]"
proof -
  from rest have "quiet w" by (simp add: vault_at_rest_def)
  from path_exists_runs [OF this d(1)] obtain w1 where
    ex: "path_exists path w = Some (Inr True, w1)" and w1: "w1 = w\<lparr>calls := calls w1, disk_trace := disk_trace w1\<rparr>" "calls w \<le> calls w1" .
  have "env w w1" by (subst w1(1)) (simp add: env_def w1(2))
  note m1 = env_console [OF this]
  define w2 where "w2 = w1\<lparr>keyboard := ks\<rparr>"
  have r2: "vault_at_rest (x_crypto x) pw es path w2" using rest_calls [OF w1 rest] by (simp add: w2_def rest_keyboard)
  have fc: "file_content path w2 = Some data"
    unfolding w2_def by (subst w1(1)) (use d(1) in \<open>simp add: file_content_def resolve_def\<close>)
  have gp: "getpass (lit ''Master password: '') w1 = Some (Inr s, w2)" using k m1(1) by (simp add: getpass_def w2_def)
  from repo_open_wrong [OF c r2 fc d(2,3) wrong, of "x_repr x"] obtain w3 where
    op: "repo_open (x_crypto x) (x_repr x) path pw' w2 = Some (Inl (auth_error None), w3)"
    and r3: "vault_at_rest (x_crypto x) pw es path w3" and e3: "env w2 w3" by metis
  from e obtain w4 where ec: "x_echo x True (lit ''Error: '' @ lit ''wrong master password, or the vault is corrupt or tampered'') w3
      = Some (Inr (), w4)" "same_session w3 w4"
    "scr (console.more w4) = scr (console.more w3) @
       [(True, lit ''Error: '' @ lit ''wrong master password, or the vault is corrupt or tampered'')]" unfolding echo_ok_def by blast
  have "open_repository x path w = Some (Inl (SystemExit 1), w4)"
    using op ec(1) s by (simp add: open_repository_def pbind_Inr [where m = "path_exists path", OF ex]
        pbind_Inr [where m = "getpass (lit ''Master password: '')", OF gp] handle_def open_failed_def auth_error_def fail_def pbind_def [of "x_echo x True m" for m])
  moreover have "console.more w3 = console.more w"
    using env_console(3) [OF e3] m1(3) by (simp add: w2_def keyboard_more)
  ultimately show ?thesis using ec r3 rest_same [OF ec(2)] by (intro exI [of _ w4]) simp
qed

lemma with_repository_refused:
  "open_repository x path w = Some (Inl e, w') \<Longrightarrow> pbind (with_repository x path body) f w = Some (Inl e, w')"
  by (simp add: with_repository_def pbind_def)

text \<open>Every command that opens the vault answers a wrong master password with one and the same
  message and exit status 1: the file and the entries in it stay as they were, and nothing else
  of the command runs.\<close>

theorem wrong_password_reported:
  fixes w :: "'z console_scheme"
  assumes "crypto_ok (x_crypto x)" and "echo_ok x scr" and "vault_at_rest (x_crypto x) pw es path w"
    and "keyboard w = Inr s # ks" and "utf8_encode s = Inr pw'"
    and "file_content path w = Some data" and "length data \<le> MAX_GCM" and "parse data = Inr f"
    and "\<And>d. \<not> unwraps (x_crypto x) pw' (pv_params f) (pv_salt f) (pv_kdf_header f) (pv_dek_nonce f) (pv_dek_blob f) d"
    and "command_path cmd = Some path" and "cmd \<noteq> Init path"
  shows "\<exists>w'. run_command x cmd w = Some (Inl (SystemExit 1), w') \<and> vault_at_rest (x_crypto x) pw es path w' \<and>
    scr (console.more w') = scr (console.more w) @
      [(True, lit ''Error: wrong master password, or the vault is corrupt or tampered'')]"
proof -
  from open_repository_wrong [OF assms(1-9)] obtain w' where
    o: "open_repository x path w = Some (Inl (SystemExit 1), w')" "vault_at_rest (x_crypto x) pw es path w'"
    "scr (console.more w') = scr (console.more w) @
      [(True, lit ''Error: '' @ lit ''wrong master password, or the vault is corrupt or tampered'')]" by blast
  have "run_command x cmd w = Some (Inl (SystemExit 1), w')"
    using assms(10,11) with_repository_refused [OF o(1)]
    by (cases cmd) (simp_all add: cli_add_def cli_list_def cli_get_def cli_copy_def cli_update_def
        cli_delete_def cli_passwd_def with_repository_refused [OF o(1)])
  moreover have "lit ''Error: '' @ lit ''wrong master password, or the vault is corrupt or tampered'' =
      lit ''Error: wrong master password, or the vault is corrupt or tampered''" by (simp add: lit_def)
  ultimately show ?thesis using o(2,3) by auto
qed

section \<open>Writing commands\<close>

lemma same_session_facts:
  assumes "same_session w w'"
  shows "live c pw w' = live c pw w" "r_entries w' = r_entries w" "r_path w' = r_path w" "r_unlocked w' = r_unlocked w"
    "tape w' = tape w" "quiet w' = quiet w" "tmp_free w' path = tmp_free w path"
    "vault_holds c pw es path w' = vault_holds c pw es path w"
proof -
  have t: "live c pw (session.truncate v) = live c pw v" "quiet (session.truncate v) = quiet v"
    "tmp_free (session.truncate v) path = tmp_free v path"
    "vault_holds c pw es path (session.truncate v) = vault_holds c pw es path v" for v :: "'z session_scheme"
    by (simp_all add: live_def at_home_def unlocked_ok_def session_ok_def home_defs wf_os_def resolve_def quiet_def
        tmp_free_def vault_holds_def file_content_def truncate_fields)
  from assms have e: "session.truncate w' = session.truncate w" by (simp add: same_session_def)
  then show "live c pw w' = live c pw w" "quiet w' = quiet w" "tmp_free w' path = tmp_free w path"
    "vault_holds c pw es path w' = vault_holds c pw es path w" by (metis t)+
  from e show "r_entries w' = r_entries w" "r_path w' = r_path w" "r_unlocked w' = r_unlocked w" "tape w' = tape w"
    by (metis truncate_fields)+
qed

lemma keyboard_same: "same_session w (w\<lparr>keyboard := ks\<rparr>)"
  by (simp add: same_session_def session.defs)

lemma prompt_typed:
  assumes "keyboard w = Inr p # Inr p # ks" and "utf8_encode p = Inr b" and "p \<noteq> []"
  shows "prompt_entry_password x False policy w = Some (Inr p, w\<lparr>keyboard := ks\<rparr>)"
  using assms by (simp add: prompt_entry_password_def passwords_match_def getpass_def pbind_def)

text \<open>C18: \<open>add\<close> with the right master password and a password typed twice: the vault on disk then
  holds the old entries and one more with the given fields and a new identifier, it is unlocked
  again, and the one line printed does not depend on the password.\<close>

theorem add_stores_the_entry:
  fixes w :: "'z console_scheme"
  assumes "crypto_ok (x_crypto x)" and "echo_ok x scr" and "vault_at_rest (x_crypto x) pw es path w"
    and "keyboard w = Inr s # Inr p # Inr p # ks" and "utf8_encode s = Inr pw" and "utf8_encode p = Inr b" and "p \<noteq> []"
    and "plain_str sv" and "plain_str us" and "plain_str p" and "plain_str nt"
    and "body_bound es + 12 * (length sv + length us + length p + length nt) + 790 \<le> MAX_PLAINTEXT"
    and "ready_to_write path w" and "source_varied (tape w) (length es)"
  shows "\<exists>e w'. cli_add x path sv us nt False k w = Some (Inr (), w') \<and>
    e_service e = sv \<and> e_username e = us \<and> e_password e = p \<and> e_notes e = nt \<and> e_id e \<notin> e_id ` set es \<and>
    vault_at_rest (x_crypto x) pw (es @ [e]) path w' \<and>
    scr (console.more w') = scr (console.more w) @ [(False, lit ''Added entry '' @ e_id e @ lit '' ('' @ sv @ lit '' / '' @ us @ lit '')'')]"
proof -
  let ?c = "x_crypto x"
  let ?b = "pbind (prompt_entry_password x False (policy_from_kwargs k)) (\<lambda>password.
         or_fail x is_vault_error (repo_add (x_crypto x) (x_repr x) sv us password nt))"
  let ?P = "\<lambda>e (w2 :: 'z console_scheme). e_service e = sv \<and> e_username e = us \<and> e_password e = p \<and> e_notes e = nt \<and>
      e_id e \<notin> e_id ` set es \<and> r_entries w2 = es @ [e] \<and> console.more w2 = console.more w"
  have body: "\<exists>y w2. ?b w1 = Some (Inr y, w2) \<and> ?P y w2 \<and> live ?c pw w2 \<and> r_path w2 = path \<and> quiet w2 \<and>
      vault_holds ?c pw (r_entries w2) path w2"
    if l: "live ?c pw w1" and es: "r_entries w1 = es" and rp: "r_path w1 = path" and "vault_holds ?c pw es path w1"
      and e: "env (w\<lparr>keyboard := Inr p # Inr p # ks\<rparr>) w1" and q: "quiet w1"
      and r: "ready_to_write path w \<longrightarrow> tmp_free w1 path \<and> uv_counter (r_unlocked w1) + 1 < 2 ^ 64" for w1
  proof -
    have kb: "keyboard w1 = Inr p # Inr p # ks" "console.more w1 = console.more w" "tape w1 = tape w"
      using env_console [OF e] e by (simp_all add: keyboard_more env_def)
    define v where "v = w1\<lparr>keyboard := ks\<rparr>"
    note f = same_session_facts [OF keyboard_same [of w1 ks], folded v_def]
    have room: "body_bound (r_entries v) + 12 * (length sv + length us + length p + length nt) + 790 \<le> MAX_PLAINTEXT"
      using assms(12) by (simp add: f(2) es)
    have n: "uv_counter (r_unlocked v) + 1 < 2 ^ 64" and tf: "tmp_free v path" using r assms(13) f(4,7) by auto
    have "source_varied (tape v) (length (r_entries v))" using assms(14) kb(3) by (simp add: f(2,5) es)
    from source_varied_fresh [OF this order_refl] obtain j where "find_entry (drawn_id v (Suc j)) (r_entries v) = None" by blast
    from repo_add_ok [OF assms(1) _ assms(8-11) room n this, of pw "x_repr x"] l f(1) obtain y q' w2 where
      a: "repo_add ?c (x_repr x) sv us p nt v = Some (q', w2)" "is_new_entry v sv us p nt y"
        "stored ?c pw (append_entry y (r_entries v)) v q' w2" "\<forall>z. q' = Inr z \<longrightarrow> z = y" by blast
    have "quiet v" "tmp_free v (r_path v)" using q tf rp f(3,6) by simp_all
    with a(3,4) have q': "q' = Inr y" by (auto simp: stored_def)
    have st: "live ?c pw w2" "r_entries w2 = es @ [y]" "same_object v w2" "vault_holds ?c pw (es @ [y]) path w2"
      using a(3) f(2,3) es rp by (auto simp: stored_def saved_def append_entry_def q')
    from followsD [OF env_repo_calls(3) a(1)] have e2: "env v w2" .
    have "?b w1 = Some (Inr y, w2)"
      using prompt_typed [OF kb(1) assms(6,7)] a(1) q' by (simp add: pbind_def or_fail_def handle_def v_def)
    moreover have "?P y w2"
      using a(2) st(2) env_console(3) [OF e2] kb(2) f(2) es
      by (simp add: is_new_entry_def find_entry_None_iff v_def keyboard_more)
    moreover have "r_path w2 = path" using st(3) rp f(3) by (simp add: same_object_def)
    ultimately show ?thesis using st env_quiet [OF e2 \<open>quiet v\<close>] by (intro exI [of _ y] exI [of _ w2]) simp
  qed
  obtain e w2 w3 where
    r: "with_repository x path ?b w = Some (Inr e, w3)" "?P e w2" "env w2 w3" "vault_at_rest ?c pw (r_entries w2) path w3"
    by (rule with_repository_runs [OF assms(1,3-5), where body = ?b and pw' = pw and P = ?P]) (rule body)
  from assms(2) obtain w' where o: "x_echo x False (added_line e) w3 = Some (Inr (), w')" "same_session w3 w'"
    "scr (console.more w') = scr (console.more w3) @ [(False, added_line e)]" unfolding echo_ok_def by blast
  have "cli_add x path sv us nt False k w = Some (Inr (), w')"
    using r(1) o(1) by (simp add: cli_add_def pbind_def [of "with_repository x path m" for m] pbind_def [of "x_echo x False m" for m])
  moreover have "added_line e = lit ''Added entry '' @ e_id e @ lit '' ('' @ sv @ lit '' / '' @ us @ lit '')''"
    using r(2) by (simp add: added_line_def)
  ultimately show ?thesis using r(2,4) o(3) env_console(3) [OF r(3)] rest_same [OF o(2)]
    by (intro exI [of _ e] exI [of _ w']) simp
qed

text \<open>C23: \<open>passwd\<close> with the right master password and a strong new one typed twice: the same entries
  are then stored under the new password, and the vault is unlocked again.\<close>

theorem passwd_changes_the_password:
  fixes w :: "'z console_scheme"
  assumes "crypto_ok (x_crypto x)" and "echo_ok x scr" and "vault_at_rest (x_crypto x) pw es path w"
    and "keyboard w = Inr s # Inr n # Inr n # ks" and "utf8_encode s = Inr pw" and "utf8_encode n = Inr pw'" and "n \<noteq> []"
    and "2 ^ 60 \<le> apparent_pool n ^ length n" and "ready_to_write path w"
  shows "\<exists>w'. cli_passwd x path w = Some (Inr (), w') \<and> vault_at_rest (x_crypto x) pw' es path w' \<and>
    scr (console.more w') = scr (console.more w) @ [(False, lit ''Master password changed.'')]"
proof -
  let ?c = "x_crypto x"
  let ?b = "pbind (read_master_password x True) (\<lambda>new_password. repo_change_password ?c new_password None)"
  let ?P = "\<lambda>(u :: unit) (w2 :: 'z console_scheme). r_entries w2 = es \<and> console.more w2 = console.more w"
  have strong: "\<not> estimate_entropy_bits n < WEAK_MASTER_PASSWORD_BITS"
    using assms(8) strong_password [of n] by (simp add: WEAK_MASTER_PASSWORD_BITS_def)
  have body: "\<exists>y w2. ?b w1 = Some (Inr y, w2) \<and> ?P y w2 \<and> live ?c pw' w2 \<and> r_path w2 = path \<and> quiet w2 \<and>
      vault_holds ?c pw' (r_entries w2) path w2"
    if l: "live ?c pw w1" and es: "r_entries w1 = es" and rp: "r_path w1 = path" and "vault_holds ?c pw es path w1"
      and e: "env (w\<lparr>keyboard := Inr n # Inr n # ks\<rparr>) w1" and q: "quiet w1"
      and r: "ready_to_write path w \<longrightarrow> tmp_free w1 path \<and> uv_counter (r_unlocked w1) + 1 < 2 ^ 64" for w1
  proof -
    have kb: "keyboard w1 = Inr n # Inr n # ks" "console.more w1 = console.more w"
      using env_console [OF e] by (simp_all add: keyboard_more)
    define v where "v = w1\<lparr>keyboard := ks\<rparr>"
    note f = same_session_facts [OF keyboard_same [of w1 ks], folded v_def]
    have cnt: "uv_counter (r_unlocked v) + 1 < 2 ^ 64" and tf: "tmp_free v path" using r assms(9) f(4,7) by auto
    have "live ?c pw v" using l f(1) by simp
    from repo_change_password_ok [OF assms(1) this _ cnt, of None pw'] obtain q' w2 where
      a: "repo_change_password ?c pw' None v = Some (q', w2)" "stored ?c pw' (r_entries v) v q' w2" by auto
    have qv: "quiet v" "tmp_free v (r_path v)" using q tf rp f(3,6) by simp_all
    with a(2) have q': "q' = Inr ()" by (auto simp: stored_def)
    have st: "live ?c pw' w2" "r_entries w2 = es" "same_object v w2" "vault_holds ?c pw' es path w2"
      using a(2) f(2,3) es rp by (auto simp: stored_def saved_def q')
    from followsD [OF env_repo_calls(6) a(1)] have e2: "env v w2" .
    have "read_master_password x True w1 = Some (Inr pw', v)"
      using kb(1) assms(6,7) strong by (simp add: read_master_password_def confirm_new_password_def passwords_match_def
          getpass_def pbind_def v_def)
    then have "?b w1 = Some (Inr (), w2)" using a(1) q' by (simp add: pbind_def)
    moreover have "?P () w2" using st(2) env_console(3) [OF e2] kb(2) by (simp add: v_def keyboard_more)
    moreover have "r_path w2 = path" using st(3) rp f(3) by (simp add: same_object_def)
    ultimately show ?thesis using st env_quiet [OF e2 qv(1)] by (intro exI [of _ "()"] exI [of _ w2]) simp
  qed
  obtain u w2 w3 where
    r: "with_repository x path ?b w = Some (Inr u, w3)" "?P u w2" "env w2 w3" "vault_at_rest ?c pw' (r_entries w2) path w3"
    by (rule with_repository_runs [OF assms(1,3-5), where body = ?b and pw' = pw' and P = ?P]) (rule body)
  from assms(2) obtain w' where o: "x_echo x False (lit ''Master password changed.'') w3 = Some (Inr (), w')" "same_session w3 w'"
    "scr (console.more w') = scr (console.more w3) @ [(False, lit ''Master password changed.'')]" unfolding echo_ok_def by blast
  have "cli_passwd x path w = Some (Inr (), w')"
    using r(1) o(1) by (simp add: cli_passwd_def pbind_def [of "with_repository x path m" for m])
  then show ?thesis using r(2,4) o(3) env_console(3) [OF r(3)] rest_same [OF o(2)]
    by (intro exI [of _ w']) simp
qed

end
