(* ===== verification/CliSample.thy ===== *)
theory CliSample
  imports CliRuns RepositorySample EntryProperties
begin

text \<open>
  A console over a machine whose disk holds one vault, written with the reference primitives, and
  the witnesses of the properties of the commands. The log of \<open>click.echo\<close> is the last field.
\<close>

section \<open>A vault file with given entries\<close>

definition stored_fields :: "bytes \<Rightarrow> parsed_vault_file" where
  "stored_fields b =
     sealed_fields default_parameters (replicate 16 1) 0 (replicate 12 2) (pv_dek_blob (honest_fields 0 0))
       (replicate 12 4) (seal (aesgcm sample_crypto) (replicate 32 9) (replicate 12 4) b
          (kdf_header_bytes default_parameters (replicate 16 1) @ le_bytes 8 0))"

definition stored_body :: "entry list \<Rightarrow> bytes" where
  "stored_body es = map of_nat (json_dumps (\<lambda>v. []) (payload es))"

definition stored_file :: "entry list \<Rightarrow> bytes" where
  "stored_file es = file_bytes (stored_fields (stored_body es))"

lemma stored_wf: "length b \<le> MAX_PLAINTEXT \<Longrightarrow> wf_file (stored_fields b)"
  unfolding stored_fields_def
  by (rule wf_sealed_fields) (simp_all add: sample_seal length_sample_tag MAX_PLAINTEXT_def)

lemma stored_sealed:
  "length b \<le> MAX_PLAINTEXT \<Longrightarrow> sealed sample_crypto sample_password (stored_fields b) (replicate 32 9) b"
  using honest_unwraps [of 0 0] stored_wf [of b]
  by (simp add: sealed_def stored_fields_def sample_seal sample_gcm_decrypt)

lemma stored_body_small: "body_bound es \<le> MAX_PLAINTEXT \<Longrightarrow> length (stored_body es) \<le> MAX_PLAINTEXT"
  using length_payload [of "\<lambda>v. []" es] by (simp add: stored_body_def)

lemma stored_parse: "body_bound es \<le> MAX_PLAINTEXT \<Longrightarrow> parse (stored_file es) = Inr (stored_fields (stored_body es))"
  unfolding stored_file_def by (intro parse_file_bytes stored_wf stored_body_small)

lemma stored_holds:
  assumes "list_all entry_ok es" and "body_bound es \<le> MAX_PLAINTEXT"
  shows "file_holds sample_crypto sample_password es (stored_file es)"
proof -
  from stored_sealed [OF stored_body_small [OF assms(2)]] show ?thesis unfolding file_holds_def stored_file_def stored_body_def
    using deserialize_payload [OF assms(1)] by blast
qed

lemma stored_wrong_password:
  "\<not> unwraps sample_crypto (blit ''wrong'') (pv_params (stored_fields b)) (pv_salt (stored_fields b))
     (pv_kdf_header (stored_fields b)) (pv_dek_nonce (stored_fields b)) (pv_dek_blob (stored_fields b)) d"
proof -
  define k where "k = take 32 (blit ''wrong'' @ replicate 16 1 @ replicate 32 7)"
  have dk: "derive_key (argon2 sample_crypto) (blit ''wrong'') (replicate 16 1) default_parameters KEY_LENGTH = Inr k"
    by (simp add: derive_key_def sample_crypto_def sample_argon2_def SALT_LENGTH_def KEY_LENGTH_def k_def)
  have "hd k \<noteq> hd sample_kek" by (simp add: k_def sample_kek_def sample_password_def blit_def)
  then have ne: "sample_tag sample_kek n p a \<noteq> sample_tag k n p a'" for n p a a' by (simp add: sample_tag_def)
  have "gcm_decrypt (aesgcm sample_crypto) k (replicate 12 2) (p @ sample_tag sample_kek (replicate 12 2) p a) a' = Inl InvalidTag"
    for p a a' by (simp add: sample_crypto_def sample_decrypt_def length_sample_tag ne)
  then show ?thesis by (simp add: unwraps_def stored_fields_def dk)
qed

section \<open>The console\<close>

definition base_machine :: "entry list \<Rightarrow> session" where
  "base_machine es = sample_session\<lparr>disk :=
     \<lparr>d_names = [lit ''/v'' \<mapsto> 0], d_durable = [lit ''/v'' \<mapsto> 0],
      d_inodes = (\<lambda>i. \<lparr>i_data = stored_file es, i_mode = 384, i_synced = True\<rparr>)\<rparr>\<rparr>"

lemma base_resolve: "resolve (base_machine es) = resolve sample_session"
  by (simp add: resolve_def fun_eq_iff base_machine_def)

definition cli_machine :: "entry list \<Rightarrow> (exn + pystr) list \<Rightarrow> (bool \<times> pystr) list console_scheme" where
  "cli_machine es kb = console.extend (session.extend (base_machine es) (console.fields kb DefaultAction)) []"

definition sample_externals :: "(bool \<times> pystr) list console_scheme externals" where
  "sample_externals =
     \<lparr>x_crypto = sample_crypto, x_repr = (\<lambda>v. []), x_str = (\<lambda>e. []), x_lower = (\<lambda>s. s),
      x_echo = (\<lambda>err t w. Some (Inr (), console.more_update (\<lambda>l. l @ [(err, t)]) w)),
      x_confirm = (\<lambda>t. ret True), x_clip_copy = (\<lambda>t. ret ()), x_clip_paste = ret [], x_sleep = (\<lambda>s. ret ())\<rparr>"

lemma echo_same: "same_session w (console.more_update f w)" for w :: "'z console_scheme"
  by (cases w) (simp add: same_session_def session.defs)

lemma sample_externals_ok: "externals_tame sample_externals" "echo_ok sample_externals (\<lambda>l. l)"
    "crypto_ok (x_crypto sample_externals)" "x_crypto sample_externals = sample_crypto" "x_lower sample_externals = (\<lambda>s. s)"
proof -
  have k: "keyboard (console.more_update f w) = keyboard w" "console.more (console.more_update f w) = f (console.more w)"
    for f and w :: "'z console_scheme" by (cases w; simp)+
  have r: "follows same_session (ret y)" for y :: 'b by (rule same.pure)
  show "externals_tame sample_externals"
    by (simp add: externals_tame_def sample_externals_def r same.pure) (simp add: follows_def echo_same)
  show "echo_ok sample_externals (\<lambda>l. l)"
    by (simp add: echo_ok_def sample_externals_def echo_same k)
  show "crypto_ok (x_crypto sample_externals)" "x_crypto sample_externals = sample_crypto" "x_lower sample_externals = (\<lambda>s. s)"
    by (simp_all add: sample_externals_def sample_crypto_ok)
qed

lemma cli_machine_truncate: "session.truncate (cli_machine es kb) = base_machine es"
  by (simp add: cli_machine_def session.defs console.defs)

lemma cli_machine_fields: "keyboard (cli_machine es kb) = kb" "console.more (cli_machine es kb) = []"
    "tape (cli_machine es kb) = (\<lambda>i. of_nat i)"
  by (simp_all add: cli_machine_def base_machine_def sample_session_def sample_os_def session.defs console.defs os.defs proc.defs)

lemma base_fields:
  "tmp_names (base_machine es) n = lit ''a''" "has_fcntl (base_machine es)" "flocks (base_machine es) = (\<lambda>i. None)"
  "faults (base_machine es) = (\<lambda>c. None)" "d_names (disk (base_machine es)) = [lit ''/v'' \<mapsto> 0]"
  "i_data (d_inodes (disk (base_machine es)) 0) = stored_file es" "tape (base_machine es) = (\<lambda>i. of_nat i)"
  by (simp_all add: base_machine_def sample_session_defs)

lemma base_outside: "outside (lit ''/v'') (base_machine es)"
proof -
  have "wf_os (base_machine es)" by (auto simp: wf_os_def base_machine_def sample_session_defs)
  then show ?thesis
    by (simp add: outside_def lock_ok_def store_ready_def tmp_clear_def lock_clear_def base_resolve base_fields
        resolve_session sample_paths)
qed

lemma base_content: "file_content (lit ''/v'') (base_machine es) = Some (stored_file es)"
  by (simp add: file_content_def visible_def base_resolve base_fields resolve_session)

lemma base_rest:
  assumes "entries_ok es" and "body_bound es \<le> MAX_PLAINTEXT"
  shows "vault_at_rest sample_crypto sample_password es (lit ''/v'') (base_machine es)"
proof -
  have "list_all entry_ok es" using assms(1) by (simp add: entries_ok_def)
  from stored_holds [OF this assms(2)] base_content have
    "vault_holds sample_crypto sample_password es (lit ''/v'') (base_machine es)" by (simp add: vault_holds_def)
  with assms(1) base_outside show ?thesis
    by (simp add: vault_at_rest_def quiet_def locked_def base_fields)
qed

lemma base_ready:
  assumes "body_bound es \<le> MAX_PLAINTEXT"
  shows "ready_to_write (lit ''/v'') (base_machine es)"
  unfolding ready_to_write_def base_content stored_parse [OF assms, symmetric] base_resolve resolve_session base_fields
    sample_paths resolve_session
  using stored_parse [OF assms]
  by (auto simp: lit_def stored_fields_def)

section \<open>Witnesses\<close>

lemma cli_rest:
  assumes "entries_ok es" and "body_bound es \<le> MAX_PLAINTEXT"
  shows "vault_at_rest (x_crypto sample_externals) sample_password es (lit ''/v'') (cli_machine es kb)"
  using base_rest [OF assms] rest_truncate [of sample_crypto sample_password es "lit ''/v''" "cli_machine es kb"]
  by (simp add: cli_machine_truncate sample_externals_ok)

lemma cli_ready: "body_bound es \<le> MAX_PLAINTEXT \<Longrightarrow> ready_to_write (lit ''/v'') (cli_machine es kb)"
  using base_ready [of es] ready_truncate [of "lit ''/v''" "cli_machine es kb"] by (simp add: cli_machine_truncate)

lemma cli_content: "file_content (lit ''/v'') (cli_machine es kb) = Some (stored_file es)"
  using base_content [of es] content_truncate [of "lit ''/v''" "cli_machine es kb"] by (simp add: cli_machine_truncate)

lemma sample_bounds: "entries_ok [sample_entry]" "body_bound [sample_entry] \<le> MAX_PLAINTEXT" "entries_ok []"
    "body_bound [] \<le> MAX_PLAINTEXT"
  using sample_entry_ok
  by (simp_all add: entries_ok_def distinct_ids_def body_bound_def entry_chars_def sample_entry_def MAX_PLAINTEXT_def)

lemma sample_body_bound: "body_bound [sample_entry] \<le> 10000"
  by (simp add: body_bound_def entry_chars_def sample_entry_def)

text \<open>The keys typed for the sample password.\<close>

definition right_key :: "exn + pystr" where "right_key = Inr (lit ''correct horse'')"

lemma typed: "utf8_encode (lit ''correct horse'') = Inr sample_password" "utf8_encode (lit ''wrong'') = Inr (blit ''wrong'')"
    "utf8_encode (lit ''pw'') = Inr (blit ''pw'')"
  by (subst utf8_ascii; simp add: lit_def blit_def sample_password_def)+

lemma sample_list_returns:
  "\<exists>r w'. run_command sample_externals (ListAll (lit ''/v'')) (cli_machine [sample_entry] [right_key]) = Some (r, w')"
proof -
  let ?w = "cli_machine [sample_entry] [right_key]"
  have rest: "vault_at_rest (x_crypto sample_externals) sample_password [sample_entry] (lit ''/v'') ?w"
    by (rule cli_rest [OF sample_bounds(1,2)])
  from open_repository_runs [OF sample_externals_ok(3) rest _ typed(1)] obtain w1 where
    1: "open_repository sample_externals (lit ''/v'') ?w = Some (Inr (), w1)" "live (x_crypto sample_externals) sample_password w1"
    by (auto simp: cli_machine_fields right_key_def)
  from repo_close_ok [OF 1(2)] obtain r w2 where c: "repo_close w1 = Some (r, w2)" by blast
  show ?thesis
  proof (cases r)
    case (Inl e)
    with 1 c show ?thesis
      by (simp add: cli_list_def with_repository_def pbind_def with_finally_def repo_list_def gets_def)
  next
    case (Inr u)
    from echo_all_runs [OF sample_externals_ok(2)] obtain w3 where
      "echo_all sample_externals (list_lines (x_lower sample_externals) (r_entries w1)) w2 = Some (Inr (), w3)" by blast
    with 1 c Inr show ?thesis
      by (simp add: cli_list_def with_repository_def pbind_def with_finally_def repo_list_def gets_def)
  qed
qed

lemma cli_outside: "outside (lit ''/v'') (cli_machine [sample_entry] kb)"
  using cli_rest [OF sample_bounds(1,2)] by (simp add: vault_at_rest_def)

theorem command_releases_lock_witness:
  "\<exists>r w'. run_command sample_externals (ListAll (lit ''/v'')) (cli_machine [sample_entry] [right_key]) = Some (r, w') \<and>
     outside (lit ''/v'') w' \<and>
     locked w' (lit ''/v'' @ lit ''.lock'') = locked (cli_machine [sample_entry] [right_key]) (lit ''/v'' @ lit ''.lock'')"
proof -
  from sample_list_returns obtain r w' where
    "run_command sample_externals (ListAll (lit ''/v'')) (cli_machine [sample_entry] [right_key]) = Some (r, w')" by blast
  with command_releases_lock [OF sample_externals_ok(1) cli_outside _ this] show ?thesis by auto
qed

theorem list_prints_no_password_witness:
  "\<exists>w'. cli_list sample_externals (lit ''/v'') (cli_machine [sample_entry] [right_key]) = Some (Inr (), w') \<and>
     console.more w' = [(False, listed_line (no_password sample_entry))]"
  using list_prints_no_password [OF sample_externals_ok(3,2) cli_rest [OF sample_bounds(1,2)] _ typed(1), of "[right_key]" "[]"]
  by (auto simp: cli_machine_fields right_key_def sample_externals_ok in_order_def)

theorem get_hides_password_witness:
  "\<exists>w'. cli_get sample_externals (lit ''/v'') (e_id sample_entry) False (cli_machine [sample_entry] [right_key]) = Some (Inr (), w') \<and>
     console.more w' = map (Pair False) (get_lines (no_password sample_entry) False)"
proof -
  have "find_entry (e_id sample_entry) [sample_entry] = Some sample_entry" by simp
  from get_hides_password [OF sample_externals_ok(3,2) cli_rest [OF sample_bounds(1,2)] _ typed(1) this, of "[right_key]" "[]" False]
  show ?thesis by (auto simp: cli_machine_fields right_key_def)
qed

theorem wrong_password_reported_witness:
  "\<exists>w'. run_command sample_externals (Passwd (lit ''/v'')) (cli_machine [sample_entry] [Inr (lit ''wrong'')]) =
       Some (Inl (SystemExit 1), w') \<and>
     console.more w' = [(True, lit ''Error: wrong master password, or the vault is corrupt or tampered'')]"
proof -
  let ?w = "cli_machine [sample_entry] [Inr (lit ''wrong'')]"
  have small: "length (stored_file [sample_entry]) \<le> MAX_GCM"
    using length_payload [of "\<lambda>v. []" "[sample_entry]"] sample_body_bound
    by (simp add: stored_body_def stored_file_def file_bytes_def stored_fields_def sample_seal length_sample_tag MAX_GCM_def MAX_PLAINTEXT_def)
  have k: "keyboard ?w = Inr (lit ''wrong'') # []" by (simp add: cli_machine_fields)
  have wr: "\<not> unwraps (x_crypto sample_externals) (blit ''wrong'') (pv_params f) (pv_salt f) (pv_kdf_header f)
      (pv_dek_nonce f) (pv_dek_blob f) d" if "f = stored_fields (stored_body [sample_entry])" for d f
    using stored_wrong_password that by (simp add: sample_externals_ok)
  show ?thesis
    using wrong_password_reported [OF sample_externals_ok(3,2) cli_rest [OF sample_bounds(1,2)] k typed(2) cli_content small
        stored_parse [OF sample_bounds(2)] wr, of "Passwd (lit ''/v'')"]
    by (auto simp: cli_machine_fields)
qed

definition sample_kwargs :: gen_kwargs where
  "sample_kwargs =
     \<lparr>g_length = 20, g_upper = True, g_lower = True, g_digits = True, g_symbols = True, g_exclude_ambiguous = False\<rparr>"

theorem add_stores_the_entry_witness:
  "\<exists>e w'. cli_add sample_externals (lit ''/v'') (lit ''mail'') (lit ''ann'') [] False sample_kwargs
       (cli_machine [] [right_key, Inr (lit ''pw''), Inr (lit ''pw'')]) = Some (Inr (), w') \<and>
     e_password e = lit ''pw'' \<and> vault_at_rest sample_crypto sample_password [e] (lit ''/v'') w' \<and>
     console.more w' = [(False, lit ''Added entry '' @ e_id e @ lit '' (mail / ann)'')]"
proof -
  let ?w = "cli_machine [] [right_key, Inr (lit ''pw''), Inr (lit ''pw'')]"
  have kb: "keyboard ?w = Inr (lit ''correct horse'') # Inr (lit ''pw'') # Inr (lit ''pw'') # []"
    by (simp add: cli_machine_fields right_key_def)
  have "source_varied (tape ?w) (length [])"
    using source_varied_mono [OF sample_source] by (simp add: cli_machine_fields)
  from add_stores_the_entry [OF sample_externals_ok(3,2) cli_rest [OF sample_bounds(3,4)] kb typed(1,3) _ plain_lits
      _ _ cli_ready [OF sample_bounds(4)] this, of "[]" sample_kwargs]
  show ?thesis by (auto simp: MAX_PLAINTEXT_def cli_machine_fields sample_externals_ok lit_def)
qed

theorem passwd_changes_the_password_witness:
  "\<exists>w'. cli_passwd sample_externals (lit ''/v'')
       (cli_machine [sample_entry] [right_key, Inr (lit ''a brand new password''), Inr (lit ''a brand new password'')]) = Some (Inr (), w') \<and>
     vault_at_rest sample_crypto (blit ''a brand new password'') [sample_entry] (lit ''/v'') w'"
proof -
  let ?n = "lit ''a brand new password''"
  let ?w = "cli_machine [sample_entry] [right_key, Inr ?n, Inr ?n]"
  have kb: "keyboard ?w = Inr (lit ''correct horse'') # Inr ?n # Inr ?n # []"
    by (simp add: cli_machine_fields right_key_def)
  have n: "utf8_encode ?n = Inr (blit ''a brand new password'')" by (subst utf8_ascii; simp add: lit_def blit_def)
  have "apparent_pool ?n = 52" by (simp add: apparent_pool_def kind_defs lit_def)
  then have "2 ^ 60 \<le> apparent_pool ?n ^ length ?n" by simp
  from passwd_changes_the_password [OF sample_externals_ok(3,2) cli_rest [OF sample_bounds(1,2)] kb typed(1) n _ this
      cli_ready [OF sample_bounds(2)]]
  show ?thesis by (auto simp: sample_externals_ok lit_def)
qed

end
