(* ===== verification/ProcessSample.thy ===== *)
theory ProcessSample
  imports ProcessProperties CliSample
begin

text \<open>
  Two processes on the sample machine: the first opens the vault, adds an entry and dies, the second
  is refused meanwhile and opens the vault afterwards. The witnesses of the properties of processes.
\<close>

definition sample_system :: system where
  "sample_system = \<lparr>kernel = base_machine [], procs = Map.empty\<rparr>"

definition sample_add :: repo_op where
  "sample_add = AddEntry (lit ''mail'') (lit ''ann'') (lit ''pw'') []"

lemma sample_idle: "idle_system sample_crypto {sample_password} (lit ''/v'') sample_password [] sample_system"
  using base_rest [OF sample_bounds(3,4)]
  by (simp add: idle_system_def sample_system_def vault_at_rest_def)

abbreviation sample_step :: "system \<Rightarrow> event \<Rightarrow> system \<Rightarrow> bool" where
  "sample_step \<equiv> sys_step sample_crypto (\<lambda>v. []) {sample_password} (lit ''/v'')"

abbreviation sample_run :: "system \<Rightarrow> event list \<Rightarrow> system \<Rightarrow> bool" where
  "sample_run \<equiv> sys_run sample_crypto (\<lambda>v. []) {sample_password} (lit ''/v'')"

lemma run_one: "sys_step c rp P path s e s' \<Longrightarrow> sys_run c rp P path s [e] s'"
  using run_snoc [OF run_Nil, of c rp P path s e s'] by simp

lemma sample_right: "right_password c {pw} path pw w"
  by (simp add: right_password_def)

text \<open>A process opens a vault nobody holds.\<close>

lemma sample_opens:
  assumes "related sample_crypto {sample_password} (lit ''/v'') (d, None) s" and "quiet (kernel s)"
  shows "\<exists>s'. sample_step s (Opens i sample_password (Inr ())) s' \<and> quiet (kernel s') \<and> env (kernel s) (kernel s') \<and>
    (ready_to_write (lit ''/v'') (kernel s) \<longrightarrow>
       (\<exists>p. procs s' i = Some p \<and> tmp_free (kernel s') (lit ''/v'') \<and> uv_counter (p_unlocked p) + 1 < 2 ^ 64))"
proof -
  let ?k = "run_as (process_of (kernel s)) (kernel s)"
  from assms have k: "outside (lit ''/v'') ?k" "entries_ok (snd d)" "quiet ?k" "\<not> locked ?k (lit ''/v'' @ lit ''.lock'')"
    and v: "vault_holds sample_crypto sample_password (snd d) (lit ''/v'') ?k" and n: "procs s i = None"
    by (auto simp: related_def)
  from repo_open_quiet [OF sample_crypto_ok k(1,2) v k(3,4), of "\<lambda>v. []"] obtain w where
    o: "repo_open sample_crypto (\<lambda>v. []) (lit ''/v'') sample_password ?k = Some (Inr (), w)" by blast
  from followsD [OF env_repo_lifecycle(1) o] have e: "env (kernel s) w" by simp
  have that_ready: "tmp_free w (lit ''/v'') \<and> uv_counter (r_unlocked w) + 1 < 2 ^ 64" if "ready_to_write (lit ''/v'') (kernel s)"
    using opened_ready [OF k(1) o] that by simp
  have "sample_step s (Opens i sample_password (Inr ())) \<lparr>kernel = w, procs = (procs s)(i := Some (process_of w))\<rparr>"
    using step_open [OF n o, of "{sample_password}"] sample_right [of sample_crypto sample_password "lit ''/v''" "kernel s"] by simp
  with that_ready env_quiet [OF e assms(2)] e show ?thesis
    by (intro exI [of _ "\<lparr>kernel = w, procs = (procs s)(i := Some (process_of w))\<rparr>"]) (simp add: process_of_def)
qed

lemma sample_start: "related sample_crypto {sample_password} (lit ''/v'') ((sample_password, []), None) sample_system"
    "quiet (kernel sample_system)" "ready_to_write (lit ''/v'') (kernel sample_system)" "tape (kernel sample_system) = (\<lambda>i. of_nat i)"
  using sample_idle base_ready [OF sample_bounds(4)] base_fields(4) base_fields(7)
  by (simp_all add: idle_related) (simp_all add: sample_system_def quiet_def)

text \<open>The first process has opened the vault.\<close>

lemma sample_first:
  obtains s1 p where "sample_step sample_system (Opens 0 sample_password (Inr ())) s1" and "procs s1 0 = Some p"
    and "quiet (kernel s1)" and "tmp_free (kernel s1) (lit ''/v'')" and "uv_counter (p_unlocked p) + 1 < 2 ^ 64"
    and "related sample_crypto {sample_password} (lit ''/v'') ((sample_password, []), Some (0, (sample_password, []))) s1"
    and "tape (kernel s1) = (\<lambda>i. of_nat i)"
proof -
  from sample_opens [OF sample_start(1,2), of 0] sample_start(3) obtain s1 p where
    s1: "sample_step sample_system (Opens 0 sample_password (Inr ())) s1" "quiet (kernel s1)" "procs s1 0 = Some p"
      "tmp_free (kernel s1) (lit ''/v'')" "uv_counter (p_unlocked p) + 1 < 2 ^ 64" "env (kernel sample_system) (kernel s1)" by blast
  from related_step [OF sample_crypto_ok sample_start(1) s1(1)] have
    "related sample_crypto {sample_password} (lit ''/v'') ((sample_password, []), Some (0, (sample_password, []))) s1"
    by (auto elim: shared_openE)
  with s1 sample_start(4) show thesis by (intro that [of s1 p]) (simp_all add: env_def)
qed

text \<open>It adds an entry.\<close>

lemma sample_second:
  assumes p: "procs s1 0 = Some p" and q: "quiet (kernel s1)" "tmp_free (kernel s1) (lit ''/v'')"
    and u: "uv_counter (p_unlocked p) + 1 < 2 ^ 64"
    and R: "related sample_crypto {sample_password} (lit ''/v'') ((sample_password, []), Some (0, (sample_password, []))) s1"
    and t: "tape (kernel s1) = (\<lambda>i. of_nat i)"
  shows "\<exists>s2. sample_step s1 (Does 0 sample_add (Inr ())) s2 \<and> quiet (kernel s2)"
proof -
  let ?k = "run_as p (kernel s1)"
  from holder_entries [OF R p] have l: "live sample_crypto sample_password ?k" "p_entries p = []" "p_path p = lit ''/v''" by simp_all
  have src: "source_varied (tape ?k) (length (r_entries ?k))" using t l(2) source_varied_mono [OF sample_source] by simp
  have rd: "op_plain sample_add" "body_bound (r_entries ?k) + op_growth sample_add \<le> MAX_PLAINTEXT" "uv_counter (r_unlocked ?k) + 1 < 2 ^ 64"
    using l(2) u by (simp_all add: sample_add_def MAX_PLAINTEXT_def)
  have op: "op_ready {sample_password} sample_add ?k" using rd src by (simp add: op_ready_def sample_add_def)
  from repo_do_done [OF sample_crypto_ok l(1) rd src order_refl, of "\<lambda>v. []"] obtain r st w where
    o: "repo_do sample_crypto (\<lambda>v. []) sample_add ?k = Some (r, w)" "op_done sample_crypto (sample_password, r_entries ?k) sample_add ?k r st w"
    by auto
  from o(2) have "vault_spec (sample_password, r_entries ?k) sample_add st" by (simp add: op_done_def)
  then have "st \<noteq> (sample_password, r_entries ?k)" by (auto simp: sample_add_def elim!: vault_spec_addE simp: append_entry_def)
  with o(2) q l(3) have "r = Inr ()" by (auto simp: op_done_def)
  from o(1) have o': "pbind (repo_add sample_crypto (\<lambda>v. []) (lit ''mail'') (lit ''ann'') (lit ''pw'') []) (\<lambda>e. ret ()) ?k = Some (r, w)"
    by (simp add: sample_add_def)
  have "follows env (pbind (repo_add sample_crypto (\<lambda>v. []) (lit ''mail'') (lit ''ann'') (lit ''pw'') []) (\<lambda>e. ret ()))"
    by (intro env_combinators env_intros)
  from env_quiet [OF followsD [OF this o']] q(1) have "quiet w" by simp
  with step_do [OF p op o(1)] \<open>r = Inr ()\<close> show ?thesis by fastforce
qed

text \<open>The whole history; between the two openings the first process dies with the vault open.\<close>

lemma sample_history:
  obtains s1 s2 s3 s4 where "sample_step sample_system (Opens 0 sample_password (Inr ())) s1"
    and "sample_step s1 (Does 0 sample_add (Inr ())) s2" and "sample_step s2 (Dies 0) s3"
    and "sample_step s3 (Opens 1 sample_password (Inr ())) s4" and "procs s3 = Map.empty" and "quiet (kernel s3)"
proof -
  obtain s1 p where s1: "sample_step sample_system (Opens 0 sample_password (Inr ())) s1" "procs s1 0 = Some p"
    "quiet (kernel s1)" "tmp_free (kernel s1) (lit ''/v'')" "uv_counter (p_unlocked p) + 1 < 2 ^ 64"
    "related sample_crypto {sample_password} (lit ''/v'') ((sample_password, []), Some (0, (sample_password, []))) s1"
    "tape (kernel s1) = (\<lambda>i. of_nat i)" by (rule sample_first)
  from sample_second [OF s1(2-7)] obtain s2 where
    s2: "sample_step s1 (Does 0 sample_add (Inr ())) s2" "quiet (kernel s2)" by blast
  from related_step [OF sample_crypto_ok s1(6) s2(1)] obtain a2 where
    S2: "shared_step ((sample_password, []), Some (0, (sample_password, []))) (Does 0 sample_add (Inr ())) a2"
    and R2: "related sample_crypto {sample_password} (lit ''/v'') a2 s2" by blast
  from S2 obtain m where a2: "a2 = (m, Some (0, m))" by (auto elim: shared_doE)
  with R2 obtain q where q: "procs s2 0 = Some q" by (auto simp: related_def)
  define s3 where "s3 = \<lparr>kernel = die (run_as q (kernel s2)), procs = (procs s2)(0 := None)\<rparr>"
  from step_die [OF q] have s3: "sample_step s2 (Dies 0) s3" by (simp add: s3_def)
  from related_die [OF R2 [unfolded a2] q] have R3: "related sample_crypto {sample_password} (lit ''/v'') (m, None) s3"
    by (auto simp: s3_def elim: shared_step.cases)
  have "quiet (kernel s3)" using s2(2) by (simp add: s3_def die_def release_fd_def quiet_def split: option.split)
  with sample_opens [OF R3 this, of 1] obtain s4 where "sample_step s3 (Opens 1 sample_password (Inr ())) s4" by blast
  with s1(1) s2(1) s3 \<open>quiet (kernel s3)\<close> R3 show thesis by (intro that [of s1 s2 s3 s4]) (simp_all add: related_def)
qed

theorem processes_refine_shared_vault_witness:
  "\<exists>s' d h. sample_run sample_system [Opens 0 sample_password (Inr ())] s' \<and>
     shared_run ((sample_password, []), None) [Opens 0 sample_password (Inr ())] (d, h) \<and>
     vault_holds sample_crypto (fst d) (snd d) (lit ''/v'') (kernel s')"
proof -
  obtain s1 where "sample_step sample_system (Opens 0 sample_password (Inr ())) s1" by (rule sample_history)
  then have r: "sample_run sample_system [Opens 0 sample_password (Inr ())] s1" by (rule run_one)
  from processes_refine_shared_vault [OF sample_crypto_ok sample_idle r] r show ?thesis by blast
qed

theorem one_process_at_a_time_witness:
  "\<exists>s1 s2 e. sample_run sample_system [Opens 0 sample_password (Inr ())] s1 \<and>
     sample_step s1 (Opens 1 (blit ''any'') (Inl e)) s2 \<and> procs s2 = procs s1"
proof -
  obtain s1 p where s1: "sample_step sample_system (Opens 0 sample_password (Inr ())) s1" "procs s1 0 = Some p"
    "related sample_crypto {sample_password} (lit ''/v'') ((sample_password, []), Some (0, (sample_password, []))) s1"
    by (rule sample_first)
  from s1(1) have r: "sample_run sample_system [Opens 0 sample_password (Inr ())] s1" by (rule run_one)
  let ?k = "run_as p (kernel s1)"
  from s1(3) have o: "outside (lit ''/v'') ?k" and n: "procs s1 1 = None" by (auto simp: related_def)
  from holder_entries [OF s1(3,2)] have "locked ?k (lit ''/v'' @ lit ''.lock'')"
    by (auto simp: live_def at_home_def lock_mine_def simp del: run_as_shared dest!: holds_locked)
  from repo_open_returns [OF o] obtain r w where op: "repo_open sample_crypto (\<lambda>v. []) (lit ''/v'') (blit ''any'') ?k = Some (r, w)" by blast
  from repo_open_held [OF o \<open>locked ?k _\<close> op] obtain e where "r = Inl e" by blast
  with step_open [OF n op, of "{sample_password}"] obtain s2 where st: "sample_step s1 (Opens 1 (blit ''any'') (Inl e)) s2" by auto
  from one_process_at_a_time [OF sample_crypto_ok sample_idle r s1(2) st] r st show ?thesis by blast
qed

theorem no_update_is_lost_witness:
  "\<exists>s1 s2 s3 s4 p q. sample_step s1 (Does 0 sample_add (Inr ())) s2 \<and> sample_step s2 (Dies 0) s3 \<and>
     sample_step s3 (Opens 1 sample_password (Inr ())) s4 \<and>
     procs s2 0 = Some p \<and> procs s4 1 = Some q \<and> p_entries q = p_entries p"
proof -
  obtain s1 s2 s3 s4 where h: "sample_step sample_system (Opens 0 sample_password (Inr ())) s1"
    "sample_step s1 (Does 0 sample_add (Inr ())) s2" "sample_step s2 (Dies 0) s3"
    "sample_step s3 (Opens 1 sample_password (Inr ())) s4" by (rule sample_history)
  from no_update_is_lost [OF sample_crypto_ok sample_idle run_one [OF h(1)] h(2) run_one [OF h(3)] _ h(4)] h
  show ?thesis by fastforce
qed

theorem vault_opens_after_any_history_witness:
  "\<exists>(s' :: system) d w. procs s' = Map.empty \<and>
     shared_run ((sample_password, []), None) [Opens 0 sample_password (Inr ()), Does 0 sample_add (Inr ()), Dies 0] (d, None) \<and>
     repo_open sample_crypto (\<lambda>v. []) (lit ''/v'') (fst d) (run_as (process_of (base_machine [])) (kernel s')) = Some (Inr (), w) \<and>
     r_entries w = snd d"
proof -
  obtain s1 s2 s3 where h: "sample_step sample_system (Opens 0 sample_password (Inr ())) s1"
    "sample_step s1 (Does 0 sample_add (Inr ())) s2" "sample_step s2 (Dies 0) s3" "procs s3 = Map.empty" "quiet (kernel s3)"
    by (rule sample_history)
  from run_snoc [OF run_snoc [OF run_one [OF h(1)] h(2)] h(3)] have
    "sample_run sample_system [Opens 0 sample_password (Inr ()), Does 0 sample_add (Inr ()), Dies 0] s3" by simp
  from vault_opens_after_any_history [where p = "process_of (base_machine [])", OF sample_crypto_ok sample_idle this h(4,5)] h(4)
  show ?thesis by (intro exI [of _ s3]) simp
qed

theorem power_loss_in_any_interleaving_witness:
  "\<exists>s' ds. sample_run sample_system [Opens 0 sample_password (Inr ()), Does 0 sample_add (Inr ()), Dies 0] s' \<and>
     disk_trace (kernel s') = disk_trace (kernel sample_system) @ ds \<and>
     list_all (\<lambda>d. \<forall>found. may_survive d (lit ''/v'') found \<longrightarrow>
       (\<exists>b pw es. found = Some b \<and> file_holds sample_crypto pw es b)) (disk (kernel s') # ds)"
proof -
  obtain s1 s2 s3 where s: "sample_step sample_system (Opens 0 sample_password (Inr ())) s1"
    "sample_step s1 (Does 0 sample_add (Inr ())) s2" "sample_step s2 (Dies 0) s3" by (rule sample_history)
  have r: "sample_run sample_system [Opens 0 sample_password (Inr ()), Does 0 sample_add (Inr ()), Dies 0] s3"
    using run_snoc [OF run_snoc [OF run_one [OF s(1)] s(2)] s(3)] by simp
  have res: "resolve (kernel sample_system) (lit ''/v'') = lit ''/v''"
    by (simp add: sample_system_def base_resolve resolve_session)
  have st: "settled (kernel sample_system) (resolve (kernel sample_system) (lit ''/v''))"
    unfolding res by (simp add: settled_def sample_system_def base_machine_def sample_session_defs)
  from power_loss_in_any_interleaving [OF sample_crypto_ok sample_idle r st] obtain ds where
    "disk_trace (kernel s3) = disk_trace (kernel sample_system) @ ds"
    "\<forall>d \<in> set (disk (kernel s3) # ds). \<forall>found. may_survive d (lit ''/v'') found \<longrightarrow>
       (\<exists>b pw es. found = Some b \<and> file_holds sample_crypto pw es b)" unfolding res by blast
  with r show ?thesis unfolding list_all_iff by blast
qed

end
