(* ===== verification/PasswordResults.thy ===== *)
theory PasswordResults
  imports PasswordProperties Entries
begin

text \<open>
  What a generated password is whenever the generator returns one, with no assumption about the
  random source: characters of the enabled categories, as many as the policy asks for.
\<close>

definition below :: "nat \<Rightarrow> nat result \<Rightarrow> bool" where
  "below n r \<longleftrightarrow> (\<forall>v. r = Inr v \<longrightarrow> v < n)"

lemma randbelow_below: "randbelow n w = Some (r, w') \<Longrightarrow> below n r"
proof -
  assume r: "randbelow n w = Some (r, w')"
  have "below n (fst (r, w'))"
  proof (rule randbelow.raw_induct [where P = "\<lambda>n w y. below n (fst y)", OF _ r])
    fix f n and w :: "'a machine_scheme" and y
    assume IH: "\<And>n w y. f n w = Some y \<Longrightarrow> below n (fst y)"
      and b: "Option.bind (getrandbits (bit_length n) w) (\<lambda>(r, w').
         case r of Inl e \<Rightarrow> Some (Inl e, w') | Inr v \<Rightarrow> if v < n then Some (Inr v, w') else f n w') = Some y"
    define w1 where "w1 = w\<lparr>tpos := tpos w + num_bytes (bit_length n)\<rparr>"
    have "getrandbits (bit_length n) w = Some (Inr (block_at (tape w) n (tpos w) 0), w1)"
      by (simp add: getrandbits_def block_at_def w1_def)
    with b have "(if block_at (tape w) n (tpos w) 0 < n then Some (Inr (block_at (tape w) n (tpos w) 0), w1)
        else f n w1) = Some y" by simp
    then show "below n (fst y)" using IH [of n w1 y] by (auto simp: below_def split: if_splits)
  qed
  then show ?thesis by simp
qed

lemma secrets_choice_in: "secrets_choice xs w = Some (Inr x, w') \<Longrightarrow> x \<in> set xs"
  by (auto simp: secrets_choice_def result_simps below_def dest: randbelow_below split: if_splits)

lemma choose_each_in: "choose_each ps w = Some (Inr cs, w') \<Longrightarrow> list_all2 (\<lambda>c p. c \<in> set p) cs ps"
  by (induction ps arbitrary: cs w) (auto simp: result_simps dest: secrets_choice_in)

lemma choices_concat: "list_all2 (\<lambda>c p. c \<in> set p) cs ps \<Longrightarrow> set cs \<subseteq> set (concat ps)"
  by (induction rule: list_all2_induct) auto

lemma shuffle_down_in: "shuffle_down i xs w = Some (Inr ys, w') \<Longrightarrow> i < length xs \<Longrightarrow> mset ys = mset xs"
proof (induction i arbitrary: xs w)
  case (Suc i)
  then obtain j w1 where j: "randbelow (Suc i + 1) w = Some (Inr j, w1)"
    and s: "shuffle_down i (exchange (Suc i) j xs) w1 = Some (Inr ys, w')" by (auto simp: result_simps)
  from randbelow_below [OF j] Suc.prems(2) have "j < length xs" by (simp add: below_def)
  with Suc.IH [OF s] Suc.prems(2) mset_exchange [of "Suc i" xs j] show ?case by simp
qed simp

lemma shuffle_list_in: "shuffle_list xs w = Some (Inr ys, w') \<Longrightarrow> mset ys = mset xs"
  using shuffle_down_in [of "length xs - 1" xs w ys w'] by (cases xs) (auto simp: shuffle_list_def)

lemma pool_ascii: "q \<in> set [UPPER, LOWER, DIGITS, SYMBOLS] \<Longrightarrow> list_all is_scalar q"
proof -
  have "list_all is_scalar (lit s)" if "list_all (\<lambda>c. of_char c < (128 :: nat)) s" for s
    using that by (auto simp: lit_def list_all_iff is_scalar_def)
  then show "q \<in> set [UPPER, LOWER, DIGITS, SYMBOLS] \<Longrightarrow> ?thesis" by (auto simp: pool_defs)
qed

text \<open>The draws of a run that returned.\<close>

lemma generate_password_parts:
  assumes "generate_password (Some p) w = Some (Inr s, w')"
  obtains ps chars fill where "validate_policy p = Inr ()" and "pools p = Inr ps"
    and "list_all2 (\<lambda>c q. c \<in> set q) chars ps" and "set fill \<subseteq> set (concat ps)" and "mset s = mset (chars @ fill)"
    and "int (length (chars @ fill)) = pol_length p"
proof -
  from assms obtain ps chars fill w1 w2 where v: "validate_policy p = Inr ()" and ps: "pools p = Inr ps"
    and c: "choose_each ps w = Some (Inr chars, w1)"
    and f: "choose_each (replicate (nat (pol_length p - int (length chars))) (concat ps)) w1 = Some (Inr fill, w2)"
    and s: "shuffle_list (chars @ fill) w2 = Some (Inr s, w')"
    by (auto simp: generate_password_def result_simps)
  from v ps have len: "int (length ps) \<le> pol_length p" by (auto simp: validate_policy_def split: if_splits)
  note c2 = choose_each_in [OF c] and f2 = choose_each_in [OF f]
  from list_all2_lengthD [OF c2] list_all2_lengthD [OF f2] len have "int (length (chars @ fill)) = pol_length p" by simp
  moreover have "set fill \<subseteq> set (concat ps)" using choices_concat [OF f2] by (auto split: if_splits)
  ultimately show thesis using that v ps c2 shuffle_list_in [OF s] by blast
qed

lemma generated_meets_policy:
  assumes "generate_password (Some p) w = Some (Inr s, w')"
  shows "meets_policy p s"
  using assms
proof (cases rule: generate_password_parts)
  case (1 ps chars fill)
  have se: "set s = set chars \<union> set fill" using mset_eq_setD [OF 1(5)] by simp
  have all: "\<exists>q \<in> set ps. c \<in> set q" if "c \<in> set s" for c
    using that se 1(4) list_all2_left [OF 1(3)] by auto
  have each: "\<exists>c \<in> set s. c \<in> set q" if "q \<in> set ps" for q
    using list_all2_right [OF 1(3) that] se by blast
  have "int (length s) = pol_length p" using mset_eq_length [OF 1(5)] 1(6) by simp
  moreover have "\<forall>c. c \<in> set s \<longrightarrow> (\<exists>q \<in> set (selected_pools p). c \<in> set q)"
    using all pools_within(1) [OF 1(2)] by blast
  moreover have "\<forall>q \<in> set (selected_pools p). \<exists>c \<in> set s. c \<in> set q" using each pools_represent [OF 1(2)] by blast
  moreover have "exclude_ambiguous p \<longrightarrow> set s \<inter> AMBIGUOUS = {}" using all pools_within(2) [OF 1(2)] by blast
  ultimately show ?thesis unfolding meets_policy_pools by blast
qed

text \<open>A generated password is plain ASCII, with exactly the length asked for, at most 256.\<close>

lemma generated_password:
  assumes "generate_password (Some p) w = Some (Inr s, w')"
  shows "list_all is_scalar s \<and> int (length s) = pol_length p \<and> length s \<le> 256"
proof -
  from generated_meets_policy [OF assms] have m: "int (length s) = pol_length p"
    "\<forall>c. c \<in> set s \<longrightarrow> (\<exists>q \<in> set (selected_pools p). c \<in> set q)" unfolding meets_policy_pools by blast+
  from assms have "pol_length p \<le> 256" by (cases rule: generate_password_parts) (simp add: validate_policy_iff)
  moreover have "list_all is_scalar s" using m(2) selected_cases pool_ascii by (fastforce simp: list_all_iff)
  ultimately show ?thesis using m(1) by simp
qed

section \<open>Every such password can come out\<close>

text \<open>A program that returns \<open>x\<close> when the random source goes on with \<open>B\<close>, which it reads to the end.\<close>

definition yields :: "('z machine_scheme, 'a) prog \<Rightarrow> bytes \<Rightarrow> 'a \<Rightarrow> bool" where
  "yields m B x \<longleftrightarrow>
     (\<forall>w. tape_read (tape w) (tpos w) (length B) = B \<longrightarrow> m w = Some (Inr x, w\<lparr>tpos := tpos w + length B\<rparr>))"

lemma yields_ret: "yields (ret x) [] x"
  by (simp add: yields_def)

lemma yields_some: "\<exists>B. yields (ret x) B x"
  by (rule exI) (rule yields_ret)

lemma tape_read_append: "tape_read t i (m + n) = tape_read t i m @ tape_read t (i + m) n"
  by (simp add: tape_read_def upt_add_eq_append [of i "i + m" n] add.assoc [symmetric])

lemma yields_bind:
  fixes m :: "('z machine_scheme, 'a) prog"
  assumes "yields m B x" and "yields (f x) C y"
  shows "yields (pbind m f) (B @ C) y"
  unfolding yields_def
proof (intro allI impI)
  fix w :: "'z machine_scheme" assume "tape_read (tape w) (tpos w) (length (B @ C)) = B @ C"
  then have "tape_read (tape w) (tpos w) (length B) = B" "tape_read (tape w) (tpos w + length B) (length C) = C"
    by (simp_all add: tape_read_append)
  with assms show "pbind m f w = Some (Inr y, w\<lparr>tpos := tpos w + length (B @ C)\<rparr>)"
    by (simp add: yields_def pbind_def add.assoc)
qed

lemma yields_randbelow:
  assumes "v < n"
  shows "\<exists>B. yields (randbelow n :: ('z machine_scheme, nat) prog) B v"
proof -
  let ?k = "bit_length n"
  from assms bit_length_bound [of n] have "v < 2 ^ ?k" by simp
  from card_block_value [OF this] have "card {b. length b = num_bytes ?k \<and> block_value ?k b = v} \<noteq> 0" by simp
  then have "{b. length b = num_bytes ?k \<and> block_value ?k b = v} \<noteq> {}" by force
  then obtain B where B: "length B = num_bytes ?k" "block_value ?k B = v" by blast
  have "randbelow n w = Some (Inr v, w\<lparr>tpos := tpos w + length B\<rparr>)"
    if "tape_read (tape w) (tpos w) (length B) = B" for w :: "'z machine_scheme"
  proof -
    from that have "block_at (tape w) n (tpos w) 0 = v" by (simp add: block_at_def B)
    with assms show ?thesis by (subst randbelow_step) (simp add: B(1))
  qed
  then show ?thesis unfolding yields_def by blast
qed

lemma yields_choice:
  assumes "x \<in> set xs"
  shows "\<exists>B. yields (secrets_choice xs :: ('z machine_scheme, 'a) prog) B x"
proof -
  from assms obtain i where i: "i < length xs" "xs ! i = x" by (auto simp: in_set_conv_nth)
  from yields_randbelow [OF i(1)] obtain B where "yields (randbelow (length xs) :: ('z machine_scheme, nat) prog) B i" by blast
  from yields_bind [where f = "\<lambda>i. ret (xs ! i)", OF this yields_ret]
  have "yields (secrets_choice xs :: ('z machine_scheme, 'a) prog) (B @ []) (xs ! i)"
    using i(1) by (cases xs) (simp_all add: secrets_choice_def)
  then show ?thesis unfolding i(2) by blast
qed

lemma yields_choose_each:
  "list_all2 (\<lambda>c p. c \<in> set p) cs ps \<Longrightarrow> \<exists>B. yields (choose_each ps :: ('z machine_scheme, 'a list) prog) B cs"
proof (induction rule: list_all2_induct)
  case Nil
  show ?case unfolding choose_each.simps by (rule yields_some)
next
  case (Cons c cs p ps)
  from yields_choice [OF Cons(1)] Cons.IH obtain B C where
    B: "yields (secrets_choice p :: ('z machine_scheme, 'a) prog) B c"
    and C: "yields (choose_each ps :: ('z machine_scheme, 'a list) prog) C cs" by blast
  have "yields (pbind (choose_each ps) (\<lambda>cs. ret (c # cs)) :: ('z machine_scheme, 'a list) prog) (C @ []) (c # cs)"
    by (rule yields_bind [OF C yields_ret])
  then have "yields (choose_each (p # ps) :: ('z machine_scheme, 'a list) prog) (B @ C @ []) (c # cs)"
    unfolding choose_each.simps by (rule yields_bind [OF B])
  then show ?case by blast
qed

text \<open>The shuffle can produce every order of the list.\<close>

lemma yields_shuffle_down:
  assumes "i < length xs" and "mset ys = mset xs" and "drop (Suc i) ys = drop (Suc i) xs"
  shows "\<exists>B. yields (shuffle_down i xs :: ('z machine_scheme, 'a list) prog) B ys"
  using assms
proof (induction i arbitrary: xs)
  case 0
  from 0(2) have "length ys = length xs" by (rule mset_eq_length)
  with 0 obtain x y t where xy: "xs = x # t" "ys = y # t" by (cases xs; cases ys) auto
  with 0(2) have "ys = xs" by simp
  then show ?case unfolding shuffle_down.simps by (simp only: yields_some)
next
  case (Suc i)
  have len: "length ys = length xs" using Suc.prems(2) by (rule mset_eq_length)
  have "mset (take (Suc (Suc i)) ys) + mset (drop (Suc (Suc i)) ys) = mset (take (Suc (Suc i)) xs) + mset (drop (Suc (Suc i)) xs)"
    using Suc.prems(2) by (simp only: mset_append [symmetric] append_take_drop_id)
  then have "mset (take (Suc (Suc i)) ys) = mset (take (Suc (Suc i)) xs)" using Suc.prems(3) by simp
  from mset_eq_setD [OF this] have "set (take (Suc (Suc i)) ys) = set (take (Suc (Suc i)) xs)" .
  moreover have "ys ! Suc i \<in> set (take (Suc (Suc i)) ys)"
    using Suc.prems(1) len by (auto simp: in_set_conv_nth intro!: exI [of _ "Suc i"])
  ultimately have "ys ! Suc i \<in> set (take (Suc (Suc i)) xs)" by simp
  then obtain j where j: "j < Suc i + 1" "j < length xs" "xs ! j = ys ! Suc i" by (auto simp: in_set_conv_nth)
  let ?xs = "exchange (Suc i) j xs"
  have "drop (Suc i) ys = drop (Suc i) ?xs"
  proof (rule nth_equalityI)
    fix k assume "k < length (drop (Suc i) ys)"
    then have k: "Suc i + k < length xs" using len by simp
    show "drop (Suc i) ys ! k = drop (Suc i) ?xs ! k"
    proof (cases k)
      case 0
      with k j show ?thesis using len by (auto simp: exchange_def nth_list_update)
    next
      case (Suc l)
      have "drop (Suc (Suc i)) ys ! l = drop (Suc (Suc i)) xs ! l" using Suc.prems(3) by simp
      with k Suc j len show ?thesis by (simp add: exchange_def nth_list_update)
    qed
  qed (simp add: len)
  with Suc.IH [of ?xs] Suc.prems(1,2) j mset_exchange [of "Suc i" xs j] obtain C where
    C: "yields (shuffle_down i ?xs :: ('z machine_scheme, 'a list) prog) C ys" by auto
  from yields_randbelow [OF j(1)] obtain B where
    "yields (randbelow (Suc i + 1) :: ('z machine_scheme, nat) prog) B j" by blast
  from yields_bind [OF this, where f = "\<lambda>j. shuffle_down i (exchange (Suc i) j xs)", OF C]
  show ?case unfolding shuffle_down.simps by blast
qed

lemma yields_shuffle:
  assumes "mset ys = mset xs"
  shows "\<exists>B. yields (shuffle_list xs :: ('z machine_scheme, 'a list) prog) B ys"
proof (cases "xs = []")
  case True
  with assms show ?thesis by (simp add: shuffle_list_def yields_some)
next
  case False
  with mset_eq_length [OF assms] show ?thesis unfolding shuffle_list_def
    by (intro yields_shuffle_down) (simp_all add: assms)
qed

text \<open>One character for each pool, all at different places of the password.\<close>

lemma pick_each:
  assumes "sorted_wrt (\<lambda>q r. set q \<inter> set r = {}) ps" and "\<forall>q \<in> set ps. \<exists>c \<in> set s. c \<in> set q"
  shows "\<exists>cs. list_all2 (\<lambda>c q. c \<in> set q) cs ps \<and> distinct cs \<and> set cs \<subseteq> set s \<inter> set (concat ps)"
  using assms
proof (induction ps)
  case (Cons q ps)
  then obtain cs c where cs: "list_all2 (\<lambda>c q. c \<in> set q) cs ps" "distinct cs" "set cs \<subseteq> set s \<inter> set (concat ps)"
    and c: "c \<in> set s" "c \<in> set q" by auto
  have "c \<notin> set cs" using cs(3) c(2) Cons.prems(1) by auto
  with cs c show ?case by (intro exI [of _ "c # cs"]) auto
qed simp

lemma distinct_submset: "distinct cs \<Longrightarrow> set cs \<subseteq> set s \<Longrightarrow> mset cs \<subseteq># mset s"
  by (rule mset_subset_eqI) (auto simp: distinct_count_atmost_1 Suc_le_eq count_greater_zero_iff subset_iff)

lemma pools_disjoint: "pools p = Inr ps \<Longrightarrow> sorted_wrt (\<lambda>q r. set q \<inter> set r = {}) ps"
proof -
  have d: "set UPPER \<inter> set LOWER = {}" "set UPPER \<inter> set DIGITS = {}" "set LOWER \<inter> set DIGITS = {}"
    "set UPPER \<inter> set SYMBOLS = {}" "set LOWER \<inter> set SYMBOLS = {}" "set DIGITS \<inter> set SYMBOLS = {}"
    using symbol_kinds by (auto simp: pool_kinds) (auto simp: kind_defs)
  then have "sorted_wrt (\<lambda>q r. set q \<inter> set r = {}) (selected_pools p)" by (simp add: selected_pools_def)
  then have "sorted_wrt (\<lambda>q r. set q \<inter> set r = {}) (strip_ambiguous (selected_pools p))"
    unfolding strip_ambiguous_def by (intro sorted_wrt_filter) (auto simp: sorted_wrt_map elim!: sorted_wrt_mono_rel [rotated])
  then show "pools p = Inr ps \<Longrightarrow> ?thesis" using pools_Inr(1) \<open>sorted_wrt _ (selected_pools p)\<close> by metis
qed

lemma pools_allowed:
  assumes "pools p = Inr ps"
  shows "c \<in> set (concat ps) \<longleftrightarrow> allowed p c"
  using pools_Inr(1) [OF assms]
  by (cases "exclude_ambiguous p") (auto simp: allowed_pools strip_ambiguous_def filter_empty_conv)

text \<open>C29: The passwords that \<open>generate_password\<close> can return, over all random sources, are exactly the strings
  that meet a policy it accepts: no such password is out of reach (no category has a fixed place, no
  character is left out), and nothing else comes out.\<close>

theorem generated_iff_meets_policy:
  fixes w :: "'z machine_scheme"
  shows "(\<exists>t w'. generate_password (Some p) (w\<lparr>tape := t\<rparr>) = Some (Inr pw, w')) \<longleftrightarrow>
    8 \<le> pol_length p \<and> pol_length p \<le> 256 \<and> meets_policy p pw" (is "?can \<longleftrightarrow> ?good")
proof
  assume ?can
  then obtain t w' where g: "generate_password (Some p) (w\<lparr>tape := t\<rparr>) = Some (Inr pw, w')" by blast
  then have "validate_policy p = Inr ()" by (rule generate_password_parts)
  with generated_meets_policy [OF g] show ?good by (simp add: validate_policy_iff)
next
  assume g: ?good
  then have n: "int (length pw) = pol_length p" and al: "list_all (allowed p) pw" by (simp_all add: meets_policy_def)
  from g n have "pw \<noteq> []" by auto
  with al have "any_category p" by (cases pw) (auto simp: allowed_def any_category_def)
  with g have v: "validate_policy p = Inr ()" by (simp add: validate_policy_iff)
  from pools_any_category(1) [OF \<open>any_category p\<close>] obtain ps where ps: "pools p = Inr ps" by blast
  have "\<exists>c \<in> set pw. c \<in> set q" if q: "q \<in> set ps" for q
  proof -
    have "\<exists>r \<in> set (selected_pools p). set q = {c \<in> set r. \<not> (exclude_ambiguous p \<and> c \<in> AMBIGUOUS)}"
      using pools_Inr(1) [OF ps] q by (cases "exclude_ambiguous p") (auto simp: strip_ambiguous_def)
    with g show ?thesis unfolding meets_policy_pools by blast
  qed
  then obtain cs where cs: "list_all2 (\<lambda>c q. c \<in> set q) cs ps" "distinct cs" "set cs \<subseteq> set pw"
    using pick_each [OF pools_disjoint [OF ps], of pw] by auto
  obtain fill where fill: "mset pw = mset (cs @ fill)"
    using distinct_submset [OF cs(2,3)] ex_mset [of "mset pw - mset cs"] by (metis mset_append subset_mset.add_diff_inverse)
  have "set fill \<subseteq> set (concat ps)" using mset_eq_setD [OF fill] al pools_allowed [OF ps] unfolding list_all_iff by auto
  then have "list_all2 (\<lambda>c q. c \<in> set q) fill (replicate (length fill) (concat ps))"
    by (auto simp: list_all2_conv_all_nth simp del: set_concat dest: nth_mem)
  moreover have "nat (pol_length p - int (length cs)) = length fill" using mset_eq_length [OF fill] n by simp
  moreover obtain A where A: "yields (choose_each ps :: ('z machine_scheme, nat list) prog) A cs" using yields_choose_each [OF cs(1)] by blast
  ultimately obtain B where
    B: "yields (choose_each (replicate (nat (pol_length p - int (length cs))) (concat ps)) :: ('z machine_scheme, nat list) prog) B fill"
    using yields_choose_each by metis
  obtain C where C: "yields (shuffle_list (cs @ fill) :: ('z machine_scheme, nat list) prog) C pw" using yields_shuffle [OF fill] by blast
  have "yields (pbind (choose_each (replicate (nat (pol_length p - int (length cs))) (concat ps))) (\<lambda>fill. shuffle_list (cs @ fill))
      :: ('z machine_scheme, nat list) prog) (B @ C) pw" by (rule yields_bind [OF B]) (rule C)
  from yields_bind [where f = "\<lambda>cs. pbind (choose_each (replicate (nat (pol_length p - int (length cs))) (concat ps)))
      (\<lambda>fill. shuffle_list (cs @ fill))", OF A this]
  have y: "yields (generate_password (Some p) :: ('z machine_scheme, nat list) prog) (A @ B @ C) pw"
    using v ps by (simp add: generate_password_def pbind_def [of "lift r" for r] yields_def)
  define t where "t = (\<lambda>i. (A @ B @ C) ! (i - tpos w))"
  have "tape_read t (tpos w) (length (A @ B @ C)) = A @ B @ C"
    by (rule nth_equalityI) (simp_all add: tape_read_def t_def)
  with y have "generate_password (Some p) (w\<lparr>tape := t\<rparr>) = Some (Inr pw, w\<lparr>tape := t, tpos := tpos w + length (A @ B @ C)\<rparr>)"
    by (simp add: yields_def)
  then show ?can by blast
qed

end
