(* ===== verification/CommandSpec.thy ===== *)
theory CommandSpec
  imports CliRuns PasswordResults PowerLoss
begin

text \<open>
  The contract of the commands: each of them, whatever fails while it runs, leaves the file as it was
  or takes the vault one step of the abstract vault further, and when a changing command ends normally
  it has taken that step.
\<close>

section \<open>What a command may do\<close>

inductive command_does :: "command \<Rightarrow> bytes \<times> entry list \<Rightarrow> bytes \<times> entry list \<Rightarrow> bool" where
  does_add: "vault_spec st (AddEntry s u p n) st' \<Longrightarrow> command_does (Add path s u n g k) st st'"
| does_update: "vault_spec st (UpdateEntry i s u p n) st' \<Longrightarrow> (p = None) = (g = None) \<Longrightarrow>
    command_does (Update path i s u n g k) st st'"
| does_delete: "vault_spec st (DeleteEntry i) st' \<Longrightarrow> command_does (Delete path i yes) st st'"
| does_passwd: "vault_spec st (ChangeMaster pw None) st' \<Longrightarrow> command_does (Passwd path) st st'"

inductive_cases command_does_listE: "command_does (ListAll path) st st'"
inductive_cases command_does_getE: "command_does (Get path i sh) st st'"
inductive_cases command_does_addE: "command_does (Add path s u n g k) st st'"

text \<open>The commands that change the vault unless they raise.\<close>

fun must_do :: "command \<Rightarrow> bool" where
  "must_do (Add path s u n g k) \<longleftrightarrow> True"
| "must_do (Update path i s u n g k) \<longleftrightarrow> True"
| "must_do (Delete path i yes) \<longleftrightarrow> yes"
| "must_do (Passwd path) \<longleftrightarrow> True"
| "must_do cmd \<longleftrightarrow> False"

definition outcome_ok :: "command \<Rightarrow> bytes \<times> entry list \<Rightarrow> bytes \<times> entry list \<Rightarrow> bool \<Rightarrow> bool" where
  "outcome_ok cmd st st' returned \<longleftrightarrow>
     command_does cmd st st' \<or> st' = st \<and> \<not> (returned \<and> must_do cmd)"

lemma outcome_raised: "outcome_ok cmd st st' b \<Longrightarrow> outcome_ok cmd st st' False"
  by (auto simp: outcome_ok_def)

lemma outcome_same [simp]: "outcome_ok cmd st st False"
  by (simp add: outcome_ok_def)

text \<open>The files the steps of a command may write.\<close>

definition command_file :: "crypto \<Rightarrow> command \<Rightarrow> bytes \<times> entry list \<Rightarrow> bytes \<Rightarrow> bool" where
  "command_file c cmd st data \<longleftrightarrow> (\<exists>st'. command_does cmd st st' \<and> file_holds c (fst st') (snd st') data)"

section \<open>The inputs\<close>

fun command_plain :: "command \<Rightarrow> bool" where
  "command_plain (Add path s u n g k) \<longleftrightarrow> plain_str s \<and> plain_str u \<and> plain_str n"
| "command_plain (Update path i s u n g k) \<longleftrightarrow> plain_opt s \<and> plain_opt u \<and> plain_opt n"
| "command_plain cmd \<longleftrightarrow> True"

text \<open>How much a command can add to the body, if no typed or generated password is longer than \<open>m\<close>.\<close>

fun command_growth :: "nat \<Rightarrow> command \<Rightarrow> nat" where
  "command_growth m (Add path s u n g k) = 12 * (length s + length u + m + length n) + 790"
| "command_growth m (Update path i s u n g k) = 12 * (opt_length s + opt_length u + m + opt_length n) + 300"
| "command_growth m cmd = 0"

definition keys_short :: "nat \<Rightarrow> 'z console_scheme \<Rightarrow> bool" where
  "keys_short m w \<longleftrightarrow> 256 \<le> m \<and> (\<forall>s. Inr s \<in> set (keyboard w) \<longrightarrow> length s \<le> m)"

text \<open>The counter of the file can be raised once more.\<close>

definition counter_free :: "pystr \<Rightarrow> 'z os_scheme \<Rightarrow> bool" where
  "counter_free path w \<longleftrightarrow>
     (\<forall>data f. file_content path w = Some data \<and> parse data = Inr f \<longrightarrow> pv_counter f + 1 < 2 ^ 64)"

text \<open>What is typed first is the master password, or it does not unwrap the key of the file.\<close>

definition key_fits :: "crypto \<Rightarrow> bytes \<Rightarrow> pystr \<Rightarrow> 'z console_scheme \<Rightarrow> bool" where
  "key_fits c pw path w \<longleftrightarrow>
     (\<forall>s ks pw' data f d. keyboard w = Inr s # ks \<and> utf8_encode s = Inr pw' \<and> pw' \<noteq> pw \<and>
        file_content path w = Some data \<and> parse data = Inr f \<longrightarrow>
        \<not> unwraps c pw' (pv_params f) (pv_salt f) (pv_kdf_header f) (pv_dek_nonce f) (pv_dek_blob f) d)"

section \<open>Steps that leave an open repository alone\<close>

definition idle_on :: "pystr \<Rightarrow> 'z session_scheme \<Rightarrow> 'z session_scheme \<Rightarrow> bool" where
  "idle_on path w w' \<longleftrightarrow>
     (\<forall>c pw. live c pw w \<and> r_path w = path \<longrightarrow>
        live c pw w' \<and> r_path w' = path \<and> r_entries w' = r_entries w \<and> file_content path w' = file_content path w \<and>
        uv_counter (r_unlocked w') = uv_counter (r_unlocked w) \<and> tape w' = tape w) \<and>
     diskless w w'"

interpretation idle: stepwise "idle_on path" for path
proof
  fix w w1 w2 :: "'a session_scheme" assume i: "idle_on path w w1" "idle_on path w1 w2"
  then have d: "diskless w w2" using diskless_trans unfolding idle_on_def by blast
  have "live c pw w2 \<and> r_path w2 = path \<and> r_entries w2 = r_entries w \<and> file_content path w2 = file_content path w \<and>
      uv_counter (r_unlocked w2) = uv_counter (r_unlocked w) \<and> tape w2 = tape w" if "live c pw w \<and> r_path w = path" for c pw
  proof -
    from i(1) that have "live c pw w1 \<and> r_path w1 = path \<and> r_entries w1 = r_entries w \<and>
        file_content path w1 = file_content path w \<and> uv_counter (r_unlocked w1) = uv_counter (r_unlocked w) \<and> tape w1 = tape w"
      unfolding idle_on_def by blast
    moreover from this i(2) have "live c pw w2 \<and> r_path w2 = path \<and> r_entries w2 = r_entries w1 \<and>
        file_content path w2 = file_content path w1 \<and> uv_counter (r_unlocked w2) = uv_counter (r_unlocked w1) \<and> tape w2 = tape w1"
      unfolding idle_on_def by blast
    ultimately show ?thesis by simp
  qed
  with d show "idle_on path w w2" unfolding idle_on_def by blast
qed (simp add: idle_on_def diskless_refl)

lemma trace_truncate: "disk_trace (session.truncate w) = disk_trace w"
  by (simp add: session.defs)

lemma content_same: "same_session w w' \<Longrightarrow> file_content path w' = file_content path w"
  unfolding same_session_def by (metis content_truncate)

lemma same_diskless:
  assumes "same_session w w'"
  shows "diskless w w'"
proof -
  from assms have e: "session.truncate w' = session.truncate w" by (simp add: same_session_def)
  have "disk w' = disk w" "cwd w' = cwd w" "disk_trace w' = disk_trace w"
    using truncate_fields(2,11) [of w'] truncate_fields(2,11) [of w] trace_truncate [of w'] trace_truncate [of w]
    unfolding e by simp_all
  then show ?thesis by (simp add: diskless_def)
qed

lemma idle_same: "follows same_session m \<Longrightarrow> follows (idle_on path) m"
  by (erule follows_mono) (simp add: idle_on_def same_session_facts content_same same_diskless)

lemma idle_reads: "follows reads_on m \<Longrightarrow> follows (idle_on path) m"
proof (erule follows_mono)
  fix w w' :: "'z session_scheme" assume "reads_on w w'"
  then obtain q where "w' = w\<lparr>tpos := q\<rparr>" by (auto simp: reads_on_def)
  moreover have "live c pw (w\<lparr>tpos := q\<rparr>) = live c pw w" for c pw q
    using unlocked_ok_cong [of "w\<lparr>tpos := q\<rparr>" w] by (simp add: live_def)
  moreover have "diskless w (w\<lparr>tpos := q\<rparr>)" for q by (simp add: diskless_def)
  ultimately show "idle_on path w w'" by (simp add: idle_on_def)
qed

lemma idle_prompt: "externals_tame x \<Longrightarrow> follows (idle_on path) (prompt_entry_password x g policy)"
  unfolding prompt_entry_password_def generate_or_fail_def
  by (intro follows_if idle.catch idle.bind idle.pure idle_same [OF terminal_same(1)] idle_same [OF fail_same]
      idle_reads [OF generate_password_reads])

lemma idle_found: "externals_tame x \<Longrightarrow> follows (idle_on path) (or_fail x is_not_found (repo_get i))"
  unfolding or_fail_def repo_get_def
  by (intro idle.catch idle.bind idle.pure follows_if idle_same [OF fail_same]) (simp add: idle.pure split: option.split)

text \<open>The password that is stored is plain and no longer than what was typed or can be generated.\<close>

lemma prompt_value:
  assumes "prompt_entry_password x g policy w = Some (Inr p, w')" and "keys_short m w"
  shows "plain_str p \<and> length p \<le> m"
proof (cases g)
  case True
  with assms(1) have "generate_password (Some policy) w = Some (Inr p, w')"
    by (auto simp: prompt_entry_password_def generate_or_fail_def handle_def fail_no_value split: option.splits sum.splits if_splits)
  from generated_password [OF this] assms(2) show ?thesis by (simp add: keys_short_def plain_str_scalar)
next
  case False
  with assms(1) obtain rs b where "keyboard w = Inr p # rs" "utf8_encode p = Inr b"
    by (auto simp: prompt_entry_password_def getpass_def passwords_match_def result_simps fail_no_value
        split: list.splits if_splits)
  then show ?thesis using assms(2) by (simp add: keys_short_def utf8_encode_Inr_iff plain_str_scalar)
qed

end
