(* ===== verification/CommandRefinement.thy ===== *)
theory CommandRefinement
  imports CommandSpec
begin

text \<open>
  Each command meets its contract: opening leaves the file alone however it ends, the body does one
  operation on an open repository, closing leaves the disk alone, and what is printed afterwards
  touches nothing.
\<close>

section \<open>Opening\<close>

lemma path_exists_frame:
  "path_exists p w = Some (r, w') \<Longrightarrow>
     w' = w\<lparr>calls := calls w', disk_trace := disk_trace w'\<rparr> \<and> calls w \<le> calls w'"
  unfolding path_exists_def handle_def syscall_def Let_def
  by (auto split: option.splits if_splits)

lemma calls_frame:
  assumes "w' = w\<lparr>calls := n, disk_trace := d\<rparr>"
  shows "outside path w' = outside path w" "file_content path w' = file_content path w"
    "locked w' q = locked w q"
  using assms by (simp_all add: outside_def home_defs wf_os_def resolve_def file_content_def locked_def)

lemma keys_frame:
  fixes w :: "'z console_scheme"
  shows "outside path (w\<lparr>keyboard := ks\<rparr>) = outside path w" "file_content path (w\<lparr>keyboard := ks\<rparr>) = file_content path w"
  by (simp_all add: outside_def home_defs wf_os_def resolve_def file_content_def)

text \<open>A file whose key the password does not unwrap is never opened.\<close>

lemma open_unwraps:
  assumes o: "outside path w" and r: "repo_open c rp path pw w = Some (Inr u, w')"
  shows "\<exists>data f d. file_content path w = Some data \<and> parse data = Inr f \<and>
    unwraps c pw (pv_params f) (pv_salt f) (pv_kdf_header f) (pv_dek_nonce f) (pv_dek_blob f) d"
proof -
  let ?w = "with_lock_path path w"
  have at: "lock_at path ?w" using o by simp
  from r have "guarded lock_acquire lock_release (open_body c rp path pw) ?w = Some (Inr u, w')" by (simp add: repo_open_def)
  then obtain w1 where a: "lock_acquire ?w = Some (Inr (), w1)" and b: "open_body c rp path pw w1 = Some (Inr u, w')"
    by (rule guarded_normal)
  note ac = acquire_keeps_content [OF at a]
  from ac(1) have sr: "store_ready path w1" by (simp add: inside_def outside_def)
  from b obtain data w2 v w3 where rd: "storage_read path w1 = Some (Inr data, w2)"
    and op: "vault_open c pw data w2 = Some (Inr v, w3)"
    unfolding open_body_def by (auto simp: result_simps)
  from storage_read_content [OF sr rd] ac(2) have fc: "file_content path w = Some data" by simp
  from op show ?thesis using fc
    by (auto simp: vault_open_def unwraps_def result_simps dest!: aead_decrypt_Inr)
qed

lemma open_repository_parts:
  fixes w :: "'z console_scheme"
  assumes t: "externals_tame x" and o: "outside path w" and r: "open_repository x path w = Some (r, w')"
  obtains (raised) e where "r = Inl e" and "file_content path w' = file_content path w"
  | (opened) s ks pw w0 where "r = Inr ()" and "keyboard w = Inr s # ks" and "utf8_encode s = Inr pw"
      and "repo_open (x_crypto x) (x_repr x) path pw w0 = Some (Inr (), w')" and "outside path w0"
      and "file_content path w0 = file_content path w" and "env (w\<lparr>keyboard := ks\<rparr>) w0"
proof -
  let ?ask = "\<lambda>password. handle (pbind (lift (utf8_encode password)) (\<lambda>b. repo_open (x_crypto x) (x_repr x) path b)) (open_failed x)"
  from r obtain q0 w1 where ex: "path_exists path w = Some (q0, w1)" by (auto simp: open_repository_def pbind_def split: option.splits)
  from path_exists_frame [OF ex] have w1: "w1 = w\<lparr>calls := calls w1, disk_trace := disk_trace w1\<rparr>" "calls w \<le> calls w1" by auto
  note f1 = calls_frame [OF w1(1)]
  have k1: "keyboard w1 = keyboard w" by (subst w1(1)) simp
  have e1: "env w w1" by (subst w1(1)) (simp add: env_def w1(2))
  have failed: "thesis" if "m w2 = Some (r, w')" "follows same_session m" "file_content path w2 = file_content path w"
      "\<And>y v. m w2 \<noteq> Some (Inr y, v)" for m w2
    using that content_same [OF followsD [OF that(2,1)], of path] by (cases r) (auto intro: raised)
  show thesis
  proof (cases "q0 = Inr True")
    case False
    show ?thesis
    proof (cases q0)
      case (Inl e)
      with ex r f1(2) show ?thesis by (intro raised [of e]) (auto simp: open_repository_def pbind_def)
    next
      case (Inr b)
      with False ex r have "fail x (path @ lit '' does not exist -- run '' @ [39] @ lit ''securevault init '' @ path @ [39] @ lit '' first'') w1
          = Some (r, w')" by (simp add: open_repository_def pbind_def)
      from failed [OF this fail_same [OF t] f1(2) fail_no_value] show ?thesis .
    qed
  next
    case True
    with ex r have g: "pbind (getpass (lit ''Master password: '')) ?ask w1 = Some (r, w')"
      by (simp add: open_repository_def pbind_def [of "path_exists path"])
    show ?thesis
    proof (cases "keyboard w1")
      case Nil
      with g f1(2) show ?thesis by (intro raised [of EOFError]) (auto simp: pbind_def getpass_def)
    next
      case (Cons key ks)
      show ?thesis
      proof (cases key)
        case (Inl e)
        with Cons g f1(2) show ?thesis by (intro raised [of e]) (auto simp: pbind_def getpass_def keys_frame)
      next
        case (Inr s)
        define w0 where "w0 = w1\<lparr>keyboard := ks\<rparr>"
        have c0: "file_content path w0 = file_content path w" and o0: "outside path w0"
          using f1 o by (simp_all add: w0_def keys_frame)
        have h: "?ask s w0 = Some (r, w')" using g Cons Inr by (simp add: pbind_def [of "getpass p" for p] getpass_def w0_def)
        show ?thesis
        proof (cases "utf8_encode s")
          case (Inl e)
          with h have "open_failed x e w0 = Some (r, w')" by (simp add: handle_def)
          from failed [OF this open_failed_same [OF t] c0] open_failed_raises show ?thesis by fastforce
        next
          case (Inr pw)
          with h obtain q w2 where q: "repo_open (x_crypto x) (x_repr x) path pw w0 = Some (q, w2)"
            by (auto simp: handle_def split: option.splits)
          show ?thesis
          proof (cases q)
            case (Inr u)
            have "env (w\<lparr>keyboard := ks\<rparr>) w0" unfolding w0_def using e1 by (rule env_keyboard)
            with h q Inr \<open>utf8_encode s = Inr pw\<close> Cons \<open>key = Inr s\<close> k1 c0 o0 show ?thesis
              by (intro opened [of s ks pw w0]) (simp_all add: handle_def)
          next
            case (Inl e)
            with h q \<open>utf8_encode s = Inr pw\<close> have "open_failed x e w2 = Some (r, w')" by (simp add: handle_def)
            moreover have "file_content path w2 = file_content path w" using repo_open_content [OF o0 q] c0 by simp
            ultimately show ?thesis using failed [of "open_failed x e" w2] open_failed_same [OF t] open_failed_raises by fastforce
          qed
        qed
      qed
    qed
  qed
qed

text \<open>Opening adds nothing to what a power loss could leave.\<close>

definition safe_outside :: "pystr \<Rightarrow> (bytes \<Rightarrow> bool) \<Rightarrow> 'z session_scheme \<Rightarrow> 'z session_scheme \<Rightarrow> bool" where
  "safe_outside path good w w' \<longleftrightarrow> (outside path w \<longrightarrow> outside path w' \<and> endures path good w w')"

interpretation safely: stepwise "safe_outside path good" for path good
  by unfold_locales (auto simp: safe_outside_def endures_refl intro: endures_trans)

lemma safely_same: "follows same_session m \<Longrightarrow> follows (safe_outside path good) m"
  by (erule follows_mono) (simp add: safe_outside_def same_sessionD diskless_endures same_diskless)

lemma safely_exists: "follows (safe_outside path good) (path_exists p)"
  using exists_kept [of path p] still_calls(5) [of p] unfolding follows_def safe_outside_def lock_kept_def
  by (blast intro: diskless_endures)

lemma safely_open: "follows (safe_outside path good) (repo_open c rp path pw)"
  unfolding follows_def safe_outside_def using repo_open_result repo_open_endures by blast

lemma open_repository_endures:
  assumes t: "externals_tame x" and o: "outside path w" and r: "open_repository x path w = Some (r, w')"
  shows "endures path good w w'"
proof -
  have "follows (safe_outside path good) (open_repository x path)" unfolding open_repository_def
    by (intro safely.bind safely.catch safely.pure follows_if safely_exists safely_open safely_same [OF fail_same [OF t]]
        safely_same [OF terminal_same(1)] safely_same [OF open_failed_same [OF t]])
  from followsD [OF this r] o show ?thesis by (simp add: safe_outside_def)
qed

section \<open>Around the body\<close>

text \<open>The state a body starts from.\<close>

definition started :: "crypto \<Rightarrow> bytes \<Rightarrow> entry list \<Rightarrow> pystr \<Rightarrow> 'z session_scheme \<Rightarrow> bool" where
  "started c pw es path w \<longleftrightarrow>
     live c pw w \<and> r_entries w = es \<and> r_path w = path \<and> vault_holds c pw es path w \<and>
     source_varied (tape w) (length es) \<and> uv_counter (r_unlocked w) + 1 < 2 ^ 64"

text \<open>The state a body leaves that started in \<open>w0\<close>, and what a power loss on the way could have left.\<close>

definition left ::
  "crypto \<Rightarrow> command \<Rightarrow> bytes \<times> entry list \<Rightarrow> pystr \<Rightarrow> 'z session_scheme \<Rightarrow> bool \<Rightarrow> 'z session_scheme \<Rightarrow> bool" where
  "left c cmd st path w0 returned w \<longleftrightarrow>
     endures path (command_file c cmd st) w0 w \<and>
     (\<exists>pw. live c pw w) \<and> r_path w = path \<and>
     (\<exists>st'. vault_holds c (fst st') (snd st') path w \<and> entries_ok (snd st') \<and> outcome_ok cmd st st' returned)"

lemma with_repository_outcome:
  fixes w :: "'z console_scheme"
  assumes c: "crypto_ok (x_crypto x)" and t: "externals_tame x" and o: "outside path w"
    and v: "vault_holds (x_crypto x) pw es path w" and es: "entries_ok es"
    and k: "keys_short m w" "key_fits (x_crypto x) pw path w" and s: "source_varied (tape w) (length es)"
    and n: "counter_free path w"
    and body: "\<And>w1 q w2. started (x_crypto x) pw es path w1 \<Longrightarrow> keys_short m w1 \<Longrightarrow> body w1 = Some (q, w2) \<Longrightarrow>
      left (x_crypto x) cmd (pw, es) path w1 (\<exists>y. q = Inr y) w2"
    and r: "with_repository x path body w = Some (r, w')"
  shows "(\<exists>st'. vault_holds (x_crypto x) (fst st') (snd st') path w' \<and> entries_ok (snd st') \<and>
      outcome_ok cmd (pw, es) st' (\<exists>y. r = Inr y)) \<and>
    endures path (command_file (x_crypto x) cmd (pw, es)) w w'"
proof -
  let ?c = "x_crypto x" and ?G = "command_file (x_crypto x) cmd (pw, es)"
  from r obtain q w1 where q: "open_repository x path w = Some (q, w1)"
    by (auto simp: with_repository_def pbind_def split: option.splits)
  from open_repository_endures [OF t o q] have e0: "endures path ?G w w1" .
  from t o q show ?thesis
  proof (cases rule: open_repository_parts)
    case (raised e)
    with q r v have "vault_holds ?c pw es path w' \<and> r = Inl e \<and> w' = w1"
      by (simp add: with_repository_def pbind_def vault_holds_def)
    with es e0 show ?thesis by (intro conjI exI [of _ "(pw, es)"]) auto
  next
    case (opened key ks pw' w0)
    from open_unwraps [OF opened(5,4)] obtain data f d where f: "file_content path w = Some data" "parse data = Inr f"
      "unwraps ?c pw' (pv_params f) (pv_salt f) (pv_kdf_header f) (pv_dek_nonce f) (pv_dek_blob f) d"
      using opened(6) by auto
    with k(2) opened(2,3) have pw: "pw' = pw" unfolding key_fits_def by blast
    have v0: "vault_holds ?c pw es path w0" using v opened(6) by (simp add: vault_holds_def)
    from repo_open_live [OF c opened(5) es v0] opened(4) pw have l: "live ?c pw w1" "r_entries w1 = es" "r_path w1 = path"
      "file_content path w1 = file_content path w0" by auto
    from followsD [OF env_repo_lifecycle(1) opened(4)] have e: "env (w\<lparr>keyboard := ks\<rparr>) w1"
      using environment.trans [OF opened(7)] by blast
    from repo_open_facts(1) [OF opened(5,4)] opened(6) n have "uv_counter (r_unlocked w1) + 1 < 2 ^ 64"
      by (auto simp: counter_free_def)
    moreover have ks: "keys_short m w1" using k(1) opened(2) env_console(1) [OF e] by (simp add: keys_short_def)
    moreover have "tape w1 = tape w" using e by (simp add: env_def)
    ultimately have st: "started ?c pw es path w1" using l v0 s by (simp add: started_def vault_holds_def)
    from q opened(1) r have w: "with_finally body repo_close w1 = Some (r, w')" by (simp add: with_repository_def pbind_def)
    then obtain y w2 where b: "body w1 = Some (y, w2)" by (auto simp: with_finally_def split: option.splits)
    from body [OF st ks b] obtain pw2 st' where b2: "live ?c pw2 w2" "r_path w2 = path"
      and st': "vault_holds ?c (fst st') (snd st') path w2" "entries_ok (snd st')" "outcome_ok cmd (pw, es) st' (\<exists>z. y = Inr z)"
      and e1: "endures path ?G w1 w2" by (auto simp: left_def)
    from repo_close_ok [OF b2(1)] obtain p w3 where cl: "repo_close w2 = Some (p, w3)" "disk w3 = disk w2" "cwd w3 = cwd w2" by blast
    from w b cl(1) have w': "w' = w3" "(\<exists>z. r = Inr z) \<Longrightarrow> (\<exists>z. y = Inr z)" by (auto simp: with_finally_def split: sum.splits)
    have "outcome_ok cmd (pw, es) st' (\<exists>z. r = Inr z)" using st'(3) w'(2) by (auto simp: outcome_ok_def)
    with st' w'(1) cl(2,3) have "\<exists>st'. vault_holds ?c (fst st') (snd st') path w' \<and> entries_ok (snd st') \<and>
        outcome_ok cmd (pw, es) st' (\<exists>y. r = Inr y)"
      by (intro exI [of _ st']) (simp add: vault_holds_def file_content_def resolve_def)
    moreover from enduring.trans [OF enduring.trans [OF e0 e1] diskless_endures [OF followsD [OF still_repo_close cl(1)]]]
    have "endures path ?G w w'" by (simp add: w'(1))
    ultimately show ?thesis by simp
  qed
qed

section \<open>Bodies\<close>

lemma started_left: "started c pw es path w \<Longrightarrow> \<not> (b \<and> must_do cmd) \<Longrightarrow> left c cmd (pw, es) path w b w"
  by (auto simp: started_def left_def outcome_ok_def live_def endures_refl intro!: exI [of _ pw] exI [of _ es])

lemma left_start: "diskless w w1 \<Longrightarrow> left c cmd st path w1 b w2 \<Longrightarrow> left c cmd st path w b w2"
  by (auto simp: left_def intro: diskless_start)

lemma started_idle: "idle_on path w w' \<Longrightarrow> started c pw es path w \<Longrightarrow> started c pw es path w'"
  unfolding idle_on_def started_def vault_holds_def by (metis (no_types, lifting))

lemma left_idle:
  assumes "idle_on path w w1" and "started c pw es path w" and "\<not> (b \<and> must_do cmd)"
  shows "left c cmd (pw, es) path w b w1"
proof -
  have "diskless w w1" using assms(1) by (simp add: idle_on_def)
  from left_start [OF this started_left [OF started_idle [OF assms(1,2)] assms(3)]] show ?thesis .
qed

lemma left_same: "same_session w w' \<Longrightarrow> left c cmd st path w0 b w \<Longrightarrow> left c cmd st path w0 b w'"
  using enduring.trans [OF _ diskless_endures [OF same_diskless]] by (auto simp: left_def same_session_facts)

lemma left_raised: "left c cmd st path w0 b w \<Longrightarrow> left c cmd st path w0 False w"
  by (auto simp: left_def intro: outcome_raised)

lemma left_bind:
  assumes "follows (idle_on path) m" and "started c pw es path w" and "pbind m f w = Some (q, w2)"
    and "\<And>y w1. m w = Some (Inr y, w1) \<Longrightarrow> started c pw es path w1 \<Longrightarrow> f y w1 = Some (q, w2) \<Longrightarrow>
      left c cmd (pw, es) path w1 (\<exists>z. q = Inr z) w2"
  shows "left c cmd (pw, es) path w (\<exists>z. q = Inr z) w2"
proof -
  from assms(3) obtain r w1 where m: "m w = Some (r, w1)" by (auto simp: pbind_def split: option.splits)
  from started_idle [OF followsD [OF assms(1) m] assms(2)] have s: "started c pw es path w1" .
  have d: "diskless w w1" using followsD [OF assms(1) m] by (simp add: idle_on_def)
  show ?thesis
  proof (cases r)
    case (Inl e)
    with m assms(3) have "q = Inl e" "w2 = w1" by (simp_all add: pbind_def)
    with left_start [OF d started_left [OF s, of False]] show ?thesis by simp
  next
    case (Inr y)
    with m assms(3) have "f y w1 = Some (q, w2)" by (simp add: pbind_def)
    with left_start [OF d assms(4)] m Inr s show ?thesis by blast
  qed
qed

lemma left_or_fail:
  assumes "externals_tame x" and "or_fail x p m w = Some (q, w2)"
    and "\<And>r w1. m w = Some (r, w1) \<Longrightarrow> left c cmd st path w (\<exists>z. r = Inr z) w1"
  shows "left c cmd st path w (\<exists>z. q = Inr z) w2"
proof -
  from assms(2) obtain r w1 where m: "m w = Some (r, w1)" by (auto simp: or_fail_def handle_def split: option.splits)
  note l = assms(3) [OF m]
  show ?thesis
  proof (cases r)
    case (Inr y)
    with m assms(2) l show ?thesis by (simp add: or_fail_def handle_def)
  next
    case (Inl e)
    show ?thesis
    proof (cases "p e")
      case True
      with m Inl assms(2) have f: "fail x (exn_str x e) w1 = Some (q, w2)" by (simp add: or_fail_def handle_def)
      from left_same [OF followsD [OF fail_same [OF assms(1)] f] left_raised [OF l]] fail_raises [OF f]
      show ?thesis by auto
    next
      case False
      with m Inl assms(2) have "q = Inl e" "w2 = w1" by (simp_all add: or_fail_def handle_def)
      with left_raised [OF l] show ?thesis by simp
    qed
  qed
qed

text \<open>One operation on an open repository.\<close>

lemma left_op:
  assumes c: "crypto_ok c" and s: "started c pw es path w" and x: "op_plain x" "body_bound es + op_growth x \<le> MAX_PLAINTEXT"
    and r: "repo_do c rp x w = Some (q, w2)"
    and cmd: "\<And>st'. vault_spec (pw, es) x st' \<Longrightarrow> command_does cmd (pw, es) st'"
  shows "left c cmd (pw, es) path w (\<exists>z. q = Inr z) w2"
proof -
  from s have l: "live c pw w" "r_entries w = es" "r_path w = path" "vault_holds c pw es path w"
    "source_varied (tape w) (length es)" "uv_counter (r_unlocked w) + 1 < 2 ^ 64" by (simp_all add: started_def)
  from repo_do_done [OF c l(1) x(1) _ l(6), of "length es" rp] x(2) l r obtain st' where
    d: "op_done c (pw, es) x w q st' w2" by auto
  then have l2: "live c (fst st') w2" "r_entries w2 = snd st'" and rp: "r_path w2 = path" and sp: "vault_spec (pw, es) x st'"
    and sv: "saved c (fst st') (snd st') path w q w2"
    using l(3) by (simp_all add: op_done_def same_object_def)
  have "command_file c cmd (pw, es) b" if "file_holds c (fst st') (snd st') b" for b
    using cmd [OF sp] that unfolding command_file_def by blast
  with sv have e: "endures path (command_file c cmd (pw, es)) w w2" by (auto simp: saved_def intro: endures_mono)
  from sv have "vault_holds c (fst st') (snd st') path w2 \<or> (\<exists>e. q = Inl e) \<and> file_content path w2 = file_content path w"
    by (simp add: saved_def)
  then show ?thesis
  proof
    assume "vault_holds c (fst st') (snd st') path w2"
    with e l2 rp cmd [OF sp] show ?thesis unfolding left_def outcome_ok_def
      by (intro conjI exI [of _ "fst st'"] exI [of _ st']) (simp_all add: live_def)
  next
    assume f: "(\<exists>e. q = Inl e) \<and> file_content path w2 = file_content path w"
    then have "vault_holds c pw es path w2" using l(4) by (simp add: vault_holds_def)
    with e l2 rp f l(1,2) show ?thesis unfolding left_def outcome_ok_def
      by (intro conjI exI [of _ "fst st'"] exI [of _ "(pw, es)"]) (auto simp: live_def)
  qed
qed

lemma unit_result: "m w = Some (q, w2) \<Longrightarrow> pbind m (\<lambda>e. ret ()) w = Some (map_sum id (\<lambda>_. ()) q, w2)"
  by (rule pbind_unit)

lemma map_sum_Inr: "(\<exists>z. map_sum f g q = Inr z) = (\<exists>z. q = Inr z)"
  by (cases q) simp_all

section \<open>The commands\<close>

lemma master_password_idle: "externals_tame x \<Longrightarrow> follows (idle_on path) (read_master_password x confirm)"
  by (rule idle_same) (rule master_password_same)

lemma left_list: "started c pw es path w \<Longrightarrow> repo_list w = Some (q, w2) \<Longrightarrow>
    left c (ListAll path) (pw, es) path w (\<exists>z. q = Inr z) w2"
  by (simp add: repo_list_def gets_def) (erule started_left, auto)

lemma left_found:
  assumes "externals_tame x" and "started c pw es path w" and "or_fail x is_not_found (repo_get i) w = Some (q, w2)"
    and "\<not> must_do cmd"
  shows "left c cmd (pw, es) path w (\<exists>z. q = Inr z) w2"
  using left_idle [OF followsD [OF idle_found [OF assms(1)] assms(3)] assms(2)] assms(4) by blast

lemma left_add:
  assumes c: "crypto_ok (x_crypto x)" and t: "externals_tame x" and s: "started (x_crypto x) pw es path w" and k: "keys_short m w"
    and pl: "command_plain (Add path sv us nt g kw)" and room: "body_bound es + command_growth m (Add path sv us nt g kw) \<le> MAX_PLAINTEXT"
    and r: "pbind (prompt_entry_password x g policy) (\<lambda>password.
         or_fail x is_vault_error (repo_add (x_crypto x) (x_repr x) sv us password nt)) w = Some (q, w2)"
  shows "left (x_crypto x) (Add path sv us nt g kw) (pw, es) path w (\<exists>z. q = Inr z) w2"
proof (rule left_bind [OF idle_prompt [OF t] s r])
  fix p w1 assume p: "prompt_entry_password x g policy w = Some (Inr p, w1)" and s1: "started (x_crypto x) pw es path w1"
    and a: "or_fail x is_vault_error (repo_add (x_crypto x) (x_repr x) sv us p nt) w1 = Some (q, w2)"
  note pv = prompt_value [OF p k]
  show "left (x_crypto x) (Add path sv us nt g kw) (pw, es) path w1 (\<exists>z. q = Inr z) w2"
  proof (rule left_or_fail [OF t a])
    fix y v assume y: "repo_add (x_crypto x) (x_repr x) sv us p nt w1 = Some (y, v)"
    from unit_result [where m = "repo_add (x_crypto x) (x_repr x) sv us p nt", OF this]
    have d: "repo_do (x_crypto x) (x_repr x) (AddEntry sv us p nt) w1 = Some (map_sum id (\<lambda>_. ()) y, v)"
      by simp
    have "left (x_crypto x) (Add path sv us nt g kw) (pw, es) path w1 (\<exists>z. map_sum id (\<lambda>_. ()) y = Inr z) v"
      using pv pl room by (intro left_op [OF c s1 _ _ d] does_add) auto
    then show "left (x_crypto x) (Add path sv us nt g kw) (pw, es) path w1 (\<exists>z. y = Inr z) v" by (simp only: map_sum_Inr)
  qed
qed

lemma left_update:
  fixes w :: "'z console_scheme"
  assumes c: "crypto_ok (x_crypto x)" and t: "externals_tame x" and s: "started (x_crypto x) pw es path w" and k: "keys_short m w"
    and pl: "command_plain (Update path i sv us nt g kw)" and room: "body_bound es + command_growth m (Update path i sv us nt g kw) \<le> MAX_PLAINTEXT"
    and r: "pbind (or_fail x is_not_found (repo_get i)) (\<lambda>_.
         pbind (case g of None \<Rightarrow> ret None
                | Some b \<Rightarrow> pbind (prompt_entry_password x b policy) (\<lambda>p. ret (Some p))) (\<lambda>new_password.
         or_fail x is_vault_error (repo_update (x_crypto x) (x_repr x) i sv us new_password nt))) w = Some (q, w2)"
  shows "left (x_crypto x) (Update path i sv us nt g kw) (pw, es) path w (\<exists>z. q = Inr z) w2"
proof (rule left_bind [OF idle_found [OF t] s r])
  let ?ask = "case g of None \<Rightarrow> ret None | Some b \<Rightarrow> pbind (prompt_entry_password x b policy) (\<lambda>p. ret (Some p))"
  fix e w1 assume e: "or_fail x is_not_found (repo_get i) w = Some (Inr e, w1)" and s1: "started (x_crypto x) pw es path w1"
    and r1: "pbind ?ask (\<lambda>new_password. or_fail x is_vault_error (repo_update (x_crypto x) (x_repr x) i sv us new_password nt)) w1
      = Some (q, w2)"
  have w1: "w1 = w" using e
    by (auto simp: or_fail_def handle_def repo_get_eq fail_no_value split: option.splits sum.splits if_splits)
  have idle: "follows (idle_on path) ?ask" by (cases g) (simp_all add: idle.pure idle.bind idle_prompt t)
  show "left (x_crypto x) (Update path i sv us nt g kw) (pw, es) path w1 (\<exists>z. q = Inr z) w2"
  proof (rule left_bind [OF idle s1 r1])
    fix p w3 assume p: "?ask w1 = Some (Inr p, w3)" and s3: "started (x_crypto x) pw es path w3"
      and a: "or_fail x is_vault_error (repo_update (x_crypto x) (x_repr x) i sv us p nt) w3 = Some (q, w2)"
    have pv: "plain_opt p \<and> opt_length p \<le> m \<and> (p = None) = (g = None)"
    proof (cases g)
      case None
      with p show ?thesis by (simp add: plain_opt_def opt_length_def)
    next
      case (Some b)
      with p obtain s where "prompt_entry_password x b policy w = Some (Inr s, w3)" "p = Some s"
        by (auto simp: w1 result_simps)
      with prompt_value [OF this(1) k] Some show ?thesis by (simp add: plain_opt_def opt_length_def)
    qed
    show "left (x_crypto x) (Update path i sv us nt g kw) (pw, es) path w3 (\<exists>z. q = Inr z) w2"
    proof (rule left_or_fail [OF t a])
      fix y v assume y: "repo_update (x_crypto x) (x_repr x) i sv us p nt w3 = Some (y, v)"
      from unit_result [where m = "repo_update (x_crypto x) (x_repr x) i sv us p nt", OF this]
      have d: "repo_do (x_crypto x) (x_repr x) (UpdateEntry i sv us p nt) w3 = Some (map_sum id (\<lambda>_. ()) y, v)"
        by simp
      have "left (x_crypto x) (Update path i sv us nt g kw) (pw, es) path w3 (\<exists>z. map_sum id (\<lambda>_. ()) y = Inr z) v"
        using pv pl room by (intro left_op [OF c s3 _ _ d] does_update) auto
      then show "left (x_crypto x) (Update path i sv us nt g kw) (pw, es) path w3 (\<exists>z. y = Inr z) v" by (simp only: map_sum_Inr)
    qed
  qed
qed

lemma left_delete:
  assumes c: "crypto_ok (x_crypto x)" and t: "externals_tame x" and s: "started (x_crypto x) pw es path w"
    and room: "body_bound es \<le> MAX_PLAINTEXT"
    and r: "pbind (or_fail x is_not_found (repo_get i)) (\<lambda>e.
        pbind (if yes then ret True else x_confirm x (delete_question e)) (\<lambda>go.
        if \<not> go then pbind (x_echo x False (lit ''Aborted.'')) (\<lambda>_. ret False)
        else pbind (repo_delete (x_crypto x) (x_repr x) i) (\<lambda>_. ret True))) w = Some (q, w2)"
  shows "left (x_crypto x) (Delete path i yes) (pw, es) path w (\<exists>z. q = Inr z) w2"
proof (rule left_bind [OF idle_found [OF t] s r])
  fix e w1 assume s1: "started (x_crypto x) pw es path w1"
    and r1: "pbind (if yes then ret True else x_confirm x (delete_question e)) (\<lambda>go.
        if \<not> go then pbind (x_echo x False (lit ''Aborted.'')) (\<lambda>_. ret False)
        else pbind (repo_delete (x_crypto x) (x_repr x) i) (\<lambda>_. ret True)) w1 = Some (q, w2)"
  have idle: "follows (idle_on path) (if yes then ret True else x_confirm x (delete_question e))"
    by (intro follows_if idle.pure idle_same [OF externals_same(2)] t)
  show "left (x_crypto x) (Delete path i yes) (pw, es) path w1 (\<exists>z. q = Inr z) w2"
  proof (rule left_bind [OF idle s1 r1])
    fix go w3 assume g: "(if yes then ret True else x_confirm x (delete_question e)) w1 = Some (Inr go, w3)"
      and s3: "started (x_crypto x) pw es path w3"
      and r3: "(if \<not> go then pbind (x_echo x False (lit ''Aborted.'')) (\<lambda>_. ret False)
        else pbind (repo_delete (x_crypto x) (x_repr x) i) (\<lambda>_. ret True)) w3 = Some (q, w2)"
    show "left (x_crypto x) (Delete path i yes) (pw, es) path w3 (\<exists>z. q = Inr z) w2"
    proof (cases go)
      case False
      with g have "\<not> yes" by auto
      have "follows (idle_on path) (pbind (x_echo x False (lit ''Aborted.'')) (\<lambda>_. ret False))"
        by (intro idle.bind idle.pure idle_same [OF externals_same(1)] t)
      from left_idle [OF followsD [OF this] s3] r3 False \<open>\<not> yes\<close> show ?thesis by simp
    next
      case True
      with r3 obtain y v where d: "repo_delete (x_crypto x) (x_repr x) i w3 = Some (y, v)"
        by (auto simp: pbind_def split: option.splits)
      with r3 True have v: "v = w2" and y: "(\<exists>z. q = Inr z) = (\<exists>z. y = Inr z)"
        by (auto simp: pbind_def split: sum.splits)
      from d v have d: "repo_do (x_crypto x) (x_repr x) (DeleteEntry i) w3 = Some (y, w2)" by simp
      show ?thesis unfolding y using room by (intro left_op [OF c s3 _ _ d] does_delete) auto
    qed
  qed
qed

lemma left_passwd:
  assumes c: "crypto_ok (x_crypto x)" and t: "externals_tame x" and s: "started (x_crypto x) pw es path w"
    and room: "body_bound es \<le> MAX_PLAINTEXT"
    and r: "pbind (read_master_password x True) (\<lambda>new_password. repo_change_password (x_crypto x) new_password None) w = Some (q, w2)"
  shows "left (x_crypto x) (Passwd path) (pw, es) path w (\<exists>z. q = Inr z) w2"
proof (rule left_bind [OF master_password_idle [OF t] s r])
  fix new w1 assume s1: "started (x_crypto x) pw es path w1"
    and r1: "repo_change_password (x_crypto x) new None w1 = Some (q, w2)"
  then have d: "repo_do (x_crypto x) (x_repr x) (ChangeMaster new None) w1 = Some (q, w2)" by simp
  show "left (x_crypto x) (Passwd path) (pw, es) path w1 (\<exists>z. q = Inr z) w2"
    using room by (intro left_op [OF c s1 _ _ d] does_passwd) auto
qed

section \<open>After the vault is closed\<close>

lemma outcome_after:
  fixes w1 :: "'z console_scheme"
  assumes p: "pbind m f w = Some (r, w')"
    and m: "\<And>q w1. m w = Some (q, w1) \<Longrightarrow> (\<exists>st'. vault_holds c (fst st') (snd st') path w1 \<and> entries_ok (snd st') \<and>
      outcome_ok cmd st st' (\<exists>y. q = Inr y)) \<and> endures path good w w1"
    and f: "\<And>y. follows same_session (f y)"
  shows "(\<exists>st'. vault_holds c (fst st') (snd st') path w' \<and> entries_ok (snd st') \<and>
      outcome_ok cmd st st' (\<exists>y. r = Inr y)) \<and> endures path good w w'"
proof -
  from p obtain q w1 where q: "m w = Some (q, w1)" by (auto simp: pbind_def split: option.splits)
  from m [OF this] obtain st' where st: "vault_holds c (fst st') (snd st') path w1" "entries_ok (snd st')"
    "outcome_ok cmd st st' (\<exists>y. q = Inr y)" and e: "endures path good w w1" by blast
  show ?thesis
  proof (cases q)
    case (Inl x)
    with p q have "r = Inl x" "w' = w1" by (auto simp: pbind_def)
    with st e Inl show ?thesis by (intro conjI exI [of _ st']) simp_all
  next
    case (Inr y)
    with p q have "f y w1 = Some (r, w')" by (simp add: pbind_def)
    note s = followsD [OF f this]
    from content_same [OF s, of path] st Inr enduring.trans [OF e diskless_endures [OF same_diskless [OF s]]]
    show ?thesis by (intro conjI exI [of _ st']) (auto simp: vault_holds_def outcome_ok_def)
  qed
qed

lemma copy_end_same:
  "externals_tame x \<Longrightarrow> follows same_session (pbind (set_sigterm RaiseInterrupt) (\<lambda>previous.
     pbind (with_finally
              (handle
                 (copy_and_autoclear (e_password e) timeout (pyperclip_backend (x_clip_copy x) (x_clip_paste x))
                    (x_sleep x) (Some (x_echo x False (copied_text e timeout))))
                 (no_clipboard x))
              (pbind (set_sigterm previous) (\<lambda>_. ret ()))) (copy_report x)))"
  by (intro same.bind same.ensure same.catch same.pure terminal_same clipboard_same no_clipboard_same copy_report_same)

text \<open>The bracket of a command: what the body leaves is what the command leaves.\<close>

lemma command_outcome:
  fixes w :: "'z console_scheme"
  assumes "crypto_ok (x_crypto x)" and "externals_tame x" and "outside path w"
    and "vault_holds (x_crypto x) pw es path w" and "entries_ok es"
    and "keys_short m w" and "key_fits (x_crypto x) pw path w" and "source_varied (tape w) (length es)"
    and "counter_free path w"
    and "pbind (with_repository x path body) f w = Some (r, w')"
    and "\<And>w1 q w2. started (x_crypto x) pw es path w1 \<Longrightarrow> keys_short m w1 \<Longrightarrow> body w1 = Some (q, w2) \<Longrightarrow>
      left (x_crypto x) cmd (pw, es) path w1 (\<exists>y. q = Inr y) w2"
    and "\<And>y. follows same_session (f y)"
  shows "(\<exists>st'. vault_holds (x_crypto x) (fst st') (snd st') path w' \<and> entries_ok (snd st') \<and>
      outcome_ok cmd (pw, es) st' (\<exists>y. r = Inr y)) \<and> endures path (command_file (x_crypto x) cmd (pw, es)) w w'"
  by (rule outcome_after [OF assms(10) with_repository_outcome [OF assms(1-9) assms(11)] assms(12)])

text \<open>The contract of a command, with what a power loss on the way could leave.\<close>

lemma command_contract:
  fixes w :: "'z console_scheme"
  assumes "crypto_ok (x_crypto x)" and "externals_tame x" and "outside path w"
    and "vault_holds (x_crypto x) pw es path w" and "entries_ok es"
    and "keys_short m w" and "key_fits (x_crypto x) pw path w" and "source_varied (tape w) (length es)"
    and "counter_free path w"
    and "command_path cmd = Some path" and "cmd \<noteq> Init path" and "command_plain cmd"
    and "body_bound es + command_growth m cmd \<le> MAX_PLAINTEXT"
    and "run_command x cmd w = Some (r, w')"
  shows "(\<exists>st'. vault_holds (x_crypto x) (fst st') (snd st') path w' \<and> entries_ok (snd st') \<and>
      outcome_ok cmd (pw, es) st' (\<exists>y. r = Inr y)) \<and>
    endures path (command_file (x_crypto x) cmd (pw, es)) w w'" (is ?goal)
proof -
  note c = assms(1) and t = assms(2) and run = command_outcome [OF assms(1-9)]
  show ?goal
  proof (cases cmd)
    case (Add p sv us nt g k)
    then have cmd: "cmd = Add path sv us nt g k" using assms(10) by simp
    with assms(14) have r: "cli_add x path sv us nt g k w = Some (r, w')" by simp
    show ?thesis unfolding cmd
      by (rule run [OF r [unfolded cli_add_def Let_def]], rule left_add [OF c t], assumption, assumption,
          use assms(12) cmd in simp, use assms(13) cmd in simp, assumption)
         (intro same.bind follows_if same.pure externals_same t)
  next
    case (ListAll p)
    then have cmd: "cmd = ListAll path" using assms(10) by simp
    with assms(14) have r: "cli_list x path w = Some (r, w')" by simp
    show ?thesis unfolding cmd
      by (rule run [OF r [unfolded cli_list_def]], erule left_list, assumption) (intro echo_all_same t)
  next
    case (Get p i sh)
    then have cmd: "cmd = Get path i sh" using assms(10) by simp
    with assms(14) have r: "cli_get x path i sh w = Some (r, w')" by simp
    show ?thesis unfolding cmd
      by (rule run [OF r [unfolded cli_get_def]], rule left_found [OF t], assumption, assumption, simp) (intro echo_all_same t)
  next
    case (Copy p i tm)
    then have cmd: "cmd = Copy path i tm" using assms(10) by simp
    with assms(14) have r: "cli_copy x path i tm w = Some (r, w')" by simp
    show ?thesis unfolding cmd
      by (rule run [OF r [unfolded cli_copy_def]], rule left_found [OF t], assumption, assumption, simp) (rule copy_end_same [OF t])
  next
    case (Update p i sv us nt g k)
    then have cmd: "cmd = Update path i sv us nt g k" using assms(10) by simp
    with assms(14) have r: "cli_update x path i sv us nt g k w = Some (r, w')" by simp
    show ?thesis unfolding cmd
      by (rule run [OF r [unfolded cli_update_def Let_def]], rule left_update [OF c t], assumption, assumption,
          use assms(12) cmd in simp, use assms(13) cmd in simp, assumption)
         (intro same.bind follows_if same.pure externals_same t)
  next
    case (Delete p i yes)
    then have cmd: "cmd = Delete path i yes" using assms(10) by simp
    with assms(14) have r: "cli_delete x path i yes w = Some (r, w')" by simp
    show ?thesis unfolding cmd
      by (rule run [OF r [unfolded cli_delete_def]], rule left_delete [OF c t], assumption,
          use assms(13) cmd in simp, assumption)
         (intro follows_if same.pure externals_same t)
  next
    case (Passwd p)
    then have cmd: "cmd = Passwd path" using assms(10) by simp
    with assms(14) have r: "cli_passwd x path w = Some (r, w')" by simp
    show ?thesis unfolding cmd
      by (rule run [OF r [unfolded cli_passwd_def]], rule left_passwd [OF c t], assumption,
          use assms(13) cmd in simp, assumption)
         (intro externals_same t)
  qed (use assms in auto)
qed

text \<open>C3: Every command that works on an existing vault follows the abstract vault, whatever system call,
  prompt or print fails while it runs: when it ends the file opens under the old password to the old
  entries, or it is one step of the abstract vault further, the step its arguments ask for; and if a
  changing command ended normally the step is done. The lock is as free as before.\<close>

theorem commands_refine_vault:
  fixes w :: "'z console_scheme"
  assumes "crypto_ok (x_crypto x)" and "externals_tame x" and "outside path w"
    and "vault_holds (x_crypto x) pw es path w" and "entries_ok es"
    and "keys_short m w" and "key_fits (x_crypto x) pw path w" and "source_varied (tape w) (length es)"
    and "counter_free path w"
    and "command_path cmd = Some path" and "cmd \<noteq> Init path" and "command_plain cmd"
    and "body_bound es + command_growth m cmd \<le> MAX_PLAINTEXT"
    and "run_command x cmd w = Some (r, w')"
  shows "\<exists>st'. vault_holds (x_crypto x) (fst st') (snd st') path w' \<and> entries_ok (snd st') \<and>
    (command_does cmd (pw, es) st' \<or> st' = (pw, es) \<and> \<not> (r = Inr () \<and> must_do cmd)) \<and>
    outside path w' \<and> locked w' (path @ lit ''.lock'') = locked w (path @ lit ''.lock'')"
proof -
  from command_contract [OF assms] have "\<exists>st'. vault_holds (x_crypto x) (fst st') (snd st') path w' \<and>
    entries_ok (snd st') \<and> outcome_ok cmd (pw, es) st' (\<exists>y. r = Inr y)" by blast
  moreover have "follows (lock_kept path) (run_command x cmd)"
    using assms(10) commands_kept [OF assms(2), of path] by (cases cmd) simp_all
  from followsD [OF this assms(14)] assms(3) have "outside path w' \<and>
      locked w' (path @ lit ''.lock'') = locked w (path @ lit ''.lock'')" by (simp add: lock_kept_def)
  ultimately show ?thesis by (auto simp: outcome_ok_def)
qed

text \<open>C5: A power loss at any moment of any command that works on an existing vault, whatever else fails:
  if the vault was safely on the disk before, what is found afterwards is a complete vault, either with
  the old entries under the old password or after the one step the command asks for. No command can
  leave half a file, no file, or anything in between.\<close>

theorem commands_survive_power_loss:
  fixes w :: "'z console_scheme"
  assumes "crypto_ok (x_crypto x)" and "externals_tame x" and "outside path w"
    and "vault_holds (x_crypto x) pw es path w" and "entries_ok es"
    and "keys_short m w" and "key_fits (x_crypto x) pw path w" and "source_varied (tape w) (length es)"
    and "counter_free path w"
    and "command_path cmd = Some path" and "cmd \<noteq> Init path" and "command_plain cmd"
    and "body_bound es + command_growth m cmd \<le> MAX_PLAINTEXT"
    and "run_command x cmd w = Some (r, w')" and "settled w (resolve w path)"
  shows "\<exists>ds. disk_trace w' = disk_trace w @ ds \<and>
    (\<forall>d \<in> set (disk w' # ds). \<forall>found. may_survive d (resolve w path) found \<longrightarrow>
      (\<exists>b st'. found = Some b \<and> file_holds (x_crypto x) (fst st') (snd st') b \<and>
         (st' = (pw, es) \<or> command_does cmd (pw, es) st')))"
proof -
  from command_contract [OF assms(1-14)] obtain ds where t: "disk_trace w' = disk_trace w @ ds"
    and d: "\<forall>d \<in> set (disk w' # ds). \<forall>y. may_survive d (resolve w path) y \<longrightarrow>
      may_survive (disk w) (resolve w path) y \<or> (\<exists>b. y = Some b \<and> command_file (x_crypto x) cmd (pw, es) b)"
    unfolding endures_def by blast
  from assms(4) obtain b0 where b0: "visible (disk w) (resolve w path) = Some b0" "file_holds (x_crypto x) pw es b0"
    by (auto simp: vault_holds_def file_content_def)
  have "\<exists>b st'. y = Some b \<and> file_holds (x_crypto x) (fst st') (snd st') b \<and> (st' = (pw, es) \<or> command_does cmd (pw, es) st')"
    if "d' \<in> set (disk w' # ds)" "may_survive d' (resolve w path) y" for d' y
  proof -
    from d that have "may_survive (disk w) (resolve w path) y \<or> (\<exists>b. y = Some b \<and> command_file (x_crypto x) cmd (pw, es) b)"
      by blast
    then show ?thesis
    proof
      assume "may_survive (disk w) (resolve w path) y"
      from settled_survive [OF assms(15) this] b0 show ?thesis by (intro exI [of _ b0] exI [of _ "(pw, es)"]) simp
    next
      assume "\<exists>b. y = Some b \<and> command_file (x_crypto x) cmd (pw, es) b"
      then show ?thesis unfolding command_file_def by blast
    qed
  qed
  with t show ?thesis by blast
qed

end
