(* ===== verification/CommandSample.thy ===== *)
theory CommandSample
  imports CommandRefinement CliSample
begin

text \<open>The hypotheses of the contract of the commands hold on the sample machine.\<close>

lemma cli_inputs:
  "vault_holds (x_crypto sample_externals) sample_password [sample_entry] (lit ''/v'') (cli_machine [sample_entry] [right_key])"
  "entries_ok [sample_entry]" "keys_short 256 (cli_machine [sample_entry] [right_key])"
  "key_fits (x_crypto sample_externals) sample_password (lit ''/v'') (cli_machine [sample_entry] [right_key])"
  "source_varied (tape (cli_machine [sample_entry] [right_key])) (length [sample_entry])"
  "counter_free (lit ''/v'') (cli_machine [sample_entry] [right_key])"
  "quiet (cli_machine [sample_entry] [right_key])"
proof -
  let ?w = "cli_machine [sample_entry] [right_key]"
  have rest: "vault_at_rest (x_crypto sample_externals) sample_password [sample_entry] (lit ''/v'') ?w"
    by (rule cli_rest [OF sample_bounds(1,2)])
  then show "vault_holds (x_crypto sample_externals) sample_password [sample_entry] (lit ''/v'') ?w" "entries_ok [sample_entry]"
    "quiet ?w" by (simp_all add: vault_at_rest_def)
  show "keys_short 256 ?w" "key_fits (x_crypto sample_externals) sample_password (lit ''/v'') ?w"
    using typed(1) by (auto simp: keys_short_def key_fits_def cli_machine_fields right_key_def lit_def)
  show "source_varied (tape ?w) (length [sample_entry])"
    using source_varied_mono [OF sample_source, of "length [sample_entry]"] by (simp add: cli_machine_fields)
  show "counter_free (lit ''/v'') ?w"
    using cli_ready [OF sample_bounds(2), of "[right_key]"] unfolding counter_free_def ready_to_write_def by blast
qed

lemma cli_resolve: "resolve (cli_machine es kb) (lit ''/v'') = lit ''/v''"
proof -
  have "resolve (cli_machine es kb) (lit ''/v'') = resolve (base_machine es) (lit ''/v'')"
    using truncate_fields(11) [of "cli_machine es kb"] by (simp add: cli_machine_truncate resolve_def)
  then show ?thesis by (simp add: base_resolve resolve_session)
qed

theorem commands_refine_vault_witness:
  "\<exists>r w' st'. run_command sample_externals (ListAll (lit ''/v'')) (cli_machine [sample_entry] [right_key]) = Some (r, w') \<and>
     vault_holds sample_crypto (fst st') (snd st') (lit ''/v'') w' \<and> st' = (sample_password, [sample_entry])"
proof -
  let ?w = "cli_machine [sample_entry] [right_key]"
  from sample_list_returns obtain r w' where r: "run_command sample_externals (ListAll (lit ''/v'')) ?w = Some (r, w')" by blast
  from commands_refine_vault [OF sample_externals_ok(3,1) cli_outside cli_inputs(1-6) _ _ _ _ r] sample_bounds(2)
  show ?thesis using r by (auto simp: sample_externals_ok elim: command_does_listE)
qed

theorem commands_survive_power_loss_witness:
  "\<exists>r w' ds. run_command sample_externals (ListAll (lit ''/v'')) (cli_machine [sample_entry] [right_key]) = Some (r, w') \<and>
     disk_trace w' = disk_trace (cli_machine [sample_entry] [right_key]) @ ds \<and>
     list_all (\<lambda>d. \<not> may_survive d (lit ''/v'') None) (disk w' # ds)"
proof -
  let ?w = "cli_machine [sample_entry] [right_key]"
  from sample_list_returns obtain r w' where r: "run_command sample_externals (ListAll (lit ''/v'')) ?w = Some (r, w')" by blast
  have d: "disk ?w = disk (base_machine [sample_entry])" using truncate_fields(2) [of ?w] by (simp add: cli_machine_truncate)
  have st: "settled ?w (resolve ?w (lit ''/v''))"
    unfolding cli_resolve by (simp add: settled_def d base_machine_def sample_session_defs)
  from commands_survive_power_loss [OF sample_externals_ok(3,1) cli_outside cli_inputs(1-6) _ _ _ _ r st] sample_bounds(2)
  show ?thesis using r unfolding cli_resolve by (fastforce simp: list_all_iff)
qed

end
