(* ===== verification/CliEdits.thy ===== *)
theory CliEdits
  imports CliRuns
begin

text \<open>
  The commands \<open>update\<close>, \<open>delete\<close>, \<open>init\<close> and \<open>copy\<close> on a machine where no system call fails: what is
  stored, what is asked and printed, and what is on the clipboard when they end.
\<close>

section \<open>Shared steps\<close>

lemma echo_once:
  fixes w :: "'z console_scheme"
  assumes "echo_ok x scr"
  obtains w' where "x_echo x err t w = Some (Inr (), w')" and "same_session w w'"
    and "scr (console.more w') = scr (console.more w) @ [(err, t)]"
  using assms unfolding echo_ok_def by blast

text \<open>The state in which the body of a \<open>with\<close> block starts.\<close>

definition body_state ::
  "crypto \<Rightarrow> bytes \<Rightarrow> entry list \<Rightarrow> pystr \<Rightarrow> (exn + pystr) list \<Rightarrow> 'z \<Rightarrow> 'z console_scheme \<Rightarrow> bool" where
  "body_state c pw es path ks z w \<longleftrightarrow>
     live c pw w \<and> r_entries w = es \<and> r_path w = path \<and> vault_holds c pw es path w \<and> quiet w \<and>
     keyboard w = ks \<and> console.more w = z \<and> tmp_free w path \<and> uv_counter (r_unlocked w) + 1 < 2 ^ 64"

text \<open>A body that ends with the vault on disk as it is in memory.\<close>

definition body_ends :: "crypto \<Rightarrow> bytes \<Rightarrow> pystr \<Rightarrow> 'z console_scheme \<Rightarrow> bool" where
  "body_ends c pw path w \<longleftrightarrow> live c pw w \<and> r_path w = path \<and> vault_holds c pw (r_entries w) path w \<and> quiet w"

lemma body_block:
  fixes w :: "'z console_scheme"
  assumes c: "crypto_ok (x_crypto x)" and rest: "vault_at_rest (x_crypto x) pw es path w" and rd: "ready_to_write path w"
    and k: "keyboard w = Inr s # ks" and s: "utf8_encode s = Inr pw"
    and body: "\<And>w1. body_state (x_crypto x) pw es path ks (console.more w) w1 \<Longrightarrow> sigterm w1 = sigterm w \<Longrightarrow>
      \<exists>y w2. body w1 = Some (Inr y, w2) \<and> P y w2 \<and> body_ends (x_crypto x) pw' path w2"
  obtains y w2 w' where "with_repository x path body w = Some (Inr y, w')" and "P y w2" and "env w2 w'"
    and "vault_at_rest (x_crypto x) pw' (r_entries w2) path w'"
proof -
  have b: "\<exists>y w2. body w1 = Some (Inr y, w2) \<and> P y w2 \<and> live (x_crypto x) pw' w2 \<and> r_path w2 = path \<and> quiet w2 \<and>
      vault_holds (x_crypto x) pw' (r_entries w2) path w2"
    if "live (x_crypto x) pw w1" "r_entries w1 = es" "r_path w1 = path" "vault_holds (x_crypto x) pw es path w1"
      "env (w\<lparr>keyboard := ks\<rparr>) w1" "quiet w1"
      "ready_to_write path w \<longrightarrow> tmp_free w1 path \<and> uv_counter (r_unlocked w1) + 1 < 2 ^ 64" for w1
  proof -
    have "body_state (x_crypto x) pw es path ks (console.more w) w1" "sigterm w1 = sigterm w"
      using that rd env_console [OF that(5)] by (simp_all add: body_state_def keyboard_more)
    from body [OF this] show ?thesis by (auto simp: body_ends_def)
  qed
  obtain y w2 w' where r: "with_repository x path body w = Some (Inr y, w')" "P y w2" "env w2 w'"
    "vault_at_rest (x_crypto x) pw' (r_entries w2) path w'"
    by (rule with_repository_runs [OF c rest k s, where body = body and pw' = pw' and P = P]) (rule b)
  then show thesis by (rule that)
qed

text \<open>An operation that ends with a save, on a machine where no call fails.\<close>

lemma saved_ends:
  fixes w :: "'z console_scheme"
  assumes "stored c pw es w q w2" and "quiet w" and "tmp_free w path" and "r_path w = path" and "env w w2"
  shows "(\<exists>y. q = Inr y) \<and> body_ends c pw path w2 \<and> r_entries w2 = es \<and> console.more w2 = console.more w \<and> keyboard w2 = keyboard w"
  using assms env_quiet [OF assms(5,2)] env_console [OF assms(5)]
  by (auto simp: stored_def body_ends_def saved_def same_object_def)

lemma found_runs: "find_entry i (r_entries w) = Some e \<Longrightarrow> or_fail x p (repo_get i) w = Some (Inr e, w)"
  by (simp add: or_fail_def handle_def repo_get_eq)

section \<open>update\<close>





section \<open>delete\<close>

text \<open>\<open>click.confirm\<close> is asked \<open>question\<close> and gets the answer \<open>answer\<close>.\<close>

definition confirm_says :: "'z console_scheme externals \<Rightarrow> ('z \<Rightarrow> 'b) \<Rightarrow> pystr \<Rightarrow> bool \<Rightarrow> bool" where
  "confirm_says x scr question answer \<longleftrightarrow>
     (\<forall>w. \<exists>w'. x_confirm x question w = Some (Inr answer, w') \<and> same_session w w' \<and> scr (console.more w') = scr (console.more w))"

lemma ends_same:
  assumes "same_session w w'"
  shows "body_ends c pw path w' = body_ends c pw path w"
  by (simp add: body_ends_def same_session_facts [OF assms])

lemma delete_runs:
  fixes w :: "'z console_scheme"
  assumes "crypto_ok (x_crypto x)" and "echo_ok x scr" and "confirm_says x scr (delete_question e) answer"
    and "vault_at_rest (x_crypto x) pw es path w" and "keyboard w = Inr s # ks" and "utf8_encode s = Inr pw"
    and "find_entry i es = Some e" and "body_bound es \<le> MAX_PLAINTEXT" and "ready_to_write path w"
  shows "\<exists>w'. cli_delete x path i yes w = Some (Inr (), w') \<and>
    vault_at_rest (x_crypto x) pw (if yes \<or> answer then drop_first i es else es) path w' \<and>
    scr (console.more w') = scr (console.more w) @
      [(False, if yes \<or> answer then lit ''Deleted entry '' @ i else lit ''Aborted.'')]"
proof -
  let ?c = "x_crypto x" and ?go = "yes \<or> answer"
  let ?b = "pbind (or_fail x is_not_found (repo_get i)) (\<lambda>e.
        pbind (if yes then ret True else x_confirm x (delete_question e)) (\<lambda>go.
        if \<not> go then pbind (x_echo x False (lit ''Aborted.'')) (\<lambda>_. ret False)
        else pbind (repo_delete ?c (x_repr x) i) (\<lambda>_. ret True)))"
  let ?P = "\<lambda>y (w2 :: 'z console_scheme). y = ?go \<and> r_entries w2 = (if ?go then drop_first i es else es) \<and>
      scr (console.more w2) = scr (console.more w) @ (if ?go then [] else [(False, lit ''Aborted.'')])"
  have body: "\<exists>y w2. ?b w1 = Some (Inr y, w2) \<and> ?P y w2 \<and> body_ends ?c pw path w2"
    if st: "body_state ?c pw es path ks (console.more w) w1" for w1
  proof -
    from assms(3) obtain v where v: "(if yes then ret True else x_confirm x (delete_question e)) w1 = Some (Inr ?go, v)"
      "same_session w1 v" "scr (console.more v) = scr (console.more w1)"
    proof (cases yes)
      case True
      then show ?thesis by (intro that [of w1]) (simp_all add: same.refl)
    next
      case False
      from assms(3) obtain v where "x_confirm x (delete_question e) w1 = Some (Inr answer, v)" "same_session w1 v"
        "scr (console.more v) = scr (console.more w1)" unfolding confirm_says_def by blast
      with False show ?thesis by (intro that [of v]) simp_all
    qed
    note f = same_session_facts [OF v(2)]
    from st have l: "live ?c pw v" "r_entries v = es" "r_path v = path" "quiet v" "tmp_free v path"
        "uv_counter (r_unlocked v) + 1 < 2 ^ 64" "vault_holds ?c pw es path v" and z: "scr (console.more v) = scr (console.more w)"
      by (simp_all add: body_state_def f v(3))
    have g: "or_fail x is_not_found (repo_get i) w1 = Some (Inr e, w1)"
      using found_runs [of i w1 e] assms(7) f(2) l(2) by simp
    show ?thesis
    proof (cases ?go)
      case False
      obtain w2 where o: "x_echo x False (lit ''Aborted.'') v = Some (Inr (), w2)" "same_session v w2"
        "scr (console.more w2) = scr (console.more v) @ [(False, lit ''Aborted.'')]" using assms(2) by (rule echo_once)
      have "?b w1 = Some (Inr False, w2)" using g v(1) o(1) False by (simp add: pbind_def)
      moreover have "body_ends ?c pw path w2 \<and> r_entries w2 = es"
        using l by (simp add: ends_same [OF o(2)] body_ends_def same_session_facts [OF o(2)])
      ultimately show ?thesis using False o(3) z by auto
    next
      case True
      have fe: "find_entry i (r_entries v) = Some e" using assms(7) l(2) by simp
      have "body_bound (drop_first i (r_entries v)) \<le> MAX_PLAINTEXT" using body_bound_drop [of i es] assms(8) l(2) by simp
      from repo_delete_ok [OF assms(1) l(1) fe this l(6), of "x_repr x"] obtain q w2 where
        a: "repo_delete ?c (x_repr x) i v = Some (q, w2)" "stored ?c pw (drop_first i (r_entries v)) v q w2" by blast
      from followsD [OF env_repo_calls(5) a(1)] have "env v w2" .
      from saved_ends [OF a(2) l(4,5,3) this] have q: "q = Inr ()" and en: "body_ends ?c pw path w2"
        "r_entries w2 = drop_first i es" "console.more w2 = console.more v" using l(2) by auto
      have "?b w1 = Some (Inr True, w2)" using g v(1) a(1) q True by (simp add: pbind_def)
      with en z True show ?thesis by auto
    qed
  qed
  obtain y w2 w3 where r: "with_repository x path ?b w = Some (Inr y, w3)" "?P y w2" "env w2 w3"
      "vault_at_rest ?c pw (r_entries w2) path w3"
    by (rule body_block [OF assms(1,4,9,5,6), where body = ?b and pw' = pw and P = ?P]) (rule body)
  note m = env_console(3) [OF r(3)]
  show ?thesis
  proof (cases ?go)
    case False
    with r have "cli_delete x path i yes w = Some (Inr (), w3)" by (simp add: cli_delete_def pbind_def [of "with_repository x path m" for m])
    with r(2,4) m False show ?thesis by auto
  next
    case True
    obtain w' where o: "x_echo x False (lit ''Deleted entry '' @ i) w3 = Some (Inr (), w')" "same_session w3 w'"
      "scr (console.more w') = scr (console.more w3) @ [(False, lit ''Deleted entry '' @ i)]" using assms(2) by (rule echo_once)
    from True r o(1) have "cli_delete x path i yes w = Some (Inr (), w')"
      by (simp add: cli_delete_def pbind_def [of "with_repository x path m" for m])
    with r(2,4) m True o(3) rest_same [OF o(2)] show ?thesis by auto
  qed
qed

text \<open>C20: \<open>delete\<close> removes exactly the entry with the identifier, if it is confirmed (at the prompt or with
  \<open>--yes\<close>); otherwise the vault stays as it is. It prints which of the two happened.\<close>

theorem delete_needs_confirmation:
  fixes w :: "'z console_scheme"
  assumes "crypto_ok (x_crypto x)" and "echo_ok x scr" and "confirm_says x scr (lit ''Delete '' @ e_service e @ lit '' / '' @ e_username e @ lit '' ('' @ i @ lit '')?'') answer"
    and "vault_at_rest (x_crypto x) pw es path w" and "keyboard w = Inr s # ks" and "utf8_encode s = Inr pw"
    and "find_entry i es = Some e" and "body_bound es \<le> MAX_PLAINTEXT" and "ready_to_write path w"
  shows "\<exists>w'. cli_delete x path i yes w = Some (Inr (), w') \<and>
    vault_at_rest (x_crypto x) pw (if yes \<or> answer then drop_first i es else es) path w' \<and>
    scr (console.more w') = scr (console.more w) @
      [(False, if yes \<or> answer then lit ''Deleted entry '' @ i else lit ''Aborted.'')]"
proof -
  have "confirm_says x scr (delete_question e) answer" using assms(3,7) by (simp add: delete_question_def find_entry_id)
  from delete_runs [OF assms(1,2) this assms(4-9)] show ?thesis .
qed

section \<open>A new master password\<close>

lemma weak_warning_text:
  "s \<noteq> [] \<Longrightarrow> weak_warning (estimate_entropy_bits s) =
     lit ''Warning: this master password looks weak (~'' @ show_int (round (real (length s) * log 2 (real (apparent_pool s)))) @
     lit '' estimated bits). Argon2id raises the cost of guessing it, but cannot make a guessable password unguessable.''"
  using apparent_pool_pos [of s] by (simp add: weak_warning_def estimate_entropy_bits_def entropy_pool_apparent)

text \<open>C38: A new master password is what was typed twice, and a weak one (fewer than \<open>2 ^ 60\<close> strings of its
  length over its apparent pool) is never taken silently: the warning with its estimate was printed
  first, and \<open>Use it anyway?\<close> was answered with yes.\<close>

theorem weak_password_needs_consent:
  fixes w :: "'z console_scheme"
  assumes "read_master_password x True w = Some (Inr pw, w')"
  shows "\<exists>s ks. keyboard w = Inr s # Inr s # ks \<and> utf8_encode s = Inr pw \<and> s \<noteq> [] \<and>
    (if 2 ^ 60 \<le> apparent_pool s ^ length s then w' = w\<lparr>keyboard := ks\<rparr>
     else \<exists>w1. x_echo x True (lit ''Warning: this master password looks weak (~'' @
           show_int (round (real (length s) * log 2 (real (apparent_pool s)))) @
           lit '' estimated bits). Argon2id raises the cost of guessing it, but cannot make a guessable password unguessable.'')
         (w\<lparr>keyboard := ks\<rparr>) = Some (Inr (), w1) \<and>
       x_confirm x (lit ''Use it anyway?'') w1 = Some (Inr True, w'))"
proof -
  from assms obtain s ks1 w1 where s: "keyboard w = Inr s # ks1" "s \<noteq> []" "utf8_encode s = Inr pw"
    and c: "confirm_new_password x s (w\<lparr>keyboard := ks1\<rparr>) = Some (Inr (), w')"
    by (auto simp: read_master_password_def getpass_def result_simps fail_no_value split: list.splits if_splits)
  from c obtain t ks where t: "keyboard w = Inr s # Inr t # ks" "passwords_match s t = Inr True"
    and e: "(if estimate_entropy_bits s < WEAK_MASTER_PASSWORD_BITS
        then pbind (x_echo x True (weak_warning (estimate_entropy_bits s))) (\<lambda>_.
             pbind (x_confirm x (lit ''Use it anyway?'')) (\<lambda>yes.
             if yes then ret () else fail x (lit ''aborted -- choose a stronger master password'')))
        else ret ()) (w\<lparr>keyboard := ks\<rparr>) = Some (Inr (), w')"
    using s(1) by (auto simp: confirm_new_password_def getpass_def result_simps fail_no_value Let_def split: list.splits if_splits)
  from t(2) s(3) have "t = s" by (auto simp: passwords_match_def rbind_Inr_iff dest: utf8_encode_inj)
  moreover have "estimate_entropy_bits s < WEAK_MASTER_PASSWORD_BITS \<longleftrightarrow> \<not> 2 ^ 60 \<le> apparent_pool s ^ length s"
    by (simp add: WEAK_MASTER_PASSWORD_BITS_def weak_password not_le)
  ultimately show ?thesis using s t e
    by (intro exI [of _ s] exI [of _ ks]) (auto simp: result_simps fail_no_value weak_warning_text split: if_splits)
qed

section \<open>init\<close>

lemma path_absent_runs:
  assumes "quiet w" and "d_names (disk w) (resolve w path) = None"
  shows "path_exists path w = Some (Inr False, w\<lparr>calls := Suc (calls w), disk_trace := disk_trace w @ [disk w]\<rparr>)"
  using assms by (simp add: path_exists_def handle_def syscall_def resolve_def quiet_def)

text \<open>The machine on which a vault can be created.\<close>

definition ready_to_create :: "pystr \<Rightarrow> 'z session_scheme \<Rightarrow> bool" where
  "ready_to_create path w \<longleftrightarrow>
     outside path w \<and> quiet w \<and> \<not> locked w (path @ lit ''.lock'') \<and> tmp_free w path \<and> lock_not_tmp w path \<and>
     d_names (disk w) (resolve w path) = None"

lemma create_ready_calls:
  "ready_to_create path w \<Longrightarrow> ready_to_create path (w\<lparr>calls := Suc (calls w), disk_trace := d\<rparr>)"
  by (simp add: ready_to_create_def outside_def home_defs wf_os_def resolve_def quiet_def locked_def tmp_free_def lock_not_tmp_def)

lemma create_ready_keys:
  fixes w :: "'z console_scheme"
  shows "ready_to_create path (w\<lparr>keyboard := ks\<rparr>) = ready_to_create path w"
  by (simp add: ready_to_create_def outside_def home_defs wf_os_def resolve_def quiet_def locked_def tmp_free_def lock_not_tmp_def)

lemma repo_create_runs:
  fixes w :: "'z session_scheme"
  assumes c: "crypto_ok c" and rd: "ready_to_create path w"
  obtains w2 where "pbind (repo_create c rp path pw None) (\<lambda>_. repo_close) w = Some (Inr (), w2)"
    and "vault_at_rest c pw [] path w2" and "env w w2"
proof -
  define v where "v = w\<lparr>calls := Suc (calls w), disk_trace := disk_trace w @ [disk w]\<rparr>"
  from rd have ex: "path_exists path w = Some (Inr False, v)"
    unfolding v_def by (intro path_absent_runs) (simp_all add: ready_to_create_def)
  have p: "params_ok (params_or_default None)" by (simp add: params_or_default_def default_parameters_ok)
  from create_ready_calls [OF rd] have r: "outside path v" "quiet v" "\<not> locked v (path @ lit ''.lock'')" "tmp_free v path" "lock_not_tmp v path"
    by (simp_all add: v_def ready_to_create_def)
  from create_locked_quiet [OF c r(1) p r(2-5), of rp pw] obtain w1 where
    cr: "create_locked c rp path pw None v = Some (Inr (), w1)" by blast
  from create_locked_ok [OF c r(1) p cr] have l: "live c pw w1" "r_entries w1 = []" "r_path w1 = path" "vault_holds c pw [] path w1"
    by auto
  from followsD [OF env_repo_lifecycle(2) cr] have e: "env v w1" .
  from l(1,2) have "entries_ok []" by (simp add: live_def)
  from closes_runs [OF l(1) env_quiet [OF e r(2)] l(4,3) this] obtain w2 where
    cl: "repo_close w1 = Some (Inr (), w2)" "vault_at_rest c pw [] path w2" "env w1 w2" .
  have "env w v" by (simp add: env_def v_def)
  with environment.trans [OF _ environment.trans [OF e cl(3)]] have "env w w2" by blast
  moreover have "pbind (repo_create c rp path pw None) (\<lambda>_. repo_close) w = Some (Inr (), w2)"
    using ex cr cl(1) by (simp add: pbind_def repo_create_def)
  ultimately show thesis using cl(2) by (intro that)
qed

lemma init_runs:
  fixes w :: "'z console_scheme"
  assumes "crypto_ok (x_crypto x)" and "echo_ok x scr" and "ready_to_create path w"
    and "keyboard w = Inr n # Inr n # ks" and "utf8_encode n = Inr pw" and "n \<noteq> []"
    and "2 ^ 60 \<le> apparent_pool n ^ length n"
  shows "\<exists>w'. cli_init x path w = Some (Inr (), w') \<and> vault_at_rest (x_crypto x) pw [] path w' \<and>
    scr (console.more w') = scr (console.more w) @ [(False, lit ''Created vault at '' @ path)]"
proof -
  have strong: "\<not> estimate_entropy_bits n < WEAK_MASTER_PASSWORD_BITS"
    using assms(7) strong_password [of n] by (simp add: WEAK_MASTER_PASSWORD_BITS_def)
  define w1 where "w1 = w\<lparr>calls := Suc (calls w), disk_trace := disk_trace w @ [disk w]\<rparr>"
  from assms(3) have ex: "path_exists path w = Some (Inr False, w1)"
    unfolding w1_def by (intro path_absent_runs) (simp_all add: ready_to_create_def)
  define w2 where "w2 = w1\<lparr>keyboard := ks\<rparr>"
  have "keyboard w1 = Inr n # Inr n # ks" using assms(4) by (simp add: w1_def)
  then have mp: "read_master_password x True w1 = Some (Inr pw, w2)"
    using assms(5,6) strong by (simp add: read_master_password_def confirm_new_password_def passwords_match_def
        getpass_def pbind_def w2_def)
  have rd: "ready_to_create path w2" using create_ready_calls [OF assms(3)] by (simp add: w2_def w1_def create_ready_keys)
  from repo_create_runs [OF assms(1) rd, of "x_repr x" pw] obtain w3 where
    cr: "pbind (repo_create (x_crypto x) (x_repr x) path pw None) (\<lambda>_. repo_close) w2 = Some (Inr (), w3)"
      "vault_at_rest (x_crypto x) pw [] path w3" "env w2 w3" by blast
  obtain w' where o: "x_echo x False (lit ''Created vault at '' @ path) w3 = Some (Inr (), w')" "same_session w3 w'"
    "scr (console.more w') = scr (console.more w3) @ [(False, lit ''Created vault at '' @ path)]"
    using assms(2) by (rule echo_once)
  have "console.more w1 = console.more w" by (cases w) (simp add: w1_def)
  then have m: "console.more w3 = console.more w" using env_console(3) [OF cr(3)] by (simp add: w2_def keyboard_more)
  have "cli_init x path w = Some (Inr (), w')"
    using ex mp cr(1) o(1)
    by (simp add: cli_init_def or_fail_def handle_def pbind_def [of "path_exists path"] pbind_def [of "read_master_password x True"]
        pbind_def [of "handle a b" for a b])
  with cr(2) o(3) m rest_same [OF o(2)] show ?thesis by auto
qed

text \<open>C21: \<open>init\<close> on a path that does not exist, with a strong master password typed twice, creates a vault
  that opens under it and is empty, leaves it unlocked and prints one line.\<close>

theorem init_creates_an_empty_vault:
  fixes w :: "'z console_scheme"
  assumes "crypto_ok (x_crypto x)" and "echo_ok x scr" and "ready_to_create path w"
    and "keyboard w = Inr n # Inr n # ks" and "utf8_encode n = Inr pw" and "n \<noteq> []"
    and "2 ^ 60 \<le> apparent_pool n ^ length n"
  shows "\<exists>w'. cli_init x path w = Some (Inr (), w') \<and> vault_at_rest (x_crypto x) pw [] path w' \<and>
    scr (console.more w') = scr (console.more w) @ [(False, lit ''Created vault at '' @ path)]"
  by (rule init_runs [OF assms])

end
