(* ===== verification/CliCopy.thy ===== *)
theory CliCopy
  imports CliEdits ClipboardProperties
begin

text \<open>
  The command \<open>copy\<close> on a desktop with a working clipboard, down to what is on the terminal and on the
  clipboard when it ends, and which action SIGTERM has meanwhile and afterwards.
\<close>

text \<open>A step that touches neither the vault nor the terminal nor the signal.\<close>

definition desktop_step :: "('z \<Rightarrow> 'b) \<Rightarrow> 'z console_scheme \<Rightarrow> 'z console_scheme \<Rightarrow> bool" where
  "desktop_step scr w w' \<longleftrightarrow>
     same_session w w' \<and> sigterm w' = sigterm w \<and> scr (console.more w') = scr (console.more w)"

text \<open>
  \<open>clip\<close> reads the clipboard: \<open>pyperclip\<close> works, the wait ends in time or with \<open>KeyboardInterrupt\<close> (Ctrl-C,
  or SIGTERM while its handler raises it) and printing does not touch the clipboard. During the wait
  the user may copy something else.
\<close>

definition desktop_ok :: "'z console_scheme externals \<Rightarrow> ('z \<Rightarrow> (bool \<times> pystr) list) \<Rightarrow> ('z \<Rightarrow> pystr) \<Rightarrow> bool" where
  "desktop_ok x scr clip \<longleftrightarrow>
     (\<forall>t w. \<exists>w'. x_clip_copy x t w = Some (Inr (), w') \<and> desktop_step scr w w' \<and> clip (console.more w') = t) \<and>
     (\<forall>w. \<exists>w'. x_clip_paste x w = Some (Inr (clip (console.more w)), w') \<and> desktop_step scr w w' \<and>
        clip (console.more w') = clip (console.more w)) \<and>
     (\<forall>s w. \<exists>r w'. x_sleep x s w = Some (r, w') \<and> desktop_step scr w w' \<and> (r = Inr () \<or> r = Inl KeyboardInterrupt)) \<and>
     (\<forall>err t w w'. x_echo x err t w = Some (Inr (), w') \<longrightarrow>
        sigterm w' = sigterm w \<and> clip (console.more w') = clip (console.more w))"

definition report_line :: "bool \<Rightarrow> bool \<Rightarrow> bool \<times> pystr" where
  "report_line cl intr =
     (if cl then (False, if intr then lit ''Cleared early. Clipboard cleared.'' else lit ''Clipboard cleared.'')
      else (True, lit ''Clipboard changed since copy; left it untouched so your later copy is preserved.''))"

lemma sigterm_fields:
  fixes w :: "'z console_scheme"
  shows "console.more (w\<lparr>sigterm := h\<rparr>) = console.more w" "same_session w (w\<lparr>sigterm := h\<rparr>)"
  by (cases w; simp add: same_session_def session.defs)+

text \<open>The clipboard session of the command, from the copy to the end of the wait.\<close>

lemma clipboard_session:
  fixes w :: "'z console_scheme"
  assumes e: "echo_ok x scr" and d: "desktop_ok x scr clip"
  obtains w2 r w3 w4 where "clip (console.more w2) = secret" and "sigterm w2 = sigterm w"
    and "same_session w w2" and "x_sleep x timeout w2 = Some (r, w3)" and "r = Inr () \<or> r = Inl KeyboardInterrupt"
    and "copy_and_autoclear secret timeout (pyperclip_backend (x_clip_copy x) (x_clip_paste x)) (x_sleep x)
        (Some (x_echo x False line)) w =
      Some (Inr \<lparr>cleared = (clip (console.more w3) = secret), interrupted = (r \<noteq> Inr ())\<rparr>, w4)"
    and "same_session w w4" and "sigterm w4 = sigterm w"
    and "scr (console.more w4) = scr (console.more w) @ [(False, line)]"
    and "clip (console.more w4) = (if clip (console.more w3) = secret then [] else clip (console.more w3))"
proof -
  let ?b = "pyperclip_backend (x_clip_copy x) (x_clip_paste x)"
  have cp: "\<exists>v. cb_copy ?b t u = Some (Inr (), v) \<and> desktop_step scr u v \<and> clip (console.more v) = t" for t u
  proof -
    from d obtain v where "x_clip_copy x t u = Some (Inr (), v)" "desktop_step scr u v" "clip (console.more v) = t"
      unfolding desktop_ok_def by blast
    then show ?thesis by (simp add: pyperclip_backend_def handle_def)
  qed
  have ps: "\<exists>v. cb_paste ?b u = Some (Inr (clip (console.more u)), v) \<and> desktop_step scr u v \<and>
      clip (console.more v) = clip (console.more u)" for u
  proof -
    from d obtain v where "x_clip_paste x u = Some (Inr (clip (console.more u)), v)" "desktop_step scr u v"
      "clip (console.more v) = clip (console.more u)" unfolding desktop_ok_def by blast
    then show ?thesis by (simp add: pyperclip_backend_def handle_def)
  qed
  from cp obtain w1 where 1: "cb_copy ?b secret w = Some (Inr (), w1)" "desktop_step scr w w1" "clip (console.more w1) = secret"
    by blast
  obtain w2 where 2: "x_echo x False line w1 = Some (Inr (), w2)" "same_session w1 w2"
    "scr (console.more w2) = scr (console.more w1) @ [(False, line)]" using e by (rule echo_once)
  with d have k2: "sigterm w2 = sigterm w1" "clip (console.more w2) = secret" unfolding desktop_ok_def using 1(3) by metis+
  from d obtain r w3 where 3: "x_sleep x timeout w2 = Some (r, w3)" "desktop_step scr w2 w3" "r = Inr () \<or> r = Inl KeyboardInterrupt"
    unfolding desktop_ok_def by blast
  from ps obtain u where u: "cb_paste ?b w3 = Some (Inr (clip (console.more w3)), u)" "desktop_step scr w3 u"
    "clip (console.more u) = clip (console.more w3)" by blast
  obtain w4 where 4: "clear_if_unchanged secret ?b w3 = Some (Inr (clip (console.more w3) = secret), w4)" "desktop_step scr w3 w4"
    "clip (console.more w4) = (if clip (console.more w3) = secret then [] else clip (console.more w3))"
  proof (cases "clip (console.more w3) = secret")
    case True
    from cp obtain v where v: "cb_copy ?b [] u = Some (Inr (), v)" "desktop_step scr u v" "clip (console.more v) = []" by blast
    with clear_if_unchanged_reads [OF u(1)] True have "clear_if_unchanged secret ?b w3 = Some (Inr True, v)" by (simp add: pbind_def)
    with True v u(2) show ?thesis by (intro that [of v]) (auto simp: desktop_step_def intro: same.trans)
  next
    case False
    with clear_if_unchanged_reads [OF u(1)] u show ?thesis by (intro that [of u]) simp_all
  qed
  have an: "(case Some (x_echo x False line) of None \<Rightarrow> ret () | Some f \<Rightarrow> f) w1 = Some (Inr (), w2)" using 2(1) by simp
  from autoclear_run [where sleep = "x_sleep x" and timeout = timeout, OF 1(1) an 3(1) 4(1)] 3(3)
  have run: "copy_and_autoclear secret timeout ?b (x_sleep x) (Some (x_echo x False line)) w =
      Some (Inr \<lparr>cleared = (clip (console.more w3) = secret), interrupted = (r \<noteq> Inr ())\<rparr>, w4)" by auto
  have "same_session w w4" "sigterm w4 = sigterm w" "scr (console.more w4) = scr (console.more w) @ [(False, line)]"
    using 1(2) 2(2,3) 3(2) 4(2) k2(1) by (auto simp: desktop_step_def intro: same.trans)
  moreover have "same_session w w2" using 1(2) 2(2) by (auto simp: desktop_step_def intro: same.trans)
  ultimately show thesis using k2 1(2) 3(1,3) run 4(3) by (intro that [of w2 r w3 w4]) (simp_all add: desktop_step_def)
qed

text \<open>The command up to the clipboard session: the entry is read and the vault closed again.\<close>

lemma copy_start:
  fixes w :: "'z console_scheme"
  assumes "crypto_ok (x_crypto x)" and "echo_ok x scr"
    and "vault_at_rest (x_crypto x) pw es path w" and "keyboard w = Inr s # ks" and "utf8_encode s = Inr pw"
    and "find_entry i es = Some e" and "ready_to_write path w"
  obtains v where "vault_at_rest (x_crypto x) pw es path v" and "console.more v = console.more w" and "sigterm v = RaiseInterrupt"
    and "cli_copy x path i timeout w =
      pbind (with_finally
          (handle
             (copy_and_autoclear (e_password e) timeout (pyperclip_backend (x_clip_copy x) (x_clip_paste x))
                (x_sleep x) (Some (x_echo x False (copied_text e timeout))))
             (no_clipboard x))
          (pbind (set_sigterm (sigterm w)) (\<lambda>_. ret ()))) (copy_report x) v"
proof -
  let ?c = "x_crypto x"
  let ?b = "or_fail x is_not_found (repo_get i)"
  let ?P = "\<lambda>y (w2 :: 'z console_scheme). y = e \<and> r_entries w2 = es \<and> console.more w2 = console.more w \<and> sigterm w2 = sigterm w"
  have body: "\<exists>y w2. ?b w1 = Some (Inr y, w2) \<and> ?P y w2 \<and> body_ends ?c pw path w2"
    if "body_state ?c pw es path ks (console.more w) w1" "sigterm w1 = sigterm w" for w1
    using that found_runs [of i w1 e x is_not_found] assms(6) by (auto simp: body_state_def body_ends_def)
  obtain y w1 w1' where o: "with_repository x path ?b w = Some (Inr y, w1')" "?P y w1" "env w1 w1'"
      "vault_at_rest ?c pw (r_entries w1) path w1'"
    by (rule body_block [OF assms(1,3,7,4,5), where body = ?b and pw' = pw and P = ?P]) (rule body)
  note m = env_console(2,3) [OF o(3)]
  define v where "v = w1'\<lparr>sigterm := RaiseInterrupt\<rparr>"
  have "vault_at_rest ?c pw es path v" using o(2,4) rest_same [OF sigterm_fields(2) [of w1' RaiseInterrupt], of ?c pw es path] by (simp add: v_def)
  moreover have "console.more v = console.more w" using m o(2) by (simp add: v_def sigterm_fields(1))
  moreover have "set_sigterm RaiseInterrupt w1' = Some (Inr (sigterm w), v)" using m o(2) by (simp add: set_sigterm_def v_def)
  ultimately show thesis using o(1,2)
    by (intro that [of v]) (simp_all add: cli_copy_def pbind_def [of "with_repository x path m" for m]
        pbind_def [of "set_sigterm h" for h] v_def)
qed

text \<open>What the terminal says when the password is on the clipboard.\<close>

definition announcement :: "entry \<Rightarrow> int \<Rightarrow> pystr" where
  "announcement e timeout =
     lit ''Copied password for '' @ e_service e @ lit '' / '' @ e_username e @ lit '' to the clipboard.'' @ [10] @
     lit ''It will be cleared in '' @ show_int timeout @ lit ''s. Press Ctrl-C to clear now.''"

lemma announced [simp]: "announcement e timeout = copied_text e timeout"
  by (simp add: announcement_def copied_text_def)

text \<open>C24: \<open>copy\<close> puts the password on the clipboard and nowhere else: what it prints does not depend on it.
  When the wait begins SIGTERM raises \<open>KeyboardInterrupt\<close>; when the wait is over, in time or interrupted, the
  clipboard is cleared unless the user has copied something else, which is left alone and reported, and
  SIGTERM has its old action back when the command ends. The vault is closed before the wait begins.\<close>

theorem copy_clears_and_restores:
  fixes w :: "'z console_scheme"
  assumes "crypto_ok (x_crypto x)" and "echo_ok x scr" and "desktop_ok x scr clip"
    and "vault_at_rest (x_crypto x) pw es path w" and "keyboard w = Inr s # ks" and "utf8_encode s = Inr pw"
    and "find_entry i es = Some e" and "ready_to_write path w"
  shows "\<exists>w2 r w3 w'. vault_at_rest (x_crypto x) pw es path w2 \<and> sigterm w2 = RaiseInterrupt \<and>
    clip (console.more w2) = e_password e \<and> x_sleep x timeout w2 = Some (r, w3) \<and>
    cli_copy x path i timeout w = Some (Inr (), w') \<and> vault_at_rest (x_crypto x) pw es path w' \<and> sigterm w' = sigterm w \<and>
    clip (console.more w') = (if clip (console.more w3) = e_password e then [] else clip (console.more w3)) \<and>
    scr (console.more w') = scr (console.more w) @
      [(False, announcement (no_password e) timeout), report_line (clip (console.more w3) = e_password e) (r \<noteq> Inr ())]"
proof -
  let ?c = "x_crypto x"
  obtain v where v: "vault_at_rest ?c pw es path v" "console.more v = console.more w" "sigterm v = RaiseInterrupt"
      and run: "cli_copy x path i timeout w =
      pbind (with_finally
          (handle
             (copy_and_autoclear (e_password e) timeout (pyperclip_backend (x_clip_copy x) (x_clip_paste x))
                (x_sleep x) (Some (x_echo x False (copied_text e timeout))))
             (no_clipboard x))
          (pbind (set_sigterm (sigterm w)) (\<lambda>_. ret ()))) (copy_report x) v"
    by (rule copy_start [OF assms(1,2,4-8)])
  obtain w2 r w3 w4 where s: "clip (console.more w2) = e_password e" "sigterm w2 = sigterm v" "same_session v w2"
      "x_sleep x timeout w2 = Some (r, w3)"
      "copy_and_autoclear (e_password e) timeout (pyperclip_backend (x_clip_copy x) (x_clip_paste x)) (x_sleep x)
        (Some (x_echo x False (copied_text e timeout))) v =
      Some (Inr \<lparr>cleared = (clip (console.more w3) = e_password e), interrupted = (r \<noteq> Inr ())\<rparr>, w4)"
      "same_session v w4" "scr (console.more w4) = scr (console.more v) @ [(False, copied_text e timeout)]"
      "clip (console.more w4) = (if clip (console.more w3) = e_password e then [] else clip (console.more w3))"
    by (rule clipboard_session [OF assms(2,3), of "e_password e" v timeout "copied_text e timeout"]) blast
  define w5 where "w5 = w4\<lparr>sigterm := sigterm w\<rparr>"
  let ?cl = "clip (console.more w3) = e_password e" and ?i = "r \<noteq> Inr ()"
  obtain w' where rp: "copy_report x \<lparr>cleared = ?cl, interrupted = ?i\<rparr> w5 = Some (Inr (), w')" "same_session w5 w'"
    "scr (console.more w') = scr (console.more w5) @ [report_line ?cl ?i]" "sigterm w' = sigterm w5"
    "clip (console.more w') = clip (console.more w5)"
  proof -
    obtain w' where e: "x_echo x (fst (report_line ?cl ?i)) (snd (report_line ?cl ?i)) w5 = Some (Inr (), w')" "same_session w5 w'"
      "scr (console.more w') = scr (console.more w5) @ [(fst (report_line ?cl ?i), snd (report_line ?cl ?i))]"
      using assms(2) by (rule echo_once)
    from assms(3) e(1) have "sigterm w' = sigterm w5" "clip (console.more w') = clip (console.more w5)"
      unfolding desktop_ok_def by blast+
    moreover have "copy_report x \<lparr>cleared = ?cl, interrupted = ?i\<rparr> =
        x_echo x (fst (report_line ?cl ?i)) (snd (report_line ?cl ?i))"
      by (cases ?cl; cases ?i; simp add: copy_report_def report_line_def)
    ultimately show ?thesis using e by (intro that [of w']) simp_all
  qed
  have "same_session v w2" "same_session v w'"
    using s(3,6) rp(2) sigterm_fields(2) [of w4 "sigterm w"] by (auto simp: w5_def intro: same.trans)
  with v(1) have "vault_at_rest ?c pw es path w2" "vault_at_rest ?c pw es path w'" by (simp_all add: rest_same)
  moreover have "cli_copy x path i timeout w = Some (Inr (), w')"
    using s(5) rp(1) by (simp add: run pbind_def [of "with_finally a b" for a b] with_finally_def handle_def
        pbind_def [of "set_sigterm h" for h] set_sigterm_def w5_def)
  moreover have "copied_text (no_password e) timeout = copied_text e timeout" by (simp add: copied_text_def no_password_def)
  moreover have "console.more w5 = console.more w4" by (simp add: w5_def sigterm_fields(1))
  ultimately show ?thesis using s rp(3-5) v(2,3)
    by (intro exI [of _ w2] exI [of _ r] exI [of _ w3] exI [of _ w']) (simp add: w5_def)
qed

section \<open>A clipboard that may fail\<close>

text \<open>As \<open>desktop_ok\<close>, but each call of \<open>pyperclip\<close> may raise its exception, and then has no effect.\<close>

definition may_fail :: "'a result \<Rightarrow> (pystr \<Rightarrow> exn) \<Rightarrow> bool" where
  "may_fail r ex \<longleftrightarrow> (\<exists>m. r = Inl (ex m))"

definition desktop_flaky :: "'z console_scheme externals \<Rightarrow> ('z \<Rightarrow> (bool \<times> pystr) list) \<Rightarrow> ('z \<Rightarrow> pystr) \<Rightarrow> bool" where
  "desktop_flaky x scr clip \<longleftrightarrow>
     (\<forall>t w. \<exists>r w'. x_clip_copy x t w = Some (r, w') \<and> desktop_step scr w w' \<and>
        (r = Inr () \<and> clip (console.more w') = t \<or>
         may_fail r PyperclipException \<and> clip (console.more w') = clip (console.more w))) \<and>
     (\<forall>w. \<exists>r w'. x_clip_paste x w = Some (r, w') \<and> desktop_step scr w w' \<and> clip (console.more w') = clip (console.more w) \<and>
        (r = Inr (clip (console.more w)) \<or> may_fail r PyperclipException)) \<and>
     (\<forall>s w. \<exists>r w'. x_sleep x s w = Some (r, w') \<and> desktop_step scr w w' \<and> (r = Inr () \<or> r = Inl KeyboardInterrupt)) \<and>
     (\<forall>err t w w'. x_echo x err t w = Some (Inr (), w') \<longrightarrow>
        sigterm w' = sigterm w \<and> clip (console.more w') = clip (console.more w))"

text \<open>What the backend makes of it.\<close>

lemma flaky_copy:
  assumes "desktop_flaky x scr clip"
  obtains r v where "cb_copy (pyperclip_backend (x_clip_copy x) (x_clip_paste x)) t u = Some (r, v)" and "desktop_step scr u v"
    and "r = Inr () \<and> clip (console.more v) = t \<or>
      may_fail r ClipboardUnavailableError \<and> clip (console.more v) = clip (console.more u)"
proof -
  from assms obtain r v where r: "x_clip_copy x t u = Some (r, v)" "desktop_step scr u v"
    "r = Inr () \<and> clip (console.more v) = t \<or> may_fail r PyperclipException \<and> clip (console.more v) = clip (console.more u)"
    unfolding desktop_flaky_def by blast
  show thesis
  proof (cases "r = Inr ()")
    case True
    with r show thesis by (intro that [of r v]) (simp_all add: pyperclip_backend_def handle_def may_fail_def)
  next
    case False
    with r(3) obtain m where "r = Inl (PyperclipException m)" by (auto simp: may_fail_def)
    with r show thesis
      by (intro that [of "Inl (ClipboardUnavailableError m)" v])
         (simp_all add: pyperclip_backend_def handle_def may_fail_def unavailable_def)
  qed
qed

lemma flaky_paste:
  assumes "desktop_flaky x scr clip"
  obtains r v where "cb_paste (pyperclip_backend (x_clip_copy x) (x_clip_paste x)) u = Some (r, v)" and "desktop_step scr u v"
    and "clip (console.more v) = clip (console.more u)"
    and "r = Inr (clip (console.more u)) \<or> may_fail r ClipboardUnavailableError"
proof -
  from assms obtain r v where r: "x_clip_paste x u = Some (r, v)" "desktop_step scr u v"
    "clip (console.more v) = clip (console.more u)" "r = Inr (clip (console.more u)) \<or> may_fail r PyperclipException"
    unfolding desktop_flaky_def by blast
  show thesis
  proof (cases r)
    case (Inr t)
    with r show thesis by (intro that [of r v]) (simp_all add: pyperclip_backend_def handle_def may_fail_def)
  next
    case (Inl e)
    with r(4) obtain m where "r = Inl (PyperclipException m)" by (auto simp: may_fail_def)
    with r show thesis
      by (intro that [of "Inl (ClipboardUnavailableError m)" v])
         (simp_all add: pyperclip_backend_def handle_def may_fail_def unavailable_def)
  qed
qed

lemma flaky_clear:
  assumes d: "desktop_flaky x scr clip"
  obtains r v where "clear_if_unchanged secret (pyperclip_backend (x_clip_copy x) (x_clip_paste x)) u = Some (r, v)"
    and "desktop_step scr u v"
    and "r = Inr (clip (console.more u) = secret) \<and>
        clip (console.more v) = (if clip (console.more u) = secret then [] else clip (console.more u)) \<or>
      may_fail r ClipboardUnavailableError \<and> clip (console.more v) = clip (console.more u)"
proof -
  let ?b = "pyperclip_backend (x_clip_copy x) (x_clip_paste x)"
  obtain q u1 where p: "cb_paste ?b u = Some (q, u1)" "desktop_step scr u u1" "clip (console.more u1) = clip (console.more u)"
    "q = Inr (clip (console.more u)) \<or> may_fail q ClipboardUnavailableError" using d by (rule flaky_paste)
  obtain r v where c: "cb_copy ?b [] u1 = Some (r, v)" "desktop_step scr u1 v"
    "r = Inr () \<and> clip (console.more v) = [] \<or>
      may_fail r ClipboardUnavailableError \<and> clip (console.more v) = clip (console.more u1)" using d by (rule flaky_copy)
  have t: "desktop_step scr u v" using p(2) c(2) by (auto simp: desktop_step_def intro: same.trans)
  show thesis
  proof (cases "q = Inr (clip (console.more u))")
    case False
    with p(4) obtain m where "q = Inl (ClipboardUnavailableError m)" by (auto simp: may_fail_def)
    with p show thesis
      by (intro that [of "Inl (ClipboardUnavailableError m)" u1]) (simp_all add: clear_if_unchanged_def pbind_def may_fail_def)
  next
    case True
    show thesis
    proof (cases "clip (console.more u) = secret")
      case False
      with True p show thesis by (intro that [of "Inr False" u1]) (simp_all add: clear_if_unchanged_def pbind_def may_fail_def)
    next
      case secret: True
      with True p(1,3) c t show thesis
        by (cases r) (auto simp: clear_if_unchanged_def pbind_def may_fail_def intro: that)
    qed
  qed
qed

text \<open>The wait: the secret is on the clipboard, and SIGTERM has the action it had when the copy began.\<close>

definition waits :: "'z console_scheme externals \<Rightarrow> ('z \<Rightarrow> pystr) \<Rightarrow> pystr \<Rightarrow> int \<Rightarrow> 'z console_scheme \<Rightarrow>
    'z console_scheme \<Rightarrow> unit result \<Rightarrow> 'z console_scheme \<Rightarrow> bool" where
  "waits x clip secret timeout w w2 r w3 \<longleftrightarrow>
     clip (console.more w2) = secret \<and> sigterm w2 = sigterm w \<and> same_session w w2 \<and>
     x_sleep x timeout w2 = Some (r, w3) \<and> (r = Inr () \<or> r = Inl KeyboardInterrupt)"

text \<open>The session: the copy failed, or the wait took place and then the clearing worked or failed.\<close>

lemma flaky_session:
  fixes w :: "'z console_scheme"
  assumes e: "echo_ok x scr" and d: "desktop_flaky x scr clip"
  obtains q w4 where "copy_and_autoclear secret timeout (pyperclip_backend (x_clip_copy x) (x_clip_paste x)) (x_sleep x)
        (Some (x_echo x False line)) w = Some (q, w4)"
    and "same_session w w4" and "sigterm w4 = sigterm w"
    and "may_fail q ClipboardUnavailableError \<and> clip (console.more w4) = clip (console.more w) \<and>
        scr (console.more w4) = scr (console.more w) \<or>
      (\<exists>w2 r w3. waits x clip secret timeout w w2 r w3 \<and> scr (console.more w4) = scr (console.more w) @ [(False, line)] \<and>
        (q = Inr \<lparr>cleared = (clip (console.more w3) = secret), interrupted = (r \<noteq> Inr ())\<rparr> \<and>
           clip (console.more w4) = (if clip (console.more w3) = secret then [] else clip (console.more w3)) \<or>
         may_fail q ClipboardUnavailableError \<and> clip (console.more w4) = clip (console.more w3)))"
proof -
  let ?b = "pyperclip_backend (x_clip_copy x) (x_clip_paste x)"
  let ?run = "copy_and_autoclear secret timeout ?b (x_sleep x) (Some (x_echo x False line)) w"
  obtain q0 w1 where 1: "cb_copy ?b secret w = Some (q0, w1)" "desktop_step scr w w1"
    "q0 = Inr () \<and> clip (console.more w1) = secret \<or>
      may_fail q0 ClipboardUnavailableError \<and> clip (console.more w1) = clip (console.more w)" using d by (rule flaky_copy)
  show thesis
  proof (cases "q0 = Inr ()")
    case False
    with 1(3) obtain m where m: "q0 = Inl (ClipboardUnavailableError m)" by (auto simp: may_fail_def)
    with 1 show thesis
      by (intro that [of "Inl (ClipboardUnavailableError m)" w1])
         (simp_all add: copy_and_autoclear_def pbind_def may_fail_def desktop_step_def)
  next
    case True
    with 1(3) have c1: "clip (console.more w1) = secret" by (simp add: may_fail_def)
    obtain w2 where 2: "x_echo x False line w1 = Some (Inr (), w2)" "same_session w1 w2"
      "scr (console.more w2) = scr (console.more w1) @ [(False, line)]" using e by (rule echo_once)
    with d have k2: "sigterm w2 = sigterm w1" "clip (console.more w2) = secret" unfolding desktop_flaky_def using c1 by metis+
    from d obtain r w3 where 3: "x_sleep x timeout w2 = Some (r, w3)" "desktop_step scr w2 w3" "r = Inr () \<or> r = Inl KeyboardInterrupt"
      unfolding desktop_flaky_def by blast
    obtain q w4 where 4: "clear_if_unchanged secret ?b w3 = Some (q, w4)" "desktop_step scr w3 w4"
      "q = Inr (clip (console.more w3) = secret) \<and>
          clip (console.more w4) = (if clip (console.more w3) = secret then [] else clip (console.more w3)) \<or>
        may_fail q ClipboardUnavailableError \<and> clip (console.more w4) = clip (console.more w3)" using d by (rule flaky_clear)
    have wt: "waits x clip secret timeout w w2 r w3"
      using 1(2) 2(2) k2 3(1,3) by (auto simp: waits_def desktop_step_def intro: same.trans)
    have f: "same_session w w4" "sigterm w4 = sigterm w" "scr (console.more w4) = scr (console.more w) @ [(False, line)]"
      using 1(2) 2(2,3) 3(2) 4(2) k2(1) by (auto simp: desktop_step_def intro: same.trans)
    have i: "interruptible (x_sleep x timeout) w2 = Some (Inr (r \<noteq> Inr ()), w3)"
      using interruptible_run [where sleep = "x_sleep x timeout", OF 3(1)] 3(3) by auto
    have run: "?run = Some (rbind q (\<lambda>c. Inr \<lparr>cleared = c, interrupted = (r \<noteq> Inr ())\<rparr>), w4)"
      using 1(1) True 2(1) i 4(1) by (cases q) (simp_all add: copy_and_autoclear_def pbind_def finally_value_def)
    from 4(3) show thesis
    proof
      assume "q = Inr (clip (console.more w3) = secret) \<and>
          clip (console.more w4) = (if clip (console.more w3) = secret then [] else clip (console.more w3))"
      with run wt f show thesis by (intro that [OF run f(1,2)]) auto
    next
      assume a: "may_fail q ClipboardUnavailableError \<and> clip (console.more w4) = clip (console.more w3)"
      then obtain m where "q = Inl (ClipboardUnavailableError m)" by (auto simp: may_fail_def)
      with wt f a show thesis by (intro that [OF run f(1,2)]) (auto simp: may_fail_def)
    qed
  qed
qed

text \<open>The line the command prints for every exception of the clipboard.\<close>

definition no_clipboard_line :: "pystr \<Rightarrow> bool \<times> pystr" where
  "no_clipboard_line m =
     (True, lit ''Error: '' @ lit ''no system clipboard available (on Linux install xclip/xsel for X11, or wl-clipboard for Wayland): '' @ m)"

text \<open>C25: \<open>copy\<close> when any call of \<open>pyperclip\<close> may fail. If the copy fails, nothing was announced, the clipboard
  is as it was and the exit status is 1. If it works, the wait takes place, and afterwards the clipboard is
  cleared (or left alone if the user has copied something else) and this is reported, or the clearing
  fails: then the secret stays on the clipboard, and the command ends with the very message that says
  there is no clipboard. In every case the vault is closed and unchanged and SIGTERM has its old action.\<close>

theorem copy_when_the_clipboard_fails:
  fixes w :: "'z console_scheme"
  assumes "crypto_ok (x_crypto x)" and "echo_ok x scr" and "desktop_flaky x scr clip"
    and "vault_at_rest (x_crypto x) pw es path w" and "keyboard w = Inr s # ks" and "utf8_encode s = Inr pw"
    and "find_entry i es = Some e" and "ready_to_write path w"
  shows "\<exists>r w'. cli_copy x path i timeout w = Some (r, w') \<and> vault_at_rest (x_crypto x) pw es path w' \<and> sigterm w' = sigterm w \<and>
    ((\<exists>m. r = Inl (SystemExit 1) \<and> clip (console.more w') = clip (console.more w) \<and>
        scr (console.more w') = scr (console.more w) @ [no_clipboard_line m]) \<or>
     (\<exists>v w2 q w3. sigterm v = RaiseInterrupt \<and> waits x clip (e_password e) timeout v w2 q w3 \<and>
        (r = Inr () \<and> clip (console.more w') = (if clip (console.more w3) = e_password e then [] else clip (console.more w3)) \<and>
           scr (console.more w') = scr (console.more w) @
             [(False, announcement e timeout), report_line (clip (console.more w3) = e_password e) (q \<noteq> Inr ())] \<or>
         (\<exists>m. r = Inl (SystemExit 1) \<and> clip (console.more w') = clip (console.more w3) \<and>
           scr (console.more w') = scr (console.more w) @ [(False, announcement e timeout), no_clipboard_line m]))))"
proof -
  let ?c = "x_crypto x"
  let ?session = "copy_and_autoclear (e_password e) timeout (pyperclip_backend (x_clip_copy x) (x_clip_paste x))
                (x_sleep x) (Some (x_echo x False (copied_text e timeout)))"
  obtain v where v: "vault_at_rest ?c pw es path v" "console.more v = console.more w" "sigterm v = RaiseInterrupt"
      and run: "cli_copy x path i timeout w =
      pbind (with_finally (handle ?session (no_clipboard x)) (pbind (set_sigterm (sigterm w)) (\<lambda>_. ret ()))) (copy_report x) v"
    by (rule copy_start [OF assms(1,2,4-8)])
  obtain q w4 where s: "?session v = Some (q, w4)" "same_session v w4" "sigterm w4 = sigterm v"
    and o: "may_fail q ClipboardUnavailableError \<and> clip (console.more w4) = clip (console.more v) \<and>
        scr (console.more w4) = scr (console.more v) \<or>
      (\<exists>w2 r w3. waits x clip (e_password e) timeout v w2 r w3 \<and>
        scr (console.more w4) = scr (console.more v) @ [(False, copied_text e timeout)] \<and>
        (q = Inr \<lparr>cleared = (clip (console.more w3) = e_password e), interrupted = (r \<noteq> Inr ())\<rparr> \<and>
           clip (console.more w4) = (if clip (console.more w3) = e_password e then [] else clip (console.more w3)) \<or>
         may_fail q ClipboardUnavailableError \<and> clip (console.more w4) = clip (console.more w3)))"
    by (rule flaky_session [OF assms(2,3)]) blast
  have printed: "\<exists>u'. x_echo x (fst l) (snd l) u = Some (Inr (), u') \<and> same_session u u' \<and> sigterm u' = sigterm u \<and>
      scr (console.more u') = scr (console.more u) @ [l] \<and> clip (console.more u') = clip (console.more u)" for l and u
  proof -
    obtain u' where u': "x_echo x (fst l) (snd l) u = Some (Inr (), u')" "same_session u u'"
      "scr (console.more u') = scr (console.more u) @ [(fst l, snd l)]" using assms(2) by (rule echo_once)
    from assms(3) u'(1) have "sigterm u' = sigterm u" "clip (console.more u') = clip (console.more u)"
      unfolding desktop_flaky_def by blast+
    with u' show ?thesis by (intro exI [of _ u']) simp
  qed
  have ended: "vault_at_rest ?c pw es path (w'\<lparr>sigterm := h\<rparr>)" if "same_session v w'" for w' h
    using v(1) rest_same [OF that] rest_same [OF sigterm_fields(2) [of w' h], of ?c pw es path] by simp
  show ?thesis
  proof (cases q)
    case (Inr y)
    with o obtain w2 r w3 where wt: "waits x clip (e_password e) timeout v w2 r w3"
      and sc: "scr (console.more w4) = scr (console.more v) @ [(False, copied_text e timeout)]"
      and y: "y = \<lparr>cleared = (clip (console.more w3) = e_password e), interrupted = (r \<noteq> Inr ())\<rparr>"
      and cl: "clip (console.more w4) = (if clip (console.more w3) = e_password e then [] else clip (console.more w3))"
      by (auto simp: may_fail_def)
    define w5 where "w5 = w4\<lparr>sigterm := sigterm w\<rparr>"
    have m5: "console.more w5 = console.more w4" by (simp add: w5_def sigterm_fields(1))
    let ?l = "report_line (clip (console.more w3) = e_password e) (r \<noteq> Inr ())"
    from printed [of ?l w5] obtain w' where e: "x_echo x (fst ?l) (snd ?l) w5 = Some (Inr (), w')" "same_session w5 w'"
      "sigterm w' = sigterm w5" "scr (console.more w') = scr (console.more w5) @ [?l]" "clip (console.more w') = clip (console.more w5)"
      by blast
    have "copy_report x y = x_echo x (fst ?l) (snd ?l)" by (auto simp: copy_report_def report_line_def y)
    with s(1) Inr e(1) have "cli_copy x path i timeout w = Some (Inr (), w')"
      by (simp add: run pbind_def [of "with_finally a b" for a b] with_finally_def handle_def
          pbind_def [of "set_sigterm h" for h] set_sigterm_def w5_def)
    moreover have "vault_at_rest ?c pw es path w'"
      using ended [OF s(2), of "sigterm w"] rest_same [OF e(2), of ?c pw es path] by (simp add: w5_def)
    moreover have "sigterm w' = sigterm w" using e(3) by (simp add: w5_def)
    moreover have "clip (console.more w') = (if clip (console.more w3) = e_password e then [] else clip (console.more w3))"
      "scr (console.more w') = scr (console.more w) @ [(False, copied_text e timeout), ?l]"
      using sc cl e(4,5) m5 v(2) by simp_all
    ultimately show ?thesis unfolding announced using wt v(3) by blast
  next
    case (Inl ex)
    with o obtain m where m: "ex = ClipboardUnavailableError m" by (auto simp: may_fail_def)
    from printed [of "no_clipboard_line m" w4] obtain w5 where e:
      "x_echo x True (snd (no_clipboard_line m)) w4 = Some (Inr (), w5)" "same_session w4 w5" "sigterm w5 = sigterm w4"
      "scr (console.more w5) = scr (console.more w4) @ [no_clipboard_line m]" "clip (console.more w5) = clip (console.more w4)"
      by (auto simp: no_clipboard_line_def)
    define w' where "w' = w5\<lparr>sigterm := sigterm w\<rparr>"
    have f: "no_clipboard x ex w4 = Some (Inl (SystemExit 1) :: clipboard_session_result result, w5)"
      using e(1) by (simp add: no_clipboard_def m fail_def pbind_def no_clipboard_line_def)
    have "cli_copy x path i timeout w = Some (Inl (SystemExit 1), w')"
      using s(1) Inl f by (simp add: run pbind_def [of "with_finally a b" for a b] with_finally_def handle_def
          pbind_def [of "set_sigterm h" for h] set_sigterm_def w'_def)
    moreover have "vault_at_rest ?c pw es path w'" unfolding w'_def by (rule ended [OF same.trans [OF s(2) e(2)]])
    moreover have m': "console.more w' = console.more w5" "sigterm w' = sigterm w" by (simp_all add: w'_def sigterm_fields(1))
    moreover from o Inl consider
        (none) "clip (console.more w4) = clip (console.more v)" "scr (console.more w4) = scr (console.more v)"
      | (stays) w2 r w3 where "waits x clip (e_password e) timeout v w2 r w3" "clip (console.more w4) = clip (console.more w3)"
          "scr (console.more w4) = scr (console.more v) @ [(False, copied_text e timeout)]" by auto
    then have "clip (console.more w') = clip (console.more w) \<and> scr (console.more w') = scr (console.more w) @ [no_clipboard_line m] \<or>
      (\<exists>w2 r w3. waits x clip (e_password e) timeout v w2 r w3 \<and> clip (console.more w') = clip (console.more w3) \<and>
        scr (console.more w') = scr (console.more w) @ [(False, copied_text e timeout), no_clipboard_line m])"
    proof cases
      case none
      with e(4,5) v(2) m' show ?thesis by simp
    next
      case (stays w2 r w3)
      with e(4,5) v(2) m' show ?thesis by (intro disjI2 exI [of _ w2] exI [of _ r] exI [of _ w3]) simp
    qed
    ultimately show ?thesis unfolding announced using v(3) by blast
  qed
qed

end
