(* ===== verification/CliInit.thy ===== *)
theory CliInit
  imports CommandRefinement CliEdits
begin

text \<open>
  \<open>init\<close> whatever fails: the path is left as it was, or there is a complete empty vault under the
  password that was typed twice; and no power loss on the way can leave anything else.
\<close>

section \<open>What is typed\<close>

lemma master_password_typed:
  assumes "read_master_password x True w = Some (Inr pw, w')"
  shows "\<exists>s ks. keyboard w = Inr s # Inr s # ks \<and> s \<noteq> [] \<and> utf8_encode s = Inr pw"
proof -
  from assms obtain s ks where k: "keyboard w = Inr s # ks" "s \<noteq> []" "utf8_encode s = Inr pw"
    and c: "confirm_new_password x s (w\<lparr>keyboard := ks\<rparr>) = Some (Inr (), w')"
    by (auto simp: read_master_password_def getpass_def result_simps fail_no_value split: list.splits if_splits)
  from c k(3) obtain s' rest where "ks = Inr s' # rest" "utf8_encode s' = Inr pw"
    by (auto simp: confirm_new_password_def getpass_def passwords_match_def result_simps fail_no_value
        split: list.splits if_splits)
  with k show ?thesis by (auto dest: utf8_encode_inj)
qed

text \<open>The files \<open>init\<close> may write: an empty vault under the password that is typed first and again.\<close>

definition typed_vault :: "crypto \<Rightarrow> 'z console_scheme \<Rightarrow> bytes \<Rightarrow> bool" where
  "typed_vault c w b \<longleftrightarrow>
     (\<exists>s ks pw. keyboard w = Inr s # Inr s # ks \<and> s \<noteq> [] \<and> utf8_encode s = Inr pw \<and> file_holds c pw [] b)"

section \<open>Creating and closing\<close>

lemma create_close_outcome:
  fixes w :: "'z session_scheme"
  assumes c: "crypto_ok c" and o: "outside path w"
    and r: "pbind (repo_create c rp path pw None) (\<lambda>_. repo_close) w = Some (q, w')"
  shows "(file_content path w' = file_content path w \<and> (\<exists>e. q = Inl e) \<or> vault_holds c pw [] path w') \<and>
    endures path (file_holds c pw []) w w'"
proof -
  let ?G = "file_holds c pw []"
  have p: "params_ok (params_or_default None)" by (simp add: params_or_default_def)
  from r obtain q0 w1 where ex: "path_exists path w = Some (q0, w1)"
    by (auto simp: repo_create_def pbind_def split: option.splits)
  from path_exists_frame [OF ex] have "w1 = w\<lparr>calls := calls w1, disk_trace := disk_trace w1\<rparr>" by auto
  note f1 = calls_frame [OF this]
  have e1: "endures path ?G w w1" using diskless_endures [OF followsD [OF still_calls(5) ex]] .
  have stop: ?thesis if "w' = w1" "\<exists>e. q = Inl e" using that f1 e1 by simp
  show ?thesis
  proof (cases "q0 = Inr False")
    case False
    with r ex have "w' = w1 \<and> (\<exists>e. q = Inl e)" by (cases q0) (auto simp: repo_create_def pbind_def)
    with stop show ?thesis by blast
  next
    case True
    with r ex obtain q1 w2 where cr: "create_locked c rp path pw None w1 = Some (q1, w2)"
      and cl: "(case q1 of Inl e \<Rightarrow> Some (Inl e, w2) | Inr u \<Rightarrow> repo_close w2) = Some (q, w')"
      by (auto simp: repo_create_def pbind_def split: option.splits)
    have o1: "outside path w1" using o f1 by simp
    from enduring.trans [OF e1 create_locked_endures [OF c p o1 cr]] have e2: "endures path ?G w w2" .
    show ?thesis
    proof (cases q1)
      case (Inl e)
      with cl create_locked_content [OF c p o1 cr] e2 f1 show ?thesis by auto
    next
      case (Inr u)
      with create_locked_ok [OF c o1 p, of rp pw u w2] cr have l: "live c pw w2" "vault_holds c pw [] path w2" by auto
      from repo_close_ok [OF l(1)] cl Inr have "disk w' = disk w2" "cwd w' = cwd w2" by auto
      with l(2) have "vault_holds c pw [] path w'" by (simp add: vault_holds_def file_content_def resolve_def)
      moreover have "repo_close w2 = Some (q, w')" using cl Inr by simp
      from enduring.trans [OF e2 diskless_endures [OF followsD [OF still_repo_close this]]] have "endures path ?G w w'" .
      ultimately show ?thesis by simp
    qed
  qed
qed

section \<open>The command\<close>

text \<open>A step that may write one of the typed vaults, and nothing else.\<close>

definition init_step :: "pystr \<Rightarrow> (bytes \<Rightarrow> bool) \<Rightarrow> bool \<Rightarrow> 'z session_scheme \<Rightarrow> 'z session_scheme \<Rightarrow> bool" where
  "init_step path good returned w w' \<longleftrightarrow>
     (file_content path w' = file_content path w \<and> \<not> returned \<or> (\<exists>b. file_content path w' = Some b \<and> good b)) \<and>
     endures path good w w'"

lemma init_step_same:
  assumes "same_session w1 w2"
  shows "init_step path good b w w1 \<Longrightarrow> init_step path good b w w2"
    and "init_step path good b w2 w3 \<Longrightarrow> init_step path good b w1 w3"
  using content_same [OF assms, of path] enduring.trans [OF _ diskless_endures [OF same_diskless [OF assms]]]
    diskless_start [OF same_diskless [OF assms]]
  by (auto simp: init_step_def)

lemma cli_init_step:
  fixes w :: "'z console_scheme"
  assumes c: "crypto_ok (x_crypto x)" and t: "externals_tame x" and o: "outside path w"
    and r: "cli_init x path w = Some (r, w')"
  shows "init_step path (typed_vault (x_crypto x) w) (r = Inr ()) w w' \<and>
    (d_names (disk w) (resolve w path) \<noteq> None \<and> faults w (calls w) = None \<longrightarrow>
       file_content path w' = file_content path w \<and> r \<noteq> Inr ())"
proof -
  let ?c = "x_crypto x" and ?G = "typed_vault (x_crypto x) w"
  from r obtain q0 w1 where ex: "path_exists path w = Some (q0, w1)" by (auto simp: cli_init_def pbind_def split: option.splits)
  from path_exists_frame [OF ex] have w1: "w1 = w\<lparr>calls := calls w1, disk_trace := disk_trace w1\<rparr>" by auto
  note f1 = calls_frame [OF w1]
  have k1: "keyboard w1 = keyboard w" by (subst w1) simp
  have d1: "diskless w w1" using followsD [OF still_calls(5) ex] .
  have s1: "init_step path ?G False w w1" using f1 diskless_endures [OF d1] by (simp add: init_step_def)
  have same: ?thesis if "same_session w1 w'" "r \<noteq> Inr ()"
    using init_step_same(1) [OF that(1) s1] content_same [OF that(1), of path] f1 that(2) by simp
  show ?thesis
  proof (cases "q0 = Inr False")
    case False
    show ?thesis
    proof (cases q0)
      case (Inl e)
      with ex r show ?thesis by (intro same) (auto simp: cli_init_def pbind_def same.refl)
    next
      case (Inr b)
      with False ex r have f: "fail x (path @ lit '' already exists'') w1 = Some (r, w')" by (simp add: cli_init_def pbind_def)
      show ?thesis using followsD [OF fail_same [OF t] f] fail_raises [OF f] by (intro same) auto
    qed
  next
    case True
    with ex have none: "\<not> (d_names (disk w) (resolve w path) \<noteq> None \<and> faults w (calls w) = None)"
      by (auto simp: path_exists_def handle_def syscall_def resolve_def)
    let ?make = "\<lambda>pw. pbind (repo_create ?c (x_repr x) path pw None) (\<lambda>_. repo_close)"
    from True ex r have g: "pbind (read_master_password x True) (\<lambda>pw. pbind (or_fail x is_vault_error (?make pw))
        (\<lambda>_. x_echo x False (lit ''Created vault at '' @ path))) w1 = Some (r, w')"
      by (simp add: cli_init_def pbind_def [of "path_exists path"])
    then obtain q1 w2 where mp: "read_master_password x True w1 = Some (q1, w2)" by (auto simp: pbind_def split: option.splits)
    have s2: "same_session w1 w2" using followsD [OF master_password_same [OF t] mp] .
    show ?thesis
    proof (cases q1)
      case (Inl e)
      with g mp s2 show ?thesis by (intro same) (auto simp: pbind_def)
    next
      case (Inr pw)
      from master_password_typed [OF mp [unfolded Inr]] have typed: "?G b" if "file_holds ?c pw [] b" for b
        using that unfolding typed_vault_def k1 by blast
      have o2: "outside path w2" using o f1 same_sessionD [OF s2] by simp
      from g mp Inr have g2: "pbind (or_fail x is_vault_error (?make pw)) (\<lambda>_. x_echo x False (lit ''Created vault at '' @ path)) w2
          = Some (r, w')" by (simp add: pbind_def [of "read_master_password x True"])
      have "?make pw w2 \<noteq> None"
      proof
        assume "?make pw w2 = None"
        then have "or_fail x is_vault_error (?make pw) w2 = None" by (simp add: or_fail_def handle_def)
        with g2 show False by (simp add: pbind_def [of "or_fail x is_vault_error (?make pw)"])
      qed
      then obtain q3 w3 where m: "?make pw w2 = Some (q3, w3)" by auto
      from create_close_outcome [OF c o2 m] endures_mono [of path "file_holds ?c pw []" w2 w3 ?G] typed
      have "init_step path ?G (\<exists>y. q3 = Inr y) w2 w3" by (auto simp: init_step_def vault_holds_def)
      with init_step_same(2) [OF s2] have "init_step path ?G (\<exists>y. q3 = Inr y) w1 w3" by blast
      then have s3: "init_step path ?G (\<exists>y. q3 = Inr y) w w3"
        using f1(2) diskless_start [OF d1] by (auto simp: init_step_def)
      have "same_session w3 w' \<and> (r = Inr () \<longrightarrow> (\<exists>y. q3 = Inr y))"
      proof (cases q3)
        case (Inr y)
        with g2 m have "x_echo x False (lit ''Created vault at '' @ path) w3 = Some (r, w')"
          by (simp add: pbind_def or_fail_def handle_def)
        from followsD [OF externals_same(1) [OF t] this] Inr show ?thesis by simp
      next
        case (Inl e)
        show ?thesis
        proof (cases "is_vault_error e")
          case False
          with Inl g2 m show ?thesis by (auto simp: pbind_def or_fail_def handle_def same.refl)
        next
          case True
          with Inl m have h: "or_fail x is_vault_error (?make pw) w2 = fail x (exn_str x e) w3"
            by (simp add: or_fail_def handle_def)
          with g2 obtain q4 :: "unit result" and w4 where f: "fail x (exn_str x e) w3 = Some (q4, w4)" by (auto simp: pbind_def split: option.splits)
          from fail_raises [OF f] obtain e' where "q4 = Inl e'" by blast
          with g2 h f followsD [OF fail_same [OF t] f] show ?thesis by (auto simp: pbind_def)
        qed
      qed
      with s3 have "init_step path ?G (r = Inr ()) w w3" by (auto simp: init_step_def)
      with init_step_same(1) \<open>same_session w3 w' \<and> _\<close> none show ?thesis by blast
    qed
  qed
qed

text \<open>C22: \<open>init\<close>, whatever system call, prompt or print fails: it leaves the path as it was, or there is
  a complete empty vault under the password that was typed twice, and there is one if it ended normally;
  a power loss at any moment on the way leaves the path as it could have been before, or such a vault;
  an existing file is left alone unless the call that looks for it fails; and the lock is as free as before.\<close>

theorem init_all_or_nothing:
  fixes w :: "'z console_scheme"
  assumes "crypto_ok (x_crypto x)" and "externals_tame x" and "outside path w"
    and "run_command x (Init path) w = Some (r, w')"
  shows "(file_content path w' = file_content path w \<and> r \<noteq> Inr () \<or>
      (\<exists>b. file_content path w' = Some b \<and> typed_vault (x_crypto x) w b)) \<and>
    (\<exists>ds. disk_trace w' = disk_trace w @ ds \<and>
       (\<forall>d \<in> set (disk w' # ds). \<forall>found. may_survive d (resolve w path) found \<longrightarrow>
          may_survive (disk w) (resolve w path) found \<or> (\<exists>b. found = Some b \<and> typed_vault (x_crypto x) w b))) \<and>
    (d_names (disk w) (resolve w path) \<noteq> None \<and> faults w (calls w) = None \<longrightarrow>
       file_content path w' = file_content path w \<and> r \<noteq> Inr ()) \<and>
    outside path w' \<and> locked w' (path @ lit ''.lock'') = locked w (path @ lit ''.lock'')"
proof -
  from assms(4) have r: "cli_init x path w = Some (r, w')" by simp
  from followsD [OF commands_kept(1) [OF assms(2)] r] assms(3) have "outside path w' \<and>
      locked w' (path @ lit ''.lock'') = locked w (path @ lit ''.lock'')" by (simp add: lock_kept_def)
  with cli_init_step [OF assms(1-3) r] show ?thesis by (auto simp: init_step_def endures_def)
qed

end
