(* ===== verification/CliOptions.thy ===== *)
theory CliOptions
  imports Cli
begin

text \<open>
  \<open>src/securevault/cli.py\<close>: the declarations of the commands' arguments and options, with their defaults
  and ranges, and \<open>main\<close>. How \<open>click\<close> splits the words of the command line is not modelled: a \<open>line\<close> is
  what it has found, \<open>None\<close> for an option that was not given. Its two conversions that can refuse,
  \<open>click.IntRange\<close> and \<open>click.Path\<close>, are parameters; a refused line runs nothing.
\<close>

record 'w click =
  int_range :: "int \<Rightarrow> int \<Rightarrow> int \<Rightarrow> int result"
  file_path :: "pystr \<Rightarrow> ('w, pystr) prog"

text \<open>An option that is not given has its default, which goes through the conversion as well.\<close>

definition given :: "'a option \<Rightarrow> 'a \<Rightarrow> 'a" where
  "given v d = (case v of None \<Rightarrow> d | Some y \<Rightarrow> y)"

record gen_options =
  o_length :: "int option"
  o_upper :: "bool option"
  o_lower :: "bool option"
  o_digits :: "bool option"
  o_symbols :: "bool option"
  o_exclude_ambiguous :: bool

definition password_gen_options :: "'w click \<Rightarrow> gen_options \<Rightarrow> gen_kwargs result" where
  "password_gen_options ck opts =
     rbind (int_range ck MIN_LENGTH MAX_LENGTH (given (o_length opts) DEFAULT_LENGTH)) (\<lambda>n.
     Inr \<lparr>g_length = n, g_upper = given (o_upper opts) True, g_lower = given (o_lower opts) True,
          g_digits = given (o_digits opts) True, g_symbols = given (o_symbols opts) True,
          g_exclude_ambiguous = o_exclude_ambiguous opts\<rparr>)"

section \<open>One function per command\<close>

definition init_args :: "'w click \<Rightarrow> pystr \<Rightarrow> ('w, command) prog" where
  "init_args ck path = pbind (file_path ck path) (\<lambda>p. ret (Init p))"

definition add_args ::
  "'w click \<Rightarrow> pystr \<Rightarrow> pystr \<Rightarrow> pystr \<Rightarrow> pystr option \<Rightarrow> bool option \<Rightarrow> gen_options \<Rightarrow> ('w, command) prog" where
  "add_args ck path service username notes generate opts =
     pbind (file_path ck path) (\<lambda>p.
     pbind (lift (password_gen_options ck opts)) (\<lambda>k.
     ret (Add p service username (given notes []) (given generate False) k)))"

definition list_args :: "'w click \<Rightarrow> pystr \<Rightarrow> ('w, command) prog" where
  "list_args ck path = pbind (file_path ck path) (\<lambda>p. ret (ListAll p))"

definition get_args :: "'w click \<Rightarrow> pystr \<Rightarrow> pystr \<Rightarrow> bool \<Rightarrow> ('w, command) prog" where
  "get_args ck path entry_id show_flag = pbind (file_path ck path) (\<lambda>p. ret (Get p entry_id show_flag))"

definition copy_args :: "'w click \<Rightarrow> pystr \<Rightarrow> pystr \<Rightarrow> int option \<Rightarrow> ('w, command) prog" where
  "copy_args ck path entry_id timeout =
     pbind (file_path ck path) (\<lambda>p.
     pbind (lift (int_range ck 1 600 (given timeout DEFAULT_TIMEOUT_SECONDS))) (\<lambda>t.
     ret (Copy p entry_id t)))"

definition update_args ::
  "'w click \<Rightarrow> pystr \<Rightarrow> pystr \<Rightarrow> pystr option \<Rightarrow> pystr option \<Rightarrow> pystr option \<Rightarrow> bool option \<Rightarrow> gen_options \<Rightarrow>
     ('w, command) prog" where
  "update_args ck path entry_id service username notes generate opts =
     pbind (file_path ck path) (\<lambda>p.
     pbind (lift (password_gen_options ck opts)) (\<lambda>k.
     ret (Update p entry_id service username notes generate k)))"

definition delete_args :: "'w click \<Rightarrow> pystr \<Rightarrow> pystr \<Rightarrow> bool \<Rightarrow> ('w, command) prog" where
  "delete_args ck path entry_id yes = pbind (file_path ck path) (\<lambda>p. ret (Delete p entry_id yes))"

definition passwd_args :: "'w click \<Rightarrow> pystr \<Rightarrow> ('w, command) prog" where
  "passwd_args ck path = pbind (file_path ck path) (\<lambda>p. ret (Passwd p))"

definition generate_args :: "'w click \<Rightarrow> gen_options \<Rightarrow> ('w, command) prog" where
  "generate_args ck opts = pbind (lift (password_gen_options ck opts)) (\<lambda>k. ret (Generate k))"

datatype line =
    InitLine pystr
  | AddLine pystr pystr pystr "pystr option" "bool option" gen_options
  | ListLine pystr
  | GetLine pystr pystr bool
  | CopyLine pystr pystr "int option"
  | UpdateLine pystr pystr "pystr option" "pystr option" "pystr option" "bool option" gen_options
  | DeleteLine pystr pystr bool
  | PasswdLine pystr
  | GenerateLine gen_options

fun parse_line :: "'w click \<Rightarrow> line \<Rightarrow> ('w, command) prog" where
  "parse_line ck (InitLine path) = init_args ck path"
| "parse_line ck (AddLine path s u n g opts) = add_args ck path s u n g opts"
| "parse_line ck (ListLine path) = list_args ck path"
| "parse_line ck (GetLine path i show_flag) = get_args ck path i show_flag"
| "parse_line ck (CopyLine path i t) = copy_args ck path i t"
| "parse_line ck (UpdateLine path i s u n g opts) = update_args ck path i s u n g opts"
| "parse_line ck (DeleteLine path i yes) = delete_args ck path i yes"
| "parse_line ck (PasswdLine path) = passwd_args ck path"
| "parse_line ck (GenerateLine opts) = generate_args ck opts"

definition main :: "'z console_scheme externals \<Rightarrow> 'z console_scheme click \<Rightarrow> line \<Rightarrow> ('z console_scheme, unit) prog" where
  "main x ck line = pbind (parse_line ck line) (run_command x)"

section \<open>What is relied on\<close>

text \<open>\<open>IntRange\<close> gives back a number of the range and refuses any other; \<open>Path\<close> gives back the path or refuses it.\<close>

definition click_ok :: "'w click \<Rightarrow> bool" where
  "click_ok ck \<longleftrightarrow>
     (\<forall>lo hi v. if lo \<le> v \<and> v \<le> hi then int_range ck lo hi v = Inr v else \<exists>e. int_range ck lo hi v = Inl e) \<and>
     (\<forall>p w. \<exists>r. file_path ck p w = Some (r, w) \<and> (\<forall>q. r = Inr q \<longrightarrow> q = p))"

lemma int_range_Inr: "click_ok ck \<Longrightarrow> int_range ck lo hi v = Inr n \<longleftrightarrow> n = v \<and> lo \<le> v \<and> v \<le> hi"
  unfolding click_ok_def by (metis Inl_Inr_False sum.inject(2))

lemma int_range_refuses: "click_ok ck \<Longrightarrow> \<not> (lo \<le> v \<and> v \<le> hi) \<Longrightarrow> \<exists>e. int_range ck lo hi v = Inl e"
  unfolding click_ok_def by meson

lemma file_path_Inr: "click_ok ck \<Longrightarrow> file_path ck p w = Some (Inr q, w') \<Longrightarrow> q = p \<and> w' = w"
  unfolding click_ok_def by (metis option.inject prod.inject)

definition wanted :: "gen_options \<Rightarrow> gen_kwargs" where
  "wanted opts = \<lparr>g_length = given (o_length opts) DEFAULT_LENGTH, g_upper = given (o_upper opts) True,
     g_lower = given (o_lower opts) True, g_digits = given (o_digits opts) True, g_symbols = given (o_symbols opts) True,
     g_exclude_ambiguous = o_exclude_ambiguous opts\<rparr>"

lemma password_gen_options_Inr:
  "click_ok ck \<Longrightarrow> password_gen_options ck opts = Inr k \<longleftrightarrow>
     k = wanted opts \<and> 8 \<le> given (o_length opts) DEFAULT_LENGTH \<and> given (o_length opts) DEFAULT_LENGTH \<le> 256"
  by (auto simp: password_gen_options_def rbind_Inr_iff int_range_Inr wanted_def MIN_LENGTH_def MAX_LENGTH_def)

end
