(* ===== verification/CliOptionsProperties.thy ===== *)
theory CliOptionsProperties
  imports CliOptions CliRuns
begin

text \<open>
  What the declarations of the options guarantee to the commands, and the command \<open>generate\<close> from its
  options to the password on the terminal.
\<close>

section \<open>Bounds\<close>

definition policy_of :: "command \<Rightarrow> password_policy option" where
  "policy_of c =
     (case c of
        Add path s u n g k \<Rightarrow> Some (policy_from_kwargs k)
      | Update path i s u n g k \<Rightarrow> Some (policy_from_kwargs k)
      | Generate k \<Rightarrow> Some (policy_from_kwargs k)
      | _ \<Rightarrow> None)"

definition timeout_of :: "command \<Rightarrow> int option" where
  "timeout_of c = (case c of Copy path i t \<Rightarrow> Some t | _ \<Rightarrow> None)"

text \<open>Only one complaint about a policy is left for the generator, and no wait is empty or negative.\<close>

definition in_bounds :: "command \<Rightarrow> bool" where
  "in_bounds c \<longleftrightarrow>
     (case policy_of c of
        None \<Rightarrow> True
      | Some p \<Rightarrow> validate_policy p =
          (if any_category p then Inr () else Inl (ValueError (lit ''at least one character category must be enabled'')))) \<and>
     (case timeout_of c of None \<Rightarrow> True | Some t \<Rightarrow> 1 \<le> t \<and> t \<le> 600)"

lemma no_category_refused:
  assumes "8 \<le> pol_length p" and "pol_length p \<le> 256"
  shows "validate_policy p =
    (if any_category p then Inr () else Inl (ValueError (lit ''at least one character category must be enabled'')))"
proof (cases "any_category p")
  case True
  with assms validate_policy_iff [of p] show ?thesis by simp
next
  case False
  with assms pools_any_category(2) [OF False] show ?thesis by (simp add: validate_policy_def MIN_LENGTH_def MAX_LENGTH_def)
qed

lemma wanted_in_bounds:
  assumes "click_ok ck" and "password_gen_options ck opts = Inr k"
  shows "validate_policy (policy_from_kwargs k) =
    (if any_category (policy_from_kwargs k) then Inr ()
     else Inl (ValueError (lit ''at least one character category must be enabled'')))"
  using assms by (intro no_category_refused) (auto simp: password_gen_options_Inr policy_from_kwargs_def wanted_def)

lemma path_outcome:
  assumes "click_ok ck"
  shows "(\<exists>e. file_path ck p w = Some (Inl e, w)) \<or> file_path ck p w = Some (Inr p, w)"
  using assms unfolding click_ok_def by (metis old.sum.exhaust)

text \<open>Every line is either refused, leaving the state as it was, or gives a command within its bounds.\<close>

definition settles :: "'w \<Rightarrow> ('w, command) prog \<Rightarrow> bool" where
  "settles w m \<longleftrightarrow> (\<exists>e. m w = Some (Inl e, w)) \<or> (\<exists>c. m w = Some (Inr c, w) \<and> in_bounds c)"

lemma settles_path:
  assumes "click_ok ck" and "settles w (f p)"
  shows "settles w (pbind (file_path ck p) f)"
  using path_outcome [OF assms(1), of p w] assms(2) by (auto simp: settles_def pbind_def)

lemma settles_lift:
  assumes "\<And>y. r = Inr y \<Longrightarrow> settles w (f y)"
  shows "settles w (pbind (lift r) f)"
  using assms by (cases r) (auto simp: settles_def pbind_def lift_def)

lemma settles_ret: "in_bounds c \<Longrightarrow> settles w (ret c)"
  by (simp add: settles_def)

lemma in_bounds_free [simp]:
  "in_bounds (Init p)" "in_bounds (ListAll p)" "in_bounds (Get p i b)" "in_bounds (Delete p i b)" "in_bounds (Passwd p)"
  by (simp_all add: in_bounds_def policy_of_def timeout_of_def)

lemma in_bounds_policy:
  assumes "click_ok ck" and "password_gen_options ck opts = Inr k"
  shows "in_bounds (Add p s u n g k)" "in_bounds (Update p i s' u' n' g' k)" "in_bounds (Generate k)"
  using wanted_in_bounds [OF assms] by (simp_all add: in_bounds_def policy_of_def timeout_of_def)

lemma in_bounds_timeout: "click_ok ck \<Longrightarrow> int_range ck 1 600 v = Inr t \<Longrightarrow> in_bounds (Copy p i t)"
  by (simp add: in_bounds_def policy_of_def timeout_of_def int_range_Inr)

lemma parse_settles:
  assumes "click_ok ck"
  shows "settles w (parse_line ck l)"
  by (cases l)
     (auto simp: init_args_def add_args_def list_args_def get_args_def copy_args_def update_args_def delete_args_def
        passwd_args_def generate_args_def
        intro!: settles_path [OF assms] settles_lift settles_ret in_bounds_policy [OF assms] in_bounds_timeout [OF assms])

text \<open>A command line is either refused before anything runs, or the command that runs asks for a password
  of 8 to 256 characters, so that the only policy the generator can still refuse is one without any
  category, and for a wait of 1 to 600 seconds, also where the option is not given.\<close>

theorem options_refused_or_in_bounds:
  assumes "click_ok ck"
  shows "(\<exists>e. main x ck l w = Some (Inl e, w)) \<or>
    (\<exists>c. parse_line ck l w = Some (Inr c, w) \<and> main x ck l w = run_command x c w \<and> in_bounds c)"
  using parse_settles [OF assms, of w l] by (auto simp: settles_def main_def pbind_def)

section \<open>generate\<close>

lemma reads_on_console:
  fixes w :: "'z console_scheme"
  shows "reads_on w w' \<Longrightarrow> console.more w' = console.more w \<and> same_session (w\<lparr>tpos := tpos w'\<rparr>) w'"
  by (cases w) (auto simp: reads_on_def same.refl)

lemma generate_runs:
  fixes w :: "'z console_scheme"
  assumes "click_ok ck" and "echo_ok x scr" and "fair_source (tape w)"
  shows "\<exists>r w'. main x ck (GenerateLine opts) w = Some (r, w') \<and>
    (if \<not> (8 \<le> given (o_length opts) 20 \<and> given (o_length opts) 20 \<le> 256) then (\<exists>e. r = Inl e) \<and> w' = w
     else if \<not> any_category (policy_from_kwargs (wanted opts))
     then r = Inl (SystemExit 1) \<and>
       scr (console.more w') = scr (console.more w) @ [(True, lit ''Error: at least one character category must be enabled'')]
     else r = Inr () \<and>
       (\<exists>pw. scr (console.more w') = scr (console.more w) @ [(False, pw)] \<and> meets_policy (policy_from_kwargs (wanted opts)) pw))"
proof -
  let ?n = "given (o_length opts) 20" and ?p = "policy_from_kwargs (wanted opts)"
  have d: "?n = given (o_length opts) DEFAULT_LENGTH" by (simp add: DEFAULT_LENGTH_def)
  consider (refused) "\<not> (8 \<le> ?n \<and> ?n \<le> 256)" | (empty) "8 \<le> ?n" "?n \<le> 256" "\<not> any_category ?p"
    | (ok) "8 \<le> ?n" "?n \<le> 256" "any_category ?p" by blast
  then show ?thesis
  proof cases
    case refused
    with int_range_refuses [OF assms(1), of 8 ?n 256] obtain e where "int_range ck 8 256 ?n = Inl e" by blast
    then have "main x ck (GenerateLine opts) w = Some (Inl e, w)"
      by (simp add: main_def generate_args_def password_gen_options_def d MIN_LENGTH_def MAX_LENGTH_def pbind_def lift_def rbind_def)
    with refused show ?thesis by auto
  next
    case empty
    then have "password_gen_options ck opts = Inr (wanted opts)" by (simp add: password_gen_options_Inr [OF assms(1)] d)
    then have m: "main x ck (GenerateLine opts) w = cli_generate x (wanted opts) w"
      by (simp add: main_def generate_args_def pbind_def)
    let ?m = "lit ''at least one character category must be enabled''"
    have "validate_policy ?p = Inl (ValueError ?m)"
      using no_category_refused [of ?p] empty by (simp add: policy_from_kwargs_def wanted_def d)
    then have g: "generate_password (Some ?p) w = Some (Inl (ValueError ?m), w)"
      by (simp add: generate_password_def Let_def pbind_def lift_def)
    obtain w' where e: "x_echo x True (lit ''Error: '' @ ?m) w = Some (Inr (), w')"
      "scr (console.more w') = scr (console.more w) @ [(True, lit ''Error: '' @ ?m)]"
      using assms(2) unfolding echo_ok_def by blast
    have "cli_generate x (wanted opts) w = Some (Inl (SystemExit 1), w')"
      using g e(1) by (simp add: cli_generate_def pbind_def handle_def fail_def)
    with m empty e(2) show ?thesis by (auto simp: lit_def)
  next
    case ok
    then have k: "password_gen_options ck opts = Inr (wanted opts)" by (simp add: password_gen_options_Inr [OF assms(1)] d)
    then have m: "main x ck (GenerateLine opts) w = cli_generate x (wanted opts) w"
      by (simp add: main_def generate_args_def pbind_def)
    have "validate_policy ?p = Inr ()" using wanted_in_bounds [OF assms(1) k] ok by simp
    from generator_runs [OF this assms(3)] obtain pw w1 where
      g: "generate_password (Some ?p) w = Some (Inr pw, w1)" "reads_on w w1" "meets_policy ?p pw" by blast
    obtain w' where e: "x_echo x False pw w1 = Some (Inr (), w')" "scr (console.more w') = scr (console.more w1) @ [(False, pw)]"
      using assms(2) unfolding echo_ok_def by blast
    have "cli_generate x (wanted opts) w = Some (Inr (), w')"
      using g(1) e(1) by (simp add: cli_generate_def pbind_def handle_def)
    with m ok e(2) g(3) reads_on_console [OF g(2)] show ?thesis by auto
  qed
qed

text \<open>The policy that the options describe, with the defaults of the help texts: all categories, twenty characters.\<close>

definition described :: "gen_options \<Rightarrow> password_policy" where
  "described opts =
     \<lparr>pol_length = (case o_length opts of None \<Rightarrow> 20 | Some n \<Rightarrow> n),
      use_upper = (o_upper opts \<noteq> Some False), use_lower = (o_lower opts \<noteq> Some False),
      use_digits = (o_digits opts \<noteq> Some False), use_symbols = (o_symbols opts \<noteq> Some False),
      exclude_ambiguous = o_exclude_ambiguous opts\<rparr>"

lemma described_wanted: "policy_from_kwargs (wanted opts) = described opts"
  by (cases opts) (auto simp: described_def wanted_def policy_from_kwargs_def given_def DEFAULT_LENGTH_def split: option.split)

text \<open>C30: \<open>generate\<close> refuses a length outside 8 to 256 before anything is drawn, reports a policy without any
  category, and otherwise prints one line, a password that meets the policy its options describe:
  twenty characters of all four categories where they are not given.\<close>

theorem generate_prints_a_password:
  fixes w :: "'z console_scheme"
  assumes "click_ok ck" and "echo_ok x scr" and "fair_source (tape w)"
  shows "\<exists>r w'. main x ck (GenerateLine opts) w = Some (r, w') \<and>
    (if \<not> (8 \<le> pol_length (described opts) \<and> pol_length (described opts) \<le> 256) then (\<exists>e. r = Inl e) \<and> w' = w
     else if \<not> any_category (described opts)
     then r = Inl (SystemExit 1) \<and>
       scr (console.more w') = scr (console.more w) @ [(True, lit ''Error: at least one character category must be enabled'')]
     else r = Inr () \<and>
       (\<exists>pw. scr (console.more w') = scr (console.more w) @ [(False, pw)] \<and> meets_policy (described opts) pw))"
proof -
  have n: "given (o_length opts) 20 = pol_length (described opts)" by (simp add: described_def given_def)
  show ?thesis using generate_runs [OF assms, of opts] unfolding described_wanted n .
qed

end
