(* ===== verification/CliSignals.thy ===== *)
theory CliSignals
  imports CliRuns
begin

text \<open>
  The disposition of SIGTERM: only \<open>copy\<close> changes it, and puts it back however it ends.
\<close>

definition sigterm_kept :: "'z console_scheme \<Rightarrow> 'z console_scheme \<Rightarrow> bool" where
  "sigterm_kept w w' \<longleftrightarrow> sigterm w' = sigterm w"

interpretation signal: stepwise sigterm_kept
  by unfold_locales (simp_all add: sigterm_kept_def)

text \<open>What is outside the program installs no signal handler.\<close>

definition no_handlers :: "'z console_scheme externals \<Rightarrow> bool" where
  "no_handlers x \<longleftrightarrow>
     (\<forall>err t. follows sigterm_kept (x_echo x err t)) \<and> (\<forall>t. follows sigterm_kept (x_confirm x t)) \<and>
     (\<forall>t. follows sigterm_kept (x_clip_copy x t)) \<and> follows sigterm_kept (x_clip_paste x) \<and>
     (\<forall>t. follows sigterm_kept (x_sleep x t))"

lemmas signal_combinators = signal.pure signal.bind signal.catch signal.ensure follows_if

named_theorems signal_intros \<open>programs that keep the SIGTERM handler\<close>

lemma signal_env: "follows env m \<Longrightarrow> follows sigterm_kept m" for m :: "('z console_scheme, 'a) prog"
  by (erule follows_mono) (simp add: sigterm_kept_def env_console)

lemmas signal_repo [signal_intros] = env_repo_lifecycle [THEN signal_env] env_repo_calls [THEN signal_env]

lemma signal_terminal [signal_intros]: "follows sigterm_kept (getpass p)"
  by (auto simp: follows_def getpass_def sigterm_kept_def split: list.splits)

lemma signal_externals [signal_intros]:
  assumes "no_handlers x"
  shows "follows sigterm_kept (x_echo x err t)" "follows sigterm_kept (x_confirm x t)"
    "follows sigterm_kept (x_clip_copy x t)" "follows sigterm_kept (x_clip_paste x)" "follows sigterm_kept (x_sleep x s)"
  using assms by (simp_all add: no_handlers_def)

lemma signal_fail [signal_intros]: "no_handlers x \<Longrightarrow> follows sigterm_kept (fail x m)"
  unfolding fail_def by (intro signal_combinators signal_intros)

lemma signal_or_fail [signal_intros]: "no_handlers x \<Longrightarrow> follows sigterm_kept m \<Longrightarrow> follows sigterm_kept (or_fail x p m)"
  unfolding or_fail_def by (intro signal_combinators signal_intros)

lemma signal_exists [signal_intros]: "follows sigterm_kept (path_exists p :: ('z console_scheme, bool) prog)"
proof -
  have "follows env (path_exists p :: ('z console_scheme, bool) prog)" unfolding path_exists_def
    by (intro env_combinators) (rule env_syscall, simp add: env_def)
  then show ?thesis by (rule signal_env)
qed

lemma signal_generate [signal_intros]: "follows sigterm_kept (generate_password p :: ('z console_scheme, pystr) prog)"
  by (rule signal_env [OF env_memory [OF generate_password_memory]])

lemma signal_passwords [signal_intros]:
  assumes "no_handlers x"
  shows "follows sigterm_kept (read_master_password x confirm)" "follows sigterm_kept (prompt_entry_password x g policy)"
  unfolding read_master_password_def confirm_new_password_def Let_def prompt_entry_password_def generate_or_fail_def
  by (intro signal_combinators signal_intros assms)+

lemma signal_open [signal_intros]: "no_handlers x \<Longrightarrow> follows sigterm_kept (open_repository x path)"
proof -
  assume n: "no_handlers x"
  then have "follows sigterm_kept (open_failed x e)" for e
    unfolding open_failed_def by (cases e) (auto intro: signal_combinators signal_intros)
  with n show ?thesis unfolding open_repository_def by (intro signal_combinators signal_intros)
qed

lemma signal_with [signal_intros]:
  "no_handlers x \<Longrightarrow> follows sigterm_kept m \<Longrightarrow> follows sigterm_kept (with_repository x path m)"
  unfolding with_repository_def by (intro signal_combinators signal_intros)

lemma signal_echo_all [signal_intros]: "no_handlers x \<Longrightarrow> follows sigterm_kept (echo_all x ts)"
proof (induction ts)
  case Nil
  show ?case unfolding echo_all.simps by (rule signal.pure)
next
  case (Cons t ts)
  then show ?case unfolding echo_all.simps by (intro signal_combinators signal_intros)
qed

text \<open>A block around which the handler is set and put back.\<close>

lemma signal_around:
  assumes "\<And>y. follows sigterm_kept (f y)"
  shows "follows sigterm_kept
    (pbind (set_sigterm h) (\<lambda>previous. pbind (with_finally m (pbind (set_sigterm previous) (\<lambda>_. ret ()))) f))"
  using assms
  by (auto simp: follows_def sigterm_kept_def pbind_def set_sigterm_def with_finally_def split: option.splits sum.splits)

lemma signal_create [signal_intros]: "follows sigterm_kept (repo_create c rp p pw ps :: ('z console_scheme, unit) prog)"
  unfolding repo_create_def by (intro signal_combinators signal_intros)

lemma signal_commands:
  assumes "no_handlers x"
  shows "follows sigterm_kept (cli_init x p)" "follows sigterm_kept (cli_add x p s u n g k)"
    "follows sigterm_kept (cli_list x p)" "follows sigterm_kept (cli_get x p i b)"
    "follows sigterm_kept (cli_delete x p i b)" "follows sigterm_kept (cli_passwd x p)"
    "follows sigterm_kept (cli_generate x k)"
  unfolding cli_init_def cli_add_def cli_list_def cli_get_def cli_delete_def cli_passwd_def cli_generate_def Let_def
  by (intro signal_combinators signal_intros assms)+

lemma signal_update:
  assumes "no_handlers x"
  shows "follows sigterm_kept (cli_update x p i s u n g k)"
proof -
  have "follows sigterm_kept (case g of None \<Rightarrow> ret None
      | Some g \<Rightarrow> pbind (prompt_entry_password x g policy) (\<lambda>p. ret (Some p)))" for policy
    using assms by (cases g) (auto intro: signal_combinators signal_intros)
  then show ?thesis unfolding cli_update_def Let_def using assms by (intro signal_combinators signal_intros)
qed

lemma signal_copy:
  assumes "no_handlers x"
  shows "follows sigterm_kept (cli_copy x p i t)"
proof -
  have "follows sigterm_kept (copy_report x y)" for y
    unfolding copy_report_def using assms by (intro signal_combinators signal_intros)
  then show ?thesis unfolding cli_copy_def using assms by (intro signal.bind signal_with signal_or_fail signal_intros signal_around)
qed

text \<open>C40: However a command ends, whatever system call, prompt or clipboard access fails and whatever exception
  is raised where, SIGTERM has the action it had before.\<close>

theorem commands_restore_sigterm:
  assumes "no_handlers x" and "run_command x cmd w = Some (r, w')"
  shows "sigterm w' = sigterm w"
proof -
  have "follows sigterm_kept (run_command x cmd)"
    using signal_commands [OF assms(1)] signal_update [OF assms(1)] signal_copy [OF assms(1)] by (cases cmd) simp_all
  from followsD [OF this assms(2)] show ?thesis by (simp add: sigterm_kept_def)
qed

end
