(* ===== verification/CliEditsSample.thy ===== *)
theory CliEditsSample
  imports CliCopy CliInit CliOptionsProperties CliSignals CliSample
begin

text \<open>
  The properties of the editing commands, of \<open>copy\<close> and of the options on the console of \<open>CliSample\<close>, and on one that
  also has a clipboard.
\<close>

section \<open>Editing\<close>




lemma sample_confirms: "confirm_says sample_externals (\<lambda>l. l) q True"
  by (simp add: confirm_says_def sample_externals_def same.refl)

theorem delete_needs_confirmation_witness:
  "\<exists>w'. cli_delete sample_externals (lit ''/v'') (e_id sample_entry) False
       (cli_machine [sample_entry] [right_key]) = Some (Inr (), w') \<and>
     vault_at_rest sample_crypto sample_password [] (lit ''/v'') w' \<and>
     console.more w' = [(False, lit ''Deleted entry '' @ e_id sample_entry)]"
proof -
  have kb: "keyboard (cli_machine [sample_entry] [right_key]) = Inr (lit ''correct horse'') # []"
    by (simp add: cli_machine_fields right_key_def)
  have f: "find_entry (e_id sample_entry) [sample_entry] = Some sample_entry" by simp
  from delete_needs_confirmation [OF sample_externals_ok(3,2) sample_confirms cli_rest [OF sample_bounds(1,2)] kb typed(1) f
      sample_bounds(2) cli_ready [OF sample_bounds(2)], of False]
  show ?thesis by (simp add: sample_externals_ok cli_machine_fields)
qed

lemma more_fields:
  fixes w :: "'z console_scheme"
  shows "keyboard (console.more_update f w) = keyboard w" "sigterm (console.more_update f w) = sigterm w"
    "console.more (console.more_update f w) = f (console.more w)"
  by (cases w; simp)+

lemma sample_no_handlers: "no_handlers sample_externals"
  by (simp add: no_handlers_def sample_externals_def signal.pure) (simp add: follows_def sigterm_kept_def more_fields)

theorem commands_restore_sigterm_witness:
  "\<exists>r w'. run_command sample_externals (ListAll (lit ''/v'')) (cli_machine [sample_entry] [right_key]) = Some (r, w') \<and>
     sigterm w' = DefaultAction"
proof -
  have s: "sigterm (cli_machine es kb) = DefaultAction" for es kb by (simp add: cli_machine_def session.defs console.defs)
  from sample_list_returns obtain r w' where
    "run_command sample_externals (ListAll (lit ''/v'')) (cli_machine [sample_entry] [right_key]) = Some (r, w')" by blast
  with commands_restore_sigterm [OF sample_no_handlers this] s show ?thesis by auto
qed

section \<open>Creating\<close>

definition bare_machine :: "(exn + pystr) list \<Rightarrow> (bool \<times> pystr) list console_scheme" where
  "bare_machine kb = console.extend (session.extend sample_session (console.fields kb DefaultAction)) []"

lemma bare_fields: "keyboard (bare_machine kb) = kb" "console.more (bare_machine kb) = []"
    "session.truncate (bare_machine kb) = sample_session"
  by (simp_all add: bare_machine_def sample_session_def sample_os_def session.defs console.defs os.defs proc.defs)

lemma ready_to_create_truncate: "ready_to_create path (session.truncate w) = ready_to_create path w"
  by (simp add: ready_to_create_def outside_def home_defs wf_os_def resolve_def quiet_def locked_def tmp_free_def
      lock_not_tmp_def truncate_fields)

lemma bare_ready: "ready_to_create (lit ''/v'') (bare_machine kb)"
proof -
  have "ready_to_create (lit ''/v'') sample_session"
    by (simp add: ready_to_create_def sample_outside sample_session_quiet sample_session_free sample_session_simps)
  then show ?thesis using ready_to_create_truncate [of "lit ''/v''" "bare_machine kb"] by (simp add: bare_fields)
qed

theorem weak_password_needs_consent_witness:
  "\<exists>m w1 w'. x_echo sample_externals True m (bare_machine []) = Some (Inr (), w1) \<and>
     x_confirm sample_externals (lit ''Use it anyway?'') w1 = Some (Inr True, w') \<and>
     read_master_password sample_externals True (bare_machine [Inr (lit ''pw''), Inr (lit ''pw'')]) = Some (Inr (blit ''pw''), w')"
proof -
  let ?p = "lit ''pw''" and ?w = "bare_machine [Inr (lit ''pw''), Inr (lit ''pw'')]"
  have b: "?w\<lparr>keyboard := []\<rparr> = bare_machine []" "?w\<lparr>keyboard := [Inr ?p]\<rparr>\<lparr>keyboard := []\<rparr> = bare_machine []"
    by (simp_all add: bare_machine_def session.defs console.defs)
  have "apparent_pool ?p = 26" by (simp add: apparent_pool_def kind_defs lit_def)
  then have n: "\<not> 2 ^ 60 \<le> apparent_pool ?p ^ length ?p" by (simp add: lit_def)
  then have weak: "estimate_entropy_bits ?p < WEAK_MASTER_PASSWORD_BITS"
    by (simp add: WEAK_MASTER_PASSWORD_BITS_def weak_password)
  have ne: "?p \<noteq> []" by (simp add: lit_def)
  obtain w1 where o: "x_echo sample_externals True (weak_warning (estimate_entropy_bits ?p)) (bare_machine []) = Some (Inr (), w1)"
    by (simp add: sample_externals_def)
  have r: "read_master_password sample_externals True ?w = Some (Inr (blit ''pw''), w1)"
    using o typed(3) weak ne b
    by (simp add: read_master_password_def confirm_new_password_def passwords_match_def getpass_def pbind_def bare_fields
        Let_def) (simp add: sample_externals_def)
  from weak_password_needs_consent [OF r] n obtain m w2 where
    "x_echo sample_externals True m (bare_machine []) = Some (Inr (), w2)"
    "x_confirm sample_externals (lit ''Use it anyway?'') w2 = Some (Inr True, w1)"
    by (auto simp: bare_fields b split: if_splits)
  with r show ?thesis by blast
qed

lemma brand_new: "utf8_encode (lit ''a brand new password'') = Inr (blit ''a brand new password'')"
    "lit ''a brand new password'' \<noteq> []" "2 ^ 60 \<le> apparent_pool (lit ''a brand new password'') ^ length (lit ''a brand new password'')"
proof -
  show "utf8_encode (lit ''a brand new password'') = Inr (blit ''a brand new password'')"
    by (subst utf8_ascii; simp add: lit_def blit_def)
  show "lit ''a brand new password'' \<noteq> []" by (simp add: lit_def)
  have "apparent_pool (lit ''a brand new password'') = 52" by (simp add: apparent_pool_def kind_defs lit_def)
  then show "2 ^ 60 \<le> apparent_pool (lit ''a brand new password'') ^ length (lit ''a brand new password'')" by simp
qed

theorem init_creates_an_empty_vault_witness:
  "\<exists>w'. cli_init sample_externals (lit ''/v'')
       (bare_machine [Inr (lit ''a brand new password''), Inr (lit ''a brand new password'')]) = Some (Inr (), w') \<and>
     vault_at_rest sample_crypto (blit ''a brand new password'') [] (lit ''/v'') w' \<and>
     console.more w' = [(False, lit ''Created vault at /v'')]"
proof -
  let ?n = "lit ''a brand new password''"
  have kb: "keyboard (bare_machine [Inr ?n, Inr ?n]) = Inr ?n # Inr ?n # []" by (simp add: bare_fields)
  from init_creates_an_empty_vault [OF sample_externals_ok(3,2) bare_ready kb brand_new]
  show ?thesis by (simp add: sample_externals_ok bare_fields) (simp add: lit_def)
qed

theorem init_all_or_nothing_witness:
  "\<exists>w' b. run_command sample_externals (Init (lit ''/v''))
       (bare_machine [Inr (lit ''a brand new password''), Inr (lit ''a brand new password'')]) = Some (Inr (), w') \<and>
     file_content (lit ''/v'') w' = Some b \<and> file_holds sample_crypto (blit ''a brand new password'') [] b \<and>
     \<not> locked w' (lit ''/v'' @ lit ''.lock'')"
proof -
  let ?n = "lit ''a brand new password''"
  let ?w = "bare_machine [Inr ?n, Inr ?n]"
  have kb: "keyboard ?w = Inr ?n # Inr ?n # []" by (simp add: bare_fields)
  from init_runs [OF sample_externals_ok(3,2) bare_ready kb brand_new] obtain w' where
    r: "run_command sample_externals (Init (lit ''/v'')) ?w = Some (Inr (), w')" by auto
  have o: "outside (lit ''/v'') ?w" "\<not> locked ?w (lit ''/v'' @ lit ''.lock'')"
    using bare_ready by (simp_all add: ready_to_create_def)
  from init_all_or_nothing [OF sample_externals_ok(3,1) o(1) r] o(2) obtain b where
    "file_content (lit ''/v'') w' = Some b" "typed_vault (x_crypto sample_externals) ?w b" "\<not> locked w' (lit ''/v'' @ lit ''.lock'')"
    by auto
  with r brand_new(1) show ?thesis by (auto simp: typed_vault_def kb sample_externals_ok)
qed

section \<open>A desktop\<close>

text \<open>A console whose last field is what is on the terminal and what is on the clipboard.\<close>

definition desktop_externals :: "((bool \<times> pystr) list \<times> pystr) console_scheme externals" where
  "desktop_externals =
     \<lparr>x_crypto = sample_crypto, x_repr = (\<lambda>v. []), x_str = (\<lambda>e. []), x_lower = (\<lambda>s. s),
      x_echo = (\<lambda>err t w. Some (Inr (), console.more_update (apfst (\<lambda>l. l @ [(err, t)])) w)),
      x_confirm = (\<lambda>t. ret True),
      x_clip_copy = (\<lambda>t w. Some (Inr (), console.more_update (apsnd (\<lambda>_. t)) w)),
      x_clip_paste = (\<lambda>w. Some (Inr (snd (console.more w)), w)), x_sleep = (\<lambda>s. ret ())\<rparr>"

lemma desktop_externals_ok: "x_crypto desktop_externals = sample_crypto" "crypto_ok (x_crypto desktop_externals)"
    "echo_ok desktop_externals fst" "desktop_ok desktop_externals fst snd"
  by (simp_all add: desktop_externals_def sample_crypto_ok echo_ok_def desktop_ok_def desktop_step_def echo_same more_fields same.refl)

definition desktop :: "entry list \<Rightarrow> (exn + pystr) list \<Rightarrow> ((bool \<times> pystr) list \<times> pystr) console_scheme" where
  "desktop es kb = console.extend (session.extend (base_machine es) (console.fields kb DefaultAction)) ([], lit ''old'')"

lemma desktop_fields: "keyboard (desktop es kb) = kb" "console.more (desktop es kb) = ([], lit ''old'')"
    "sigterm (desktop es kb) = DefaultAction" "session.truncate (desktop es kb) = base_machine es"
  by (simp_all add: desktop_def session.defs console.defs)

lemma desktop_rest:
  assumes "entries_ok es" and "body_bound es \<le> MAX_PLAINTEXT"
  shows "vault_at_rest sample_crypto sample_password es (lit ''/v'') (desktop es kb)"
    and "ready_to_write (lit ''/v'') (desktop es kb)"
  using base_rest [OF assms] base_ready [OF assms(2)] rest_truncate [of sample_crypto sample_password es "lit ''/v''" "desktop es kb"]
    ready_truncate [of "lit ''/v''" "desktop es kb"] by (simp_all add: desktop_fields)

theorem copy_clears_and_restores_witness:
  "\<exists>w2 r w3 w'. vault_at_rest sample_crypto sample_password [sample_entry] (lit ''/v'') w2 \<and> sigterm w2 = RaiseInterrupt \<and>
     snd (console.more w2) = e_password sample_entry \<and> x_sleep desktop_externals 30 w2 = Some (r, w3) \<and>
     cli_copy desktop_externals (lit ''/v'') (e_id sample_entry) 30 (desktop [sample_entry] [right_key]) = Some (Inr (), w') \<and>
     sigterm w' = DefaultAction \<and>
     snd (console.more w') = (if snd (console.more w3) = e_password sample_entry then [] else snd (console.more w3))"
proof -
  let ?w = "desktop [sample_entry] [right_key]"
  have rest: "vault_at_rest (x_crypto desktop_externals) sample_password [sample_entry] (lit ''/v'') ?w"
    using desktop_rest(1) [OF sample_bounds(1,2)] by (simp add: desktop_externals_ok)
  have kb: "keyboard ?w = Inr (lit ''correct horse'') # []" by (simp add: desktop_fields right_key_def)
  have f: "find_entry (e_id sample_entry) [sample_entry] = Some sample_entry" by simp
  from copy_clears_and_restores [OF desktop_externals_ok(2-4) rest kb typed(1) f desktop_rest(2) [OF sample_bounds(1,2)], of 30]
  show ?thesis unfolding desktop_externals_ok desktop_fields by blast
qed

text \<open>The same desktop where nothing can be read back from the clipboard: the password stays on it, and the
  command says that there is none.\<close>

definition deaf_externals :: "((bool \<times> pystr) list \<times> pystr) console_scheme externals" where
  "deaf_externals = desktop_externals\<lparr>x_clip_paste := throw (PyperclipException (lit ''xclip: exit 1''))\<rparr>"

lemma deaf_fields: "x_crypto deaf_externals = sample_crypto" "echo_ok deaf_externals fst"
    "x_echo deaf_externals err t w = Some (Inr (), console.more_update (apfst (\<lambda>l. l @ [(err, t)])) w)"
    "x_clip_copy deaf_externals t w = Some (Inr (), console.more_update (apsnd (\<lambda>_. t)) w)"
    "x_clip_paste deaf_externals w = Some (Inl (PyperclipException (lit ''xclip: exit 1'')), w)"
    "x_sleep deaf_externals s w = Some (Inr (), w)"
  by (simp_all add: deaf_externals_def desktop_externals_def echo_ok_def echo_same more_fields)

lemma deaf_flaky: "desktop_flaky deaf_externals fst snd"
  by (simp add: desktop_flaky_def deaf_fields desktop_step_def echo_same more_fields same.refl may_fail_def)

theorem copy_when_the_clipboard_fails_witness:
  "\<exists>w'. cli_copy deaf_externals (lit ''/v'') (e_id sample_entry) 30 (desktop [sample_entry] [right_key]) =
       Some (Inl (SystemExit 1), w') \<and>
     vault_at_rest sample_crypto sample_password [sample_entry] (lit ''/v'') w' \<and> sigterm w' = DefaultAction \<and>
     console.more w' = ([(False, copied_text sample_entry 30), no_clipboard_line (lit ''xclip: exit 1'')], e_password sample_entry)"
proof -
  let ?w = "desktop [sample_entry] [right_key]" and ?x = deaf_externals
  have c: "crypto_ok (x_crypto ?x)" by (simp add: deaf_fields sample_crypto_ok)
  have rest: "vault_at_rest (x_crypto ?x) sample_password [sample_entry] (lit ''/v'') ?w"
    using desktop_rest(1) [OF sample_bounds(1,2)] by (simp add: deaf_fields)
  have kb: "keyboard ?w = Inr (lit ''correct horse'') # []" by (simp add: desktop_fields right_key_def)
  have f: "find_entry (e_id sample_entry) [sample_entry] = Some sample_entry" by simp
  note ready = desktop_rest(2) [OF sample_bounds(1,2), of "[right_key]"]
  obtain v where v: "console.more v = console.more ?w" and run: "cli_copy ?x (lit ''/v'') (e_id sample_entry) 30 ?w =
      pbind (with_finally
          (handle
             (copy_and_autoclear (e_password sample_entry) 30 (pyperclip_backend (x_clip_copy ?x) (x_clip_paste ?x))
                (x_sleep ?x) (Some (x_echo ?x False (copied_text sample_entry 30))))
             (no_clipboard ?x))
          (pbind (set_sigterm (sigterm ?w)) (\<lambda>_. ret ()))) (copy_report ?x) v"
    by (rule copy_start [OF c deaf_fields(2) rest kb typed(1) f ready])
  have "\<exists>w'. cli_copy ?x (lit ''/v'') (e_id sample_entry) 30 ?w = Some (Inl (SystemExit 1), w') \<and>
      console.more w' = ([(False, copied_text sample_entry 30), no_clipboard_line (lit ''xclip: exit 1'')], e_password sample_entry)"
    using v by (simp add: run copy_and_autoclear_def pyperclip_backend_def handle_def pbind_def with_finally_def deaf_fields
        finally_value_def interruptible_def clear_if_unchanged_def unavailable_def no_clipboard_def fail_def set_sigterm_def
        more_fields sigterm_fields desktop_fields no_clipboard_line_def)
  with copy_when_the_clipboard_fails [OF c deaf_fields(2) deaf_flaky rest kb typed(1) f ready, of 30]
  show ?thesis by (auto simp: deaf_fields desktop_fields)
qed

section \<open>Options\<close>

text \<open>The conversions as \<open>click\<close> documents them, on a machine where every path is acceptable.\<close>

definition plain_click :: "'w click" where
  "plain_click =
     \<lparr>int_range = (\<lambda>lo hi v. if lo \<le> v \<and> v \<le> hi then Inr v else Inl (SystemExit 2)), file_path = ret\<rparr>"

lemma plain_click_ok: "click_ok plain_click"
  by (simp add: click_ok_def plain_click_def ret_def)


theorem options_refused_or_in_bounds_witness:
  "\<exists>e. main sample_externals plain_click (CopyLine (lit ''/v'') (lit ''x'') (Some 0)) (bare_machine []) =
     Some (Inl e, bare_machine [])"
proof -
  let ?l = "CopyLine (lit ''/v'') (lit ''x'') (Some 0)"
  have "parse_line plain_click ?l (bare_machine []) = Some (Inl (SystemExit 2), bare_machine [])"
    by (simp add: copy_args_def plain_click_def given_def pbind_def lift_def)
  with options_refused_or_in_bounds [OF plain_click_ok, of sample_externals ?l "bare_machine []"]
  show ?thesis by auto
qed

definition zero_console :: "(bool \<times> pystr) list console_scheme" where
  "zero_console = (bare_machine [])\<lparr>tape := (\<lambda>i. 0)\<rparr>"

definition sample_options :: gen_options where
  "sample_options = \<lparr>o_length = None, o_upper = None, o_lower = None, o_digits = None, o_symbols = Some False,
     o_exclude_ambiguous = True\<rparr>"

lemma sample_options_policy:
  "pol_length (described sample_options) = 20" "any_category (described sample_options)"
  "meets_policy (described sample_options) pw \<Longrightarrow> length pw = 20 \<and> list_ex is_digit pw"
  by (simp_all add: sample_options_def described_def any_category_def meets_policy_def)

theorem generate_prints_a_password_witness:
  "\<exists>w' pw. main sample_externals plain_click (GenerateLine sample_options) zero_console = Some (Inr (), w') \<and>
     console.more w' = [(False, pw)] \<and> length pw = 20 \<and> list_ex is_digit pw"
proof -
  have f: "fair_source (tape zero_console)" using zero_machine_fair by (simp add: zero_console_def zero_machine_def)
  have m: "console.more zero_console = []" by (simp add: zero_console_def bare_machine_def session.defs console.defs)
  from generate_prints_a_password [OF plain_click_ok sample_externals_ok(2) f, of sample_options]
  show ?thesis using sample_options_policy by (auto simp: m)
qed

end
