(* ===== verification/Durable.thy ===== *)
theory Durable
  imports CommandRefinement
begin

text \<open>
  Durability: when no call fails, a write that has returned is on the disk for good. The directory is
  synced last, so that name and content are settled, and nothing after the write touches the disk; so
  a changing operation or command that ended normally is not undone by a power loss that comes later.
\<close>

section \<open>The write\<close>

definition calm :: "'z os_scheme \<Rightarrow> 'z os_scheme \<Rightarrow> bool" where
  "calm w w' \<longleftrightarrow> (quiet w \<longrightarrow> quiet w')"

interpretation calmly: stepwise calm
  by unfold_locales (simp_all add: calm_def)

lemma calm_env: "follows env m \<Longrightarrow> follows calm m"
  by (erule follows_mono) (auto simp: calm_def intro: env_quiet)

lemma quiet_same:
  fixes w w' :: "'z session_scheme"
  assumes "same_session w w'"
  shows "quiet w' = quiet w"
proof -
  have "quiet (session.truncate v) = quiet v" for v :: "'z session_scheme" by (simp add: quiet_def truncate_fields)
  with assms show ?thesis unfolding same_session_def by metis
qed

lemma calm_same: "follows same_session m \<Longrightarrow> follows calm m"
  by (erule follows_mono) (simp add: calm_def quiet_same)

lemma fsync_directory_durable:
  assumes "quiet w" and "fsync_directory d w = Some (r, w')"
  shows "d_durable (disk w') = d_names (disk w')"
proof -
  define w1 where "w1 = w\<lparr>calls := Suc (calls w), fds := (fds w)(fd_next w := Some DirFd), fd_next := Suc (fd_next w),
    disk_trace := disk_trace w @ [disk w]\<rparr>"
  from assms(1) have nf: "faults w n = None" if "calls w \<le> n" for n using that by (simp add: quiet_def)
  then have o: "sys_open_dir d w = Some (Inr (fd_next w), w1)"
    by (simp add: sys_open_dir_def syscall_def alloc_fd_def w1_def)
  define w2 where "w2 = w1\<lparr>calls := Suc (calls w1), disk := (disk w)\<lparr>d_durable := d_names (disk w)\<rparr>,
    disk_trace := disk_trace w1 @ [(disk w)\<lparr>d_durable := d_names (disk w)\<rparr>]\<rparr>"
  have s: "sys_fsync (fd_next w) w1 = Some (Inr (), w2)"
    using nf by (simp add: sys_fsync_def syscall_def w1_def w2_def)
  have "fsync_directory d w = with_finally (handle (sys_fsync (fd_next w)) (\<lambda>e. if is_os_error e then ret () else throw e))
      (sys_close (fd_next w)) w1"
    using o by (simp add: fsync_directory_def pbind_def handle_def)
  with assms(2) s obtain q where "sys_close (fd_next w) w2 = Some (q, w')"
    by (auto simp: with_finally_def handle_def split: option.splits sum.splits)
  from followsD [OF still_close this] show ?thesis by (simp add: diskless_def w2_def)
qed

lemma write_atomic_durable:
  fixes w :: "'z session_scheme"
  assumes sr: "store_ready path w" and q: "quiet w" and wr: "write_atomic path data w = Some (Inr u, w')"
  shows "settled w' (resolve w' path)"
proof -
  let ?k = "resolve w path"
  from sr have "wf_os w" "tmp_clear w path" by (simp_all add: store_ready_def)
  then obtain t where t: "d_names (disk w') ?k = Some t" "i_synced (d_inodes (disk w') t)"
    by (cases rule: write_atomic_runs [where data = data]) (use wr in \<open>auto simp: renamed_def new_at_def\<close>)
  from wr obtain d fd tmp w1 w2 w3 where b: "target_dir path w = Some (Inr d, w1)" "mkstemp d w1 = Some (Inr (fd, tmp), w2)"
    and h: "handle (pbind (fchmod_if_any fd) (\<lambda>_. pbind (fill_file fd data) (\<lambda>_. pbind (sys_replace tmp path) (\<lambda>_.
        fsync_directory d)))) (\<lambda>e. pbind (remove_tmp tmp) (\<lambda>_. throw e)) w2 = Some (Inr u, w')"
    by (auto simp: write_atomic_def result_simps)
  have "pbind (fchmod_if_any fd) (\<lambda>_. pbind (fill_file fd data) (\<lambda>_. pbind (sys_replace tmp path) (\<lambda>_.
        fsync_directory d))) w2 = Some (Inr u, w')"
    using h by (auto simp: handle_def pbind_def [of "remove_tmp tmp"] split: option.splits sum.splits)
  then obtain w4 w5 w6 x y z where c: "fchmod_if_any fd w2 = Some (Inr x, w4)" "fill_file fd data w4 = Some (Inr y, w5)"
    "sys_replace tmp path w5 = Some (Inr z, w6)" "fsync_directory d w6 = Some (Inr u, w')"
    by (auto simp: result_simps)
  have "follows env (pbind (target_dir path) (\<lambda>d. pbind (mkstemp d) (\<lambda>(fd, tmp). pbind (fchmod_if_any fd) (\<lambda>_.
      pbind (fill_file fd data) (\<lambda>_. sys_replace tmp path)))) :: ('z session_scheme, unit) prog)"
    unfolding mkstemp_def split_beta by (intro env_combinators env_intros env_mkstemp)
  moreover have "pbind (target_dir path) (\<lambda>d. pbind (mkstemp d) (\<lambda>(fd, tmp). pbind (fchmod_if_any fd) (\<lambda>_.
      pbind (fill_file fd data) (\<lambda>_. sys_replace tmp path)))) w = Some (Inr z, w6)"
    using b c by (simp add: pbind_def)
  ultimately have "env w w6" by (rule followsD)
  from fsync_directory_durable [OF env_quiet [OF this q] c(4)] have "d_durable (disk w') = d_names (disk w')" .
  moreover have "resolve w' path = ?k"
    using write_atomic_content [OF sr wr] frame_resolve [of w w'] by simp
  ultimately show ?thesis using t by (simp add: settled_def)
qed

section \<open>Programs that end with the write\<close>

definition ends_settled :: "pystr \<Rightarrow> ('z session_scheme, 'a) prog \<Rightarrow> bool" where
  "ends_settled path m \<longleftrightarrow>
     (\<forall>w x w'. quiet w \<and> holding path w \<and> m w = Some (Inr x, w') \<longrightarrow> settled w' (resolve w' path))"

lemma settled_diskless: "diskless w w' \<Longrightarrow> settled w (resolve w path) \<Longrightarrow> settled w' (resolve w' path)"
  by (simp add: diskless_def settled_def resolve_def)

lemma ends_write: "ends_settled path (pbind (gets r_path) (\<lambda>p. write_atomic p data))"
  unfolding ends_settled_def by (auto simp: holding_def inside_def outside_def intro: write_atomic_durable)

lemma ends_bind:
  assumes "follows calm m" and "follows (stays_open path) m" and "\<And>x. ends_settled path (f x)"
  shows "ends_settled path (pbind m f)"
  unfolding ends_settled_def
proof (intro allI impI)
  fix w x w' assume h: "quiet w \<and> holding path w \<and> pbind m f w = Some (Inr x, w')"
  then obtain y w1 where m: "m w = Some (Inr y, w1)" "f y w1 = Some (Inr x, w')" by (auto simp: result_simps)
  from followsD [OF assms(1) m(1)] followsD [OF assms(2) m(1)] h have "quiet w1" "holding path w1"
    by (simp_all add: calm_def stays_open_def)
  with assms(3) [of y] m(2) show "settled w' (resolve w' path)" by (auto simp: ends_settled_def)
qed

lemma ends_then:
  assumes "ends_settled path m" and "\<And>x. follows diskless (f x)"
  shows "ends_settled path (pbind m f)"
  unfolding ends_settled_def
proof (intro allI impI)
  fix w x w' assume h: "quiet w \<and> holding path w \<and> pbind m f w = Some (Inr x, w')"
  then obtain y w1 where m: "m w = Some (Inr y, w1)" "f y w1 = Some (Inr x, w')" by (auto simp: result_simps)
  with assms(1) h have "settled w1 (resolve w1 path)" by (auto simp: ends_settled_def)
  from settled_diskless [OF followsD [OF assms(2) m(2)] this] show "settled w' (resolve w' path)" .
qed

lemma ends_or_fail: "ends_settled path m \<Longrightarrow> ends_settled path (or_fail x p m)"
  unfolding ends_settled_def
  by (auto simp: or_fail_def handle_def fail_no_value split: option.splits sum.splits if_splits)

lemma ends_persist: "ends_settled path (repo_persist c rp)"
  unfolding repo_persist_def split_beta
  by (intro ends_bind ends_write calmly.pure opened.pure opened_modify calm_env env_intros
      opened_memory [OF follows_in_memory [OF in_memory_vault_save]])

lemma ends_operations:
  "ends_settled path (repo_add c rp s u p n)" "ends_settled path (repo_update c rp i s' u' p' n')"
  "ends_settled path (repo_delete c rp i)" "ends_settled path (repo_change_password c pw ps)"
proof -
  have i: "follows mem_only new_entry_id" by (simp add: follows_def new_entry_id_eq)
  note parts = ends_persist calmly.pure opened.pure opened_modify opened_clock opened_get still.pure calm_env env_intros
  show "ends_settled path (repo_add c rp s u p n)" unfolding repo_add_def
    by (rule ends_bind, (intro parts env_memory [OF i] opened_memory [OF i])+)
       (intro ends_bind ends_then [OF ends_persist] parts env_memory [OF i] env_memory [OF fresh_entry_memory]
        opened_memory [OF i] opened_memory [OF fresh_entry_memory])
  show "ends_settled path (repo_update c rp i s' u' p' n')" unfolding repo_update_def Let_def
    by (rule ends_bind, (intro parts)+) (intro ends_bind ends_then [OF ends_persist] parts)
  show "ends_settled path (repo_delete c rp i)" unfolding repo_delete_def
    by (intro ends_bind parts)
  show "ends_settled path (repo_change_password c pw ps)" unfolding repo_change_password_def split_beta
    by (intro ends_bind ends_write parts opened_memory [OF follows_in_memory [OF in_memory_change_password]])
qed

section \<open>The commands\<close>

lemma calm_reads:
  fixes m :: "('z session_scheme, 'a) prog"
  shows "follows reads_on m \<Longrightarrow> follows calm m"
  by (rule calm_env [OF env_memory]) (erule follows_mono, rule reads_on_mem_only)

lemma calm_prompt: "externals_tame x \<Longrightarrow> follows calm (prompt_entry_password x g policy)"
  unfolding prompt_entry_password_def generate_or_fail_def
  by (intro follows_if calmly.catch calmly.bind calmly.pure calm_same [OF terminal_same(1)] calm_same [OF fail_same]
      calm_reads [OF generate_password_reads])

lemma found_parts:
  assumes "externals_tame x"
  shows "follows calm (or_fail x is_not_found (repo_get i))" "follows (stays_open path) (or_fail x is_not_found (repo_get i))"
  using assms unfolding or_fail_def repo_get_def
  by (intro calmly.catch calmly.bind calmly.pure opened.catch opened.bind opened.pure follows_if calm_same [OF fail_same]
      same_opened [OF fail_same], simp_all add: calmly.pure opened.pure split: option.split)+

lemma repository_settled:
  fixes w :: "'z console_scheme"
  assumes t: "externals_tame x" and o: "outside path w" and q: "quiet w" and b: "ends_settled path body"
    and r: "with_repository x path body w = Some (Inr y, w')"
  shows "settled w' (resolve w' path)"
proof -
  from r obtain w1 where op: "open_repository x path w = Some (Inr (), w1)" and cl: "with_finally body repo_close w1 = Some (Inr y, w')"
    by (auto simp: with_repository_def result_simps)
  from t o op have h: "quiet w1 \<and> holding path w1"
  proof (cases rule: open_repository_parts)
    case (opened s ks pw w0)
    have "quiet (w\<lparr>keyboard := ks\<rparr>)" using q by (simp add: quiet_def)
    from env_quiet [OF followsD [OF env_repo_lifecycle(1) opened(4)] env_quiet [OF opened(7) this]]
    show ?thesis using repo_open_result [OF opened(5,4)] by simp
  qed simp
  from cl obtain w2 u where bd: "body w1 = Some (Inr y, w2)" and rc: "repo_close w2 = Some (u, w')"
    by (auto simp: with_finally_def split: option.splits sum.splits)
  from b h bd have "settled w2 (resolve w2 path)" unfolding ends_settled_def by blast
  from settled_diskless [OF followsD [OF still_repo_close rc] this] show ?thesis .
qed

lemma command_settled:
  fixes w :: "'z console_scheme"
  assumes "externals_tame x" and "outside path w" and "quiet w" and "ends_settled path body"
    and "\<And>y. follows same_session (f y)" and "pbind (with_repository x path body) f w = Some (Inr z, w')"
  shows "settled w' (resolve w' path)"
proof -
  from assms(6) obtain y w1 where m: "with_repository x path body w = Some (Inr y, w1)" "f y w1 = Some (Inr z, w')"
    by (auto simp: result_simps)
  from settled_diskless [OF same_diskless [OF followsD [OF assms(5) m(2)]] repository_settled [OF assms(1-4) m(1)]]
  show ?thesis .
qed

lemma ends_bodies:
  assumes t: "externals_tame x"
  shows "ends_settled path (pbind (prompt_entry_password x g policy) (\<lambda>password.
      or_fail x is_vault_error (repo_add c rp s u password n)))"
    and "ends_settled path (pbind (or_fail x is_not_found (repo_get i)) (\<lambda>_.
      pbind (case ge of None \<Rightarrow> ret None | Some b \<Rightarrow> pbind (prompt_entry_password x b policy) (\<lambda>p. ret (Some p))) (\<lambda>p.
      or_fail x is_vault_error (repo_update c rp i s' u' p n'))))"
    and "ends_settled path (pbind (or_fail x is_not_found (repo_get i)) (\<lambda>e.
      pbind (if True then ret True else x_confirm x (delete_question e)) (\<lambda>go.
      if \<not> go then pbind (x_echo x False (lit ''Aborted.'')) (\<lambda>_. ret False) else pbind (repo_delete c rp i) (\<lambda>_. ret True))))"
    and "ends_settled path (pbind (read_master_password x True) (\<lambda>p. repo_change_password c p None))"
proof -
  show "ends_settled path (pbind (prompt_entry_password x g policy) (\<lambda>password.
      or_fail x is_vault_error (repo_add c rp s u password n)))"
    by (intro ends_bind ends_or_fail ends_operations calm_prompt prompt_opened t)
  have ask: "follows calm (case ge of None \<Rightarrow> ret None | Some b \<Rightarrow> pbind (prompt_entry_password x b policy) (\<lambda>p. ret (Some p)))"
    "follows (stays_open path) (case ge of None \<Rightarrow> ret None | Some b \<Rightarrow> pbind (prompt_entry_password x b policy) (\<lambda>p. ret (Some p)))"
    by (cases ge; simp add: calmly.pure calmly.bind calm_prompt opened.pure opened.bind prompt_opened t)+
  show "ends_settled path (pbind (or_fail x is_not_found (repo_get i)) (\<lambda>_.
      pbind (case ge of None \<Rightarrow> ret None | Some b \<Rightarrow> pbind (prompt_entry_password x b policy) (\<lambda>p. ret (Some p))) (\<lambda>p.
      or_fail x is_vault_error (repo_update c rp i s' u' p n'))))"
    by (intro ends_bind ends_or_fail ends_operations found_parts ask t)
  have "pbind (ret True) (\<lambda>go.
      if \<not> go then pbind (x_echo x False (lit ''Aborted.'')) (\<lambda>_. ret False) else pbind (repo_delete c rp i) (\<lambda>_. ret True))
    = pbind (repo_delete c rp i) (\<lambda>_. ret True)" by (rule ext) (simp add: pbind_def [of "ret True"])
  moreover have "ends_settled path (pbind (repo_delete c rp i) (\<lambda>_. ret True))"
    by (rule ends_then [OF ends_operations(3)]) (rule still.pure)
  ultimately have "ends_settled path (pbind (ret True) (\<lambda>go.
      if \<not> go then pbind (x_echo x False (lit ''Aborted.'')) (\<lambda>_. ret False) else pbind (repo_delete c rp i) (\<lambda>_. ret True)))"
    by simp
  then show "ends_settled path (pbind (or_fail x is_not_found (repo_get i)) (\<lambda>e.
      pbind (if True then ret True else x_confirm x (delete_question e)) (\<lambda>go.
      if \<not> go then pbind (x_echo x False (lit ''Aborted.'')) (\<lambda>_. ret False) else pbind (repo_delete c rp i) (\<lambda>_. ret True))))"
    unfolding if_True by (rule ends_bind [OF found_parts [OF t]])
  show "ends_settled path (pbind (read_master_password x True) (\<lambda>p. repo_change_password c p None))"
    by (intro ends_bind ends_operations calm_same same_opened master_password_same t)
qed

lemma changing_command_settled:
  fixes w :: "'z console_scheme"
  assumes "externals_tame x" and "outside path w" and "quiet w" and "command_path cmd = Some path" and "must_do cmd"
    and "run_command x cmd w = Some (Inr z, w')"
  shows "settled w' (resolve w' path)"
proof (cases cmd)
  case (Add p sv us nt g k)
  with assms(4,6) have "cli_add x path sv us nt g k w = Some (Inr z, w')" by simp
  from command_settled [OF assms(1-3) _ _ this [unfolded cli_add_def Let_def]] show ?thesis
    by (simp add: ends_bodies same.bind follows_if same.pure externals_same assms(1))
next
  case (Update p i sv us nt g k)
  with assms(4,6) have "cli_update x path i sv us nt g k w = Some (Inr z, w')" by simp
  from command_settled [OF assms(1-3) _ _ this [unfolded cli_update_def Let_def]] show ?thesis
    by (simp add: ends_bodies same.bind follows_if same.pure externals_same assms(1))
next
  case (Delete p i yes)
  with assms(4-6) have "cli_delete x path i True w = Some (Inr z, w')" by simp
  from command_settled [OF assms(1-3) ends_bodies(3) [OF assms(1)] _ this [unfolded cli_delete_def]] show ?thesis
    by (simp add: follows_if same.pure externals_same assms(1))
next
  case (Passwd p)
  with assms(4,6) have "cli_passwd x path w = Some (Inr z, w')" by simp
  from command_settled [OF assms(1-3) ends_bodies(4) [OF assms(1)] _ this [unfolded cli_passwd_def]] show ?thesis
    by (simp add: externals_same assms(1))
qed (use assms(5) in simp_all)

text \<open>C6: When no system call fails, a changing command that has ended normally has changed the disk for
  good: whatever the file system had not yet written back when the power goes after it, the file is
  found again, and it is the vault after the one step the command asked for.\<close>

theorem finished_command_is_durable:
  fixes w :: "'z console_scheme"
  assumes "crypto_ok (x_crypto x)" and "externals_tame x" and "outside path w"
    and "vault_holds (x_crypto x) pw es path w" and "entries_ok es"
    and "keys_short m w" and "key_fits (x_crypto x) pw path w" and "source_varied (tape w) (length es)"
    and "counter_free path w"
    and "command_path cmd = Some path" and "cmd \<noteq> Init path" and "command_plain cmd"
    and "body_bound es + command_growth m cmd \<le> MAX_PLAINTEXT"
    and "run_command x cmd w = Some (Inr (), w')" and "quiet w" and "must_do cmd"
  shows "\<exists>st'. command_does cmd (pw, es) st' \<and>
    (\<forall>found. may_survive (disk w') (resolve w path) found \<longrightarrow>
      (\<exists>b. found = Some b \<and> file_holds (x_crypto x) (fst st') (snd st') b))"
proof -
  from command_contract [OF assms(1-14)] assms(16) obtain st' where st: "vault_holds (x_crypto x) (fst st') (snd st') path w'"
    "command_does cmd (pw, es) st'" and k: "resolve w' path = resolve w path"
    by (auto simp: outcome_ok_def endures_def resolve_def)
  from changing_command_settled [OF assms(2,3,15,10,16,14)] have s: "settled w' (resolve w path)" by (simp add: k)
  from st(1) k obtain b where "visible (disk w') (resolve w path) = Some b" "file_holds (x_crypto x) (fst st') (snd st') b"
    by (auto simp: vault_holds_def file_content_def)
  with settled_survive [OF s] st(2) show ?thesis by blast
qed

end
