(* ===== verification/DurableSample.thy ===== *)
theory DurableSample
  imports Durable CommandSample CliEditsSample
begin

text \<open>The hypotheses of durability hold for a \<open>delete\<close> on the sample machine.\<close>

theorem finished_command_is_durable_witness:
  "\<exists>w'. run_command sample_externals (Delete (lit ''/v'') (e_id sample_entry) True) (cli_machine [sample_entry] [right_key])
       = Some (Inr (), w') \<and> \<not> may_survive (disk w') (lit ''/v'') None"
proof -
  let ?w = "cli_machine [sample_entry] [right_key]" and ?cmd = "Delete (lit ''/v'') (e_id sample_entry) True"
  have kb: "keyboard ?w = Inr (lit ''correct horse'') # []" by (simp add: cli_machine_fields right_key_def)
  have f: "find_entry (e_id sample_entry) [sample_entry] = Some sample_entry" by simp
  from delete_runs [OF sample_externals_ok(3,2) sample_confirms cli_rest [OF sample_bounds(1,2)] kb typed(1) f
      sample_bounds(2) cli_ready [OF sample_bounds(2)], of True]
  obtain w' where r: "run_command sample_externals ?cmd ?w = Some (Inr (), w')" by auto
  from finished_command_is_durable [OF sample_externals_ok(3,1) cli_outside cli_inputs(1-6) _ _ _ _ r cli_inputs(7)] sample_bounds(2)
  have "\<not> may_survive (disk w') (lit ''/v'') None" by (fastforce simp: cli_resolve)
  with r show ?thesis by blast
qed

end
