(* ===== verification/Spec2Isabelle.thy ===== *)
theory Spec2Isabelle
  imports VaultProperties EntryTypes LockProperties RepositorySample ClipboardProperties
    ProcessSample CommandSample CliEditsSample DurableSample
begin

text \<open>
  A verification development for securevault, a password vault kept in one encrypted file. The
  sources are the modules of \<open>src/securevault/\<close>.

  \<^bold>\<open>The program and its model.\<close> A program is a function from a state to a result and a new state
  (\<open>Errors\<close>): the result is a value or an exception of the datatype \<open>exn\<close>, and \<open>None\<close> is a program that
  does not return. The state is one extensible record, each layer adding its fields to the one
  below: \<open>machine\<close> (\<open>Runtime\<close>: the random source as a tape of octets, mutable buffers), \<open>os\<close> (\<open>OpSys\<close>:
  the disk, descriptors, advisory locks, clock, and an oracle that may fail any system call with
  any exception), \<open>proc\<close> (\<open>Locking\<close>: the fields of \<open>FileLock\<close>), \<open>session\<close> (\<open>Repository\<close>: the fields of
  \<open>VaultRepository\<close>) and \<open>console\<close> (\<open>Cli\<close>: the keyboard and the SIGTERM handler). Python's \<open>str\<close> is a list
  of code points, \<open>bytes\<close> a list of 8-bit words, \<open>int\<close> an integer; an exception of an object's method
  leaves the fields it had assigned.

  \<^item> \<open>Prelude\<close>, \<open>Errors\<close>, \<open>Runtime\<close>: shared vocabulary, exceptions (\<open>errors.py\<close>), buffers and \<open>wipe\<close> (\<open>memory.py\<close>).
    \<open>Hoare\<close>: total-correctness triples with an exceptional postcondition; \<open>Steps\<close>: partial frames.
  \<^item> \<open>ByteStruct\<close>, \<open>FileFormat\<close>: \<open>struct\<close> and the container (\<open>fileformat.py\<close>): parsing and serializing are
    inverse on exactly the well-formed files.
  \<^item> \<open>Kdf\<close>, \<open>Aead\<close>: \<open>kdf.py\<close> and \<open>aead.py\<close> over Argon2id and AES-256-GCM as parameters; \<open>kdf_ok\<close> and \<open>aead_ok\<close> state
    what is relied on (lengths; decrypting gives back exactly what was encrypted under the same
    key, nonce and associated data); nothing is assumed about security. \<open>ReferenceCrypto\<close> is an instance.
  \<^item> \<open>Vault\<close>, \<open>VaultSession\<close>, \<open>VaultProperties\<close>: \<open>vault.py\<close>. An open vault refines the pair of a password and
    a plaintext over any sequence of saves and password changes; a changed file that still opens is a
    forgery against the cipher; the counter, the nonces and the wiping of buffers.
  \<^item> \<open>Utf8\<close>, \<open>Json\<close>, \<open>JsonPrint\<close>, \<open>JsonRoundtrip\<close>, \<open>Entries\<close>, \<open>EntryProperties\<close>, \<open>EntryTypes\<close>: \<open>entries.py\<close>
    with the scanner and printer of the standard library's \<open>json\<close>; the round trip of the entry list,
    every error it raises, and the type of what is read from any bytes.
  \<^item> \<open>OpSys\<close>, \<open>Storage\<close>, \<open>StorageProofs\<close>, \<open>StorageAtomic\<close>, \<open>StorageProperties\<close>, \<open>SampleSystem\<close>: \<open>storage.py\<close>. Whatever call
    fails and wherever the power is lost, the vault is the complete old or the complete new file. The relation
    \<open>endures\<close> says so of any stretch of a run: what could be found after a power loss in it could be found
    before or is good; it is transitive, and the operations, the commands and the processes inherit it.
  \<^item> \<open>Locking\<close>, \<open>LockProperties\<close>: \<open>locking.py\<close>; the locale \<open>mutex\<close> is the contract of a lock, proved of \<open>FileLock\<close> and
    used by the repository's \<open>guarded\<close> blocks.
  \<^item> \<open>Repository\<close>, \<open>EntryStore\<close>, \<open>RepositoryProofs\<close>, \<open>RepositoryLifecycle\<close>, \<open>RepositorySpec\<close>, \<open>RepositoryProperties\<close>,
    \<open>RepositorySample\<close>: \<open>repository.py\<close>. The invariant is \<open>live\<close> (the lock is held, the buffers hold the key
    and the serialized entries) and the abstract vault is \<open>vault_spec\<close>, a step relation on a password
    and a list of entries; a run whose calls may all fail follows it, and the file is always a
    complete vault of one of its states, no older than the last call that returned normally.
  \<^item> \<open>PasswordGen\<close>, \<open>PasswordProofs\<close>, \<open>PasswordProperties\<close>, \<open>PasswordResults\<close>: \<open>passwordgen.py\<close> with \<open>secrets.choice\<close> and
    \<open>SystemRandom.shuffle\<close> down to the octets drawn: the exact policies that are accepted, and the passwords that
    can come out are exactly those that meet the policy. \<open>meets_policy\<close> names the categories by code points.
  \<^item> \<open>Opening\<close>, \<open>PowerLoss\<close>: what opening, creating and closing leave behind, however they end, and what a power
    loss meanwhile could leave.
  \<^item> \<open>Processes\<close>, \<open>ProcessProofs\<close>, \<open>ProcessProperties\<close>, \<open>ProcessSample\<close>: several processes, each with its
    own memory and \<open>VaultRepository\<close>, on one operating system. A step is one call of a repository method
    by one process, or its death; a process killed inside a call is a call whose later system calls
    fail, followed by its death. They refine a shared vault that one process at a time works on, no
    finished update is lost, a dead process does not leave the vault locked, and a power loss at any moment
    leaves one of the versions the abstract run went through. Every process sees the
    same working directory and clock; the passwords in use are told apart by the file
    (\<open>right_password\<close>), which no key derivation into 32 octets does for all passwords.
  \<^item> \<open>Clipboard\<close>, \<open>ClipboardProperties\<close>: \<open>clipboard.py\<close> over \<open>pyperclip\<close> and \<open>sleep\<close> as parameters.
  \<^item> \<open>Cli\<close>, \<open>CliProofs\<close>, \<open>CliProperties\<close>, \<open>Environment\<close>, \<open>CliRuns\<close>, \<open>CliEdits\<close>, \<open>CliCopy\<close>, \<open>CliSignals\<close>, \<open>CliSample\<close>,
    \<open>CliEditsSample\<close>: \<open>cli.py\<close>, every command: the lock is given back however it ends, what it stores, asks and prints, what is
    on the clipboard (also when \<open>pyperclip\<close> fails), and which action SIGTERM has.
  \<^item> \<open>CommandSpec\<close>, \<open>CommandRefinement\<close>, \<open>CommandSample\<close>: the commands on an existing vault under
    failing system calls, prompts and prints, and under a power loss, as steps of the abstract vault; \<open>CliInit\<close>: the
    same for \<open>init\<close>; \<open>Durable\<close>, \<open>DurableSample\<close>: what a command has finished, no later power loss undoes. This needs
    that no call fails, since \<open>_fsync_directory\<close> swallows its errors.
  \<^item> \<open>CliOptions\<close>, \<open>CliOptionsProperties\<close>: the declarations of arguments and options, with their defaults and
    ranges, over the two conversions of \<open>click\<close> that can refuse (\<open>click_ok\<close>), and \<open>main\<close>.

  \<^bold>\<open>Specifications.\<close> What a property promises is written without the definitions that model the code where these
  compute it: the fields of an updated entry, the character categories, the policy of the options, the order
  and the text of the printed lines, the offsets of the parts of a file.

  \<^bold>\<open>Bounds and loops.\<close> Integer fields of the file are checked against their width, the counter
  against \<open>2 ^ 64\<close>; plaintexts are bounded by \<open>MAX_PLAINTEXT\<close> (AES-GCM of the library takes less than \<open>2 ^ 31\<close>
  octets), and \<open>body_bound\<close> bounds the body of given entries by twelve octets a character. The scanner of
  JSON has fuel \<open>2 * length + 1\<close>, which \<open>json_scan_fuel\<close> shows to be enough. \<open>mkstemp\<close> tries 10000 names as
  the library does. Two loops have no bound in the code, drawing an unused identifier and drawing
  a number below a bound: they are partial functions, and that they end is proved for sources in
  which a fresh identifier (\<open>source_varied\<close>) or a small enough block (\<open>fair_source\<close>) turns up.

  \<^bold>\<open>Properties.\<close> Those marked C1, C2, ... with a witness each where they have hypotheses. Other
  theorems with a text of their own document behaviour that deserves attention: a failed
  authentication of the body leaves the data key in memory (\<open>failed_open_leaves_data_key\<close>), a failing
  \<open>fchmod\<close> leaks a descriptor (\<open>fchmod_failure_leaks_descriptor\<close>), \<open>write_atomic\<close> can raise after the new file
  is in place (\<open>raises_after_replace\<close>), a body with entries that are no objects escapes as \<open>TypeError\<close>
  (\<open>non_dict_entry_raises_TypeError\<close>), and a pair of surrogates does not survive (\<open>surrogate_pair_is_joined\<close>).

  \<^bold>\<open>Not modelled.\<close> The internals of Argon2id, AES-GCM, \<open>pyperclip\<close> and \<open>click\<close> (parameters), in particular how
  \<open>click\<close> splits the words of the command line; Python's \<open>repr\<close> of floats and
  containers and \<open>str.lower\<close> (parameters); rounding of floats in the entropy estimate (a real number
  here); failures of \<open>datetime.now\<close>, \<open>os.urandom\<close>, \<open>os.getcwd\<close> and \<open>os.fdopen\<close>; a SIGTERM handler that was not
  installed from Python (\<open>None\<close> for \<open>signal.signal\<close>); the recursion limit of \<open>json\<close>; symbolic links, hard links and directories other than as parts
  of path names; memory exhaustion; the re-exports of \<open>__init__.py\<close>.

  \<^bold>\<open>What is left.\<close> The interleaving of processes inside one call of a repository method: here a call is one step of
  a process. Two openings exclude each other by one \<open>flock\<close>, and only the holder of the lock writes the file, so what
  would be seen of finer steps is the window between the existence test of \<open>create\<close> and its lock, which
  \<open>create_race_overwrites\<close> states directly. Also left: \<open>with\<close> blocks over \<open>UnlockedVault\<close>, which the program does not use
  (the repository closes it), and a wait of \<open>copy\<close> that ends with an exception other than an interrupt at the
  level of the command (\<open>autoclear_clears\<close> covers it for the module).
\<close>

end
